(* ===== verification/Prelude.thy ===== *)
theory Prelude
  imports Main "HOL-Library.Word" "HOL-Library.Signed_Division"
begin

text \<open>
  Shared vocabulary of the development: the fixed-width integers of the C++ code, its
  counting loops as folds over an index range with their invariant rules, flat arrays
  indexed by row and column, and the rule that checks a property of every byte by
  evaluating it on the 256 bytes.
\<close>

unbundle bit_operations_syntax

text \<open>The numeric constants of the code's formats and protocols, to be replaced by their values.\<close>

named_theorems layout

section \<open>Integers of the code\<close>

type_synonym u8 = "8 word"
type_synonym u32 = "32 word"
type_synonym u64 = "64 word"
type_synonym u256 = "256 word"

text \<open>
  \<open>all_bytes\<close> lists the 256 values of a byte; a property of all of them is one
  evaluation.
\<close>

definition all_bytes :: "u8 list" where
  "all_bytes = map word_of_nat [0..<256]"

lemma unat_u8_less [simp]: "unat (x :: u8) < 256"
proof -
  have "unat x < 2 ^ LENGTH(8)" by (rule unsigned_less)
  then show ?thesis by simp
qed

lemma mem_all_bytes [simp]: "x \<in> set all_bytes"
proof -
  have "x = word_of_nat (unat x)" by simp
  moreover have "unat x < 256" by simp
  ultimately show ?thesis unfolding all_bytes_def set_map
    by (intro image_eqI [of _ _ "unat x"]) auto
qed

lemma all_bytesD: "list_all P all_bytes \<Longrightarrow> P x"
  by (simp add: list_all_iff)

text \<open>The remainder of C++ truncates; adding the modulus to a negative one normalises it.\<close>

lemma smod_normalise:
  "0 < m \<Longrightarrow> (if e smod m < 0 then e smod m + m else e smod m) = e mod (m :: int)"
  by (cases "0 \<le> e")
    (auto simp: signed_modulo_int_def sgn_if zmod_zminus1_eq_if
       dest: pos_mod_sign [of m e] pos_mod_bound [of m e] split: if_splits)

section \<open>Counting loops\<close>

text \<open>
  \<open>for_up a b body s\<close> is \<^verbatim>\<open>for (i = a; i < b; i++) body\<close> and \<open>for_down a b\<close> is
  \<^verbatim>\<open>for (i = b - 1; i >= a; i--) body\<close>, the loop's variables passed as the state \<open>s\<close>.
\<close>

definition for_up :: "nat \<Rightarrow> nat \<Rightarrow> (nat \<Rightarrow> 's \<Rightarrow> 's) \<Rightarrow> 's \<Rightarrow> 's" where
  "for_up a b body s = fold body [a..<b] s"

definition for_down :: "nat \<Rightarrow> nat \<Rightarrow> (nat \<Rightarrow> 's \<Rightarrow> 's) \<Rightarrow> 's \<Rightarrow> 's" where
  "for_down a b body s = fold body (rev [a..<b]) s"

lemma for_up_empty [simp]: "b \<le> a \<Longrightarrow> for_up a b body s = s"
  by (simp add: for_up_def)

lemma for_up_Suc: "a \<le> b \<Longrightarrow> for_up a (Suc b) body s = body b (for_up a b body s)"
  by (simp add: for_up_def)

lemma for_up_first: "a < b \<Longrightarrow> for_up a b body s = for_up (Suc a) b body (body a s)"
  by (simp add: for_up_def upt_conv_Cons)

lemma for_down_empty [simp]: "b \<le> a \<Longrightarrow> for_down a b body s = s"
  by (simp add: for_down_def)

lemma for_down_Suc: "a \<le> b \<Longrightarrow> for_down a (Suc b) body s = for_down a b body (body b s)"
  by (simp add: for_down_def)

lemma for_down_last: "a < b \<Longrightarrow> for_down a b body s = body a (for_down (Suc a) b body s)"
  by (simp add: for_down_def upt_conv_Cons)

lemma for_up_rule:
  assumes "a \<le> b" "P a s" "\<And>i t. a \<le> i \<Longrightarrow> i < b \<Longrightarrow> P i t \<Longrightarrow> P (Suc i) (body i t)"
  shows "P b (for_up a b body s)"
  using assms(1,3)
proof (induction b)
  case 0
  then show ?case using assms(2) by simp
next
  case (Suc b)
  show ?case
  proof (cases "a \<le> b")
    case True
    with Suc show ?thesis by (simp add: for_up_Suc)
  next
    case False
    with Suc.prems(1) have "a = Suc b" by simp
    with assms(2) show ?thesis by simp
  qed
qed

text \<open>A downward loop: \<open>P i\<close> holds before the pass for index \<open>i - 1\<close>.\<close>

lemma for_down_rule:
  assumes "a \<le> b" "P b s" "\<And>i t. a \<le> i \<Longrightarrow> i < b \<Longrightarrow> P (Suc i) t \<Longrightarrow> P i (body i t)"
  shows "P a (for_down a b body s)"
  using assms
proof (induction b arbitrary: s)
  case 0
  then show ?case by simp
next
  case (Suc b)
  show ?case
  proof (cases "a \<le> b")
    case True
    have "P b (body b s)" using Suc.prems(2,3) True by simp
    then show ?thesis using Suc.IH [OF True, of "body b s"] Suc.prems(3) True
      by (simp add: for_down_Suc)
  next
    case False
    with Suc.prems(1) have "a = Suc b" by simp
    with Suc.prems(2) show ?thesis by simp
  qed
qed

lemma for_up_cong:
  "(\<And>i t. a \<le> i \<Longrightarrow> i < b \<Longrightarrow> f i t = g i t) \<Longrightarrow> for_up a b f s = for_up a b g s"
  unfolding for_up_def by (rule fold_cong) auto

section \<open>Flat arrays\<close>

text \<open>Entry \<open>(r, c)\<close> of a row-major array with \<open>n\<close> columns.\<close>

definition cell :: "nat \<Rightarrow> 'a list \<Rightarrow> nat \<Rightarrow> nat \<Rightarrow> 'a" where
  "cell n xs r c = xs ! (r * n + c)"

lemma flat_index_lt: "r < m \<Longrightarrow> c < n \<Longrightarrow> r * n + c < m * (n::nat)"
proof -
  assume "r < m" "c < n"
  then have "r * n + c < Suc r * n" by simp
  also have "\<dots> \<le> m * n" using \<open>r < m\<close> by (intro mult_le_mono1) simp
  finally show ?thesis .
qed

lemma flat_index_eq:
  "c < n \<Longrightarrow> c' < n \<Longrightarrow> (r * n + c = r' * n + (c'::nat)) \<longleftrightarrow> r = r' \<and> c = c'"
proof
  assume c: "c < n" "c' < n" and eq: "r * n + c = r' * n + c'"
  have "(r * n + c) div n = r" using c(1) by simp
  moreover have "(r' * n + c') div n = r'" using c(2) by simp
  ultimately have "r = r'" using eq by metis
  with eq show "r = r' \<and> c = c'" by simp
qed simp

lemma cell_update:
  "r < m \<Longrightarrow> c < n \<Longrightarrow> c' < n \<Longrightarrow> length xs = m * n \<Longrightarrow>
   cell n (xs[r * n + c := v]) r' c' = (if r' = r \<and> c' = c then v else cell n xs r' c')"
  unfolding cell_def using flat_index_lt [of r m c n] flat_index_eq [of c n c' r r']
  by (auto simp: nth_list_update)

text \<open>\<open>concat\<close> of equally long blocks is the row-major array of the blocks.\<close>

lemma nth_concat_blocks:
  assumes "\<And>i. i < m \<Longrightarrow> length (f i) = n" "r < m" "c < n"
  shows "concat (map f [0..<m]) ! (r * n + c) = f r ! c"
  using assms
proof (induction m)
  case 0
  then show ?case by simp
next
  case (Suc m)
  have len: "length (concat (map f [0..<m])) = m * n"
    using Suc.prems(1) by (induction m) (auto simp: length_concat)
  show ?case
  proof (cases "r < m")
    case True
    then show ?thesis using Suc len flat_index_lt [OF True Suc.prems(3)]
      by (simp add: nth_append)
  next
    case False
    with Suc.prems have "r = m" by simp
    then show ?thesis using len by (simp add: nth_append)
  qed
qed

lemma length_concat_blocks:
  assumes "\<And>i. i < m \<Longrightarrow> length (f i) = n"
  shows "length (concat (map f [0..<m])) = m * n"
  using assms by (induction m) auto

end
