(* ===== verification/GF256.thy ===== *)
theory GF256
  imports Prelude
begin

text \<open>
  The Galois field of \<^verbatim>\<open>erasure_coding/GF.h\<close>: bytes added by exclusive or and multiplied
  through discrete logarithm tables. The model keeps the struct, its two tables, the
  65536-entry product table built at compile time and every operator, and shows that they
  are the field GF(2)[x] / (x^8 + x^4 + x^3 + x^2 + 1) with generator x: the type is an
  instance of the library's class of fields, so the matrix code above it uses the
  ordinary field laws.
\<close>

section \<open>The struct and its tables\<close>

datatype gf = GF (gfv: u8)

definition value_table :: "u8 list" where
  "value_table =
    [     0x00, 0x01, 0x02, 0x04, 0x08, 0x10, 0x20, 0x40, 0x80, 0x1d, 0x3a, 0x74, 0xe8, 0xcd, 0x87, 0x13,
     0x26, 0x4c, 0x98, 0x2d, 0x5a, 0xb4, 0x75, 0xea, 0xc9, 0x8f, 0x03, 0x06, 0x0c, 0x18, 0x30, 0x60,
     0xc0, 0x9d, 0x27, 0x4e, 0x9c, 0x25, 0x4a, 0x94, 0x35, 0x6a, 0xd4, 0xb5, 0x77, 0xee, 0xc1, 0x9f,
     0x23, 0x46, 0x8c, 0x05, 0x0a, 0x14, 0x28, 0x50, 0xa0, 0x5d, 0xba, 0x69, 0xd2, 0xb9, 0x6f, 0xde,
     0xa1, 0x5f, 0xbe, 0x61, 0xc2, 0x99, 0x2f, 0x5e, 0xbc, 0x65, 0xca, 0x89, 0x0f, 0x1e, 0x3c, 0x78,
     0xf0, 0xfd, 0xe7, 0xd3, 0xbb, 0x6b, 0xd6, 0xb1, 0x7f, 0xfe, 0xe1, 0xdf, 0xa3, 0x5b, 0xb6, 0x71,
     0xe2, 0xd9, 0xaf, 0x43, 0x86, 0x11, 0x22, 0x44, 0x88, 0x0d, 0x1a, 0x34, 0x68, 0xd0, 0xbd, 0x67,
     0xce, 0x81, 0x1f, 0x3e, 0x7c, 0xf8, 0xed, 0xc7, 0x93, 0x3b, 0x76, 0xec, 0xc5, 0x97, 0x33, 0x66,
     0xcc, 0x85, 0x17, 0x2e, 0x5c, 0xb8, 0x6d, 0xda, 0xa9, 0x4f, 0x9e, 0x21, 0x42, 0x84, 0x15, 0x2a,
     0x54, 0xa8, 0x4d, 0x9a, 0x29, 0x52, 0xa4, 0x55, 0xaa, 0x49, 0x92, 0x39, 0x72, 0xe4, 0xd5, 0xb7,
     0x73, 0xe6, 0xd1, 0xbf, 0x63, 0xc6, 0x91, 0x3f, 0x7e, 0xfc, 0xe5, 0xd7, 0xb3, 0x7b, 0xf6, 0xf1,
     0xff, 0xe3, 0xdb, 0xab, 0x4b, 0x96, 0x31, 0x62, 0xc4, 0x95, 0x37, 0x6e, 0xdc, 0xa5, 0x57, 0xae,
     0x41, 0x82, 0x19, 0x32, 0x64, 0xc8, 0x8d, 0x07, 0x0e, 0x1c, 0x38, 0x70, 0xe0, 0xdd, 0xa7, 0x53,
     0xa6, 0x51, 0xa2, 0x59, 0xb2, 0x79, 0xf2, 0xf9, 0xef, 0xc3, 0x9b, 0x2b, 0x56, 0xac, 0x45, 0x8a,
     0x09, 0x12, 0x24, 0x48, 0x90, 0x3d, 0x7a, 0xf4, 0xf5, 0xf7, 0xf3, 0xfb, 0xeb, 0xcb, 0x8b, 0x0b,
     0x16, 0x2c, 0x58, 0xb0, 0x7d, 0xfa, 0xe9, 0xcf, 0x83, 0x1b, 0x36, 0x6c, 0xd8, 0xad, 0x47, 0x8e]"

definition exp_table :: "u8 list" where
  "exp_table =
    [     255, 0, 1, 25, 2, 50, 26, 198, 3, 223, 51, 238, 27, 104, 199, 75,
     4, 100, 224, 14, 52, 141, 239, 129, 28, 193, 105, 248, 200, 8, 76, 113,
     5, 138, 101, 47, 225, 36, 15, 33, 53, 147, 142, 218, 240, 18, 130, 69,
     29, 181, 194, 125, 106, 39, 249, 185, 201, 154, 9, 120, 77, 228, 114, 166,
     6, 191, 139, 98, 102, 221, 48, 253, 226, 152, 37, 179, 16, 145, 34, 136,
     54, 208, 148, 206, 143, 150, 219, 189, 241, 210, 19, 92, 131, 56, 70, 64,
     30, 66, 182, 163, 195, 72, 126, 110, 107, 58, 40, 84, 250, 133, 186, 61,
     202, 94, 155, 159, 10, 21, 121, 43, 78, 212, 229, 172, 115, 243, 167, 87,
     7, 112, 192, 247, 140, 128, 99, 13, 103, 74, 222, 237, 49, 197, 254, 24,
     227, 165, 153, 119, 38, 184, 180, 124, 17, 68, 146, 217, 35, 32, 137, 46,
     55, 63, 209, 91, 149, 188, 207, 205, 144, 135, 151, 178, 220, 252, 190, 97,
     242, 86, 211, 171, 20, 42, 93, 158, 132, 60, 57, 83, 71, 109, 65, 162,
     31, 45, 67, 216, 183, 123, 164, 118, 196, 23, 73, 236, 127, 12, 111, 246,
     108, 161, 59, 82, 41, 157, 85, 170, 251, 96, 134, 177, 187, 204, 62, 90,
     203, 89, 95, 176, 156, 169, 160, 81, 11, 245, 22, 235, 122, 117, 44, 215,
     79, 174, 213, 233, 230, 231, 173, 232, 116, 214, 244, 234, 168, 80, 88, 175]"

section \<open>The operations\<close>

text \<open>C++ \<open>%\<close> truncates towards zero, hence the correction for negative exponents.\<close>

definition from_exp :: "int \<Rightarrow> gf" where
  "from_exp e =
     (let e1 = e smod 255;
          e2 = (if e1 < 0 then e1 + 255 else e1)
      in GF (value_table ! nat (e2 + 1)))"

definition gf_exp :: "gf \<Rightarrow> int" where
  "gf_exp a = uint (exp_table ! unat (gfv a))"

definition gf_mul :: "gf \<Rightarrow> gf \<Rightarrow> gf" where
  "gf_mul left right =
     (if gfv left = 0 \<or> gfv right = 0 then GF 0
      else from_exp (gf_exp left + gf_exp right))"

definition mul_table :: "gf list" where
  "mul_table = map (\<lambda>i. gf_mul (GF (word_of_nat (i mod 256))) (GF (word_of_nat (i div 256))))
     [0..<65536]"

definition gf_add :: "gf \<Rightarrow> gf \<Rightarrow> gf" where
  "gf_add left right = GF (gfv left XOR gfv right)"

definition gf_times :: "gf \<Rightarrow> gf \<Rightarrow> gf" where
  "gf_times left right = mul_table ! (unat (gfv right) * 256 + unat (gfv left))"

text \<open>The pointer into the product table at which the multiples of \<open>a\<close> start.\<close>

definition multiplier :: "gf \<Rightarrow> gf list" where
  "multiplier a = drop (unat (gfv a) * 256) mul_table"

definition gf_inverse :: "gf \<Rightarrow> gf" where
  "gf_inverse a =
     (if gfv a \<le> 1 then a else GF (value_table ! nat (256 - gf_exp a)))"

definition gf_div :: "gf \<Rightarrow> gf \<Rightarrow> gf" where
  "gf_div left right = gf_times left (gf_inverse right)"

text \<open>
  The exponent is multiplied as a 32-bit \<open>int\<close>. Signed overflow is undefined in C++; the model wraps,
  and what is proved of \<open>gf_pow\<close> asks that the product fits.
\<close>

definition gf_pow :: "gf \<Rightarrow> int \<Rightarrow> gf" where
  "gf_pow a e =
     (if e = 0 then GF 1
      else if gfv a = 0 then GF 0
      else from_exp (sint (word_of_int (gf_exp a * e) :: 32 word)))"

section \<open>Reference: polynomials modulo x^8 + x^4 + x^3 + x^2 + 1\<close>

text \<open>Multiplication by x, and the schoolbook product that adds shifted copies of \<open>b\<close>.\<close>

definition xtime :: "u8 \<Rightarrow> u8" where
  "xtime a = push_bit 1 a XOR (if bit a 7 then 0x1d else 0)"

fun poly_mul :: "nat \<Rightarrow> u8 \<Rightarrow> u8 \<Rightarrow> u8" where
  "poly_mul 0 a b = 0"
| "poly_mul (Suc n) a b = (if bit a 0 then b else 0) XOR poly_mul n (drop_bit 1 a) (xtime b)"

definition gx :: "nat \<Rightarrow> u8" where
  "gx k = (xtime ^^ k) 1"

fun powers_from :: "nat \<Rightarrow> u8 \<Rightarrow> u8 list" where
  "powers_from 0 a = []"
| "powers_from (Suc n) a = a # powers_from n (xtime a)"

lemma length_powers_from [simp]: "length (powers_from n a) = n"
  by (induction n arbitrary: a) auto

lemma nth_powers_from: "k < n \<Longrightarrow> powers_from n a ! k = (xtime ^^ k) a"
proof (induction n arbitrary: a k)
  case 0
  then show ?case by simp
next
  case (Suc n)
  then show ?case by (cases k) (auto simp: funpow_swap1)
qed

lemma xtime_xor: "xtime (a XOR b) = xtime a XOR xtime b"
  by (rule bit_word_eqI) (auto simp: xtime_def bit_simps)

lemma funpow_xtime_xor: "(xtime ^^ k) (a XOR b) = (xtime ^^ k) a XOR (xtime ^^ k) b"
  by (induction k) (auto simp: xtime_xor)

lemma xtime_zero [simp]: "xtime 0 = 0"
  by (simp add: xtime_def)

lemma funpow_xtime_zero [simp]: "(xtime ^^ k) 0 = 0"
  by (induction k) auto

section \<open>The tables are the powers of the generator\<close>

lemma value_table_eq: "value_table = 0 # powers_from 255 1"
  by code_simp

lemma xtime_period: "xtime (last value_table) = 1"
  by code_simp

lemma exp_table_inverts: "map (\<lambda>v. exp_table ! unat v) (tl value_table) = map word_of_nat [0..<255]"
  by code_simp

lemma value_table_inverts:
  "map (\<lambda>e. value_table ! Suc (unat e)) (tl exp_table) = map word_of_nat [1..<256]"
  by code_simp

lemma exp_table_range: "list_all (\<lambda>e. e < 255) (tl exp_table)"
  by code_simp

lemma length_tables [simp]: "length value_table = 256" "length exp_table = 256"
  by (simp_all add: value_table_def exp_table_def)

lemma value_table_gx: "k < 255 \<Longrightarrow> value_table ! Suc k = gx k"
  by (simp add: value_table_eq nth_powers_from gx_def)

lemma gx_add: "gx (m + n) = (xtime ^^ m) (gx n)"
  by (simp add: gx_def funpow_add)

lemma gx_255: "gx 255 = 1"
proof -
  have "value_table \<noteq> []" by (simp add: value_table_def)
  then have "last value_table = value_table ! 255" by (simp add: last_conv_nth)
  then have "xtime (gx 254) = 1" using xtime_period value_table_gx [of 254] by simp
  moreover have "gx 255 = xtime (gx 254)" using gx_add [of 1 254] by simp
  ultimately show ?thesis by simp
qed

lemma gx_mod: "gx (k mod 255) = gx k"
proof (induction k rule: less_induct)
  case (less k)
  show ?case
  proof (cases "k < 255")
    case False
    then have "gx k = gx ((k - 255) + 255)" by simp
    also have "\<dots> = (xtime ^^ (k - 255)) 1" by (simp add: gx_add gx_255)
    also have "\<dots> = gx (k - 255)" by (simp add: gx_def)
    also have "\<dots> = gx ((k - 255) mod 255)" using less [of "k - 255"] False by simp
    also have "(k - 255) mod 255 = k mod 255" using False by (simp add: le_mod_geq)
    finally show ?thesis by simp
  qed simp
qed

lemma from_exp_gx: "from_exp e = GF (gx (nat (e mod 255)))"
proof -
  define e2 where "e2 = (if e smod 255 < 0 then e smod 255 + 255 else e smod 255)"
  have "e2 = e mod 255" unfolding e2_def by (rule smod_normalise) simp
  moreover have "value_table ! nat (e mod 255 + 1) = gx (nat (e mod 255))"
    using value_table_gx [of "nat (e mod 255)"] by (simp add: nat_add_distrib)
  ultimately show ?thesis
    unfolding from_exp_def Let_def e2_def [symmetric] by simp
qed

lemma from_exp_of_nat: "from_exp (int k) = GF (gx k)"
proof -
  have "nat (int k mod 255) = k mod 255" by (simp add: nat_mod_distrib)
  then show ?thesis by (simp add: from_exp_gx gx_mod)
qed

lemma exp_table_gx: "k < 255 \<Longrightarrow> exp_table ! unat (gx k) = word_of_nat k"
proof -
  assume k: "k < 255"
  have "map (\<lambda>v. exp_table ! unat v) (tl value_table) ! k = word_of_nat k"
    using k by (simp add: exp_table_inverts)
  then show ?thesis using k value_table_gx [OF k] by (simp add: nth_tl)
qed

lemma gf_exp_gx: "gf_exp (GF (gx k)) = int (k mod 255)"
proof -
  have "gf_exp (GF (gx (k mod 255))) = int (k mod 255)"
    using exp_table_gx [of "k mod 255"]
    by (simp add: gf_exp_def unsigned_of_nat take_bit_nat_eq_self)
  then show ?thesis by (simp add: gx_mod)
qed

lemma nonzero_gx:
  assumes "v \<noteq> 0"
  obtains k where "k < 255" "v = gx k" "gf_exp (GF v) = int k"
proof -
  define k where "k = unat (exp_table ! unat v)"
  have v: "0 < unat v" "unat v < 256"
    using assms unat_u8_less [of v] by (auto simp: unat_gt_0)
  have pred: "unat v - 1 < 255" "Suc (unat v - 1) = unat v" using v by linarith+
  have tl: "tl exp_table ! (unat v - 1) = exp_table ! unat v"
    using pred by (simp add: nth_tl)
  have "exp_table ! unat v < 255"
    using exp_table_range pred(1) by (simp add: list_all_length flip: tl)
  then have k255: "k < 255" by (simp add: k_def word_less_nat_alt)
  have "map (\<lambda>e. value_table ! Suc (unat e)) (tl exp_table) ! (unat v - 1) = word_of_nat (unat v)"
    using pred by (simp add: value_table_inverts)
  then have "value_table ! Suc k = v"
    using pred(1) tl by (simp add: k_def)
  then have "v = gx k" using value_table_gx [OF k255] by simp
  then show thesis using that [of k] k255 gf_exp_gx [of k] by simp
qed

section \<open>The product table is the product\<close>

lemma length_mul_table [simp]: "length mul_table = 65536"
  by (simp add: mul_table_def)

lemma nth_mul_table: "mul_table ! (unat r * 256 + unat l) = gf_mul (GF l) (GF r)"
proof -
  have l: "unat l < 256" "unat r < 256" by simp_all
  have "unat r * 256 + unat l < 65536" using l flat_index_lt [of "unat r" 256 "unat l" 256] by simp
  moreover have "(unat r * 256 + unat l) mod 256 = unat l" using l by simp
  moreover have "(unat r * 256 + unat l) div 256 = unat r" using l by simp
  ultimately show ?thesis by (simp add: mul_table_def del: upt_rec_numeral)
qed

lemma gf_times_eq [code]: "gf_times a b = gf_mul a b"
  by (cases a; cases b) (simp add: gf_times_def nth_mul_table)

lemma multiplier_nth: "multiplier a ! unat d = gf_mul (GF d) a"
proof (cases a)
  case (GF r)
  have "unat r * 256 \<le> length mul_table"
    using unat_u8_less [of r] by (simp del: unat_u8_less)
  then show ?thesis using GF by (simp add: multiplier_def nth_mul_table)
qed

text \<open>A product is a repeated multiplication by the generator, hence linear in its argument.\<close>

definition log_of :: "u8 \<Rightarrow> nat" where
  "log_of a = nat (gf_exp (GF a))"

lemma log_of_gx: "a \<noteq> 0 \<Longrightarrow> gx (log_of a) = a"
  by (metis log_of_def nat_int nonzero_gx)

lemma log_of_less: "a \<noteq> 0 \<Longrightarrow> log_of a < 255"
  by (metis log_of_def nat_int nonzero_gx)

lemma gf_exp_log_of: "a \<noteq> 0 \<Longrightarrow> gf_exp (GF a) = int (log_of a)"
  by (metis log_of_def nat_int nonzero_gx)

lemma gf_mul_shift: "a \<noteq> 0 \<Longrightarrow> gf_mul (GF a) (GF b) = GF ((xtime ^^ log_of a) b)"
proof (cases "b = 0")
  case False
  assume a: "a \<noteq> 0"
  have "gf_mul (GF a) (GF b) = from_exp (int (log_of a + log_of b))"
    using a False by (simp add: gf_mul_def gf_exp_log_of)
  also have "\<dots> = GF (gx (log_of a + log_of b))" by (rule from_exp_of_nat)
  finally show ?thesis using False by (simp add: gx_add log_of_gx)
qed (simp add: gf_mul_def)

lemma gf_mul_zero: "gf_mul (GF 0) b = GF 0" "gf_mul a (GF 0) = GF 0"
  by (simp_all add: gf_mul_def)

lemma gf_mul_commute: "gf_mul a b = gf_mul b a"
  by (simp add: gf_mul_def add.commute disj_commute)

lemma gx_nonzero: "gx k \<noteq> 0"
proof
  assume "gx k = 0"
  then have "(xtime ^^ (255 - k mod 255)) (gx (k mod 255)) = 0" by (simp add: gx_mod)
  moreover have "255 - k mod 255 + k mod 255 = 255"
    using mod_less_divisor [of 255 k] by linarith
  ultimately have "gx 255 = 0" by (metis gx_add)
  then show False by (simp add: gx_255)
qed

lemma gf_mul_gx: "gf_mul (GF (gx m)) (GF (gx n)) = GF (gx (m + n))"
proof -
  have "gf_mul (GF (gx m)) (GF (gx n)) = from_exp (int (m mod 255 + n mod 255))"
    by (simp add: gf_mul_def gx_nonzero gf_exp_gx)
  also have "\<dots> = GF (gx (m mod 255 + n mod 255))" by (rule from_exp_of_nat)
  also have "gx (m mod 255 + n mod 255) = gx ((m mod 255 + n mod 255) mod 255)"
    by (simp only: gx_mod)
  also have "\<dots> = gx (m + n)" by (simp only: mod_add_eq gx_mod)
  finally show ?thesis .
qed

lemma gf_mul_distrib: "gf_mul (GF a) (GF (b XOR c)) = gf_add (gf_mul (GF a) (GF b)) (gf_mul (GF a) (GF c))"
  by (cases "a = 0") (simp_all add: gf_mul_zero gf_mul_shift gf_add_def funpow_xtime_xor)

lemma gf_cases:
  obtains (zero) "a = GF 0" | (gx) k where "a = GF (gx k)" "k < 255"
  by (metis gf.collapse nonzero_gx)

lemma gf_mul_assoc: "gf_mul (gf_mul a b) c = gf_mul a (gf_mul b c)"
  by (cases a rule: gf_cases; cases b rule: gf_cases; cases c rule: gf_cases)
    (simp_all add: gf_mul_zero gf_mul_gx add.assoc)

lemma gf_mul_one: "gf_mul (GF 1) a = a"
  by (cases a) (simp add: gf_mul_shift gf_mul_zero, metis (no_types, lifting) funpow_0 gf_exp_gx gx_def
      gf_mul_shift log_of_def mod_0 nat_int of_nat_0 one_neq_zero)

lemma gx_le_1: "gx k \<le> 1 \<longleftrightarrow> k mod 255 = 0"
proof
  assume "gx k \<le> 1"
  then have "unat (gx k) \<le> 1" by (simp add: word_le_nat_alt)
  moreover have "unat (gx k) \<noteq> 0" using gx_nonzero [of k] by (simp add: unsigned_eq_0_iff)
  ultimately have "unat (gx k) = unat (1 :: u8)" by simp
  then have "gx k = 1" by (rule word_eq_iff_unsigned [THEN iffD2])
  then have "gx k = gx 0" by (simp add: gx_def [of 0])
  then show "k mod 255 = 0" using gf_exp_gx [of k] gf_exp_gx [of 0] by simp
next
  assume "k mod 255 = 0"
  then show "gx k \<le> 1" using gx_mod [of k] by (simp add: gx_def)
qed

lemma gf_inverse_gx: "k < 255 \<Longrightarrow> gf_inverse (GF (gx k)) = GF (gx (255 - k))"
proof (cases "k = 0")
  case True
  then show ?thesis by (simp add: gf_inverse_def gx_le_1) (simp add: gx_def [of 0] gx_255)
next
  case False
  assume "k < 255"
  moreover from this False have "nat (256 - int k) = Suc (255 - k)" by linarith
  ultimately show ?thesis using False value_table_gx [of "255 - k"]
    by (simp add: gf_inverse_def gx_le_1 gf_exp_gx)
qed

lemma gf_mul_inverse: "a \<noteq> GF 0 \<Longrightarrow> gf_mul (gf_inverse a) a = GF 1"
  by (cases a rule: gf_cases) (simp_all add: gf_inverse_gx gf_mul_gx gx_255)

section \<open>The field\<close>

text \<open>
  The operators of the struct are the operations of the library's class of fields; the
  code's convention that 0 has inverse 0 is the library's.
\<close>

instantiation gf :: field
begin

definition zero_gf :: gf where "zero_gf = GF 0"
definition one_gf :: gf where "one_gf = GF 1"
definition plus_gf :: "gf \<Rightarrow> gf \<Rightarrow> gf" where "plus_gf = gf_add"
definition minus_gf :: "gf \<Rightarrow> gf \<Rightarrow> gf" where "minus_gf = gf_add"
definition uminus_gf :: "gf \<Rightarrow> gf" where "uminus_gf a = a"
definition times_gf :: "gf \<Rightarrow> gf \<Rightarrow> gf" where "times_gf = gf_times"
definition inverse_gf :: "gf \<Rightarrow> gf" where "inverse_gf = gf_inverse"
definition divide_gf :: "gf \<Rightarrow> gf \<Rightarrow> gf" where "divide_gf = gf_div"

instance
proof
  fix a b c :: gf
  note defs = zero_gf_def one_gf_def plus_gf_def minus_gf_def uminus_gf_def times_gf_def
    inverse_gf_def divide_gf_def gf_div_def
  show "a * b * c = a * (b * c)"
    by (simp add: defs fun_eq_iff gf_times_eq gf_mul_assoc)
  show "a * b = b * a"
    by (simp add: defs gf_times_eq gf_mul_commute)
  show "1 * a = a"
    by (simp add: defs gf_times_eq gf_mul_one)
  show "a + b + c = a + (b + c)"
    by (simp add: defs gf_add_def xor.assoc)
  show "a + b = b + a"
    by (simp add: defs gf_add_def xor.commute)
  show "0 + a = a" "- a + a = 0" "a - b = a + - b"
    by (simp_all add: defs gf_add_def)
  show "(a + b) * c = a * c + b * c"
    using gf_mul_distrib [of "gfv c" "gfv a" "gfv b"]
    by (simp add: defs gf_times_eq gf_mul_commute [of _ c]) (simp add: gf_add_def)
  show "(0 :: gf) \<noteq> 1" by (simp add: defs)
  show "a \<noteq> 0 \<Longrightarrow> inverse a * a = 1"
    by (simp add: defs gf_times_eq gf_mul_inverse)
  show "a div b = a * inverse b" by (simp add: defs)
  show "inverse (0 :: gf) = 0" by (simp add: defs gf_inverse_def)
qed

end

lemmas gf_class_defs = zero_gf_def one_gf_def plus_gf_def minus_gf_def uminus_gf_def
  times_gf_def inverse_gf_def divide_gf_def

text \<open>The code's operators, in the notation of the class.\<close>

lemma gf_fold [simp]:
  "gf_add a b = a + b" "gf_times a b = a * b" "gf_mul a b = a * b"
  "gf_inverse a = inverse a" "gf_div a b = a / b" "GF 0 = 0" "GF 1 = 1"
  by (simp_all add: gf_class_defs flip: gf_times_eq)

lemma gf_add_self [simp]: "a + a = (0 :: gf)"
  by (simp only: plus_gf_def zero_gf_def gf_add_def xor_self_eq)

lemma gfv_simps [simp]: "gfv 0 = 0" "gfv 1 = 1" "gfv (a + b) = gfv a XOR gfv b"
  by (simp_all only: zero_gf_def one_gf_def plus_gf_def gf_add_def gf.sel)

lemma gf_two [simp]: "(2 :: gf) = 0"
  by (metis gf_add_self one_add_one)

lemma gf_minus_eq [simp]: "a - b = a + (b :: gf)"
  by (simp add: plus_gf_def minus_gf_def del: gf_fold)

lemma gf_uminus_eq [simp]: "- a = (a :: gf)"
  by (simp add: uminus_gf_def)

lemma gf_add_cancel [simp]: "a + (a + b) = (b :: gf)" "b + a + a = (b :: gf)"
  by (simp_all flip: add.assoc)

lemma from_exp_power: "from_exp (int k) = from_exp 1 ^ k"
proof (induction k)
  case 0
  then show ?case using from_exp_of_nat [of 0] by (simp add: gx_def)
next
  case (Suc k)
  have "from_exp (int (Suc k)) = from_exp 1 * from_exp (int k)"
    using gf_mul_gx [of 1 k] from_exp_of_nat [of 1] from_exp_of_nat [of k] from_exp_of_nat [of "Suc k"]
    by simp
  with Suc show ?case by simp
qed

lemma gf_power_gx: "GF (gx n) ^ k = GF (gx (n * k))"
proof (induction k)
  case 0
  then show ?case by (simp add: gx_def)
next
  case (Suc k)
  then show ?case using gf_mul_gx [of n "n * k"] by simp
qed

lemma sint_word32: "- (2 ^ 31) \<le> x \<Longrightarrow> x < 2 ^ 31 \<Longrightarrow> sint (word_of_int x :: 32 word) = x"
  by (simp add: sint_sbintrunc' signed_take_bit_int_eq_self)

text \<open>The logarithm is at most 254, so exponents up to 8454660 do not overflow.\<close>

lemma gf_pow_eq:
  assumes "k \<le> 8454660"
  shows "gf_pow a (int k) = a ^ k"
proof (cases a rule: gf_cases)
  case zero
  then show ?thesis by (cases k) (simp_all add: gf_pow_def)
next
  case (gx n)
  show ?thesis
  proof (cases "k = 0")
    case False
    have "n * k \<le> 254 * 8454660" using gx assms by (intro mult_le_mono) auto
    then have "sint (word_of_int (int n * int k) :: 32 word) = int (n * k)"
      by (subst sint_word32) (simp_all flip: of_nat_mult)
    then have "gf_pow a (int k) = from_exp (int (n * k))"
      using gx False by (simp add: gf_pow_def gx_nonzero gf_exp_gx)
    then show ?thesis using gx by (simp add: from_exp_of_nat gf_power_gx del: of_nat_mult)
  qed (simp add: gf_pow_def)
qed

section \<open>The product is the schoolbook product\<close>

text \<open>
  Multiplying by the generator is \<open>xtime\<close>, so the schoolbook product of \<open>a\<close> with any byte is
  its product with 1, which is \<open>a\<close>, times that byte.
\<close>

lemma xtime_times: "GF (xtime b) = from_exp 1 * GF b"
proof -
  have "xtime b = gfv (gf_mul (GF 2) (GF b))"
  proof -
    have "log_of 2 = 1" by code_simp
    then show ?thesis using gf_mul_shift [of 2 b] by (simp del: gf_fold)
  qed
  moreover have "from_exp 1 = GF 2" by code_simp
  ultimately show ?thesis by simp
qed

lemma poly_mul_scale: "GF x = GF y * GF b \<Longrightarrow> GF (poly_mul n a x) = GF (poly_mul n a y) * GF b"
proof (induction n arbitrary: a x y)
  case (Suc n)
  have step: "GF (poly_mul (Suc n) a z) = (if bit a 0 then GF z else 0) + GF (poly_mul n (drop_bit 1 a) (xtime z))" for z
    by (auto simp: plus_gf_def gf_add_def simp del: gf_fold)
  have "GF (xtime x) = GF (xtime y) * GF b" using Suc.prems by (simp add: xtime_times mult.assoc)
  then show ?case using Suc unfolding step by (simp add: distrib_right)
qed simp

lemma poly_mul_one: "poly_mul 8 a 1 = a"
proof -
  have "list_all (\<lambda>a. poly_mul 8 a 1 = a) all_bytes" by code_simp
  then show ?thesis by (rule all_bytesD)
qed

lemma gf_times_poly: "gf_times (GF a) (GF b) = GF (poly_mul 8 a b)"
  using poly_mul_scale [of b 1 b 8 a] by (simp add: poly_mul_one)

end
