(* ===== verification/ErasureMatrix.thy ===== *)
theory ErasureMatrix
  imports GF256
begin

text \<open>
  The index check and the matrix inversion of \<^verbatim>\<open>erasure_coding/erasure_coding.cpp\<close>.
  \<open>mat_inverse\<close> is Gauss-Jordan elimination without pivoting on a row-major array; each of
  its three loop nests is one definition. The lemmas show that it returns a left inverse
  whenever no pivot is zero, and that the bit set used by \<open>check_indexes\<close> accepts exactly
  the lists without repetition.
\<close>

section \<open>Bit set and index check\<close>

definition bits_get :: "u8 list \<Rightarrow> nat \<Rightarrow> bool" where
  "bits_get bits index \<longleftrightarrow> bits ! (index div 8) AND push_bit (index mod 8) 1 \<noteq> 0"

definition bits_set :: "u8 list \<Rightarrow> nat \<Rightarrow> u8 list" where
  "bits_set bits index =
     bits[index div 8 := bits ! (index div 8) OR push_bit (index mod 8) 1]"

fun check_loop :: "u8 list \<Rightarrow> nat list \<Rightarrow> bool" where
  "check_loop bits [] = True"
| "check_loop bits (x # xs) =
     (if bits_get bits x then False else check_loop (bits_set bits x) xs)"

text \<open>
  The template parameter \<open>I\<close> selects the component of a pair. The caller has checked that
  the components are not negative, so the conversion to \<^verbatim>\<open>size_t\<close> is \<open>nat\<close>.
\<close>

definition check_indexes :: "(int \<times> int \<Rightarrow> int) \<Rightarrow> int \<Rightarrow> (int \<times> int) list \<Rightarrow> bool" where
  "check_indexes sel indexCount indexes =
     check_loop (replicate 32 0) (map (nat \<circ> sel) (take (nat indexCount) indexes))"

lemma bits_get_bit: "bits_get bits k \<longleftrightarrow> bit (bits ! (k div 8)) (k mod 8)"
proof -
  have "k mod 8 < 8" by simp
  then show ?thesis
    unfolding bits_get_def by (simp add: bit_iff_and_push_bit_not_eq_0)
qed

lemma length_bits_set [simp]: "length (bits_set bits k) = length bits"
  by (simp add: bits_set_def)

lemma bits_get_set:
  assumes "length bits = 32" "j < 256" "k < 256"
  shows "bits_get (bits_set bits k) j \<longleftrightarrow> j = k \<or> bits_get bits j"
proof -
  have "k div 8 < 32" "j div 8 < 32" using assms by auto
  moreover have "j = k \<longleftrightarrow> j div 8 = k div 8 \<and> j mod 8 = k mod 8"
    by (metis div_mult_mod_eq)
  moreover have "j mod 8 < 8" "k mod 8 < 8" by simp_all
  ultimately show ?thesis
    using assms(1) by (auto simp: bits_get_bit bits_set_def nth_list_update bit_simps)
qed

lemma check_loop_distinct:
  assumes "length bits = 32" "\<forall>x \<in> set xs. x < 256"
  shows "check_loop bits xs \<longleftrightarrow> distinct xs \<and> (\<forall>x \<in> set xs. \<not> bits_get bits x)"
  using assms by (induction xs arbitrary: bits) (auto simp: bits_get_set)

lemma bits_get_empty: "k < 256 \<Longrightarrow> \<not> bits_get (replicate 32 0) k"
  by (simp add: bits_get_bit)

lemma check_indexes_distinct:
  assumes "\<forall>p \<in> set (take (nat n) indexes). 0 \<le> sel p \<and> sel p < 256"
  shows "check_indexes sel n indexes \<longleftrightarrow> distinct (map sel (take (nat n) indexes))"
proof -
  have "check_indexes sel n indexes \<longleftrightarrow> distinct (map (nat \<circ> sel) (take (nat n) indexes))"
    using assms unfolding check_indexes_def
    by (subst check_loop_distinct) (auto simp: bits_get_empty nat_less_iff)
  also have "\<dots> \<longleftrightarrow> distinct (map sel (take (nat n) indexes))"
    using assms by (simp add: distinct_map inj_on_def eq_nat_nat_iff Ball_def)
  finally show ?thesis .
qed

section \<open>Matrix inversion\<close>

definition mat_identity :: "nat \<Rightarrow> gf list" where
  "mat_identity n = for_up 0 n (\<lambda>i m. m[i * n + i := 1]) (replicate (n * n) 0)"

text \<open>One pass of the inner loops: subtract a multiple of row \<open>i\<close> from row \<open>r\<close>.\<close>

definition forward_row :: "nat \<Rightarrow> nat \<Rightarrow> nat \<Rightarrow> gf list \<times> gf list \<Rightarrow> gf list \<times> gf list" where
  "forward_row n i r = (\<lambda>(mat, invMat).
     let scale = mat ! (r * n + i) / mat ! (i * n + i)
     in if scale = 0 then (mat, invMat)
        else (for_up (i + 1) n
                (\<lambda>c m. m[r * n + c := m ! (r * n + c) + m ! (i * n + c) * scale])
                (mat[r * n + i := 0]),
              for_up 0 n
                (\<lambda>c v. v[r * n + c := v ! (r * n + c) + v ! (i * n + c) * scale])
                invMat))"

definition mat_forward :: "nat \<Rightarrow> gf list \<times> gf list \<Rightarrow> gf list \<times> gf list" where
  "mat_forward n = for_up 0 n (\<lambda>i. for_up (i + 1) n (forward_row n i))"

definition backward_row :: "nat \<Rightarrow> nat \<Rightarrow> nat \<Rightarrow> gf list \<times> gf list \<Rightarrow> gf list \<times> gf list" where
  "backward_row n i r = (\<lambda>(mat, invMat).
     let scale = mat ! (r * n + i) / mat ! (i * n + i)
     in if scale = 0 then (mat, invMat)
        else (for_down 0 i
                (\<lambda>c m. m[r * n + c := m ! (r * n + c) + m ! (i * n + c) * scale]) mat,
              for_down 0 n
                (\<lambda>c v. v[r * n + c := v ! (r * n + c) + v ! (i * n + c) * scale])
                invMat))"

definition mat_backward :: "nat \<Rightarrow> gf list \<times> gf list \<Rightarrow> gf list \<times> gf list" where
  "mat_backward n = for_down 0 n (\<lambda>i. for_down 0 i (backward_row n i))"

definition mat_scale :: "nat \<Rightarrow> gf list \<Rightarrow> gf list \<Rightarrow> gf list" where
  "mat_scale n mat = for_up 0 n (\<lambda>i v.
     let scale = inverse (mat ! (i * n + i))
     in if scale = 1 then v
        else for_up 0 n (\<lambda>j v. v[i * n + j := v ! (i * n + j) * scale]) v)"

definition mat_inverse :: "gf list \<Rightarrow> nat \<Rightarrow> gf list" where
  "mat_inverse mat n =
     (let (m, v) = mat_backward n (mat_forward n (mat, mat_identity n))
      in mat_scale n m v)"

text \<open>The diagonal left by the forward pass: the elements the code divides by.\<close>

definition pivots :: "gf list \<Rightarrow> nat \<Rightarrow> gf list" where
  "pivots mat n =
     (let m = fst (mat_forward n (mat, mat_identity n)) in map (\<lambda>i. m ! (i * n + i)) [0..<n])"

definition pivots_ok :: "gf list \<Rightarrow> nat \<Rightarrow> bool" where
  "pivots_ok mat n \<longleftrightarrow> list_all (\<lambda>p. p \<noteq> 0) (pivots mat n)"

section \<open>Row operations\<close>

definition mprod :: "nat \<Rightarrow> gf list \<Rightarrow> gf list \<Rightarrow> nat \<Rightarrow> nat \<Rightarrow> gf" where
  "mprod n v A r c = (\<Sum>k<n. cell n v r k * cell n A k c)"

text \<open>Both directions of the inner loop add the scaled row \<open>i\<close> to row \<open>r\<close> on its columns.\<close>

lemma row_add_fold:
  fixes s :: gf
  assumes "distinct cs" "set cs \<subseteq> {..<n}" "r < n" "i < n" "r \<noteq> i" "length m = n * n"
  defines "add \<equiv> \<lambda>c m. m[r * n + c := m ! (r * n + c) + m ! (i * n + c) * s]"
  shows "length (fold add cs m) = n * n \<and> (\<forall>r' c'. c' < n \<longrightarrow> cell n (fold add cs m) r' c' =
      (if r' = r \<and> c' \<in> set cs then cell n m r c' + cell n m i c' * s else cell n m r' c'))"
  using assms(1,2,6)
proof (induction cs arbitrary: m)
  case (Cons c cs)
  let ?m = "add c m"
  have c: "c < n" "c \<notin> set cs" and len: "length ?m = n * n"
    using Cons.prems by (auto simp: add_def)
  have cell: "cell n ?m r' c' =
      (if r' = r \<and> c' = c then cell n m r c + cell n m i c * s else cell n m r' c')"
    if "c' < n" for r' c'
    using cell_update [OF assms(3) c(1) that Cons.prems(3)] by (simp add: cell_def add_def)
  have IH: "length (fold add cs ?m) = n * n \<and> (\<forall>r' c'. c' < n \<longrightarrow> cell n (fold add cs ?m) r' c' =
      (if r' = r \<and> c' \<in> set cs then cell n ?m r c' + cell n ?m i c' * s else cell n ?m r' c'))"
    using Cons.IH Cons.prems len by simp
  then show ?case using cell c assms(5) by auto
qed simp

lemma row_add_up:
  fixes s :: gf
  assumes "r < n" "i < n" "r \<noteq> i" "length m = n * n" "b \<le> n"
  shows "length (for_up a b (\<lambda>c m. m[r * n + c := m ! (r * n + c) + m ! (i * n + c) * s]) m) = n * n"
    and "c' < n \<Longrightarrow>
      cell n (for_up a b (\<lambda>c m. m[r * n + c := m ! (r * n + c) + m ! (i * n + c) * s]) m) r' c' =
      (if r' = r \<and> a \<le> c' \<and> c' < b then cell n m r c' + cell n m i c' * s else cell n m r' c')"
proof -
  have "set ([a..<b]) \<subseteq> {..<n}" using assms(5) by auto
  note row_add_fold [OF _ this assms(1-4), of s]
  then show "length (for_up a b (\<lambda>c m. m[r * n + c := m ! (r * n + c) + m ! (i * n + c) * s]) m) = n * n"
    and "c' < n \<Longrightarrow>
      cell n (for_up a b (\<lambda>c m. m[r * n + c := m ! (r * n + c) + m ! (i * n + c) * s]) m) r' c' =
      (if r' = r \<and> a \<le> c' \<and> c' < b then cell n m r c' + cell n m i c' * s else cell n m r' c')"
    unfolding for_up_def by auto
qed

lemma row_add_down:
  fixes s :: gf
  assumes "r < n" "i < n" "r \<noteq> i" "length m = n * n" "b \<le> n"
  shows "length (for_down a b (\<lambda>c m. m[r * n + c := m ! (r * n + c) + m ! (i * n + c) * s]) m) = n * n"
    and "c' < n \<Longrightarrow>
      cell n (for_down a b (\<lambda>c m. m[r * n + c := m ! (r * n + c) + m ! (i * n + c) * s]) m) r' c' =
      (if r' = r \<and> a \<le> c' \<and> c' < b then cell n m r c' + cell n m i c' * s else cell n m r' c')"
proof -
  have "set (rev [a..<b]) \<subseteq> {..<n}" using assms(5) by auto
  note row_add_fold [OF _ this assms(1-4), of s]
  then show "length (for_down a b (\<lambda>c m. m[r * n + c := m ! (r * n + c) + m ! (i * n + c) * s]) m) = n * n"
    and "c' < n \<Longrightarrow>
      cell n (for_down a b (\<lambda>c m. m[r * n + c := m ! (r * n + c) + m ! (i * n + c) * s]) m) r' c' =
      (if r' = r \<and> a \<le> c' \<and> c' < b then cell n m r c' + cell n m i c' * s else cell n m r' c')"
    unfolding for_down_def by auto
qed

text \<open>A row operation on the accumulated inverse is the same operation on its product.\<close>

lemma mprod_row_add:
  assumes "\<And>r' k. k < n \<Longrightarrow> cell n v' r' k =
      (if r' = r then cell n v r k + cell n v i k * s else cell n v r' k)"
  shows "mprod n v' A r' c =
      (if r' = r then mprod n v A r c + mprod n v A i c * s else mprod n v A r' c)"
proof -
  have "mprod n v' A r' c = (\<Sum>k<n. (if r' = r then cell n v r k + cell n v i k * s
      else cell n v r' k) * cell n A k c)"
    unfolding mprod_def using assms by (intro sum.cong) auto
  then show ?thesis
    by (cases "r' = r")
      (simp_all add: mprod_def sum.distrib distrib_left distrib_right sum_distrib_left
        sum_distrib_right mult_ac)
qed

lemma elim_cancel: "p \<noteq> 0 \<Longrightarrow> x + p * (x / p) = (0 :: gf)"
  by simp

lemma forward_row_cell:
  assumes "r < n" "i < r" "length m = n * n" "length v = n * n"
    and "forward_row n i r (m, v) = (m', v')"
  defines "s \<equiv> cell n m r i / cell n m i i"
  shows "length m' = n * n" "length v' = n * n"
    and "c < n \<Longrightarrow> cell n m' r' c =
      (if r' = r \<and> s \<noteq> 0 \<and> c = i then 0
       else if r' = r \<and> i < c then cell n m r c + cell n m i c * s else cell n m r' c)"
    and "c < n \<Longrightarrow> cell n v' r' c =
      (if r' = r then cell n v r c + cell n v i c * s else cell n v r' c)"
proof -
  let ?m = "m[r * n + i := 0]"
  have i: "i < n" using assms(1,2) by simp
  have len: "length ?m = n * n" using assms(3) by simp
  have cm: "cell n ?m r' c = (if r' = r \<and> c = i then 0 else cell n m r' c)" if "c < n" for r' c
    using cell_update [OF assms(1) i that assms(3)] by simp
  note up = row_add_up [OF assms(1) i _ len, where b = n and a = "i + 1" and s = s]
    row_add_up [OF assms(1) i _ assms(4), where b = n and a = 0 and s = s]
  have eq: "forward_row n i r (m, v) =
     (if s = 0 then (m, v) else
      (for_up (i + 1) n (\<lambda>c m. m[r * n + c := m ! (r * n + c) + m ! (i * n + c) * s]) ?m,
       for_up 0 n (\<lambda>c v. v[r * n + c := v ! (r * n + c) + v ! (i * n + c) * s]) v))"
    by (simp add: forward_row_def s_def cell_def Let_def)
  show "length m' = n * n" "length v' = n * n"
    using eq assms up by (auto split: if_splits)
  show "cell n m' r' c =
      (if r' = r \<and> s \<noteq> 0 \<and> c = i then 0
       else if r' = r \<and> i < c then cell n m r c + cell n m i c * s else cell n m r' c)" if "c < n"
    using eq assms(2,5) up(2) [OF _ _ that] cm [OF that] that by (auto split: if_splits)
  show "cell n v' r' c =
      (if r' = r then cell n v r c + cell n v i c * s else cell n v r' c)" if "c < n"
    using eq assms(2,5) up(4) [OF _ _ that] that by (auto split: if_splits)
qed

section \<open>The forward pass\<close>

definition sized :: "nat \<Rightarrow> gf list \<times> gf list \<Rightarrow> bool" where
  "sized n st \<longleftrightarrow> length (fst st) = n * n \<and> length (snd st) = n * n"

text \<open>The accumulated inverse times the input is the current matrix, cleared below the
  diagonal in the columns before \<open>i\<close>.\<close>

definition fwd_inv :: "nat \<Rightarrow> gf list \<Rightarrow> nat \<Rightarrow> gf list \<times> gf list \<Rightarrow> bool" where
  "fwd_inv n A i st \<longleftrightarrow> sized n st \<and>
     (\<forall>r c. r < n \<longrightarrow> c < n \<longrightarrow> mprod n (snd st) A r c = cell n (fst st) r c) \<and>
     (\<forall>r c. c < i \<longrightarrow> c < r \<longrightarrow> r < n \<longrightarrow> cell n (fst st) r c = 0)"

lemma forward_row_sized:
  assumes "r < n" "i < r" "sized n st"
  shows "sized n (forward_row n i r st)"
proof -
  obtain m v m' v' where eq: "st = (m, v)" "forward_row n i r (m, v) = (m', v')"
    by (metis prod.exhaust)
  then show ?thesis
    using forward_row_cell(1,2) [OF assms(1,2) _ _ eq(2)] assms(3) by (simp add: sized_def)
qed

lemma forward_row_frame:
  assumes "r < n" "i < r" "sized n st" "c < n" "r' \<noteq> r"
  shows "cell n (fst (forward_row n i r st)) r' c = cell n (fst st) r' c"
proof -
  obtain m v m' v' where eq: "st = (m, v)" "forward_row n i r (m, v) = (m', v')"
    by (metis prod.exhaust)
  then show ?thesis
    using forward_row_cell(3) [OF assms(1,2) _ _ eq(2) assms(4)] assms(3,5) by (simp add: sized_def)
qed

lemma forward_row_inv:
  assumes "r < n" "i < r" and inv: "fwd_inv n A i st" and piv: "cell n (fst st) i i \<noteq> 0"
  shows "fwd_inv n A i (forward_row n i r st) \<and> cell n (fst (forward_row n i r st)) r i = 0"
proof -
  obtain m v m' v' where st: "st = (m, v)" and st': "forward_row n i r st = (m', v')"
    by (metis prod.exhaust)
  let ?s = "cell n m r i / cell n m i i"
  have sz: "length m = n * n" "length v = n * n" using inv by (auto simp: fwd_inv_def sized_def st)
  note cells = forward_row_cell [OF assms(1,2) sz st' [unfolded st]]
  have prod: "mprod n v A a c = cell n m a c" if "a < n" "c < n" for a c
    using inv that by (auto simp: fwd_inv_def st)
  have low: "cell n m a c = 0" if "c < i" "c < a" "a < n" for a c
    using inv that by (auto simp: fwd_inv_def st)
  have i: "i < n" and p: "cell n m i i \<noteq> 0" using assms st by auto
  have prod': "mprod n v' A a c =
      (if a = r then cell n m r c + cell n m i c * ?s else cell n m a c)"
    if "a < n" "c < n" for a c
    using mprod_row_add [of n v' r v i ?s A a c] cells(4) prod that i assms(1) by simp
  have eliminated: "cell n m r i + cell n m i i * ?s = 0" using p by simp
  have mat': "cell n m' a c = (if a = r then cell n m r c + cell n m i c * ?s else cell n m a c)"
    if "a < n" "c < n" for a c
  proof (cases "a = r")
    case True
    consider "c < i" | "c = i" | "i < c" by linarith
    then show ?thesis
    proof cases
      case 1
      with low [of c i] i have "cell n m i c = 0" by simp
      with 1 True that cells(3) [OF that(2), of a] show ?thesis by simp
    next
      case 2
      then show ?thesis using True cells(3) [OF that(2), of a] eliminated p by auto
    next
      case 3
      then show ?thesis using True cells(3) [OF that(2), of a] by simp
    qed
  qed (use that cells(3) in simp)
  have "cell n m' a c = 0" if "c < i" "c < a" "a < n" for a c
    using mat' [of a c] low [of c a] low [of c i] low [of c r] that i assms(1,2) by auto
  moreover have "cell n m' r i = 0" using mat' [OF assms(1) i] eliminated by simp
  ultimately show ?thesis
    using cells(1,2) prod' mat' by (auto simp: fwd_inv_def sized_def st')
qed

lemma forward_stage:
  assumes "i < n" and inv: "fwd_inv n A i st" and piv: "cell n (fst st) i i \<noteq> 0"
  shows "fwd_inv n A (Suc i) (for_up (i + 1) n (forward_row n i) st)"
proof -
  let ?P = "\<lambda>r t. fwd_inv n A i t \<and> cell n (fst t) i i \<noteq> 0 \<and>
    (\<forall>r'. i < r' \<longrightarrow> r' < r \<longrightarrow> cell n (fst t) r' i = 0)"
  have "?P n (for_up (i + 1) n (forward_row n i) st)"
  proof (rule for_up_rule [where P = ?P])
    show "?P (i + 1) st" using inv piv by auto
  next
    fix r t
    assume r: "i + 1 \<le> r" "r < n" and P: "?P r t"
    have sz: "sized n t" using P by (simp add: fwd_inv_def)
    have frame: "cell n (fst (forward_row n i r t)) r' i = cell n (fst t) r' i" if "r' \<noteq> r" for r'
      using forward_row_frame [OF r(2) _ sz assms(1) that] r(1) by simp
    show "?P (Suc r) (forward_row n i r t)"
      using forward_row_inv [OF r(2), of i A t] frame P r by (auto simp: less_Suc_eq)
  qed (use assms(1) in simp)
  then show ?thesis by (auto simp: fwd_inv_def less_Suc_eq)
qed

lemma forward_stage_rows:
  assumes "i < n" "sized n st"
  shows "sized n (for_up (i + 1) n (forward_row n i) st) \<and>
    (\<forall>r c. r \<le> i \<longrightarrow> c < n \<longrightarrow>
      cell n (fst (for_up (i + 1) n (forward_row n i) st)) r c = cell n (fst st) r c)"
  by (rule for_up_rule [where P = "\<lambda>_ t. sized n t \<and> (\<forall>r c. r \<le> i \<longrightarrow> c < n \<longrightarrow>
      cell n (fst t) r c = cell n (fst st) r c)"])
    (use assms in \<open>auto simp: forward_row_sized forward_row_frame\<close>)

lemma forward_rest_rows:
  assumes "j \<le> n" "sized n st"
  shows "sized n (for_up j n (\<lambda>i. for_up (i + 1) n (forward_row n i)) st) \<and>
    (\<forall>r c. r \<le> j \<longrightarrow> c < n \<longrightarrow>
      cell n (fst (for_up j n (\<lambda>i. for_up (i + 1) n (forward_row n i)) st)) r c = cell n (fst st) r c)"
  by (rule for_up_rule [where P = "\<lambda>_ t. sized n t \<and> (\<forall>r c. r \<le> j \<longrightarrow> c < n \<longrightarrow>
      cell n (fst t) r c = cell n (fst st) r c)"])
    (use assms forward_stage_rows in auto)

lemma mat_forward_inv:
  assumes "fwd_inv n A 0 st" and piv: "\<And>i. i < n \<Longrightarrow> cell n (fst (mat_forward n st)) i i \<noteq> 0"
  shows "fwd_inv n A n (mat_forward n st)"
proof -
  let ?stage = "\<lambda>i. for_up (i + 1) n (forward_row n i)"
  let ?P = "\<lambda>i t. fwd_inv n A i t \<and> for_up i n ?stage t = mat_forward n st"
  have "?P n (for_up 0 n ?stage st)"
  proof (rule for_up_rule [where P = ?P])
    show "?P 0 st" using assms(1) by (simp add: mat_forward_def)
  next
    fix i t
    assume i: "i < n" and P: "?P i t"
    have "cell n (fst (for_up i n ?stage t)) i i = cell n (fst t) i i"
      using forward_rest_rows [of i n t] i P by (simp add: fwd_inv_def)
    then have "cell n (fst t) i i \<noteq> 0" using P piv [OF i] by simp
    then show "?P (Suc i) (?stage i t)"
      using forward_stage [OF i] P for_up_first [OF i, of ?stage t] by simp
  qed simp
  then show ?thesis by (simp add: mat_forward_def)
qed

section \<open>The backward pass and the scaling\<close>

text \<open>
  The backward pass works on an upper triangular \<open>M\<close>. The matrix array keeps the value of
  \<open>M\<close> (the row added is zero where it is written); the product is \<open>M\<close> with the columns
  from \<open>i\<close> on cleared above the diagonal.
\<close>

definition upper :: "nat \<Rightarrow> gf list \<Rightarrow> bool" where
  "upper n M \<longleftrightarrow> (\<forall>r c. c < r \<longrightarrow> r < n \<longrightarrow> cell n M r c = 0) \<and> (\<forall>i<n. cell n M i i \<noteq> 0)"

definition bwd_inv :: "nat \<Rightarrow> gf list \<Rightarrow> gf list \<Rightarrow> nat \<Rightarrow> nat \<Rightarrow> gf list \<times> gf list \<Rightarrow> bool" where
  "bwd_inv n A M i q st \<longleftrightarrow> sized n st \<and>
     (\<forall>r c. r < n \<longrightarrow> c < n \<longrightarrow> cell n (fst st) r c = cell n M r c) \<and>
     (\<forall>r c. r < n \<longrightarrow> c < n \<longrightarrow> mprod n (snd st) A r c =
        (if r < c \<and> (Suc i \<le> c \<or> c = i \<and> q \<le> r) then 0 else cell n M r c))"

lemma backward_row_inv:
  assumes "r < i" "i < n" and up: "upper n M" and inv: "bwd_inv n A M i (Suc r) st"
  shows "bwd_inv n A M i r (backward_row n i r st)"
proof -
  obtain m v where st: "st = (m, v)" by (cases st)
  define s where "s = cell n m r i / cell n m i i"
  have r: "r < n" "r \<noteq> i" using assms(1,2) by auto
  have sz: "length m = n * n" "length v = n * n" using inv by (auto simp: bwd_inv_def sized_def st)
  have m: "cell n m a c = cell n M a c" if "a < n" "c < n" for a c
    using inv that by (auto simp: bwd_inv_def st)
  have prod: "mprod n v A a c =
      (if a < c \<and> (Suc i \<le> c \<or> c = i \<and> Suc r \<le> a) then 0 else cell n M a c)"
    if "a < n" "c < n" for a c
    using inv that by (auto simp: bwd_inv_def st)
  have low: "cell n M a c = 0" if "c < a" "a < n" for a c
    using up that by (auto simp: upper_def)
  obtain m' v' where st': "backward_row n i r st = (m', v')" by (cases "backward_row n i r st")
  have "backward_row n i r (m, v) = (if s = 0 then (m, v) else
      (for_down 0 i (\<lambda>c m. m[r * n + c := m ! (r * n + c) + m ! (i * n + c) * s]) m,
       for_down 0 n (\<lambda>c v. v[r * n + c := v ! (r * n + c) + v ! (i * n + c) * s]) v))"
    by (simp add: backward_row_def s_def cell_def Let_def)
  then have eq: "(m', v') = (if s = 0 then (m, v) else
      (for_down 0 i (\<lambda>c m. m[r * n + c := m ! (r * n + c) + m ! (i * n + c) * s]) m,
       for_down 0 n (\<lambda>c v. v[r * n + c := v ! (r * n + c) + v ! (i * n + c) * s]) v))"
    using st' st by simp
  note dm = row_add_down [OF r(1) assms(2) r(2) sz(1), where b = i and a = 0 and s = s]
  note dv = row_add_down [OF r(1) assms(2) r(2) sz(2), where b = n and a = 0 and s = s]
  have sz': "sized n (m', v')" using eq sz dm(1) dv(1) assms(2) by (auto simp: sized_def)
  have m': "cell n m' a c = cell n M a c" if "a < n" "c < n" for a c
    using eq dm(2) [OF _ that(2)] m low [of c i] that assms(2) r by (auto split: if_splits)
  have "cell n v' a c = (if a = r then cell n v r c + cell n v i c * s else cell n v a c)"
    if "c < n" for a c
    using eq dv(2) [OF _ that] that by (auto split: if_splits)
  then have prod': "mprod n v' A a c =
      (if a = r then mprod n v A r c + mprod n v A i c * s else mprod n v A a c)" for a c
    by (rule mprod_row_add)
  have pivot_row: "mprod n v A i c = (if c = i then cell n M i i else 0)" if "c < n" for c
    using prod [OF assms(2) that] low [of c i] assms(2) by auto
  have "cell n M r i + cell n M i i * s = 0"
    using up assms(2) m [of r i] m [of i i] r by (simp add: upper_def s_def)
  then have "mprod n v' A a c =
      (if a < c \<and> (Suc i \<le> c \<or> c = i \<and> r \<le> a) then 0 else cell n M a c)"
    if "a < n" "c < n" for a c
    using prod' [of a c] prod [OF that] prod [OF r(1) that(2)] pivot_row [OF that(2)] assms(1)
    by auto
  then show ?thesis using sz' m' by (simp add: bwd_inv_def st')
qed

lemma bwd_inv_next: "bwd_inv n A M (Suc i) 0 st \<longleftrightarrow> bwd_inv n A M i i st"
proof -
  have "(r < c \<and> (Suc (Suc i) \<le> c \<or> c = Suc i \<and> 0 \<le> r)) =
      (r < c \<and> (Suc i \<le> c \<or> c = i \<and> i \<le> r))" for r c
    by linarith
  then show ?thesis by (simp only: bwd_inv_def)
qed

lemma mat_backward_inv:
  assumes "upper n M" "bwd_inv n A M n 0 st"
  shows "bwd_inv n A M 0 0 (mat_backward n st)"
  unfolding mat_backward_def
proof (rule for_down_rule [where P = "\<lambda>i. bwd_inv n A M i 0"])
  fix i t
  assume i: "i < n" and inv: "bwd_inv n A M (Suc i) 0 t"
  show "bwd_inv n A M i 0 (for_down 0 i (backward_row n i) t)"
    by (rule for_down_rule [where P = "\<lambda>r. bwd_inv n A M i r"])
      (use i inv assms(1) in \<open>auto simp: bwd_inv_next intro: backward_row_inv\<close>)
qed (use assms in auto)

lemma row_scale:
  fixes s :: gf
  assumes "i < n" "length v = n * n"
  shows "length (for_up 0 n (\<lambda>j v. v[i * n + j := v ! (i * n + j) * s]) v) = n * n \<and>
    (\<forall>r c. c < n \<longrightarrow> cell n (for_up 0 n (\<lambda>j v. v[i * n + j := v ! (i * n + j) * s]) v) r c =
      (if r = i \<and> c < n then cell n v r c * s else cell n v r c))"
proof (rule for_up_rule [where P = "\<lambda>k t. length t = n * n \<and> (\<forall>r c. c < n \<longrightarrow>
    cell n t r c = (if r = i \<and> c < k then cell n v r c * s else cell n v r c))"])
  fix k t
  assume k: "k < n" and P: "length t = n * n \<and> (\<forall>r c. c < n \<longrightarrow>
    cell n t r c = (if r = i \<and> c < k then cell n v r c * s else cell n v r c))"
  have upd: "cell n (t[i * n + k := x]) r c = (if r = i \<and> c = k then x else cell n t r c)"
    if "c < n" for r c x
    using cell_update [OF assms(1) k that, of t] P by blast
  have "t ! (i * n + k) = cell n v i k" using P k by (simp flip: cell_def)
  then show "length (t[i * n + k := t ! (i * n + k) * s]) = n * n \<and> (\<forall>r c. c < n \<longrightarrow>
    cell n (t[i * n + k := t ! (i * n + k) * s]) r c =
      (if r = i \<and> c < Suc k then cell n v r c * s else cell n v r c))"
    using P by (auto simp: upd less_Suc_eq)
qed (use assms in auto)

lemma mprod_row_scale:
  assumes "\<And>r c. c < n \<Longrightarrow> cell n v' r c = (if r = i then cell n v r c * s else cell n v r c)"
  shows "mprod n v' A r c = (if r = i then mprod n v A r c * s else mprod n v A r c)"
proof -
  have "mprod n v' A r c =
      (\<Sum>k<n. (if r = i then cell n v r k * s else cell n v r k) * cell n A k c)"
    unfolding mprod_def using assms by (intro sum.cong) auto
  then show ?thesis
    by (cases "r = i") (simp_all add: mprod_def sum_distrib_left mult_ac)
qed

lemma mat_scale_inv:
  assumes "upper n M" "bwd_inv n A M 0 0 (m, v)"
  shows "length (mat_scale n m v) = n * n \<and>
    (\<forall>r c. r < n \<longrightarrow> c < n \<longrightarrow> mprod n (mat_scale n m v) A r c = (if r = c then 1 else 0))"
proof -
  let ?P = "\<lambda>k w. length w = n * n \<and> (\<forall>r c. r < n \<longrightarrow> c < n \<longrightarrow> mprod n w A r c =
    (if r = c then if r < k then 1 else cell n M r r else 0))"
  have m: "cell n m i i = cell n M i i" "cell n M i i \<noteq> 0" if "i < n" for i
    using assms that by (auto simp: bwd_inv_def upper_def)
  have "?P n (mat_scale n m v)" unfolding mat_scale_def
  proof (rule for_up_rule [where P = ?P])
    show "?P 0 v" using assms by (auto simp: bwd_inv_def sized_def upper_def)
  next
    fix i w
    assume i: "i < n" and P: "?P i w"
    define s where "s = inverse (cell n M i i)"
    define w' where "w' = for_up 0 n (\<lambda>j v. v[i * n + j := v ! (i * n + j) * s]) w"
    have len: "length w' = n * n" and cells: "cell n w' r c = (if r = i then cell n w r c * s else cell n w r c)"
      if "c < n" for r c
      using row_scale [OF i, of w s] P that unfolding w'_def by auto
    have "?P (Suc i) w'"
      using P len [OF i] mprod_row_scale [of n w' i w s A] cells m(2) [OF i] i
      by (auto simp: s_def less_Suc_eq)
    moreover have "?P (Suc i) w" if "s = 1"
      using P m(2) [OF i] that by (auto simp: s_def less_Suc_eq)
    ultimately show "?P (Suc i) (let scale = inverse (m ! (i * n + i)) in if scale = 1 then w
        else for_up 0 n (\<lambda>j v. v[i * n + j := v ! (i * n + j) * scale]) w)"
      using m(1) [OF i] by (simp add: w'_def s_def cell_def Let_def)
  qed simp
  then show ?thesis by auto
qed

section \<open>The inverse\<close>

lemma mat_identity_cell:
  shows "length (mat_identity n) = n * n"
    and "r < n \<Longrightarrow> c < n \<Longrightarrow> cell n (mat_identity n) r c = (if r = c then 1 else 0)"
proof -
  let ?P = "\<lambda>k m. length m = n * n \<and> (\<forall>r c. r < n \<longrightarrow> c < n \<longrightarrow>
    cell n m r c = (if r = c \<and> r < k then 1 else (0 :: gf)))"
  have "?P n (mat_identity n)" unfolding mat_identity_def
    by (rule for_up_rule [where P = ?P])
      (auto simp: cell_update less_Suc_eq, auto simp: cell_def flat_index_lt)
  then show "length (mat_identity n) = n * n"
    and "r < n \<Longrightarrow> c < n \<Longrightarrow> cell n (mat_identity n) r c = (if r = c then 1 else 0)"
    by auto
qed

lemma mprod_identity: "r < n \<Longrightarrow> mprod n (mat_identity n) A r c = cell n A r c"
proof -
  assume r: "r < n"
  have "mprod n (mat_identity n) A r c = (\<Sum>k<n. if r = k then cell n A k c else 0)"
    unfolding mprod_def using r by (intro sum.cong) (auto simp: mat_identity_cell)
  then show ?thesis using r by simp
qed

lemma mat_inverse_left:
  assumes "length A = n * n" "pivots_ok A n"
  shows "length (mat_inverse A n) = n * n"
    and "r < n \<Longrightarrow> c < n \<Longrightarrow> mprod n (mat_inverse A n) A r c = (if r = c then 1 else 0)"
proof -
  let ?st = "mat_forward n (A, mat_identity n)"
  have piv: "cell n (fst ?st) i i \<noteq> 0" if "i < n" for i
    using assms(2) that by (simp add: pivots_ok_def pivots_def list_all_iff cell_def Let_def)
  have "fwd_inv n A 0 (A, mat_identity n)"
    using assms(1) by (auto simp: fwd_inv_def sized_def mat_identity_cell mprod_identity)
  then have fwd: "fwd_inv n A n ?st" using piv by (rule mat_forward_inv)
  then have up: "upper n (fst ?st)" using piv by (auto simp: fwd_inv_def upper_def)
  have "bwd_inv n A (fst ?st) n 0 ?st" using fwd by (auto simp: fwd_inv_def bwd_inv_def)
  then have "bwd_inv n A (fst ?st) 0 0 (mat_backward n ?st)" by (rule mat_backward_inv [OF up])
  then have "length (mat_inverse A n) = n * n \<and>
    (\<forall>r c. r < n \<longrightarrow> c < n \<longrightarrow> mprod n (mat_inverse A n) A r c = (if r = c then 1 else 0))"
    using mat_scale_inv [OF up] by (cases "mat_backward n ?st") (simp add: mat_inverse_def)
  then show "length (mat_inverse A n) = n * n"
    and "r < n \<Longrightarrow> c < n \<Longrightarrow> mprod n (mat_inverse A n) A r c = (if r = c then 1 else 0)"
    by auto
qed

end
