(* ===== verification/ErasureCode.thy ===== *)
theory ErasureCode
  imports ErasureMatrix
begin

text \<open>
  \<open>ec_encode\<close> and \<open>ec_decode\<close> of \<^verbatim>\<open>erasure_coding/erasure_coding.cpp\<close>, the scalar
  versions. The buffers are byte lists, the C \<^verbatim>\<open>int\<close> parameters are integers (every value
  computed from them is bounded by a buffer size), the return code is the first component
  of the result and the buffer written is the second. The prefetches have no effect on
  values and are left out.

  The lemmas show that the encoder evaluates every data row, read as a polynomial, at the
  powers of the generator, and that the decoder returns the erased bytes whenever the
  elimination meets no zero pivot.
\<close>

section \<open>The code\<close>

text \<open>
  The inner loop of both functions: \<open>n\<close> lookups in product tables, from the table pointer
  \<open>base\<close> and the buffer position \<open>pos\<close> on.
\<close>

definition dot_symbol :: "gf list list \<Rightarrow> nat \<Rightarrow> nat \<Rightarrow> u8 list \<Rightarrow> nat \<Rightarrow> gf" where
  "dot_symbol multipliers base n buf pos =
     for_up 0 n (\<lambda>i s. s + multipliers ! (base + i) ! unat (buf ! (pos + i))) 0"

definition encode_multipliers :: "nat \<Rightarrow> nat \<Rightarrow> gf list list" where
  "encode_multipliers dataStride ecStride =
     concat (map (\<lambda>r. map (\<lambda>c. multiplier (gf_pow (from_exp (int r)) (int c))) [0..<dataStride])
       [0..<ecStride])"

definition encode_row :: "gf list list \<Rightarrow> nat \<Rightarrow> nat \<Rightarrow> u8 list \<Rightarrow> nat \<Rightarrow> nat \<times> u8 list \<Rightarrow> nat \<times> u8 list"
  where
  "encode_row multipliers dataStride ecStride data dataIndex =
     for_up 0 ecStride (\<lambda>ecSubIndex (ecIndex, ec).
       (ecIndex + 1,
        ec[ecIndex := gfv (dot_symbol multipliers (ecSubIndex * dataStride) dataStride data dataIndex)]))"

definition encode_rows :: "gf list list \<Rightarrow> nat \<Rightarrow> nat \<Rightarrow> u8 list \<Rightarrow> nat \<Rightarrow> u8 list \<Rightarrow> u8 list" where
  "encode_rows multipliers dataStride ecStride data rows ec =
     snd (snd (for_up 0 rows (\<lambda>r (dataIndex, ecIndex, ec).
       let (ecIndex', ec') = encode_row multipliers dataStride ecStride data dataIndex (ecIndex, ec)
       in (dataIndex + dataStride, ecIndex', ec')) (0, 0, ec)))"

text \<open>The parameter checks, in order; \<open>0\<close> when all pass.\<close>

definition encode_check :: "int \<Rightarrow> int \<Rightarrow> int \<Rightarrow> int \<Rightarrow> int" where
  "encode_check dataBytes ecBytes dataStride ecStride =
     (if dataStride \<le> 0 \<or> dataStride \<ge> 255 then 1
      else if ecStride \<le> 0 \<or> ecStride \<ge> 255 then 2
      else if dataBytes smod dataStride \<noteq> 0 then 3
      else if ecBytes smod ecStride \<noteq> 0 then 4
      else if dataBytes sdiv dataStride \<noteq> ecBytes sdiv ecStride then 5
      else 0)"

definition ec_encode :: "u8 list \<Rightarrow> int \<Rightarrow> u8 list \<Rightarrow> int \<Rightarrow> int \<Rightarrow> int \<Rightarrow> int \<times> u8 list" where
  "ec_encode data dataBytes ec ecBytes dataStride ecStride =
     (let code = encode_check dataBytes ecBytes dataStride ecStride in
      if code \<noteq> 0 then (code, ec)
      else (0, encode_rows (encode_multipliers (nat dataStride) (nat ecStride)) (nat dataStride)
                 (nat ecStride) data (nat (dataBytes sdiv dataStride)) ec))"

definition decode_check :: "int \<Rightarrow> int \<Rightarrow> (int \<times> int) list \<Rightarrow> int \<Rightarrow> int" where
  "decode_check bytes stride indexes indexCount =
     (if stride \<le> 0 \<or> stride \<ge> 255 then 1
      else if indexCount \<le> 0 \<or> indexCount \<ge> 255 then 2
      else if bytes smod stride \<noteq> 0 then 3
      else if list_ex (\<lambda>p. fst p < 0 \<or> fst p \<ge> stride \<or> snd p < 0 \<or> snd p \<ge> 254)
                (take (nat indexCount) indexes) then 4
      else if \<not> check_indexes fst indexCount indexes \<or> \<not> check_indexes snd indexCount indexes then 4
      else 0)"

text \<open>The identity with the rows of the erased positions replaced by powers.\<close>

definition decode_matrix :: "nat \<Rightarrow> (int \<times> int) list \<Rightarrow> nat \<Rightarrow> gf list" where
  "decode_matrix n indexes count =
     for_up 0 count (\<lambda>i mat.
       let row = nat (fst (indexes ! i)) * n;
           a = from_exp (snd (indexes ! i))
       in for_up 0 n (\<lambda>c m. m[row + c := gf_pow a (int c)]) mat)
     (mat_identity n)"

definition decode_multipliers :: "gf list \<Rightarrow> nat \<Rightarrow> (int \<times> int) list \<Rightarrow> nat \<Rightarrow> gf list list" where
  "decode_multipliers mat n indexes count =
     concat (map (\<lambda>r. map (\<lambda>c. multiplier (mat ! (nat (fst (indexes ! r)) * n + c))) [0..<n])
       [0..<count])"

definition decode_row :: "gf list list \<Rightarrow> nat \<Rightarrow> (int \<times> int) list \<Rightarrow> nat \<Rightarrow> nat \<Rightarrow> u8 list \<Rightarrow> u8 list"
  where
  "decode_row multipliers n indexes count dataIndex buf =
     (let tmpResult = map (\<lambda>i. dot_symbol multipliers (i * n) n buf dataIndex) [0..<count]
      in for_up 0 count
           (\<lambda>i b. b[dataIndex + nat (fst (indexes ! i)) := gfv (tmpResult ! i)]) buf)"

definition decode_rows :: "gf list list \<Rightarrow> nat \<Rightarrow> (int \<times> int) list \<Rightarrow> nat \<Rightarrow> nat \<Rightarrow> u8 list \<Rightarrow> u8 list"
  where
  "decode_rows multipliers n indexes count rows buf =
     snd (for_up 0 rows (\<lambda>r (dataIndex, buf).
       (dataIndex + n, decode_row multipliers n indexes count dataIndex buf)) (0, buf))"

definition ec_decode :: "u8 list \<Rightarrow> int \<Rightarrow> int \<Rightarrow> (int \<times> int) list \<Rightarrow> int \<Rightarrow> int \<times> u8 list" where
  "ec_decode buf bytes stride indexes indexCount =
     (let code = decode_check bytes stride indexes indexCount in
      if code \<noteq> 0 then (code, buf)
      else
        let n = nat stride;
            count = nat indexCount;
            mat = mat_inverse (decode_matrix n indexes count) n
        in (0, decode_rows (decode_multipliers mat n indexes count) n indexes count
                 (nat (bytes sdiv stride)) buf))"

section \<open>What the encoder computes\<close>

text \<open>Row \<open>r\<close> of the data as a polynomial, evaluated at the \<open>k\<close>-th power of the generator.\<close>

definition row_eval :: "nat \<Rightarrow> u8 list \<Rightarrow> nat \<Rightarrow> nat \<Rightarrow> gf" where
  "row_eval n data r k = (\<Sum>i<n. GF (data ! (r * n + i)) * from_exp (int k) ^ i)"

lemma for_up_sum: "for_up 0 n (\<lambda>i s. s + f i) s0 = s0 + (\<Sum>i<n. f i :: gf)"
  by (induction n) (simp_all add: for_up_Suc add.assoc)

lemma dot_symbol_sum:
  assumes "\<And>i. i < n \<Longrightarrow> multipliers ! (base + i) = multiplier (m i)"
  shows "dot_symbol multipliers base n buf pos = (\<Sum>i<n. GF (buf ! (pos + i)) * m i)"
proof -
  have "dot_symbol multipliers base n buf pos =
      for_up 0 n (\<lambda>i s. s + GF (buf ! (pos + i)) * m i) 0"
    unfolding dot_symbol_def
    by (rule for_up_cong) (simp add: assms multiplier_nth)
  then show ?thesis by (simp add: for_up_sum)
qed

text \<open>Consecutive writes through an incremented index.\<close>

lemma write_run:
  assumes "p + n \<le> length xs"
  shows "for_up 0 n (\<lambda>k (i, xs). (i + 1, xs[i := f k])) (p, xs) =
    (p + n, take p xs @ map f [0..<n] @ drop (p + n) xs)"
  using assms
proof (induction n)
  case (Suc n)
  have "(take p xs @ map f [0..<n] @ drop (p + n) xs)[p + n := f n] =
      take p xs @ map f [0..<n] @ (drop (p + n) xs)[0 := f n]"
    using Suc.prems by (simp add: list_update_append)
  also have "(drop (p + n) xs)[0 := f n] = f n # drop (p + Suc n) xs"
    using Suc.prems by (cases "drop (p + n) xs") (auto simp: drop_Suc simp flip: drop_drop tl_drop)
  finally show ?case using Suc by (simp add: for_up_Suc)
qed simp

lemma encode_multipliers_nth:
  "D < 255 \<Longrightarrow> k < E \<Longrightarrow> i < D \<Longrightarrow> encode_multipliers D E ! (k * D + i) = multiplier (from_exp (int k) ^ i)"
  unfolding encode_multipliers_def by (subst nth_concat_blocks) (simp_all add: gf_pow_eq)

lemma encode_row_eq:
  assumes "D < 255" "p + E \<le> length ec"
  shows "encode_row (encode_multipliers D E) D E data (r * D) (p, ec) =
    (p + E, take p ec @ map (\<lambda>k. gfv (row_eval D data r k)) [0..<E] @ drop (p + E) ec)"
proof -
  have "encode_row (encode_multipliers D E) D E data (r * D) (p, ec) =
      for_up 0 E (\<lambda>k (p, ec). (p + 1, ec[p := gfv (row_eval D data r k)])) (p, ec)"
    unfolding encode_row_def
    by (rule for_up_cong) (auto simp: row_eval_def dot_symbol_sum encode_multipliers_nth assms(1))
  then show ?thesis using write_run [OF assms(2)] by simp
qed

lemma encode_rows_eq:
  assumes D: "D < 255" and "rows * E \<le> length ec"
  shows "encode_rows (encode_multipliers D E) D E data rows ec =
    concat (map (\<lambda>r. map (\<lambda>k. gfv (row_eval D data r k)) [0..<E]) [0..<rows]) @ drop (rows * E) ec"
proof -
  let ?out = "\<lambda>r. concat (map (\<lambda>r. map (\<lambda>k. gfv (row_eval D data r k)) [0..<E]) [0..<r])"
  have len: "length (?out r) = r * E" for r by (rule length_concat_blocks) simp
  have "for_up 0 rows (\<lambda>r (dataIndex, ecIndex, ec).
       let (ecIndex', ec') = encode_row (encode_multipliers D E) D E data dataIndex (ecIndex, ec)
       in (dataIndex + D, ecIndex', ec')) (0, 0, ec) =
     (rows * D, rows * E, ?out rows @ drop (rows * E) ec)"
    using assms(2)
  proof (induction rows)
    case (Suc r)
    have "r * E + E \<le> length (?out r @ drop (r * E) ec)" using Suc.prems len by simp
    from encode_row_eq [OF D this] show ?case
      using Suc len by (simp add: for_up_Suc add.commute)
  qed simp
  then show ?thesis by (simp add: encode_rows_def)
qed

lemma encode_check_ok:
  assumes "0 < D" "D < 255" "0 < E" "E < 255"
  shows "encode_check (int (rows * D)) (int (rows * E)) (int D) (int E) = 0"
  using assms by (simp add: encode_check_def signed_modulo_int_def signed_divide_int_def sgn_if)

lemma ec_encode_eq:
  assumes "0 < D" "D < 255" "0 < E" "E < 255" "length ec = rows * E"
  shows "ec_encode data (int (rows * D)) ec (int (rows * E)) (int D) (int E) =
    (0, concat (map (\<lambda>r. map (\<lambda>k. gfv (row_eval D data r k)) [0..<E]) [0..<rows]))"
proof -
  have rows: "nat (int (rows * D) sdiv int D) = rows"
    using assms(1) by (simp add: signed_divide_int_def sgn_if)
  show ?thesis
    unfolding ec_encode_def Let_def encode_check_ok [OF assms(1-4)] rows
    using encode_rows_eq [of D rows E ec data] assms(2,5) by simp
qed

lemma ec_encode_nth:
  assumes "0 < D" "D < 255" "0 < E" "E < 255" "length ec = rows * E" "r < rows" "k < E"
  shows "snd (ec_encode data (int (rows * D)) ec (int (rows * E)) (int D) (int E)) ! (r * E + k) =
    gfv (row_eval D data r k)"
  unfolding ec_encode_eq [OF assms(1-5)] using assms(6,7) by (simp add: nth_concat_blocks)

section \<open>What the decoder computes\<close>

text \<open>A received buffer: data bytes, but check symbols at the erased positions.\<close>

definition received :: "nat \<Rightarrow> nat \<Rightarrow> u8 list \<Rightarrow> (int \<times> int) list \<Rightarrow> u8 list \<Rightarrow> bool" where
  "received n rows data indexes buf \<longleftrightarrow> length buf = rows * n \<and>
     (\<forall>r<rows. \<forall>c<n. int c \<notin> fst ` set indexes \<longrightarrow> buf ! (r * n + c) = data ! (r * n + c)) \<and>
     (\<forall>r<rows. \<forall>p\<in>set indexes. GF (buf ! (r * n + nat (fst p))) = row_eval n data r (nat (snd p)))"

text \<open>The index list the parameter checks accept.\<close>

definition valid_indexes :: "nat \<Rightarrow> (int \<times> int) list \<Rightarrow> bool" where
  "valid_indexes n indexes \<longleftrightarrow>
     list_all (\<lambda>p. 0 \<le> fst p \<and> fst p < int n \<and> 0 \<le> snd p \<and> snd p < 254) indexes \<and>
     distinct (map fst indexes) \<and> distinct (map snd indexes)"

lemma decode_check_ok:
  assumes "0 < n" "n < 255" "indexes \<noteq> []" "length indexes < 255" "valid_indexes n indexes"
  shows "decode_check (int (rows * n)) (int n) indexes (int (length indexes)) = 0"
proof -
  have all: "0 \<le> fst p \<and> fst p < int n \<and> 0 \<le> snd p \<and> snd p < 254" if "p \<in> set indexes" for p
    using assms(5) that by (simp add: valid_indexes_def list_all_iff)
  have "check_indexes sel (int (length indexes)) indexes" if "sel = fst \<or> sel = snd" for sel
  proof (subst check_indexes_distinct)
    show "\<forall>p\<in>set (take (nat (int (length indexes))) indexes). 0 \<le> sel p \<and> sel p < 256"
      using all assms(2) that by fastforce
    show "distinct (map sel (take (nat (int (length indexes))) indexes))"
      using assms(5) that by (auto simp: valid_indexes_def)
  qed
  moreover have "\<not> list_ex (\<lambda>p. fst p < 0 \<or> fst p \<ge> int n \<or> snd p < 0 \<or> snd p \<ge> 254) indexes"
    using all by (force simp: list_ex_iff)
  ultimately show ?thesis
    using assms by (simp add: decode_check_def signed_modulo_int_def)
qed

text \<open>Writing a whole row, and the matrix that results.\<close>

lemma row_write_cell:
  assumes "r < n" "length m = n * n"
  shows "length (for_up 0 n (\<lambda>c m. m[r * n + c := f c]) m) = n * n \<and>
    (\<forall>r' c. c < n \<longrightarrow> cell n (for_up 0 n (\<lambda>c m. m[r * n + c := f c]) m) r' c =
      (if r' = r \<and> c < n then f c else cell n m r' c))"
  by (rule for_up_rule [where P = "\<lambda>k t. length t = n * n \<and> (\<forall>r' c. c < n \<longrightarrow>
      cell n t r' c = (if r' = r \<and> c < k then f c else cell n m r' c))"])
    (use assms in \<open>auto simp: cell_update [OF assms(1)] less_Suc_eq\<close>)

lemma decode_matrix_cell:
  assumes "valid_indexes n indexes" "n < 255" "k \<le> length indexes"
  shows "length (decode_matrix n indexes k) = n * n \<and>
    (\<forall>r c. r < n \<longrightarrow> c < n \<longrightarrow>
      ((\<forall>p\<in>set (take k indexes). int r \<noteq> fst p) \<longrightarrow>
         cell n (decode_matrix n indexes k) r c = (if r = c then 1 else 0)) \<and>
      (\<forall>p\<in>set (take k indexes). int r = fst p \<longrightarrow>
         cell n (decode_matrix n indexes k) r c = from_exp (snd p) ^ c))"
  using assms(3)
proof (induction k)
  case 0
  then show ?case by (simp add: decode_matrix_def mat_identity_cell)
next
  case (Suc k)
  let ?m = "decode_matrix n indexes k" and ?p = "indexes ! k"
  have k: "k < length indexes" and IH: "length ?m = n * n" using Suc by auto
  then have p: "0 \<le> fst ?p" "fst ?p < int n"
    using assms(1) by (auto simp: valid_indexes_def list_all_length)
  define row where "row = nat (fst ?p)"
  have row: "row < n" "int row = fst ?p" using p by (auto simp: row_def)
  have step: "decode_matrix n indexes (Suc k) =
      for_up 0 n (\<lambda>c m. m[row * n + c := from_exp (snd ?p) ^ c]) ?m"
    unfolding row_def decode_matrix_def
    by (simp add: for_up_Suc, rule for_up_cong) (use assms(2) in \<open>simp add: gf_pow_eq\<close>)
  have new: "int row \<noteq> fst q" if q: "q \<in> set (take k indexes)" for q
  proof -
    obtain j where "j < k" "q = indexes ! j" using q k by (auto simp: in_set_conv_nth)
    then show ?thesis using assms(1) k row
      by (auto simp: valid_indexes_def distinct_conv_nth)
  qed
  have tk: "set (take (Suc k) indexes) = insert ?p (set (take k indexes))"
    using k by (simp add: take_Suc_conv_app_nth)
  show ?case
    unfolding step using row_write_cell [OF row(1) IH, of "\<lambda>c. from_exp (snd ?p) ^ c"] Suc new row
    by (auto simp: tk)
qed

text \<open>The received row is the decode matrix times the data row.\<close>

lemma received_row:
  assumes "valid_indexes n indexes" "n < 255" "received n rows data indexes buf" "r < rows" "c < n"
  shows "GF (buf ! (r * n + c)) =
    (\<Sum>j<n. cell n (decode_matrix n indexes (length indexes)) c j * GF (data ! (r * n + j)))"
proof (cases "int c \<in> fst ` set indexes")
  case True
  then obtain p where p: "p \<in> set indexes" "int c = fst p" by auto
  then have "GF (buf ! (r * n + c)) = row_eval n data r (nat (snd p))"
    using assms(3,4) unfolding received_def by (metis nat_int)
  moreover have "0 \<le> snd p" using assms(1) p by (simp add: valid_indexes_def list_all_iff)
  ultimately show ?thesis
    using decode_matrix_cell [OF assms(1,2) order_refl] p assms(5)
    by (simp add: row_eval_def mult.commute)
next
  case False
  then have "cell n (decode_matrix n indexes (length indexes)) c j = (if c = j then 1 else 0)"
    if "j < n" for j
    using decode_matrix_cell [OF assms(1,2) order_refl] that assms(5) by force
  moreover have "buf ! (r * n + c) = data ! (r * n + c)"
    using assms False by (simp add: received_def)
  ultimately show ?thesis using assms(5)
    by (simp add: if_distrib [of "\<lambda>x. x * _"] sum.delta cong: if_cong)
qed

lemma inverse_row:
  assumes "length A = n * n" "pivots_ok A n" "a < n"
    and "\<And>c. c < n \<Longrightarrow> x c = (\<Sum>j<n. cell n A c j * d j)"
  shows "(\<Sum>c<n. x c * cell n (mat_inverse A n) a c) = (d a :: gf)"
proof -
  let ?V = "cell n (mat_inverse A n)"
  have "(\<Sum>c<n. x c * ?V a c) = (\<Sum>c<n. \<Sum>j<n. ?V a c * cell n A c j * d j)"
    using assms(4) by (intro sum.cong) (simp_all add: sum_distrib_right sum_distrib_left mult_ac)
  also have "\<dots> = (\<Sum>j<n. \<Sum>c<n. ?V a c * cell n A c j * d j)" by (rule sum.swap)
  also have "\<dots> = (\<Sum>j<n. mprod n (mat_inverse A n) A a j * d j)"
    by (simp add: mprod_def sum_distrib_right)
  also have "\<dots> = (\<Sum>j<n. if a = j then d j else 0)"
    using mat_inverse_left(2) [OF assms(1,2,3)] by (intro sum.cong) auto
  finally show ?thesis using assms(3) by simp
qed

text \<open>Writing at the erased positions of one row.\<close>

lemma row_patch:
  assumes "r < rows" "length buf = rows * n" "\<And>i. i < k \<Longrightarrow> a i < n"
    and "\<And>i. i < k \<Longrightarrow> w i = f (a i)"
  shows "length (for_up 0 k (\<lambda>i b. b[r * n + a i := w i]) buf) = rows * n \<and>
    (\<forall>r' c. c < n \<longrightarrow> cell n (for_up 0 k (\<lambda>i b. b[r * n + a i := w i]) buf) r' c =
      (if r' = r \<and> c \<in> a ` {..<k} then f c else cell n buf r' c))"
  by (rule for_up_rule [where P = "\<lambda>k t. length t = rows * n \<and> (\<forall>r' c. c < n \<longrightarrow>
      cell n t r' c = (if r' = r \<and> c \<in> a ` {..<k} then f c else cell n buf r' c))"])
    (use assms in \<open>auto simp: cell_update [OF assms(1)] lessThan_Suc\<close>)

lemma list_eq_cells:
  assumes "length xs = rows * n" "length ys = rows * n"
    and "\<And>r c. r < rows \<Longrightarrow> c < n \<Longrightarrow> cell n xs r c = cell n ys r c"
  shows "xs = ys"
proof (rule nth_equalityI)
  fix i assume "i < length xs"
  then have i: "i < rows * n" using assms(1) by simp
  then have "0 < n" by (cases n) auto
  then have "i mod n < n" "i div n < rows" using i by (auto simp: less_mult_imp_div_less)
  from assms(3) [OF this(2,1)] show "xs ! i = ys ! i" by (simp add: cell_def)
qed (use assms in simp)

lemma decode_multipliers_nth:
  "k < count \<Longrightarrow> i < n \<Longrightarrow> decode_multipliers mat n indexes count ! (k * n + i) =
     multiplier (mat ! (nat (fst (indexes ! k)) * n + i))"
  unfolding decode_multipliers_def by (subst nth_concat_blocks) simp_all

lemma decode_row_correct:
  assumes "valid_indexes n indexes" "n < 255" and rcv: "received n rows data indexes buf"
    and piv: "pivots_ok (decode_matrix n indexes (length indexes)) n"
    and r: "r < rows" and len: "length b = rows * n"
    and same: "\<And>c. c < n \<Longrightarrow> cell n b r c = cell n buf r c"
  defines "M \<equiv> decode_multipliers (mat_inverse (decode_matrix n indexes (length indexes)) n) n
    indexes (length indexes)"
  shows "length (decode_row M n indexes (length indexes) (r * n) b) = rows * n \<and>
    (\<forall>r' c. c < n \<longrightarrow> cell n (decode_row M n indexes (length indexes) (r * n) b) r' c =
       (if r' = r then data ! (r * n + c) else cell n b r' c))"
proof -
  let ?A = "decode_matrix n indexes (length indexes)"
  define a where "a i = nat (fst (indexes ! i))" for i
  define w where "w i = gfv (dot_symbol M (i * n) n b (r * n))" for i
  have a: "a i < n" if "i < length indexes" for i
    using assms(1) that by (auto simp: a_def valid_indexes_def list_all_length nat_less_iff)
  have lenA: "length ?A = n * n" using decode_matrix_cell [OF assms(1,2) order_refl] by simp
  have w: "w i = data ! (r * n + a i)" if i: "i < length indexes" for i
  proof -
    have "dot_symbol M (i * n) n b (r * n) =
        (\<Sum>c<n. GF (b ! (r * n + c)) * cell n (mat_inverse ?A n) (a i) c)"
      unfolding cell_def by (rule dot_symbol_sum) (simp add: M_def decode_multipliers_nth i a_def)
    also have "\<dots> = GF (data ! (r * n + a i))"
      by (rule inverse_row [OF lenA piv a [OF i]])
        (use same received_row [OF assms(1,2) rcv r] in \<open>simp add: cell_def\<close>)
    finally show ?thesis by (simp add: w_def)
  qed
  have row: "decode_row M n indexes (length indexes) (r * n) b =
      for_up 0 (length indexes) (\<lambda>i b. b[r * n + a i := w i]) b"
    unfolding decode_row_def Let_def by (rule for_up_cong) (simp add: a_def w_def)
  have kept: "cell n b r c = data ! (r * n + c)" if "c < n" "c \<notin> a ` {..<length indexes}" for c
  proof -
    have "int c \<notin> fst ` set indexes"
    proof
      assume "int c \<in> fst ` set indexes"
      then obtain i where i: "i < length indexes" "fst (indexes ! i) = int c"
        by (auto simp: in_set_conv_nth)
      then have "a i = c" by (simp add: a_def)
      then show False using that(2) i(1) by blast
    qed
    then show ?thesis using rcv r that(1) same by (simp add: received_def cell_def)
  qed
  show ?thesis
    unfolding row
    using row_patch [OF r len, of "length indexes" a w "\<lambda>c. data ! (r * n + c)"] a w kept by auto
qed

lemma ec_decode_correct:
  assumes "0 < n" "n < 255" "indexes \<noteq> []" "length indexes < 255" "valid_indexes n indexes"
    and "length data = rows * n" and rcv: "received n rows data indexes buf"
    and piv: "pivots_ok (decode_matrix n indexes (length indexes)) n"
  shows "ec_decode buf (int (rows * n)) (int n) indexes (int (length indexes)) = (0, data)"
proof -
  define M where "M = decode_multipliers (mat_inverse (decode_matrix n indexes (length indexes)) n) n
    indexes (length indexes)"
  let ?body = "\<lambda>r (dataIndex, buf). (dataIndex + n, decode_row M n indexes (length indexes) dataIndex buf)"
  let ?P = "\<lambda>r (p, b). p = r * n \<and> length b = rows * n \<and>
    (\<forall>r' c. r' < rows \<longrightarrow> c < n \<longrightarrow> cell n b r' c = (if r' < r then cell n data r' c else cell n buf r' c))"
  have rows: "nat (int (rows * n) sdiv int n) = rows"
    using assms(1) by (simp add: signed_divide_int_def sgn_if)
  have "?P rows (for_up 0 rows ?body (0, buf))"
  proof (rule for_up_rule [where P = ?P])
    show "?P 0 (0, buf)" using rcv by (auto simp: received_def)
  next
    fix r t
    assume r: "r < rows" and P: "?P r t"
    obtain p b where t: "t = (p, b)" by (cases t)
    have len: "length b = rows * n" and b: "p = r * n"
      "\<And>r' c. r' < rows \<Longrightarrow> c < n \<Longrightarrow> cell n b r' c = (if r' < r then cell n data r' c else cell n buf r' c)"
      using P by (auto simp: t)
    have "cell n b r c = cell n buf r c" if "c < n" for c using b(2) [OF r that] by simp
    note decode_row_correct [OF assms(5,2) rcv piv r len this, folded M_def]
    then show "?P (Suc r) (?body r t)" using b by (auto simp: t less_Suc_eq cell_def)
  qed simp
  then have "decode_rows M n indexes (length indexes) rows buf = data"
    unfolding decode_rows_def using assms(6)
    by (intro list_eq_cells [of _ rows n]) (auto split: prod.splits)
  then show ?thesis
    unfolding ec_decode_def Let_def decode_check_ok [OF assms(1-5)] rows M_def by simp
qed

section \<open>Round trip\<close>

text \<open>The buffer the caller builds: check symbol \<open>snd p\<close> in place of data column \<open>fst p\<close>.\<close>

definition erase_cells :: "nat \<Rightarrow> nat \<Rightarrow> nat \<Rightarrow> u8 list \<Rightarrow> u8 list \<Rightarrow> (int \<times> int) list \<Rightarrow> u8 list" where
  "erase_cells n E rows data ec indexes =
     concat (map (\<lambda>r. map (\<lambda>c. case map_of indexes (int c) of
         None \<Rightarrow> data ! (r * n + c)
       | Some k \<Rightarrow> ec ! (r * E + nat k)) [0..<n]) [0..<rows])"

lemma received_erase_cells:
  assumes "0 < n" "n < 255" "0 < E" "E < 255" "length ec = rows * E"
    and "valid_indexes n indexes" "\<forall>p\<in>set indexes. snd p < int E"
  shows "received n rows data indexes (erase_cells n E rows data
     (snd (ec_encode data (int (rows * n)) ec (int (rows * E)) (int n) (int E))) indexes)"
proof -
  let ?ec = "snd (ec_encode data (int (rows * n)) ec (int (rows * E)) (int n) (int E))"
  have cell: "erase_cells n E rows data ?ec indexes ! (r * n + c) =
      (case map_of indexes (int c) of None \<Rightarrow> data ! (r * n + c) | Some k \<Rightarrow> ?ec ! (r * E + nat k))"
    if "r < rows" "c < n" for r c
    using that unfolding erase_cells_def by (subst nth_concat_blocks) (simp_all cong: option.case_cong)
  have len: "length (erase_cells n E rows data ?ec indexes) = rows * n"
    unfolding erase_cells_def by (rule length_concat_blocks) simp
  have "GF (erase_cells n E rows data ?ec indexes ! (r * n + nat (fst p))) = row_eval n data r (nat (snd p))"
    if r: "r < rows" and p: "p \<in> set indexes" for r p
  proof -
    have b: "0 \<le> fst p" "nat (fst p) < n" "0 \<le> snd p" "nat (snd p) < E"
      using assms(6,7) p unfolding valid_indexes_def list_all_iff
      by (auto simp: nat_less_iff dest!: bspec)
    have "map_of indexes (fst p) = Some (snd p)"
      using assms(6) p by (simp add: valid_indexes_def)
    then show ?thesis
      using cell [OF r b(2)] ec_encode_nth [OF assms(1-5) r b(4)] b by simp
  qed
  moreover have "map_of indexes (int c) = None" if "int c \<notin> fst ` set indexes" for c
    using that by (simp add: map_of_eq_None_iff)
  ultimately show ?thesis using len cell by (simp add: received_def)
qed

section \<open>One erasure never meets a zero pivot\<close>

text \<open>
  With one row replaced, every other row is a unit row. The forward pass clears entry \<open>i\<close> of
  the replaced row for each \<open>i < c\<close> and leaves its other entries, so the pivots are ones and
  the power at \<open>c\<close>.
\<close>

definition unit_rows :: "nat \<Rightarrow> nat \<Rightarrow> (nat \<Rightarrow> gf) \<Rightarrow> gf list \<times> gf list \<Rightarrow> bool" where
  "unit_rows n c f st \<longleftrightarrow> sized n st \<and>
     (\<forall>r j. r < n \<longrightarrow> j < n \<longrightarrow> r \<noteq> c \<longrightarrow> cell n (fst st) r j = (if r = j then 1 else 0)) \<and>
     (\<forall>j. c \<le> j \<longrightarrow> j < n \<longrightarrow> cell n (fst st) c j = f j)"

lemma forward_row_unit:
  assumes "r < n" "i < r" "unit_rows n c f st"
  shows "unit_rows n c f (forward_row n i r st)"
proof -
  obtain m v m' v' where st: "st = (m, v)" and st': "forward_row n i r (m, v) = (m', v')"
    by (metis prod.exhaust)
  have sz: "length m = n * n" "length v = n * n" using assms(3) by (auto simp: unit_rows_def sized_def st)
  note cells = forward_row_cell [OF assms(1,2) sz st']
  have unit: "cell n m a j = (if a = j then 1 else 0)" if "a < n" "j < n" "a \<noteq> c" for a j
    using assms(3) that by (simp add: unit_rows_def st)
  have tail: "cell n m c j = f j" if "c \<le> j" "j < n" for j
    using assms(3) that by (simp add: unit_rows_def st)
  have i: "i < n" using assms by simp
  have keep: "cell n m' a j = (if a = j then 1 else 0)" if "a < n" "j < n" "a \<noteq> c" for a j
  proof (cases "a = r")
    case True
    then have "cell n m r i = 0" using unit [of r i] assms(1,2) i that by simp
    then show ?thesis using cells(3) [OF that(2), of a] unit [OF that] True by auto
  qed (use cells(3) [OF that(2), of a] unit [OF that] in simp)
  have "cell n m' c j = f j" if "c \<le> j" "j < n" for j
  proof (cases "c = r")
    case True
    then have "i \<noteq> c" "j \<noteq> i" using assms(2) that by auto
    then show ?thesis using cells(3) [OF that(2), of c] unit [OF i that(2)] tail [OF that] by auto
  qed (use cells(3) [OF that(2), of c] tail [OF that] in simp)
  then show ?thesis using cells(1,2) keep by (simp add: unit_rows_def sized_def st st')
qed

lemma mat_forward_unit:
  "unit_rows n c f st \<Longrightarrow> unit_rows n c f (mat_forward n st)"
  unfolding mat_forward_def
  by (rule for_up_rule [where P = "\<lambda>_. unit_rows n c f"], simp_all)
    (rule for_up_rule [where P = "\<lambda>_. unit_rows n c f"], auto intro: forward_row_unit)

lemma from_exp_nonzero: "from_exp e \<noteq> 0"
proof -
  have "gfv (from_exp e) \<noteq> 0" by (simp add: from_exp_gx gx_nonzero)
  then show ?thesis by auto
qed

lemma single_erasure_pivots:
  assumes "c < n" "0 \<le> e" "e < 254" "n < 255"
  shows "pivots_ok (decode_matrix n [(int c, e)] 1) n"
proof -
  let ?A = "decode_matrix n [(int c, e)] 1"
  have valid: "valid_indexes n [(int c, e)]" using assms by (simp add: valid_indexes_def)
  have "unit_rows n c (\<lambda>j. from_exp e ^ j) (?A, mat_identity n)"
    using decode_matrix_cell [OF valid assms(4), of 1] assms(1)
    by (auto simp: unit_rows_def sized_def mat_identity_cell)
  then have "unit_rows n c (\<lambda>j. from_exp e ^ j) (mat_forward n (?A, mat_identity n))"
    by (rule mat_forward_unit)
  then have "cell n (fst (mat_forward n (?A, mat_identity n))) i i = (if i = c then from_exp e ^ c else 1)"
    if "i < n" for i
    using that by (auto simp: unit_rows_def)
  then show ?thesis
    by (simp add: pivots_ok_def pivots_def list_all_iff image_iff from_exp_nonzero flip: cell_def)
      (auto simp: from_exp_nonzero split: if_splits)
qed

section \<open>Two blocks the receiver cannot tell apart\<close>

text \<open>
  With 14 data columns and 6 check symbols, the data row \<open>twin_row\<close> and the zero row have
  the same check symbols 0, 3 and 5 and differ in the columns 0, 1 and 4 only.
\<close>

lemma generator_power: "from_exp 1 ^ k = GF (value_table ! Suc (k mod 255))"
  using from_exp_power [of k] value_table_gx [of "k mod 255"] from_exp_of_nat [of k] gx_mod [of k]
  by simp

definition twin_row :: "u8 list" where
  "twin_row = [1, 16, 0, 0, 17, 0, 0, 0, 0, 0, 0, 0, 0, 0]"

lemma row_eval_zero: "row_eval n (replicate n 0) 0 k = 0"
  by (simp add: row_eval_def)

lemma gf_generated: "GF 16 = from_exp 1 ^ 4" "GF 17 = from_exp 1 ^ 100"
  by (simp_all add: generator_power value_table_def)

lemma row_eval_twin:
  "row_eval 14 twin_row 0 k = 1 + from_exp 1 ^ (4 + k) + from_exp 1 ^ (100 + k * 4)"
proof -
  have "{..<14} = {0, 1, 2, 3, 4, 5, 6, 7, 8, 9, 10, 11, 12, 13 :: nat}"
    by (simp add: set_eq_iff) presburger
  then show ?thesis unfolding row_eval_def
    by (simp add: twin_row_def gf_generated from_exp_power [of k] add.assoc flip: power_add power_mult)
qed

lemma row_eval_twin_zero: "k \<in> {0, 3, 5} \<Longrightarrow> row_eval 14 twin_row 0 k = 0"
  by (auto simp: row_eval_twin generator_power value_table_def plus_gf_def gf_add_def one_gf_def zero_gf_def simp del: gf_fold)

lemma twin_rows:
  defines "idx \<equiv> [(0, 0), (1, 3), (4, 5)]" and "ec \<equiv> replicate 6 0"
  shows "replicate 14 0 \<noteq> twin_row"
    and "erase_cells 14 6 1 twin_row (snd (ec_encode twin_row 14 ec 6 14 6)) idx =
      erase_cells 14 6 1 (replicate 14 0) (snd (ec_encode (replicate 14 0) 14 ec 6 14 6)) idx"
proof -
  show "replicate 14 0 \<noteq> twin_row" by (simp add: twin_row_def numeral_eq_Suc)
  have ec: "snd (ec_encode d 14 ec 6 14 6) ! k = gfv (row_eval 14 d 0 k)" if "k < 6" for d k
    using ec_encode_nth [of 14 6 ec 1 0 k d] that by (simp add: ec_def)
  have same: "twin_row ! c = 0" if "c < 14" "int c \<notin> {0, 1, 4}" for c
  proof -
    have "c \<in> {2, 3, 5, 6, 7, 8, 9, 10, 11, 12, 13}" using that by simp presburger
    then show ?thesis by (auto simp: twin_row_def)
  qed
  show "erase_cells 14 6 1 twin_row (snd (ec_encode twin_row 14 ec 6 14 6)) idx =
      erase_cells 14 6 1 (replicate 14 0) (snd (ec_encode (replicate 14 0) 14 ec 6 14 6)) idx"
    unfolding erase_cells_def idx_def
    by (auto simp: ec row_eval_twin_zero row_eval_zero same intro!: map_cong)
qed

end
