(* ===== verification/ErasureVector.thy ===== *)
theory ErasureVector
  imports ErasureCode
begin

text \<open>
  The byte-vector instructions used by the SSSE3 and AVX2 coders of
  \<^verbatim>\<open>erasure_coding/erasure_coding.cpp\<close>, and the vector kernel: a register is the list of its
  bytes, lowest first, and the intrinsics are the processor's operations on it. What the
  kernel needs of the shuffle instruction is the locale \<open>byte_shuffle\<close>, interpreted for both
  register widths.
\<close>

section \<open>Vector instructions\<close>

definition mm_and :: "u8 list \<Rightarrow> u8 list \<Rightarrow> u8 list" where
  "mm_and a b = map2 (AND) a b"

definition mm_xor :: "u8 list \<Rightarrow> u8 list \<Rightarrow> u8 list" where
  "mm_xor a b = map2 (XOR) a b"

text \<open>
  \<^verbatim>\<open>srli_epi64\<close> shifts each group of eight bytes right as one number: the low bits of a byte
  go to the byte before it in the group. Here for shifts below 8.
\<close>

definition mm_srli_epi64 :: "u8 list \<Rightarrow> nat \<Rightarrow> u8 list" where
  "mm_srli_epi64 a n = map (\<lambda>k. drop_bit n (a ! k) OR
     (if k mod 8 < 7 then push_bit (8 - n) (a ! (k + 1)) else 0)) [0..<length a]"

definition mm_shuffle_epi8 :: "u8 list \<Rightarrow> u8 list \<Rightarrow> u8 list" where
  "mm_shuffle_epi8 a b = map (\<lambda>j. if bit (b ! j) 7 then 0 else a ! unat (b ! j AND 0x0f)) [0..<16]"

text \<open>The 256-bit shuffle looks up in the 128-bit half of the lane.\<close>

definition mm256_shuffle_epi8 :: "u8 list \<Rightarrow> u8 list \<Rightarrow> u8 list" where
  "mm256_shuffle_epi8 a b = map (\<lambda>j. if bit (b ! j) 7 then 0
     else a ! (j div 16 * 16 + unat (b ! j AND 0x0f))) [0..<32]"

definition spread128 :: "(nat \<Rightarrow> u8) \<Rightarrow> u8 list" where
  "spread128 f = map f [0..<16]"

definition spread256 :: "(nat \<Rightarrow> u8) \<Rightarrow> u8 list" where
  "spread256 f = map (\<lambda>n. f (n mod 16)) [0..<32]"

section \<open>The kernel\<close>

type_synonym vtable = "(u8 list \<times> u8 list) list"

text \<open>The products of a coefficient with the low and with the high nibbles.\<close>

definition nibble_tables :: "((nat \<Rightarrow> u8) \<Rightarrow> u8 list) \<Rightarrow> gf \<Rightarrow> u8 list \<times> u8 list" where
  "nibble_tables spread t =
     (spread (\<lambda>n. gfv (t * GF (word_of_nat n))),
      spread (\<lambda>n. gfv (t * GF (word_of_nat (push_bit 4 n)))))"

definition simd_kernel ::
  "(u8 list \<Rightarrow> u8 list \<Rightarrow> u8 list) \<Rightarrow> nat \<Rightarrow> vtable \<Rightarrow> nat \<Rightarrow> nat \<Rightarrow> u8 list list \<Rightarrow> u8 list" where
  "simd_kernel shuffle N table base n tempLine =
     for_up 0 n (\<lambda>i s.
       let low = replicate N 0x0f;
           l = shuffle (fst (table ! (base + i))) (mm_and (tempLine ! i) low);
           h = shuffle (snd (table ! (base + i))) (mm_and (mm_srli_epi64 (tempLine ! i) 4) low)
       in mm_xor s (mm_xor l h)) (replicate N 0)"

section \<open>What the loops need of the shuffle\<close>

locale byte_shuffle =
  fixes N :: nat
    and shuffle :: "u8 list \<Rightarrow> u8 list \<Rightarrow> u8 list"
    and spread :: "(nat \<Rightarrow> u8) \<Rightarrow> u8 list"
  assumes lanes: "0 < N"
    and shuffle_length: "length (shuffle a b) = N"
    and shuffle_spread: "length b = N \<Longrightarrow> j < N \<Longrightarrow> b ! j < 16 \<Longrightarrow>
      shuffle (spread f) b ! j = f (unat (b ! j))"

lemma low_nibble: "(b :: u8) AND 15 < 16"
proof -
  have "b AND 15 \<le> 15" by (rule word_and_le1)
  then show ?thesis by (rule le_less_trans) simp
qed

lemma high_nibble:
  "(drop_bit 4 (b :: u8) OR push_bit 4 c) AND 15 = drop_bit 4 b"
  "drop_bit 4 (b :: u8) AND 15 = drop_bit 4 b"
proof -
  have m: "(15 :: u8) = mask 4" by (simp add: mask_eq_exp_minus_1)
  show "(drop_bit 4 b OR push_bit 4 c) AND 15 = drop_bit 4 b" "drop_bit 4 b AND 15 = drop_bit 4 b"
    unfolding m by (rule bit_word_eqI; auto simp: bit_simps dest: bit_imp_le_length)+
qed

lemma drop_bit_4_less: "drop_bit 4 (b :: u8) < 16"
  using low_nibble [of "drop_bit 4 b"] by (simp add: high_nibble)

lemma split_byte:
  "GF (b AND 15) + GF (word_of_nat (push_bit 4 (unat (drop_bit 4 b)))) = GF b"
proof -
  have "list_all (\<lambda>b :: u8. b AND 15 XOR word_of_nat (push_bit 4 (unat (drop_bit 4 b))) = b) all_bytes"
    by code_simp
  then have "b AND 15 XOR word_of_nat (push_bit 4 (unat (drop_bit 4 b))) = b" by (rule all_bytesD)
  then show ?thesis by (simp add: plus_gf_def gf_add_def del: gf_fold)
qed

lemma mm_length [simp]:
  "length (mm_and a b) = min (length a) (length b)" "length (mm_xor a b) = min (length a) (length b)"
  "length (mm_srli_epi64 a n) = length a"
  by (simp_all add: mm_and_def mm_xor_def mm_srli_epi64_def)

lemma mm_nth:
  "j < length a \<Longrightarrow> j < length b \<Longrightarrow> mm_and a b ! j = a ! j AND b ! j"
  "j < length a \<Longrightarrow> j < length b \<Longrightarrow> mm_xor a b ! j = a ! j XOR b ! j"
  by (simp_all add: mm_and_def mm_xor_def)

context byte_shuffle
begin

text \<open>One step of the kernel adds a column times its coefficient to every lane.\<close>

lemma nibble_lookup:
  assumes "length x = N" "j < N" "length s = N"
  defines "low \<equiv> replicate N 0x0f"
  shows "mm_xor s (mm_xor (shuffle (fst (nibble_tables spread t)) (mm_and x low))
      (shuffle (snd (nibble_tables spread t)) (mm_and (mm_srli_epi64 x 4) low))) ! j =
    gfv (GF (s ! j) + GF (x ! j) * t)"
proof -
  have lo: "mm_and x low ! j = x ! j AND 15"
    using assms by (simp add: mm_nth)
  have hi: "mm_and (mm_srli_epi64 x 4) low ! j = drop_bit 4 (x ! j)"
    using assms by (simp add: mm_nth mm_srli_epi64_def high_nibble)
  have "shuffle (fst (nibble_tables spread t)) (mm_and x low) ! j = gfv (t * GF (x ! j AND 15))"
    using shuffle_spread [of "mm_and x low" j] assms lo low_nibble [of "x ! j"]
    by (simp add: nibble_tables_def)
  moreover have "shuffle (snd (nibble_tables spread t)) (mm_and (mm_srli_epi64 x 4) low) ! j =
      gfv (t * GF (word_of_nat (push_bit 4 (unat (drop_bit 4 (x ! j))))))"
    using shuffle_spread [of "mm_and (mm_srli_epi64 x 4) low" j] assms hi drop_bit_4_less [of "x ! j"]
    by (simp add: nibble_tables_def)
  moreover have "GF (x ! j) * t = t * GF (x ! j AND 15)
      + t * GF (word_of_nat (push_bit 4 (unat (drop_bit 4 (x ! j)))))"
    by (simp only: split_byte mult.commute flip: distrib_left)
  ultimately show ?thesis
    using assms by (simp add: mm_nth shuffle_length xor.assoc)
qed

lemma simd_kernel_nth:
  assumes "\<And>i. i < n \<Longrightarrow> length (tempLine ! i) = N"
    and "\<And>i. i < n \<Longrightarrow> table ! (base + i) = nibble_tables spread (t i)"
  shows "length (simd_kernel shuffle N table base n tempLine) = N \<and>
    (\<forall>j<N. simd_kernel shuffle N table base n tempLine ! j =
       gfv (\<Sum>i<n. GF (tempLine ! i ! j) * t i))"
  unfolding simd_kernel_def Let_def
  by (rule for_up_rule [where P = "\<lambda>k s. length s = N \<and>
      (\<forall>j<N. s ! j = gfv (\<Sum>i<k. GF (tempLine ! i ! j) * t i))"])
    (use assms in \<open>auto simp: shuffle_length nibble_lookup gf.collapse\<close>)

end

lemma small_byte: "(b :: u8) < 16 \<Longrightarrow> \<not> bit b 7 \<and> b AND 15 = b \<and> unat b < 16"
proof -
  have "list_all (\<lambda>b :: u8. b < 16 \<longrightarrow> \<not> bit b 7 \<and> b AND 15 = b \<and> unat b < 16) all_bytes"
    by code_simp
  from all_bytesD [OF this, of b] show "b < 16 \<Longrightarrow> \<not> bit b 7 \<and> b AND 15 = b \<and> unat b < 16"
    by blast
qed

interpretation sse: byte_shuffle 16 mm_shuffle_epi8 spread128
  by unfold_locales
    (auto simp: mm_shuffle_epi8_def spread128_def small_byte del: upt_rec_numeral)

lemma half_lane: "j < 32 \<Longrightarrow> k < 16 \<Longrightarrow> j div 16 * 16 + k < (32 :: nat) \<and> (j div 16 * 16 + k) mod 16 = k"
  using flat_index_lt [of "j div 16" 2 k 16] by (simp add: less_mult_imp_div_less)

interpretation avx: byte_shuffle 32 mm256_shuffle_epi8 spread256
  by unfold_locales
    (auto simp: mm256_shuffle_epi8_def spread256_def small_byte half_lane)

end
