(* ===== verification/ErasureSimd.thy ===== *)
theory ErasureSimd
  imports ErasureVector
begin

text \<open>
  The loops of \<open>ec_encode_ssse3\<close>, \<open>ec_decode_ssse3\<close>, \<open>ec_encode_avx2\<close> and \<open>ec_decode_avx2\<close> of
  \<^verbatim>\<open>erasure_coding/erasure_coding.cpp\<close>. The two widths run the same loops, so the loops are
  written once, over the number of lanes \<open>N\<close>, the shuffle instruction and the layout \<open>spread\<close>
  of a 16-entry table in a register, and instantiated twice. The lemmas show that both
  versions return exactly what the scalar functions return, whatever the registers held
  before.
\<close>

section \<open>The loops\<close>

definition encode_table :: "((nat \<Rightarrow> u8) \<Rightarrow> u8 list) \<Rightarrow> nat \<Rightarrow> nat \<Rightarrow> vtable" where
  "encode_table spread D E =
     concat (map (\<lambda>r. map (\<lambda>c. nibble_tables spread (gf_pow (from_exp (int r)) (int c))) [0..<D])
       [0..<E])"

definition decode_table :: "((nat \<Rightarrow> u8) \<Rightarrow> u8 list) \<Rightarrow> gf list \<Rightarrow> nat \<Rightarrow> (int \<times> int) list \<Rightarrow> nat \<Rightarrow> vtable"
  where
  "decode_table spread mat n indexes count =
     concat (map (\<lambda>r. map (\<lambda>c. nibble_tables spread (mat ! (nat (fst (indexes ! r)) * n + c))) [0..<n])
       [0..<count])"

text \<open>\<open>tempLine[i]\<close> collects column \<open>i\<close> of \<open>count\<close> rows, byte \<open>j\<close> from row \<open>j\<close>.\<close>

definition gather :: "nat \<Rightarrow> nat \<Rightarrow> u8 list \<Rightarrow> nat \<times> u8 list list \<Rightarrow> nat \<times> u8 list list" where
  "gather n count buf = for_up 0 count (\<lambda>j. for_up 0 n (\<lambda>i (dataIndex, tempLine).
     (dataIndex + 1, tempLine[i := (tempLine ! i)[j := buf ! dataIndex]])))"

text \<open>One pass over \<open>count\<close> rows: gather, then one vector per output column, scattered.\<close>

definition encode_block ::
  "(u8 list \<Rightarrow> u8 list \<Rightarrow> u8 list) \<Rightarrow> nat \<Rightarrow> vtable \<Rightarrow> nat \<Rightarrow> nat \<Rightarrow> u8 list \<Rightarrow> nat \<Rightarrow> nat
    \<Rightarrow> nat \<times> u8 list list \<times> u8 list \<Rightarrow> nat \<times> u8 list list \<times> u8 list" where
  "encode_block shuffle N table D E data count ecIndex = (\<lambda>(dataIndex, tempLine, ec).
     let (dataIndex', tempLine') = gather D count data (dataIndex, tempLine)
     in (dataIndex', tempLine',
         for_up 0 E (\<lambda>ecSubIndex ec.
           let s = simd_kernel shuffle N table (ecSubIndex * D) D tempLine'
           in for_up 0 count (\<lambda>n ec. ec[ecIndex + n * E + ecSubIndex := s ! n]) ec) ec))"

function encode_blocks ::
  "(u8 list \<Rightarrow> u8 list \<Rightarrow> u8 list) \<Rightarrow> nat \<Rightarrow> vtable \<Rightarrow> nat \<Rightarrow> nat \<Rightarrow> u8 list \<Rightarrow> nat \<Rightarrow> nat \<Rightarrow> nat
    \<Rightarrow> nat \<times> u8 list list \<times> u8 list \<Rightarrow> nat \<times> nat \<times> nat \<times> u8 list list \<times> u8 list" where
  "encode_blocks shuffle N table D E data rows r ecIndex st =
     (if 0 < N \<and> r + N \<le> rows
      then encode_blocks shuffle N table D E data rows (r + N) (ecIndex + E * N)
             (encode_block shuffle N table D E data N ecIndex st)
      else (r, ecIndex, st))"
  by pat_completeness auto
termination
  by (relation "measure (\<lambda>(shuffle, N, table, D, E, data, rows, r, ecIndex, st). rows - r)") auto

declare encode_blocks.simps [simp del]

definition simd_encode_rows ::
  "(u8 list \<Rightarrow> u8 list \<Rightarrow> u8 list) \<Rightarrow> nat \<Rightarrow> vtable \<Rightarrow> u8 list list \<Rightarrow> nat \<Rightarrow> nat \<Rightarrow> u8 list \<Rightarrow> nat
    \<Rightarrow> u8 list \<Rightarrow> u8 list" where
  "simd_encode_rows shuffle N table tempLine D E data rows ec =
     (let (r, ecIndex, st) = encode_blocks shuffle N table D E data rows 0 0 (0, tempLine, ec)
      in if r < rows
         then snd (snd (encode_block shuffle N table D E data (rows - r) ecIndex st))
         else snd (snd st))"

definition simd_encode ::
  "(u8 list \<Rightarrow> u8 list \<Rightarrow> u8 list) \<Rightarrow> ((nat \<Rightarrow> u8) \<Rightarrow> u8 list) \<Rightarrow> nat \<Rightarrow> u8 list list
    \<Rightarrow> u8 list \<Rightarrow> int \<Rightarrow> u8 list \<Rightarrow> int \<Rightarrow> int \<Rightarrow> int \<Rightarrow> int \<times> u8 list" where
  "simd_encode shuffle spread N tempLine data dataBytes ec ecBytes dataStride ecStride =
     (let code = encode_check dataBytes ecBytes dataStride ecStride in
      if code \<noteq> 0 then (code, ec)
      else (0, simd_encode_rows shuffle N (encode_table spread (nat dataStride) (nat ecStride)) tempLine
                 (nat dataStride) (nat ecStride) data (nat (dataBytes sdiv dataStride)) ec))"

text \<open>The uninitialised \<^verbatim>\<open>tempLine\<close> array is an argument of the model.\<close>

definition ec_encode_ssse3 where
  "ec_encode_ssse3 = simd_encode mm_shuffle_epi8 spread128 16"

definition ec_encode_avx2 where
  "ec_encode_avx2 = simd_encode mm256_shuffle_epi8 spread256 32"

definition decode_block ::
  "(u8 list \<Rightarrow> u8 list \<Rightarrow> u8 list) \<Rightarrow> nat \<Rightarrow> vtable \<Rightarrow> nat \<Rightarrow> (int \<times> int) list \<Rightarrow> nat \<Rightarrow> nat \<Rightarrow> nat
    \<Rightarrow> nat \<times> u8 list list \<times> u8 list \<Rightarrow> nat \<times> u8 list list \<times> u8 list" where
  "decode_block shuffle N table n indexes count lines r = (\<lambda>(dataIndex, tempLine, buf).
     let (dataIndex', tempLine') = gather n lines buf (dataIndex, tempLine)
     in (dataIndex', tempLine',
         for_up 0 count (\<lambda>i buf.
           let s = simd_kernel shuffle N table (i * n) n tempLine'
           in for_up 0 lines (\<lambda>k buf. buf[r * n + nat (fst (indexes ! i)) + k * n := s ! k]) buf) buf))"

function decode_blocks ::
  "(u8 list \<Rightarrow> u8 list \<Rightarrow> u8 list) \<Rightarrow> nat \<Rightarrow> vtable \<Rightarrow> nat \<Rightarrow> (int \<times> int) list \<Rightarrow> nat \<Rightarrow> nat \<Rightarrow> nat
    \<Rightarrow> nat \<times> u8 list list \<times> u8 list \<Rightarrow> nat \<times> nat \<times> u8 list list \<times> u8 list" where
  "decode_blocks shuffle N table n indexes count rows r st =
     (if 0 < N \<and> r + N \<le> rows
      then decode_blocks shuffle N table n indexes count rows (r + N)
             (decode_block shuffle N table n indexes count N r st)
      else (r, st))"
  by pat_completeness auto
termination
  by (relation "measure (\<lambda>(shuffle, N, table, n, indexes, count, rows, r, st). rows - r)") auto

declare decode_blocks.simps [simp del]

definition simd_decode_rows ::
  "(u8 list \<Rightarrow> u8 list \<Rightarrow> u8 list) \<Rightarrow> nat \<Rightarrow> vtable \<Rightarrow> u8 list list \<Rightarrow> nat \<Rightarrow> (int \<times> int) list \<Rightarrow> nat \<Rightarrow> nat
    \<Rightarrow> u8 list \<Rightarrow> u8 list" where
  "simd_decode_rows shuffle N table tempLine n indexes count rows buf =
     (let (r, st) = decode_blocks shuffle N table n indexes count rows 0 (0, tempLine, buf)
      in if r < rows
         then snd (snd (decode_block shuffle N table n indexes count (rows - r) r st))
         else snd (snd st))"

definition simd_decode ::
  "(u8 list \<Rightarrow> u8 list \<Rightarrow> u8 list) \<Rightarrow> ((nat \<Rightarrow> u8) \<Rightarrow> u8 list) \<Rightarrow> nat \<Rightarrow> u8 list list
    \<Rightarrow> u8 list \<Rightarrow> int \<Rightarrow> int \<Rightarrow> (int \<times> int) list \<Rightarrow> int \<Rightarrow> int \<times> u8 list" where
  "simd_decode shuffle spread N tempLine buf bytes stride indexes indexCount =
     (let code = decode_check bytes stride indexes indexCount in
      if code \<noteq> 0 then (code, buf)
      else
        let n = nat stride;
            count = nat indexCount;
            mat = mat_inverse (decode_matrix n indexes count) n
        in (0, simd_decode_rows shuffle N (decode_table spread mat n indexes count) tempLine n
                 indexes count (nat (bytes sdiv stride)) buf))"

definition ec_decode_ssse3 where
  "ec_decode_ssse3 = simd_decode mm_shuffle_epi8 spread128 16"

definition ec_decode_avx2 where
  "ec_decode_avx2 = simd_decode mm256_shuffle_epi8 spread256 32"

section \<open>The loops over rows\<close>

definition wf_lines :: "nat \<Rightarrow> nat \<Rightarrow> u8 list list \<Rightarrow> bool" where
  "wf_lines n N ls \<longleftrightarrow> length ls = n \<and> (\<forall>i<n. length (ls ! i) = N)"

lemma gather_row:
  assumes "wf_lines n N ls" "j < N"
  shows "for_up 0 n (\<lambda>i (p, ls). (p + 1, ls[i := (ls ! i)[j := buf ! p]])) (p, ls) =
    (p + n, map (\<lambda>i. (ls ! i)[j := buf ! (p + i)]) [0..<n])"
proof -
  have "for_up 0 k (\<lambda>i (p, ls). (p + 1, ls[i := (ls ! i)[j := buf ! p]])) (p, ls) =
      (p + k, map (\<lambda>i. (ls ! i)[j := buf ! (p + i)]) [0..<k] @ drop k ls)" if "k \<le> n" for k
    using that
  proof (induction k)
    case (Suc k)
    have k: "k < length ls" using Suc.prems assms(1) by (simp add: wf_lines_def)
    then have d: "drop k ls = ls ! k # drop (Suc k) ls" by (simp add: Cons_nth_drop_Suc)
    show ?case using Suc k by (simp add: for_up_Suc nth_append list_update_append d)
  qed simp
  from this [of n] show ?thesis using assms(1) by (simp add: wf_lines_def)
qed

lemma gather_eq:
  assumes "wf_lines n N ls" "count \<le> N"
  obtains ls' where "gather n count buf (p, ls) = (p + count * n, ls')" "wf_lines n N ls'"
    "\<And>i j. i < n \<Longrightarrow> j < count \<Longrightarrow> ls' ! i ! j = buf ! (p + j * n + i)"
proof -
  let ?body = "\<lambda>j. for_up 0 n (\<lambda>i (p, ls). (p + 1, ls[i := (ls ! i)[j := buf ! p]]))"
  let ?P = "\<lambda>k (q, ls). q = p + k * n \<and> wf_lines n N ls \<and>
    (\<forall>i<n. \<forall>j<k. ls ! i ! j = buf ! (p + j * n + i))"
  have "?P count (for_up 0 count ?body (p, ls))"
  proof (rule for_up_rule [where P = ?P])
    show "?P 0 (p, ls)" using assms(1) by simp
  next
    fix k t
    assume k: "k < count" and P: "?P k t"
    obtain q l where t: "t = (q, l)" by (cases t)
    have wf: "wf_lines n N l" and kN: "k < N" using P k assms(2) by (auto simp: t)
    show "?P (Suc k) (?body k t)"
      using P k assms(2) unfolding t gather_row [OF wf kN]
      by (auto simp: wf_lines_def nth_list_update less_Suc_eq add.commute)
  qed simp
  then show thesis using that by (auto simp: gather_def split: prod.splits)
qed

text \<open>Scattering a register down one column.\<close>

lemma scatter_column:
  assumes "c < n" "r + count \<le> rows" "length xs = rows * n"
  shows "length (for_up 0 count (\<lambda>k xs. xs[(r + k) * n + c := s ! k]) xs) = rows * n \<and>
    (\<forall>r' c'. c' < n \<longrightarrow>
      cell n (for_up 0 count (\<lambda>k xs. xs[(r + k) * n + c := s ! k]) xs) r' c' =
      (if c' = c \<and> r \<le> r' \<and> r' < r + count then s ! (r' - r) else cell n xs r' c'))"
proof (rule for_up_rule [where P = "\<lambda>k t. length t = rows * n \<and> (\<forall>r' c'. c' < n \<longrightarrow>
    cell n t r' c' = (if c' = c \<and> r \<le> r' \<and> r' < r + k then s ! (r' - r) else cell n xs r' c'))"])
  fix k t
  assume k: "k < count" and P: "length t = rows * n \<and> (\<forall>r' c'. c' < n \<longrightarrow>
    cell n t r' c' = (if c' = c \<and> r \<le> r' \<and> r' < r + k then s ! (r' - r) else cell n xs r' c'))"
  have "cell n (t[(r + k) * n + c := s ! k]) r' c' = (if r' = r + k \<and> c' = c then s ! k else cell n t r' c')"
    if "c' < n" for r' c'
    using cell_update [of "r + k" rows c n c' t "s ! k" r'] assms(1,2) k P that by simp
  then show "length (t[(r + k) * n + c := s ! k]) = rows * n \<and> (\<forall>r' c'. c' < n \<longrightarrow>
    cell n (t[(r + k) * n + c := s ! k]) r' c' =
      (if c' = c \<and> r \<le> r' \<and> r' < r + Suc k then s ! (r' - r) else cell n xs r' c'))"
    using P by auto
qed (use assms in auto)

text \<open>
  Writing the values \<open>w 0, w 1, ...\<close> at the columns \<open>a 0, a 1, ...\<close> of one row, in order.
\<close>

definition patched :: "nat \<Rightarrow> (nat \<Rightarrow> nat) \<Rightarrow> (nat \<Rightarrow> u8) \<Rightarrow> (nat \<Rightarrow> u8) \<Rightarrow> nat \<Rightarrow> u8" where
  "patched k a w f = fold (\<lambda>i f. f(a i := w i)) [0..<k] f"

lemma patched_Suc: "patched (Suc k) a w f = (patched k a w f)(a k := w k)"
  by (simp add: patched_def)

lemma patched_cong: "(\<And>i. i < k \<Longrightarrow> w i = w' i) \<Longrightarrow> patched k a w f = patched k a w' f"
  unfolding patched_def by (rule fold_cong) auto

lemma patched_local: "f c = g c \<Longrightarrow> patched k a w f c = patched k a w g c"
  by (induction k) (auto simp: patched_Suc, simp_all add: patched_def)

lemma patched_run: "c < k \<Longrightarrow> patched k (\<lambda>i. i) w f c = w c"
  by (induction k) (auto simp: patched_Suc less_Suc_eq patched_def)

lemma scatter_columns:
  fixes S :: "nat \<Rightarrow> u8 list"
  assumes "\<And>i. i < m \<Longrightarrow> a i < n" "r + count \<le> rows" "length xs = rows * n"
  defines "out \<equiv> for_up 0 m (\<lambda>i. for_up 0 count (\<lambda>k xs. xs[(r + k) * n + a i := S i ! k])) xs"
  shows "length out = rows * n \<and> (\<forall>r' c. c < n \<longrightarrow> cell n out r' c =
    (if r \<le> r' \<and> r' < r + count then patched m a (\<lambda>i. S i ! (r' - r)) (cell n xs r') c
     else cell n xs r' c))"
  unfolding out_def
proof (rule for_up_rule [where P = "\<lambda>m t. length t = rows * n \<and> (\<forall>r' c. c < n \<longrightarrow> cell n t r' c =
    (if r \<le> r' \<and> r' < r + count then patched m a (\<lambda>i. S i ! (r' - r)) (cell n xs r') c
     else cell n xs r' c))"])
  fix i t
  assume i: "i < m" and P: "length t = rows * n \<and> (\<forall>r' c. c < n \<longrightarrow> cell n t r' c =
    (if r \<le> r' \<and> r' < r + count then patched i a (\<lambda>i. S i ! (r' - r)) (cell n xs r') c
     else cell n xs r' c))"
  note scatter_column [OF assms(1) [OF i] assms(2), of t "S i"]
  then show "length (for_up 0 count (\<lambda>k xs. xs[(r + k) * n + a i := S i ! k]) t) = rows * n \<and>
    (\<forall>r' c. c < n \<longrightarrow> cell n (for_up 0 count (\<lambda>k xs. xs[(r + k) * n + a i := S i ! k]) t) r' c =
    (if r \<le> r' \<and> r' < r + count then patched (Suc i) a (\<lambda>i. S i ! (r' - r)) (cell n xs r') c
     else cell n xs r' c))"
    using P by (auto simp: patched_Suc)
qed (use assms(3) in \<open>auto simp: patched_def\<close>)

section \<open>Blocks of rows\<close>

lemma encode_table_nth:
  "D < 255 \<Longrightarrow> k < E \<Longrightarrow> i < D \<Longrightarrow>
   encode_table spread D E ! (k * D + i) = nibble_tables spread (from_exp (int k) ^ i)"
  unfolding encode_table_def by (subst nth_concat_blocks) (simp_all add: gf_pow_eq)

lemma decode_table_nth:
  "k < count \<Longrightarrow> i < n \<Longrightarrow>
   decode_table spread mat n indexes count ! (k * n + i) =
     nibble_tables spread (mat ! (nat (fst (indexes ! k)) * n + i))"
  unfolding decode_table_def by (subst nth_concat_blocks) simp_all

lemma exact_rows:
  assumes "0 < stride" "bytes smod stride = 0"
  shows "nat (bytes sdiv stride) * nat stride = nat bytes"
proof -
  have "bytes sdiv stride * stride = bytes"
    using sdiv_mult_smod_eq [of bytes stride] assms(2) by simp
  then show ?thesis
    using assms(1) by (metis mult.commute nat_mult_distrib less_imp_le)
qed

text \<open>
  State of a coder after the first \<open>r\<close> rows: \<open>r\<close> rows of \<open>D\<close> bytes are read, and the rows of
  the output before \<open>r\<close> hold the bytes \<open>spec\<close>.
\<close>

definition rows_done :: "nat \<Rightarrow> nat \<Rightarrow> nat \<Rightarrow> nat \<Rightarrow> (nat \<Rightarrow> nat \<Rightarrow> u8) \<Rightarrow> u8 list \<Rightarrow> nat
    \<Rightarrow> nat \<times> u8 list list \<times> u8 list \<Rightarrow> bool" where
  "rows_done N rows D n spec xs0 r st \<longleftrightarrow>
     fst st = r * D \<and> wf_lines D N (fst (snd st)) \<and> length (snd (snd st)) = rows * n \<and>
     (\<forall>r' c. c < n \<longrightarrow> cell n (snd (snd st)) r' c = (if r' < r then spec r' c else cell n xs0 r' c))"

text \<open>The byte the decoder computes for erased position \<open>i\<close> of row \<open>r\<close>, and the row it leaves.\<close>

definition decoded :: "gf list \<Rightarrow> nat \<Rightarrow> (int \<times> int) list \<Rightarrow> u8 list \<Rightarrow> nat \<Rightarrow> nat \<Rightarrow> u8" where
  "decoded mat n indexes buf r i =
     gfv (\<Sum>c<n. GF (cell n buf r c) * mat ! (nat (fst (indexes ! i)) * n + c))"

definition decoded_row :: "gf list \<Rightarrow> nat \<Rightarrow> (int \<times> int) list \<Rightarrow> nat \<Rightarrow> u8 list \<Rightarrow> nat \<Rightarrow> nat \<Rightarrow> u8" where
  "decoded_row mat n indexes count buf r =
     patched count (\<lambda>i. nat (fst (indexes ! i))) (decoded mat n indexes buf r) (cell n buf r)"

text \<open>The scalar decoder leaves the same rows.\<close>

lemma decode_row_cells:
  fixes mat :: "gf list"
  assumes "r < rows" "length b = rows * n" and a: "\<And>i. i < count \<Longrightarrow> nat (fst (indexes ! i)) < n"
    and row: "\<And>c. c < n \<Longrightarrow> cell n b r c = cell n buf r c"
  defines "out \<equiv> decode_row (decode_multipliers mat n indexes count) n indexes count (r * n) b"
  shows "length out = rows * n \<and> (\<forall>r' c. c < n \<longrightarrow> cell n out r' c =
    (if r' = r then decoded_row mat n indexes count buf r c else cell n b r' c))"
proof -
  let ?a = "\<lambda>i. nat (fst (indexes ! i))"
  have w: "gfv (dot_symbol (decode_multipliers mat n indexes count) (i * n) n b (r * n)) =
      decoded mat n indexes buf r i" if "i < count" for i
    using dot_symbol_sum [of n "decode_multipliers mat n indexes count" "i * n"
        "\<lambda>c. mat ! (?a i * n + c)" b "r * n"] row
    by (simp add: decode_multipliers_nth that decoded_def cell_def)
  have out: "out = for_up 0 count (\<lambda>i. for_up 0 1
      (\<lambda>k xs. xs[(r + k) * n + ?a i := [decoded mat n indexes buf r i] ! k])) b"
    unfolding out_def decode_row_def Let_def
    by (rule for_up_cong) (simp add: w for_up_def)
  have "patched count ?a (decoded mat n indexes buf r) (cell n b r) c =
      decoded_row mat n indexes count buf r c" if "c < n" for c
    unfolding decoded_row_def by (rule patched_local) (simp add: row that)
  then show ?thesis
    using scatter_columns [of count ?a n r 1 rows b "\<lambda>i. [decoded mat n indexes buf r i]", OF a] assms(1,2)
    unfolding out by (auto simp: less_Suc_eq)
qed

lemma decode_rows_cells:
  assumes "length buf = rows * n" and a: "\<And>i. i < count \<Longrightarrow> nat (fst (indexes ! i)) < n"
  shows "length (decode_rows (decode_multipliers mat n indexes count) n indexes count rows buf) = rows * n \<and>
    (\<forall>r c. r < rows \<longrightarrow> c < n \<longrightarrow>
      cell n (decode_rows (decode_multipliers mat n indexes count) n indexes count rows buf) r c =
      decoded_row mat n indexes count buf r c)"
proof -
  let ?M = "decode_multipliers mat n indexes count"
  let ?P = "\<lambda>r (p, b). p = r * n \<and> length b = rows * n \<and> (\<forall>r' c. c < n \<longrightarrow>
    cell n b r' c = (if r' < r then decoded_row mat n indexes count buf r' c else cell n buf r' c))"
  let ?body = "\<lambda>r (dataIndex, buf). (dataIndex + n, decode_row ?M n indexes count dataIndex buf)"
  have "?P rows (for_up 0 rows ?body (0, buf))"
  proof (rule for_up_rule [where P = ?P])
    fix r t
    assume r: "r < rows" and P: "?P r t"
    obtain p b where t: "t = (p, b)" by (cases t)
    have "cell n b r c = cell n buf r c" if "c < n" for c using P that by (simp add: t)
    from decode_row_cells [OF r _ a this, where mat = mat] show "?P (Suc r) (?body r t)"
      using P by (auto simp: t less_Suc_eq)
  qed (use assms(1) in auto)
  then show ?thesis by (auto simp: decode_rows_def split: prod.splits)
qed

context byte_shuffle
begin

lemma encode_block_step:
  assumes "rows_done N rows D E (\<lambda>r k. gfv (row_eval D data r k)) ec0 r st"
    and "count \<le> N" "r + count \<le> rows" "D < 255"
  shows "rows_done N rows D E (\<lambda>r k. gfv (row_eval D data r k)) ec0 (r + count)
    (encode_block shuffle N (encode_table spread D E) D E data count (r * E) st)"
proof -
  obtain ls ec where st: "st = (r * D, ls, ec)" and wf: "wf_lines D N ls"
    and len: "length ec = rows * E" and old: "\<And>r' k. k < E \<Longrightarrow>
      cell E ec r' k = (if r' < r then gfv (row_eval D data r' k) else cell E ec0 r' k)"
    using assms(1) by (cases st) (auto simp: rows_done_def)
  obtain ls' where g: "gather D count data (r * D, ls) = (r * D + count * D, ls')"
    and wf': "wf_lines D N ls'"
    and ls': "\<And>i j. i < D \<Longrightarrow> j < count \<Longrightarrow> ls' ! i ! j = data ! (r * D + j * D + i)"
    using gather_eq [OF wf assms(2)] by metis
  define S where "S k = simd_kernel shuffle N (encode_table spread D E) (k * D) D ls'" for k
  have S: "S k ! (r' - r) = gfv (row_eval D data r' k)" if "k < E" "r \<le> r'" "r' < r + count" for k r'
  proof -
    define j where "j = r' - r"
    have r': "r' = r + j" "j < count" using that by (auto simp: j_def)
    have "S k ! j = gfv (row_eval D data r' k)"
      using simd_kernel_nth [of D ls' "encode_table spread D E" "k * D" "\<lambda>i. from_exp (int k) ^ i"]
        wf' ls' encode_table_nth [OF assms(4)] that(1) r' assms(2)
      by (simp add: S_def wf_lines_def row_eval_def add_mult_distrib)
    then show ?thesis by (simp add: j_def)
  qed
  define ec' where "ec' = for_up 0 E
    (\<lambda>k. for_up 0 count (\<lambda>n ec. ec[(r + n) * E + k := S k ! n])) ec"
  have "encode_block shuffle N (encode_table spread D E) D E data count (r * E) st =
      ((r + count) * D, ls', ec')"
    by (simp add: st encode_block_def g ec'_def S_def add_mult_distrib)
  moreover have "length ec' = rows * E" and "cell E ec' r' k =
      (if r \<le> r' \<and> r' < r + count then S k ! (r' - r) else cell E ec r' k)" if "k < E" for r' k
    using scatter_columns [of E "\<lambda>k. k", OF _ assms(3) len, of S, folded ec'_def] that
    by (auto simp: patched_run)
  moreover have "length ec' = rows * E"
    using scatter_columns [of E "\<lambda>k. k", OF _ assms(3) len, of S, folded ec'_def] by simp
  ultimately show ?thesis using wf' S old by (auto simp: rows_done_def)
qed

lemma encode_blocks_step:
  assumes "rows_done N rows D E (\<lambda>r k. gfv (row_eval D data r k)) ec0 r st" "r \<le> rows"
    and D: "D < 255"
  shows "\<exists>r1 st1. encode_blocks shuffle N (encode_table spread D E) D E data rows r (r * E) st
      = (r1, r1 * E, st1) \<and> r1 \<le> rows \<and> rows < r1 + N \<and>
    rows_done N rows D E (\<lambda>r k. gfv (row_eval D data r k)) ec0 r1 st1"
  using assms(1,2)
proof (induction "rows - r" arbitrary: r st rule: less_induct)
  case less
  show ?case
  proof (cases "r + N \<le> rows")
    case True
    note blk = encode_block_step [OF less.prems(1) order_refl True D]
    have "r * E + E * N = (r + N) * E" by (simp add: algebra_simps)
    moreover have "rows - (r + N) < rows - r" using True lanes by simp
    note less.hyps [OF this blk True]
    ultimately show ?thesis
      using True lanes by (subst encode_blocks.simps) simp
  next
    case False
    then show ?thesis using less.prems lanes by (subst encode_blocks.simps) auto
  qed
qed

lemma simd_encode_rows_cells:
  fixes data :: "u8 list"
  assumes "wf_lines D N ls" "length ec = rows * E" "D < 255"
  defines "out \<equiv> simd_encode_rows shuffle N (encode_table spread D E) ls D E data rows ec"
  shows "length out = rows * E \<and>
    (\<forall>r k. r < rows \<longrightarrow> k < E \<longrightarrow> cell E out r k = gfv (row_eval D data r k))"
proof -
  let ?done = "rows_done N rows D E (\<lambda>r k. gfv (row_eval D data r k)) ec"
  have "?done 0 (0, ls, ec)" using assms(1,2) by (simp add: rows_done_def)
  from encode_blocks_step [OF this _ assms(3)] obtain r1 st1 where blocks:
    "encode_blocks shuffle N (encode_table spread D E) D E data rows 0 0 (0, ls, ec) = (r1, r1 * E, st1)"
    "r1 \<le> rows" "rows < r1 + N" "?done r1 st1"
    by auto
  have "?done rows (if r1 < rows
      then encode_block shuffle N (encode_table spread D E) D E data (rows - r1) (r1 * E) st1 else st1)"
    using encode_block_step [OF blocks(4) _ _ assms(3), of "rows - r1"] blocks(2-4) by auto
  then show ?thesis
    using blocks(1) by (auto simp: out_def simd_encode_rows_def rows_done_def split: if_splits)
qed

text \<open>The vector encoder is the scalar encoder.\<close>

lemma simd_encode_scalar:
  assumes "wf_lines (nat dataStride) N ls" "length ec = nat ecBytes"
  shows "simd_encode shuffle spread N ls data dataBytes ec ecBytes dataStride ecStride =
    ec_encode data dataBytes ec ecBytes dataStride ecStride"
proof (cases "encode_check dataBytes ecBytes dataStride ecStride = 0")
  case True
  define D E rows where "D = nat dataStride" and "E = nat ecStride" and
    "rows = nat (dataBytes sdiv dataStride)"
  have D: "D < 255" using True by (auto simp: encode_check_def D_def split: if_splits)
  have c: "0 < ecStride" "ecBytes smod ecStride = 0" "dataBytes sdiv dataStride = ecBytes sdiv ecStride"
    using True by (auto simp: encode_check_def split: if_splits)
  have len: "length ec = rows * E"
    using exact_rows [OF c(1,2)] assms(2) c(3) by (simp add: rows_def E_def)
  have "simd_encode_rows shuffle N (encode_table spread D E) ls D E data rows ec =
      encode_rows (encode_multipliers D E) D E data rows ec"
  proof (rule list_eq_cells)
    show "length (encode_rows (encode_multipliers D E) D E data rows ec) = rows * E"
      using encode_rows_eq [OF D, of rows E ec data] len
      by (simp add: length_concat_blocks [where n = E])
    fix r k assume "r < rows" "k < E"
    then show "cell E (simd_encode_rows shuffle N (encode_table spread D E) ls D E data rows ec) r k =
        cell E (encode_rows (encode_multipliers D E) D E data rows ec) r k"
      using simd_encode_rows_cells [OF assms(1) [folded D_def] len D]
        encode_rows_eq [OF D, of rows E ec data] len
      by (simp add: cell_def nth_concat_blocks)
  qed (use simd_encode_rows_cells [OF assms(1) [folded D_def] len D] in simp)
  then show ?thesis using True by (simp add: simd_encode_def ec_encode_def D_def E_def rows_def)
qed (simp add: simd_encode_def ec_encode_def)

lemma decode_block_step:
  assumes "rows_done N rows n n (decoded_row mat n indexes count buf0) buf0 r st"
    and "lines \<le> N" "r + lines \<le> rows"
    and a: "\<And>i. i < count \<Longrightarrow> nat (fst (indexes ! i)) < n"
  shows "rows_done N rows n n (decoded_row mat n indexes count buf0) buf0 (r + lines)
    (decode_block shuffle N (decode_table spread mat n indexes count) n indexes count lines r st)"
proof -
  let ?table = "decode_table spread mat n indexes count" and ?a = "\<lambda>i. nat (fst (indexes ! i))"
  obtain ls buf where st: "st = (r * n, ls, buf)" and wf: "wf_lines n N ls"
    and len: "length buf = rows * n" and old: "\<And>r' c. c < n \<Longrightarrow>
      cell n buf r' c = (if r' < r then decoded_row mat n indexes count buf0 r' c else cell n buf0 r' c)"
    using assms(1) by (cases st) (auto simp: rows_done_def)
  obtain ls' where g: "gather n lines buf (r * n, ls) = (r * n + lines * n, ls')"
    and wf': "wf_lines n N ls'"
    and ls': "\<And>i j. i < n \<Longrightarrow> j < lines \<Longrightarrow> ls' ! i ! j = buf ! (r * n + j * n + i)"
    using gather_eq [OF wf assms(2)] by metis
  define S where "S i = simd_kernel shuffle N ?table (i * n) n ls'" for i
  have S: "S i ! (r' - r) = decoded mat n indexes buf0 r' i"
    if "i < count" "r \<le> r'" "r' < r + lines" for i r'
  proof -
    define j where "j = r' - r"
    have r': "r' = r + j" "j < lines" using that by (auto simp: j_def)
    have "S i ! j = gfv (\<Sum>c<n. GF (buf ! (r * n + j * n + c)) * mat ! (?a i * n + c))"
      using simd_kernel_nth [of n ls' ?table "i * n" "\<lambda>c. mat ! (?a i * n + c)"]
        wf' ls' decode_table_nth that(1) r' assms(2)
      by (simp add: S_def wf_lines_def)
    also have "\<dots> = decoded mat n indexes buf0 r' i"
      using old [of _ r'] r' by (simp add: decoded_def cell_def add_mult_distrib)
    finally show ?thesis by (simp add: j_def)
  qed
  define buf' where "buf' = for_up 0 count
    (\<lambda>i. for_up 0 lines (\<lambda>k buf. buf[(r + k) * n + ?a i := S i ! k])) buf"
  have idx: "r * n + ?a i + k * n = (r + k) * n + ?a i" for i k
    by (simp add: algebra_simps)
  have "decode_block shuffle N ?table n indexes count lines r st = ((r + lines) * n, ls', buf')"
    by (simp add: st decode_block_def g buf'_def S_def idx) (simp add: add_mult_distrib)
  moreover note cells = scatter_columns [of count ?a, OF a assms(3) len, of S, folded buf'_def]
  have "cell n buf' r' c = decoded_row mat n indexes count buf0 r' c"
    if "c < n" "r \<le> r'" "r' < r + lines" for r' c
  proof -
    have "cell n buf' r' c = patched count ?a (\<lambda>i. S i ! (r' - r)) (cell n buf r') c"
      using cells that by simp
    also have "\<dots> = patched count ?a (decoded mat n indexes buf0 r') (cell n buf r') c"
      using S that by (simp cong: patched_cong)
    also have "\<dots> = decoded_row mat n indexes count buf0 r' c"
      unfolding decoded_row_def by (rule patched_local) (use old [OF that(1), of r'] that in simp)
    finally show ?thesis .
  qed
  ultimately show ?thesis using wf' cells old by (auto simp: rows_done_def)
qed

lemma decode_blocks_step:
  assumes "rows_done N rows n n (decoded_row mat n indexes count buf0) buf0 r st" "r \<le> rows"
    and a: "\<And>i. i < count \<Longrightarrow> nat (fst (indexes ! i)) < n"
  shows "\<exists>r1 st1. decode_blocks shuffle N (decode_table spread mat n indexes count) n indexes count
      rows r st = (r1, st1) \<and> r1 \<le> rows \<and> rows < r1 + N \<and>
    rows_done N rows n n (decoded_row mat n indexes count buf0) buf0 r1 st1"
  using assms(1,2)
proof (induction "rows - r" arbitrary: r st rule: less_induct)
  case less
  show ?case
  proof (cases "r + N \<le> rows")
    case True
    note blk = decode_block_step [OF less.prems(1) order_refl True a]
    have "rows - (r + N) < rows - r" using True lanes by simp
    note less.hyps [OF this blk True]
    then show ?thesis using True lanes by (subst decode_blocks.simps) simp
  next
    case False
    then show ?thesis using less.prems lanes by (subst decode_blocks.simps) auto
  qed
qed

lemma simd_decode_rows_cells:
  assumes "wf_lines n N ls" "length buf = rows * n"
    and a: "\<And>i. i < count \<Longrightarrow> nat (fst (indexes ! i)) < n"
  shows "length (simd_decode_rows shuffle N (decode_table spread mat n indexes count) ls n indexes
      count rows buf) = rows * n \<and>
    (\<forall>r c. r < rows \<longrightarrow> c < n \<longrightarrow> cell n (simd_decode_rows shuffle N
        (decode_table spread mat n indexes count) ls n indexes count rows buf) r c =
      decoded_row mat n indexes count buf r c)"
proof -
  let ?done = "rows_done N rows n n (decoded_row mat n indexes count buf) buf"
  let ?table = "decode_table spread mat n indexes count"
  have "?done 0 (0, ls, buf)" using assms(1,2) by (simp add: rows_done_def)
  from decode_blocks_step [OF this _ a] obtain r1 st1 where blocks:
    "decode_blocks shuffle N ?table n indexes count rows 0 (0, ls, buf) = (r1, st1)"
    "r1 \<le> rows" "rows < r1 + N" "?done r1 st1"
    by auto
  have "?done rows (if r1 < rows
      then decode_block shuffle N ?table n indexes count (rows - r1) r1 st1 else st1)"
    using decode_block_step [OF blocks(4) _ _ a, of "rows - r1"] blocks(2-4) by auto
  then show ?thesis
    using blocks(1) by (auto simp: simd_decode_rows_def rows_done_def split: if_splits)
qed

text \<open>The vector decoder is the scalar decoder.\<close>

lemma simd_decode_scalar:
  assumes "wf_lines (nat stride) N ls" "length buf = nat bytes" "nat indexCount \<le> length indexes"
  shows "simd_decode shuffle spread N ls buf bytes stride indexes indexCount =
    ec_decode buf bytes stride indexes indexCount"
proof (cases "decode_check bytes stride indexes indexCount = 0")
  case True
  define n count rows where "n = nat stride" and "count = nat indexCount" and
    "rows = nat (bytes sdiv stride)"
  define mat where "mat = mat_inverse (decode_matrix n indexes count) n"
  have c: "0 < stride" "bytes smod stride = 0"
    "\<not> list_ex (\<lambda>p. fst p < 0 \<or> fst p \<ge> stride \<or> snd p < 0 \<or> snd p \<ge> 254) (take count indexes)"
    using True by (auto simp: decode_check_def count_def split: if_splits)
  have len: "length buf = rows * n"
    using exact_rows [OF c(1,2)] assms(2) by (simp add: rows_def n_def)
  have a: "nat (fst (indexes ! i)) < n" if "i < count" for i
  proof -
    have "indexes ! i \<in> set (take count indexes)"
      using that assms(3) by (auto simp: count_def in_set_conv_nth intro!: exI [of _ i])
    then have "0 \<le> fst (indexes ! i)" "fst (indexes ! i) < stride"
      using c(3) by (auto simp: list_ex_iff not_less)
    then show ?thesis by (simp add: n_def)
  qed
  have "simd_decode_rows shuffle N (decode_table spread mat n indexes count) ls n indexes count rows buf =
      decode_rows (decode_multipliers mat n indexes count) n indexes count rows buf"
    using simd_decode_rows_cells [OF assms(1) [folded n_def] len a]
      decode_rows_cells [OF len a]
    by (intro list_eq_cells) auto
  then show ?thesis
    using True by (simp add: simd_decode_def ec_decode_def Let_def n_def count_def rows_def mat_def)
qed (simp add: simd_decode_def ec_decode_def)

end

end
