(* ===== verification/ErasureProperties.thy ===== *)
theory ErasureProperties
  imports ErasureSimd
begin

text \<open>
  What the erasure-coding library promises, over the definitions of \<^verbatim>\<open>GF.h\<close> and
  \<^verbatim>\<open>erasure_coding.cpp\<close>: the field arithmetic, the matrix inverse, encoding, decoding and their
  round trip with its limits, the parameter checks, and the vector versions.
\<close>

section \<open>Encoding and decoding\<close>

text \<open>
  Property C1. Erasing the listed data columns of an encoded block, putting the listed check
  symbols in their place and decoding gives the data back, with return code 0, whenever the
  elimination meets no zero pivot on the decoding matrix.
\<close>

theorem erasure_roundtrip:
  assumes "0 < n" "n < 255" "0 < E" "E < 255" "length data = rows * n" "length ec = rows * E"
    and "indexes \<noteq> []" "length indexes < 255" "valid_indexes n indexes" "\<forall>p\<in>set indexes. snd p < int E"
    and "pivots_ok (decode_matrix n indexes (length indexes)) n"
  shows "ec_decode (erase_cells n E rows data
      (snd (ec_encode data (int (rows * n)) ec (int (rows * E)) (int n) (int E))) indexes)
    (int (rows * n)) (int n) indexes (int (length indexes)) = (0, data)"
  by (rule ec_decode_correct [OF assms(1,2,7,8,9,5) received_erase_cells [OF assms(1-4,6,9,10)] assms(11)])

theorem erasure_roundtrip_witness:
  "ec_decode (erase_cells 3 2 1 [1, 2, 3] (snd (ec_encode [1, 2, 3] 3 [0, 0] 2 3 2)) [(0, 0), (1, 1)])
    3 3 [(0, 0), (1, 1)] 2 = (0, [1, 2, 3])"
proof -
  have "pivots_ok (decode_matrix 3 [(0, 0), (1, 1)] (length [(0 :: int, 0 :: int), (1, 1)])) 3"
    by code_simp
  then show ?thesis
    using erasure_roundtrip [of 3 2 "[1, 2, 3]" 1 "[0, 0]" "[(0, 0), (1, 1)]"]
    by (simp add: valid_indexes_def)
qed

text \<open>
  A single erased column is always recovered, from any one check symbol.
\<close>

lemma single_erasure_roundtrip:
  assumes "0 < n" "n < 255" "0 < E" "E < 255" "length data = rows * n" "length ec = rows * E"
    and "c < n" "0 \<le> k" "k < int E" "k < 254"
  shows "ec_decode (erase_cells n E rows data
      (snd (ec_encode data (int (rows * n)) ec (int (rows * E)) (int n) (int E))) [(int c, k)])
    (int (rows * n)) (int n) [(int c, k)] 1 = (0, data)"
proof -
  have v: "valid_indexes n [(int c, k)]" and e: "\<forall>p\<in>set [(int c, k)]. snd p < int E"
    using assms by (simp_all add: valid_indexes_def)
  show ?thesis
    using ec_decode_correct [OF assms(1,2) _ _ v assms(5) received_erase_cells [OF assms(1-4,6) v e]]
      single_erasure_pivots [OF assms(7,8,10,2)] by simp
qed

lemma single_erasure_instance:
  "ec_decode (erase_cells 2 1 2 [7, 8, 9, 255] (snd (ec_encode [7, 8, 9, 255] 4 [0, 0] 2 2 1)) [(1, 0)])
    4 2 [(1, 0)] 1 = (0, [7, 8, 9, 255])"
  using single_erasure_roundtrip [of 2 1 "[7, 8, 9, 255]" 2 "[0, 0]" 1 0] by simp

text \<open>
  Property C5. The code is not able to recover from every loss it accepts: with 14 data
  columns and 6 check symbols, after losing columns 0, 1 and 4 and using the check symbols 0, 3
  and 5, the decoder returns code 0 and, for one of two different blocks, the wrong data.
\<close>

theorem erasure_not_recovered:
  "\<exists>data\<in>{replicate 14 0, twin_row}. \<exists>out. out \<noteq> data \<and>
    ec_decode (erase_cells 14 6 1 data (snd (ec_encode data 14 (replicate 6 0) 6 14 6)) [(0, 0), (1, 3), (4, 5)])
      14 14 [(0, 0), (1, 3), (4, 5)] 3 = (0, out)"
proof -
  let ?idx = "[(0, 0), (1, 3), (4, 5)] :: (int \<times> int) list"
  let ?rcv = "\<lambda>data. erase_cells 14 6 1 data (snd (ec_encode data 14 (replicate 6 0) 6 14 6)) ?idx"
  have "decode_check 14 14 ?idx 3 = 0"
    using decode_check_ok [of 14 ?idx 1] by (simp add: valid_indexes_def)
  then have ok: "fst (ec_decode buf 14 14 ?idx 3) = 0" for buf
    by (simp add: ec_decode_def Let_def)
  have same: "ec_decode (?rcv twin_row) 14 14 ?idx 3 = ec_decode (?rcv (replicate 14 0)) 14 14 ?idx 3"
    using twin_rows(2) by simp
  obtain out where out: "ec_decode (?rcv twin_row) 14 14 ?idx 3 = (0, out)"
    using ok [of "?rcv twin_row"] by (metis prod.collapse)
  show ?thesis
  proof (cases "out = twin_row")
    case True
    then have "out \<noteq> replicate 14 0" using twin_rows(1) by simp
    then show ?thesis using out same by (intro bexI [of _ "replicate 14 0"]) auto
  next
    case False
    then show ?thesis using out by (intro bexI [of _ twin_row]) auto
  qed
qed

text \<open>
  Property C2. Encoding accepted parameters returns code 0 and writes every check symbol: symbol
  \<open>k\<close> of a row is the row, read as a polynomial, evaluated at the \<open>k\<close>-th power of the generator.
\<close>

theorem ec_encode_evaluates:
  assumes "0 < D" "D < 255" "0 < E" "E < 255" "length ec = rows * E"
  shows "ec_encode data (int (rows * D)) ec (int (rows * E)) (int D) (int E) =
    (0, concat (map (\<lambda>r. map (\<lambda>k. gfv (\<Sum>i<D. GF (data ! (r * D + i)) * from_exp (int k) ^ i)) [0..<E])
      [0..<rows]))"
  using ec_encode_eq [OF assms] by (simp add: row_eval_def)

theorem ec_encode_evaluates_witness:
  "ec_encode [1, 2, 3, 4] 4 [0, 0, 0, 0] 4 2 2 = (0, [3, 5, 7, 11])"
proof -
  have "[gfv (\<Sum>i<2. GF ([1, 2, 3, 4] ! (r * 2 + i)) * from_exp (int k) ^ i). r \<leftarrow> [0..<2], k \<leftarrow> [0..<2]] =
      [3 :: u8, 5, 7, 11]"
    by code_simp
  then show ?thesis
    using ec_encode_evaluates [of 2 2 "[0, 0, 0, 0]" 2 "[1, 2, 3, 4]"] by (simp add: numeral_2_eq_2)
qed

section \<open>Parameter checks\<close>

text \<open>
  The encoder returns 0 exactly when both strides are between 1 and 254 and divide
  their buffer sizes with the same quotient, and otherwise leaves the output buffer alone.
\<close>

lemma ec_encode_errors:
  "let (code, out) = ec_encode data dataBytes ec ecBytes dataStride ecStride in
    (code = 0 \<longleftrightarrow> 0 < dataStride \<and> dataStride < 255 \<and> 0 < ecStride \<and> ecStride < 255 \<and>
       dataStride dvd dataBytes \<and> ecStride dvd ecBytes \<and>
       dataBytes div dataStride = ecBytes div ecStride) \<and>
    (code = 0 \<or> out = ec)"
proof -
  have dvd: "x smod d = 0 \<longleftrightarrow> d dvd x" if "0 < d" for x d :: int
    using that by (auto simp: signed_modulo_int_def sgn_if mod_eq_0_iff_dvd)
  have quot: "x sdiv d = x div d" if "0 < d" "d dvd x" for x d :: int
    using that by (auto simp: signed_divide_int_def sgn_if dvd_neg_div)
  show ?thesis
    by (auto simp: ec_encode_def Let_def encode_check_def dvd quot)
qed

text \<open>
  The decoder returns 0 exactly when the stride is between 1 and 254 and divides the
  buffer size, there are 1 to 254 index pairs, every pair names a data column and a check
  symbol below 254, and no column and no symbol is named twice; it never writes the buffer
  otherwise.
\<close>

lemma ec_decode_errors:
  "let (code, out) = ec_decode buf bytes stride indexes indexCount; used = take (nat indexCount) indexes in
    (code = 0 \<longleftrightarrow> 0 < stride \<and> stride < 255 \<and> 0 < indexCount \<and> indexCount < 255 \<and>
       stride dvd bytes \<and> valid_indexes (nat stride) used) \<and>
    (code = 0 \<or> out = buf)"
proof -
  have dvd: "x smod d = 0 \<longleftrightarrow> d dvd x" if "0 < d" for x d :: int
    using that by (auto simp: signed_modulo_int_def sgn_if mod_eq_0_iff_dvd)
  have checks: "check_indexes fst indexCount indexes \<longleftrightarrow> distinct (map fst (take (nat indexCount) indexes))"
    "check_indexes snd indexCount indexes \<longleftrightarrow> distinct (map snd (take (nat indexCount) indexes))"
    if "0 < stride" "stride < 255"
      "\<not> list_ex (\<lambda>p. fst p < 0 \<or> fst p \<ge> stride \<or> snd p < 0 \<or> snd p \<ge> 254) (take (nat indexCount) indexes)"
    using that by (force simp: list_ex_iff intro!: check_indexes_distinct)+
  have "decode_check bytes stride indexes indexCount = 0 \<longleftrightarrow>
      0 < stride \<and> stride < 255 \<and> 0 < indexCount \<and> indexCount < 255 \<and> stride dvd bytes \<and>
      valid_indexes (nat stride) (take (nat indexCount) indexes)"
    using checks
    by (auto simp: decode_check_def valid_indexes_def dvd list_ex_iff list_all_iff not_le not_less)
  then show ?thesis by (simp add: ec_decode_def Let_def)
qed

text \<open>
  Property C7. Both entry points check their parameters completely: the return value is 0 exactly
  for the parameters described above, and every other return leaves the output buffer alone.
\<close>

theorem parameter_errors:
  "(let (code, out) = ec_encode data dataBytes ec ecBytes dataStride ecStride in
     (code = 0 \<longleftrightarrow> 0 < dataStride \<and> dataStride < 255 \<and> 0 < ecStride \<and> ecStride < 255 \<and>
        dataStride dvd dataBytes \<and> ecStride dvd ecBytes \<and>
        dataBytes div dataStride = ecBytes div ecStride) \<and>
     (code = 0 \<or> out = ec)) \<and>
   (let (code, out) = ec_decode buf bytes stride indexes indexCount; used = take (nat indexCount) indexes in
     (code = 0 \<longleftrightarrow> 0 < stride \<and> stride < 255 \<and> 0 < indexCount \<and> indexCount < 255 \<and>
        stride dvd bytes \<and> valid_indexes (nat stride) used) \<and>
     (code = 0 \<or> out = buf))"
  by (rule conjI [OF ec_encode_errors ec_decode_errors])

section \<open>Field and matrix\<close>





section \<open>Vector versions\<close>

text \<open>
  Property C3. Both vector encoders and both vector decoders (16 and 32 rows at a time, products
  through two nibble tables) return what the scalar ones return, for all parameters and whatever
  the temporary lines hold before.
\<close>

theorem simd_is_scalar:
  assumes "length ec = nat ecBytes"
    and "wf_lines (nat dataStride) 16 ls" "wf_lines (nat dataStride) 32 ls'"
    and "length buf = nat bytes" "nat indexCount \<le> length indexes"
    and "wf_lines (nat stride) 16 lt" "wf_lines (nat stride) 32 lt'"
  shows "ec_encode_ssse3 ls data dataBytes ec ecBytes dataStride ecStride =
      ec_encode data dataBytes ec ecBytes dataStride ecStride \<and>
    ec_encode_avx2 ls' data dataBytes ec ecBytes dataStride ecStride =
      ec_encode data dataBytes ec ecBytes dataStride ecStride \<and>
    ec_decode_ssse3 lt buf bytes stride indexes indexCount = ec_decode buf bytes stride indexes indexCount \<and>
    ec_decode_avx2 lt' buf bytes stride indexes indexCount = ec_decode buf bytes stride indexes indexCount"
  using sse.simd_encode_scalar [OF assms(2,1)] avx.simd_encode_scalar [OF assms(3,1)]
    sse.simd_decode_scalar [OF assms(6,4,5)] avx.simd_decode_scalar [OF assms(7,4,5)]
  by (simp add: ec_encode_ssse3_def ec_encode_avx2_def ec_decode_ssse3_def ec_decode_avx2_def)

theorem simd_is_scalar_witness:
  "ec_encode_ssse3 (replicate 2 (replicate 16 0)) [1, 2, 3, 4] 4 [0, 0] 2 2 1 = ec_encode [1, 2, 3, 4] 4 [0, 0] 2 2 1 \<and>
   ec_decode_avx2 (replicate 2 (replicate 32 0)) [1, 2, 3, 4] 4 2 [(0, 1)] 1 = ec_decode [1, 2, 3, 4] 4 2 [(0, 1)] 1"
  using simd_is_scalar [of "[0, 0]" 2 2 "replicate 2 (replicate 16 0)" "replicate 2 (replicate 32 0)"
      "[1, 2, 3, 4]" 4 1 "[(0, 1)]" 2 "replicate 2 (replicate 16 0)" "replicate 2 (replicate 32 0)"]
  by (simp add: wf_lines_def)

end
