(* ===== verification/Ripemd160.thy ===== *)
theory Ripemd160
  imports Bytes
begin

text \<open>
  \<^verbatim>\<open>ripemd160/ripemd160.cpp\<close>: RIPEMD-160 unrolled for a 32-byte input. The two lines of
  five registers are two lists; the calls of the round functions are transcribed in their
  order, each with its function, first register argument, message word and rotation (the
  other register arguments follow the first one cyclically in every call). The reference is
  the standard's definition by the permutations \<open>rho\<close> and \<open>pi\<close>, its table of shifts and a
  chaining variable that rotates at every step, over the padded message.
\<close>

section \<open>The code\<close>

definition f1 :: "u32 \<Rightarrow> u32 \<Rightarrow> u32 \<Rightarrow> u32" where "f1 x y z = x XOR y XOR z"
definition f2 :: "u32 \<Rightarrow> u32 \<Rightarrow> u32 \<Rightarrow> u32" where "f2 x y z = (x AND y) OR (NOT x AND z)"
definition f3 :: "u32 \<Rightarrow> u32 \<Rightarrow> u32 \<Rightarrow> u32" where "f3 x y z = (x OR NOT y) XOR z"
definition f4 :: "u32 \<Rightarrow> u32 \<Rightarrow> u32 \<Rightarrow> u32" where "f4 x y z = (x AND z) OR (y AND NOT z)"
definition f5 :: "u32 \<Rightarrow> u32 \<Rightarrow> u32 \<Rightarrow> u32" where "f5 x y z = x XOR (y OR NOT z)"

definition rotleft :: "u32 \<Rightarrow> nat \<Rightarrow> u32" where
  "rotleft x i = push_bit i x OR drop_bit (32 - i) x"

text \<open>\<^verbatim>\<open>Round\<close> updates the registers passed by reference, \<open>a\<close> and \<open>c\<close>.\<close>

definition Round :: "u32 \<Rightarrow> u32 \<Rightarrow> u32 \<Rightarrow> u32 \<Rightarrow> u32 \<Rightarrow> u32 \<Rightarrow> nat \<Rightarrow> u32 \<times> u32" where
  "Round a c e f x k r = (rotleft (a + f + x + k) r + e, rotleft c 10)"

datatype rop = R11 | R21 | R31 | R41 | R51 | R12 | R22 | R32 | R42 | R52

text \<open>The function and constant each of the ten round functions passes to \<^verbatim>\<open>Round\<close>.\<close>

fun rop_fun :: "rop \<Rightarrow> (u32 \<Rightarrow> u32 \<Rightarrow> u32 \<Rightarrow> u32) \<times> u32" where
  "rop_fun R11 = (f1, 0)"
| "rop_fun R21 = (f2, 0x5A827999)"
| "rop_fun R31 = (f3, 0x6ED9EBA1)"
| "rop_fun R41 = (f4, 0x8F1BBCDC)"
| "rop_fun R51 = (f5, 0xA953FD4E)"
| "rop_fun R12 = (f5, 0x50A28BE6)"
| "rop_fun R22 = (f4, 0x5C4DD124)"
| "rop_fun R32 = (f3, 0x6D703EF3)"
| "rop_fun R42 = (f2, 0x7A6D76E9)"
| "rop_fun R52 = (f1, 0)"

fun left_line :: "rop \<Rightarrow> bool" where
  "left_line R11 = True" | "left_line R21 = True" | "left_line R31 = True"
| "left_line R41 = True" | "left_line R51 = True"
| "left_line R12 = False" | "left_line R22 = False" | "left_line R32 = False"
| "left_line R42 = False" | "left_line R52 = False"

type_synonym call = "rop \<times> nat \<times> nat \<times> nat"

text \<open>One call on the five registers of its line, \<open>p\<close> the index of its first argument.\<close>

definition exec_round :: "u32 list \<Rightarrow> call \<Rightarrow> u32 list \<Rightarrow> u32 list" where
  "exec_round m = (\<lambda>(op, p, w, r) regs.
     let reg = (\<lambda>k. regs ! ((p + k) mod 5));
         (f, k) = rop_fun op;
         (a', c') = Round (reg 0) (reg 2) (reg 4) (f (reg 1) (reg 2) (reg 3)) (m ! w) k r
     in regs[p mod 5 := a', (p + 2) mod 5 := c'])"

definition exec_call :: "u32 list \<Rightarrow> call \<Rightarrow> u32 list \<times> u32 list \<Rightarrow> u32 list \<times> u32 list" where
  "exec_call m c = (\<lambda>(s1, s2).
     if left_line (fst c) then (exec_round m c s1, s2) else (s1, exec_round m c s2))"

definition round_calls :: "call list" where
  "round_calls =
    [(R11, 0, 0, 11), (R12, 0, 5, 8), (R11, 4, 1, 14), (R12, 4, 14, 9),
     (R11, 3, 2, 15), (R12, 3, 7, 9), (R11, 2, 3, 12), (R12, 2, 0, 11),
     (R11, 1, 4, 5), (R12, 1, 9, 13), (R11, 0, 5, 8), (R12, 0, 2, 15),
     (R11, 4, 6, 7), (R12, 4, 11, 15), (R11, 3, 7, 9), (R12, 3, 4, 5),
     (R11, 2, 8, 11), (R12, 2, 13, 7), (R11, 1, 9, 13), (R12, 1, 6, 7),
     (R11, 0, 10, 14), (R12, 0, 15, 8), (R11, 4, 11, 15), (R12, 4, 8, 11),
     (R11, 3, 12, 6), (R12, 3, 1, 14), (R11, 2, 13, 7), (R12, 2, 10, 14),
     (R11, 1, 14, 9), (R12, 1, 3, 12), (R11, 0, 15, 8), (R12, 0, 12, 6),
     (R21, 4, 7, 7), (R22, 4, 6, 9), (R21, 3, 4, 6), (R22, 3, 11, 13),
     (R21, 2, 13, 8), (R22, 2, 3, 15), (R21, 1, 1, 13), (R22, 1, 7, 7),
     (R21, 0, 10, 11), (R22, 0, 0, 12), (R21, 4, 6, 9), (R22, 4, 13, 8),
     (R21, 3, 15, 7), (R22, 3, 5, 9), (R21, 2, 3, 15), (R22, 2, 10, 11),
     (R21, 1, 12, 7), (R22, 1, 14, 7), (R21, 0, 0, 12), (R22, 0, 15, 7),
     (R21, 4, 9, 15), (R22, 4, 8, 12), (R21, 3, 5, 9), (R22, 3, 12, 7),
     (R21, 2, 2, 11), (R22, 2, 4, 6), (R21, 1, 14, 7), (R22, 1, 9, 15),
     (R21, 0, 11, 13), (R22, 0, 1, 13), (R21, 4, 8, 12), (R22, 4, 2, 11),
     (R31, 3, 3, 11), (R32, 3, 15, 9), (R31, 2, 10, 13), (R32, 2, 5, 7),
     (R31, 1, 14, 6), (R32, 1, 1, 15), (R31, 0, 4, 7), (R32, 0, 3, 11),
     (R31, 4, 9, 14), (R32, 4, 7, 8), (R31, 3, 15, 9), (R32, 3, 14, 6),
     (R31, 2, 8, 13), (R32, 2, 6, 6), (R31, 1, 1, 15), (R32, 1, 9, 14),
     (R31, 0, 2, 14), (R32, 0, 11, 12), (R31, 4, 7, 8), (R32, 4, 8, 13),
     (R31, 3, 0, 13), (R32, 3, 12, 5), (R31, 2, 6, 6), (R32, 2, 2, 14),
     (R31, 1, 13, 5), (R32, 1, 10, 13), (R31, 0, 11, 12), (R32, 0, 0, 13),
     (R31, 4, 5, 7), (R32, 4, 4, 7), (R31, 3, 12, 5), (R32, 3, 13, 5),
     (R41, 2, 1, 11), (R42, 2, 8, 15), (R41, 1, 9, 12), (R42, 1, 6, 5),
     (R41, 0, 11, 14), (R42, 0, 4, 8), (R41, 4, 10, 15), (R42, 4, 1, 11),
     (R41, 3, 0, 14), (R42, 3, 3, 14), (R41, 2, 8, 15), (R42, 2, 11, 14),
     (R41, 1, 12, 9), (R42, 1, 15, 6), (R41, 0, 4, 8), (R42, 0, 0, 14),
     (R41, 4, 13, 9), (R42, 4, 5, 6), (R41, 3, 3, 14), (R42, 3, 12, 9),
     (R41, 2, 7, 5), (R42, 2, 2, 12), (R41, 1, 15, 6), (R42, 1, 13, 9),
     (R41, 0, 14, 8), (R42, 0, 9, 12), (R41, 4, 5, 6), (R42, 4, 7, 5),
     (R41, 3, 6, 5), (R42, 3, 10, 15), (R41, 2, 2, 12), (R42, 2, 14, 8),
     (R51, 1, 4, 9), (R52, 1, 12, 8), (R51, 0, 0, 15), (R52, 0, 15, 5),
     (R51, 4, 5, 5), (R52, 4, 10, 12), (R51, 3, 9, 11), (R52, 3, 4, 9),
     (R51, 2, 7, 6), (R52, 2, 1, 12), (R51, 1, 12, 8), (R52, 1, 5, 5),
     (R51, 0, 2, 13), (R52, 0, 8, 14), (R51, 4, 10, 12), (R52, 4, 7, 6),
     (R51, 3, 14, 5), (R52, 3, 6, 8), (R51, 2, 1, 12), (R52, 2, 2, 13),
     (R51, 1, 3, 13), (R52, 1, 13, 6), (R51, 0, 8, 14), (R52, 0, 14, 5),
     (R51, 4, 11, 11), (R52, 4, 0, 15), (R51, 3, 6, 8), (R52, 3, 3, 13),
     (R51, 2, 15, 5), (R52, 2, 9, 11), (R51, 1, 13, 6), (R52, 1, 11, 11)]"

definition message_words :: "u8 list \<Rightarrow> u32 list" where
  "message_words inHash = le_words32 inHash 8 @ [0x80, 0, 0, 0, 0, 0, 256, 0]"

definition compute_hash :: "u8 list \<Rightarrow> u8 list" where
  "compute_hash inHash =
     (let m = message_words inHash;
          init = [0x67452301, 0xEFCDAB89, 0x98BADCFE, 0x10325476, 0xC3D2E1F0];
          (s1, s2) = fold (exec_call m) round_calls (init, init);
          out = [0xEFCDAB89 + s1 ! 2 + s2 ! 3,
                 0x98BADCFE + s1 ! 3 + s2 ! 4,
                 0x10325476 + s1 ! 4 + s2 ! 0,
                 0xC3D2E1F0 + s1 ! 0 + s2 ! 1,
                 0x67452301 + s1 ! 1 + s2 ! 2]
      in concat (map (le_bytes 4) out))"

section \<open>The standard\<close>

definition rho :: "nat \<Rightarrow> nat" where
  "rho i = [7, 4, 13, 1, 10, 6, 15, 3, 12, 0, 9, 5, 2, 14, 11, 8] ! i"

definition pi_perm :: "nat \<Rightarrow> nat" where
  "pi_perm i = (9 * i + 5) mod 16"

text \<open>Step \<open>j\<close> uses this message word, in the left and in the right line.\<close>

definition word_left :: "nat \<Rightarrow> nat" where
  "word_left j = (rho ^^ (j div 16)) (j mod 16)"

definition word_right :: "nat \<Rightarrow> nat" where
  "word_right j = (rho ^^ (j div 16)) (pi_perm (j mod 16))"

text \<open>Rotation by round and message word.\<close>

definition shift :: "nat \<Rightarrow> nat \<Rightarrow> nat" where
  "shift i w =
    [[11, 14, 15, 12, 5, 8, 7, 9, 11, 13, 14, 15, 6, 7, 9, 8],
     [12, 13, 11, 15, 6, 9, 9, 7, 12, 15, 11, 13, 7, 8, 7, 7],
     [13, 15, 14, 11, 7, 7, 6, 8, 13, 14, 13, 12, 5, 5, 6, 9],
     [14, 11, 12, 14, 8, 6, 5, 5, 15, 12, 15, 14, 9, 9, 8, 6],
     [15, 12, 13, 13, 9, 5, 8, 6, 14, 11, 12, 11, 8, 6, 5, 5]] ! i ! w"

text \<open>The boolean function of a round, used from round 1 up on the left, from 5 down on the right.\<close>

definition bool_fun :: "nat \<Rightarrow> u32 \<Rightarrow> u32 \<Rightarrow> u32 \<Rightarrow> u32" where
  "bool_fun i = [\<lambda>x y z. x XOR y XOR z, \<lambda>x y z. (x AND y) OR (NOT x AND z),
     \<lambda>x y z. (x OR NOT y) XOR z, \<lambda>x y z. (x AND z) OR (y AND NOT z),
     \<lambda>x y z. x XOR (y OR NOT z)] ! i"

definition const_left :: "nat \<Rightarrow> u32" where
  "const_left i = [0, 0x5A827999, 0x6ED9EBA1, 0x8F1BBCDC, 0xA953FD4E] ! i"

definition const_right :: "nat \<Rightarrow> u32" where
  "const_right i = [0x50A28BE6, 0x5C4DD124, 0x6D703EF3, 0x7A6D76E9, 0] ! i"

type_synonym chain = "u32 \<times> u32 \<times> u32 \<times> u32 \<times> u32"

definition std_step :: "(u32 \<Rightarrow> u32 \<Rightarrow> u32 \<Rightarrow> u32) \<Rightarrow> u32 \<Rightarrow> u32 \<Rightarrow> nat \<Rightarrow> chain \<Rightarrow> chain" where
  "std_step f k x s = (\<lambda>(A, B, C, D, E).
     (E, word_rotl s (A + f B C D + x + k) + E, B, word_rotl 10 C, D))"

definition std_left :: "u32 list \<Rightarrow> nat \<Rightarrow> chain \<Rightarrow> chain" where
  "std_left X j = std_step (bool_fun (j div 16)) (const_left (j div 16)) (X ! word_left j)
     (shift (j div 16) (word_left j))"

definition std_right :: "u32 list \<Rightarrow> nat \<Rightarrow> chain \<Rightarrow> chain" where
  "std_right X j = std_step (bool_fun (4 - j div 16)) (const_right (j div 16)) (X ! word_right j)
     (shift (j div 16) (word_right j))"

definition std_compress :: "u32 list \<Rightarrow> chain \<Rightarrow> chain" where
  "std_compress X h =
     (let (h0, h1, h2, h3, h4) = h;
          (A, B, C, D, E) = fold (std_left X) [0..<80] h;
          (A', B', C', D', E') = fold (std_right X) [0..<80] h
      in (h1 + C + D', h2 + D + E', h3 + E + A', h4 + A + B', h0 + B + C'))"

text \<open>Padding: a one bit, zeros up to 56 modulo 64 bytes, the bit length as eight bytes.\<close>

definition std_pad :: "u8 list \<Rightarrow> u8 list" where
  "std_pad msg = msg @ [0x80] @ replicate ((119 - length msg mod 64) mod 64) 0 @
     le_bytes 8 (word_of_nat (8 * length msg) :: u64)"

definition std_init :: chain where
  "std_init = (0x67452301, 0xEFCDAB89, 0x98BADCFE, 0x10325476, 0xC3D2E1F0)"

definition std_rmd160 :: "u8 list \<Rightarrow> u8 list" where
  "std_rmd160 msg =
     (let bytes = std_pad msg;
          blocks = map (\<lambda>b. le_words32 (take 64 (drop (64 * b) bytes)) 16) [0..<length bytes div 64];
          (h0, h1, h2, h3, h4) = fold std_compress blocks std_init
      in concat (map (le_bytes 4) [h0, h1, h2, h3, h4]))"

section \<open>The unrolled calls are the standard's steps\<close>

lemma rotleft_rotl: "0 < i \<Longrightarrow> i < 32 \<Longrightarrow> rotleft x i = word_rotl i x"
proof (rule bit_word_eqI)
  fix n assume i: "0 < i" "i < 32" and "n < LENGTH(32)"
  then have n: "n < 32" by simp
  show "bit (rotleft x i) n = bit (word_rotl i x) n"
  proof (cases "i \<le> n")
    case True
    then have "(n + 32 - i) mod 32 = n - i" using i n by (simp add: le_mod_geq)
    moreover have "\<not> bit x (32 + n - i)" using True by (auto dest: bit_imp_le_length)
    ultimately show ?thesis using True i n by (simp add: rotleft_def bit_simps bit_word_rotl_iff)
  next
    case False
    then have "n + 32 - i < 32" and eq: "32 - i + n = n + 32 - i" using i by linarith+
    then have "bit (word_rotl i x) n = bit x (n + 32 - i)"
      using n mod_less [OF i(2)] by (simp add: bit_word_rotl_iff)
    moreover have "bit (rotleft x i) n = bit x (n + 32 - i)"
      using False n unfolding rotleft_def by (simp add: bit_simps eq)
    ultimately show ?thesis by simp
  qed
qed

text \<open>The chaining variable held by five registers, the first one at index \<open>p\<close>.\<close>

definition view :: "nat \<Rightarrow> u32 list \<Rightarrow> chain" where
  "view p regs = (regs ! (p mod 5), regs ! ((p + 1) mod 5), regs ! ((p + 2) mod 5),
     regs ! ((p + 3) mod 5), regs ! ((p + 4) mod 5))"

definition first_reg :: "nat \<Rightarrow> nat" where
  "first_reg j = (4 * j) mod 5"

lemma exec_round_step:
  assumes "length regs = 5" "p < 5" "0 < r" "r < 32"
  shows "length (exec_round m (op, p, w, r) regs) = 5 \<and>
    view ((p + 4) mod 5) (exec_round m (op, p, w, r) regs) =
      std_step (fst (rop_fun op)) (snd (rop_fun op)) (m ! w) r (view p regs)"
proof -
  obtain a b c d e where regs: "regs = [a, b, c, d, e]"
    using assms(1) by (auto simp: length_Suc_conv numeral_eq_Suc)
  have "p = 0 \<or> p = 1 \<or> p = 2 \<or> p = 3 \<or> p = 4" using assms(2) by auto
  then show ?thesis using rotleft_rotl [OF assms(3,4)]
    by (elim disjE) (simp_all add: regs exec_round_def view_def std_step_def Round_def rotleft_rotl
        Let_def split: prod.splits)
qed

lemma exec_call_lines:
  "fold (exec_call m) cs (s1, s2) =
    (fold (exec_round m) (filter (\<lambda>c. left_line (fst c)) cs) s1,
     fold (exec_round m) (filter (\<lambda>c. \<not> left_line (fst c)) cs) s2)"
  by (induction cs arbitrary: s1 s2) (auto simp: exec_call_def)

definition left_call :: "nat \<Rightarrow> call" where
  "left_call j = ([R11, R21, R31, R41, R51] ! (j div 16), first_reg j, word_left j,
     shift (j div 16) (word_left j))"

definition right_call :: "nat \<Rightarrow> call" where
  "right_call j = ([R12, R22, R32, R42, R52] ! (j div 16), first_reg j, word_right j,
     shift (j div 16) (word_right j))"

lemma left_calls: "filter (\<lambda>c. left_line (fst c)) round_calls = map left_call [0..<80]"
  by code_simp

lemma right_calls: "filter (\<lambda>c. \<not> left_line (fst c)) round_calls = map right_call [0..<80]"
  by code_simp

lemma shift_ranges:
  "list_all (\<lambda>j. 0 < shift (j div 16) (word_left j) \<and> shift (j div 16) (word_left j) < 32) [0..<80]"
  "list_all (\<lambda>j. 0 < shift (j div 16) (word_right j) \<and> shift (j div 16) (word_right j) < 32) [0..<80]"
  by code_simp+

lemma rop_fun_left: "i < 5 \<Longrightarrow> rop_fun ([R11, R21, R31, R41, R51] ! i) = (bool_fun i, const_left i)"
  by (auto simp: less_Suc_eq numeral_eq_Suc bool_fun_def const_left_def f1_def f2_def f3_def f4_def
      f5_def fun_eq_iff)

lemma rop_fun_right:
  "i < 5 \<Longrightarrow> rop_fun ([R12, R22, R32, R42, R52] ! i) = (bool_fun (4 - i), const_right i)"
  by (auto simp: less_Suc_eq numeral_eq_Suc bool_fun_def const_right_def f1_def f2_def f3_def f4_def
      f5_def fun_eq_iff)

lemma first_reg_Suc: "(first_reg j + 4) mod 5 = first_reg (Suc j)"
  by (simp add: first_reg_def mod_simps add.commute)

text \<open>A line of calls that each make one standard step makes the standard's fold.\<close>

lemma line_fold:
  assumes "length regs = 5"
    and "\<And>j. j < n \<Longrightarrow> \<exists>op w r. call j = (op, first_reg j, w, r) \<and> 0 < r \<and> r < 32 \<and>
      step j = std_step (fst (rop_fun op)) (snd (rop_fun op)) (m ! w) r"
  shows "length (fold (exec_round m) (map call [0..<n]) regs) = 5 \<and>
    view (first_reg n) (fold (exec_round m) (map call [0..<n]) regs) = fold step [0..<n] (view 0 regs)"
  using assms(2)
proof (induction n)
  case 0
  then show ?case using assms(1) by (simp add: first_reg_def)
next
  case (Suc n)
  obtain op w r where c: "call n = (op, first_reg n, w, r)" "0 < r" "r < 32"
    "step n = std_step (fst (rop_fun op)) (snd (rop_fun op)) (m ! w) r"
    using Suc.prems by blast
  have "first_reg n < 5" by (simp add: first_reg_def)
  from exec_round_step [OF _ this c(2,3), of _ m op w] show ?case
    using Suc by (simp add: c first_reg_Suc)
qed

lemma compress_calls:
  assumes "length regs = 5"
  shows "view 0 (fst (fold (exec_call m) round_calls (regs, regs))) =
      fold (std_left m) [0..<80] (view 0 regs)"
    and "view 0 (snd (fold (exec_call m) round_calls (regs, regs))) =
      fold (std_right m) [0..<80] (view 0 regs)"
proof -
  have l: "\<exists>op w r. left_call j = (op, first_reg j, w, r) \<and> 0 < r \<and> r < 32 \<and>
      std_left m j = std_step (fst (rop_fun op)) (snd (rop_fun op)) (m ! w) r" if "j < 80" for j
    using that shift_ranges(1) rop_fun_left [of "j div 16"]
    by (auto simp: left_call_def std_left_def list_all_iff)
  have r: "\<exists>op w r. right_call j = (op, first_reg j, w, r) \<and> 0 < r \<and> r < 32 \<and>
      std_right m j = std_step (fst (rop_fun op)) (snd (rop_fun op)) (m ! w) r" if "j < 80" for j
    using that shift_ranges(2) rop_fun_right [of "j div 16"]
    by (auto simp: right_call_def std_right_def list_all_iff)
  have "first_reg 80 = 0" by (simp add: first_reg_def)
  then show "view 0 (fst (fold (exec_call m) round_calls (regs, regs))) =
      fold (std_left m) [0..<80] (view 0 regs)"
    and "view 0 (snd (fold (exec_call m) round_calls (regs, regs))) =
      fold (std_right m) [0..<80] (view 0 regs)"
    using line_fold [OF assms, of 80 left_call "std_left m" m, OF l]
      line_fold [OF assms, of 80 right_call "std_right m" m, OF r]
    by (simp_all only: exec_call_lines left_calls right_calls fst_conv snd_conv)
qed

section \<open>Padding\<close>

lemma le_words32_append:
  "length xs = 4 * n \<Longrightarrow> le_words32 (xs @ ys) (n + k) = le_words32 xs n @ le_words32 ys k"
proof (rule nth_equalityI)
  fix i assume len: "length xs = 4 * n" and "i < length (le_words32 (xs @ ys) (n + k))"
  then have i: "i < n + k" by (simp add: le_words32_def)
  show "le_words32 (xs @ ys) (n + k) ! i = (le_words32 xs n @ le_words32 ys k) ! i"
  proof (cases "i < n")
    case True
    then have "take 4 (drop (4 * i) (xs @ ys)) = take 4 (drop (4 * i) xs)" using len by simp
    then show ?thesis using True i by (simp add: le_words32_def nth_append del: drop_append)
  next
    case False
    then have "4 * i - 4 * n = 4 * (i - n)" "i - n < k" using i by linarith+
    then show ?thesis using False i len by (simp add: le_words32_def nth_append)
  qed
qed (simp add: le_words32_def)

lemma pad_words:
  "le_words32 (0x80 # replicate 23 0 @ le_bytes 8 (256 :: u64)) 8 = [0x80, 0, 0, 0, 0, 0, 256, 0]"
  by code_simp

lemma std_pad_32:
  "length msg = 32 \<Longrightarrow> length (std_pad msg) = 64 \<and> le_words32 (std_pad msg) 16 = message_words msg"
  using le_words32_append [of msg 8 "0x80 # replicate 23 0 @ le_bytes 8 (256 :: u64)" 8]
  by (simp add: std_pad_def message_words_def pad_words)

section \<open>The hash\<close>

lemma compute_hash_standard:
  assumes "length msg = 32"
  shows "compute_hash msg = std_rmd160 msg"
proof -
  define init :: "u32 list"
    where "init = [0x67452301, 0xEFCDAB89, 0x98BADCFE, 0x10325476, 0xC3D2E1F0]"
  have init: "length init = 5" "view 0 init = std_init"
    by (simp_all add: init_def view_def std_init_def)
  let ?m = "message_words msg"
  obtain s1 s2 where s: "fold (exec_call ?m) round_calls (init, init) = (s1, s2)" by fastforce
  have v: "fold (std_left ?m) [0..<80] std_init = view 0 s1"
      "fold (std_right ?m) [0..<80] std_init = view 0 s2"
    using compress_calls [OF init(1), of ?m] by (simp_all only: s init(2) fst_conv snd_conv)
  have "std_compress ?m std_init =
      (0xEFCDAB89 + s1 ! 2 + s2 ! 3, 0x98BADCFE + s1 ! 3 + s2 ! 4, 0x10325476 + s1 ! 4 + s2 ! 0,
       0xC3D2E1F0 + s1 ! 0 + s2 ! 1, 0x67452301 + s1 ! 1 + s2 ! 2)"
    unfolding std_compress_def v by (simp add: view_def std_init_def numeral_2_eq_2)
  moreover have "[0..<length (std_pad msg) div 64] = [0]"
    "le_words32 (take 64 (drop (64 * 0) (std_pad msg))) 16 = ?m"
    using std_pad_32 [OF assms] by simp_all
  ultimately show ?thesis
    unfolding compute_hash_def std_rmd160_def Let_def s [unfolded init_def] by simp
qed

text \<open>A known hash: of the bytes 0 to 31.\<close>

lemma compute_hash_vector:
  "compute_hash (map word_of_nat [0..<32]) =
    [0xe6, 0xba, 0xbb, 0x96, 0x19, 0xd7, 0xa8, 0x12, 0x72, 0x71, 0x1f, 0xc5, 0x46, 0xa1, 0x6b, 0x21,
     0x1d, 0xd9, 0x39, 0x57]"
  by code_simp

text \<open>
  Property C8. The unrolled program computes RIPEMD-160: its 160 calls, taken line by line, are
  the 80 steps of the left and of the right line of the standard, with the message words in the
  order the permutations give, the standard's shifts and constants, and the combination and
  padding of the standard, for every 32-byte input.
\<close>

theorem hash_is_ripemd160:
  assumes "length msg = 32"
  shows "compute_hash msg = std_rmd160 msg"
  by (rule compute_hash_standard [OF assms])

theorem hash_is_ripemd160_witness:
  "std_rmd160 (map word_of_nat [0..<32]) =
    [0xe6, 0xba, 0xbb, 0x96, 0x19, 0xd7, 0xa8, 0x12, 0x72, 0x71, 0x1f, 0xc5, 0x46, 0xa1, 0x6b, 0x21,
     0x1d, 0xd9, 0x39, 0x57]"
  using hash_is_ripemd160 [of "map word_of_nat [0..<32]"] compute_hash_vector by simp

end
