(* ===== verification/WideWord.thy ===== *)
theory WideWord
  imports Prelude
begin

text \<open>
  Integers wider than a machine word, and reduction modulo \<open>2^256 - c\<close> for a small \<open>c\<close>. The
  compiler's \<^verbatim>\<open>unsigned _ExtInt(n)\<close> is \<open>n word\<close>: conversions keep the low bits, sums and
  products wrap. The lemmas read such expressions as integers when nothing is lost. The locale
  \<open>special_modulus\<close> states what the conditional subtraction of such a modulus does; the field
  prime and the group order of secp256k1 are its two instances.
\<close>

type_synonym u257 = "257 word"
type_synonym u320 = "320 word"
type_synonym u448 = "448 word"
type_synonym u512 = "512 word"

section \<open>Values of wide words\<close>

lemma uint_add_small:
  "uint a + uint b < 2 ^ LENGTH('a) \<Longrightarrow> uint (a + b :: 'a::len word) = uint a + uint b"
  by (simp add: uint_word_ariths)

lemma uint_mult_small:
  "uint a * uint b < 2 ^ LENGTH('a) \<Longrightarrow> uint (a * b :: 'a::len word) = uint a * uint b"
  by (simp add: uint_word_ariths)

lemma uint_sub_small:
  "uint b \<le> uint a \<Longrightarrow> uint (a - b :: 'a::len word) = uint a - uint b"
proof -
  assume "uint b \<le> uint a"
  moreover have "uint a - uint b < 2 ^ LENGTH('a)"
    using uint_bounded [of a] uint_nonnegative [of b] by linarith
  ultimately show ?thesis by (simp add: uint_word_ariths)
qed

lemma uint_ucast_mod: "uint (ucast a :: 'b::len word) = uint a mod 2 ^ LENGTH('b)"
  by (simp add: unsigned_ucast_eq take_bit_eq_mod)

lemma uint_ucast_small: "uint a < 2 ^ LENGTH('b) \<Longrightarrow> uint (ucast a :: 'b::len word) = uint a"
  by (simp add: uint_ucast_mod)

lemma uint_shift: "uint (drop_bit k a) = uint a div 2 ^ k" for a :: "'a::len word"
proof -
  have "uint (drop_bit k a) = drop_bit k (take_bit LENGTH('a) (uint a))"
    by (rule unsigned_drop_bit_eq)
  also have "take_bit LENGTH('a) (uint a) = uint a" by (simp add: take_bit_eq_mod)
  finally show ?thesis by (simp only: drop_bit_eq_div)
qed

text \<open>Replacing the part of \<open>x\<close> above 256 bits by its multiple of \<open>c\<close>.\<close>

definition fold256 :: "int \<Rightarrow> int \<Rightarrow> int" where
  "fold256 c x = x div 2 ^ 256 * c + x mod 2 ^ 256"

lemma fold256_mod: "fold256 c x mod (2 ^ 256 - c) = x mod (2 ^ 256 - c)"
proof -
  have "x = fold256 c x + x div 2 ^ 256 * (2 ^ 256 - c)"
    using div_mult_mod_eq [of x "2 ^ 256"] by (simp add: fold256_def algebra_simps)
  then show ?thesis by (metis mod_mult_self1)
qed

lemma fold256_nonneg: "0 \<le> c \<Longrightarrow> 0 \<le> x \<Longrightarrow> 0 \<le> fold256 c x"
  by (simp add: fold256_def pos_imp_zdiv_nonneg_iff)

lemma fold256_bound:
  assumes "0 \<le> c" "x < h * 2 ^ 256"
  shows "fold256 c x < (h - 1) * c + 2 ^ 256"
proof -
  have "x div 2 ^ 256 < h" using assms(2) by (simp add: div_less_iff_less_mult)
  then have "x div 2 ^ 256 * c \<le> (h - 1) * c" using assms(1) by (intro mult_right_mono) auto
  moreover have "x mod 2 ^ 256 < 2 ^ 256" by simp
  ultimately show ?thesis by (simp add: fold256_def)
qed

text \<open>The word expression \<open>(a >> 256) * c + (u256)a\<close>, computed at width \<open>'b\<close>.\<close>

lemma uint_fold:
  fixes a :: "'a::len word" and c :: "'b::len word"
  assumes "uint a < h * 2 ^ 256" "0 < h" "(h - 1) * uint c + 2 ^ 256 \<le> 2 ^ LENGTH('b)" "h \<le> 2 ^ LENGTH('b)"
  shows "uint (ucast (drop_bit 256 a) * c + ucast (ucast a :: u256) :: 'b word) = fold256 (uint c) (uint a)"
proof -
  have hi: "uint a div 2 ^ 256 < h" using assms(1) by (simp add: div_less_iff_less_mult)
  then have "uint (ucast (drop_bit 256 a) :: 'b word) = uint a div 2 ^ 256"
    using assms(4) by (subst uint_ucast_small) (simp_all add: uint_shift)
  moreover have "uint (ucast (ucast a :: u256) :: 'b word) = uint a mod 2 ^ 256"
  proof -
    have "(2 :: int) ^ 256 \<le> 2 ^ LENGTH('b)"
      using assms(2,3) by (smt (verit) mult_nonneg_nonneg uint_nonnegative)
    moreover have "uint a mod 2 ^ 256 < 2 ^ 256" by simp
    ultimately have "uint a mod 2 ^ 256 < 2 ^ LENGTH('b)" by linarith
    then show ?thesis by (subst uint_ucast_small) (simp_all add: uint_ucast_mod)
  qed
  moreover have "fold256 (uint c) (uint a) < 2 ^ LENGTH('b)"
    using fold256_bound [OF uint_nonnegative assms(1), of c] assms(3) by linarith
  moreover have "uint a div 2 ^ 256 * uint c \<ge> 0" by (simp add: pos_imp_zdiv_nonneg_iff)
  moreover have "uint a mod 2 ^ 256 \<ge> 0" by simp
  ultimately show ?thesis
    by (subst uint_add_small; (subst uint_mult_small)?) (auto simp: fold256_def)
qed

text \<open>Products that fit their type.\<close>

lemma u256_bounded: "uint (a :: u256) < 2 ^ 256" "0 \<le> uint a"
  using uint_bounded [of a] by simp_all

lemma uint_ucast_256:
  "256 \<le> LENGTH('b) \<Longrightarrow> uint (ucast (a :: u256) :: 'b::len word) = uint a"
proof (rule uint_ucast_small)
  assume "256 \<le> LENGTH('b)"
  then have "(2 :: int) ^ 256 \<le> 2 ^ LENGTH('b)" by (rule power_increasing) simp
  then show "uint a < 2 ^ LENGTH('b)" using u256_bounded(1) [of a] by linarith
qed

lemma uint_mult_512: "uint (ucast (a :: u256) * ucast (b :: u256) :: u512) = uint a * uint b"
proof -
  have "uint a * uint b < 2 ^ 256 * 2 ^ 256"
    using u256_bounded by (intro mult_strict_mono') simp_all
  then show ?thesis by (simp add: uint_mult_small uint_ucast_256)
qed

lemma uint_mult_320: "uint (ucast (a :: u256) * ucast (b :: u64) :: u320) = uint a * uint b"
proof -
  have "uint (ucast b :: u320) = uint b" using uint_bounded [of b] by (intro uint_ucast_small) simp
  moreover have "uint a * uint b < 2 ^ 256 * 2 ^ 64"
    using u256_bounded uint_bounded [of b] by (intro mult_strict_mono') simp_all
  ultimately show ?thesis by (simp add: uint_mult_small uint_ucast_256)
qed

section \<open>One conditional subtraction\<close>

lemma mod_small: "0 \<le> x \<Longrightarrow> x < m \<Longrightarrow> x mod m = (x :: int)"
  by (rule mod_pos_pos_trivial)

lemma mod_once: "m \<le> x \<Longrightarrow> x < 2 * m \<Longrightarrow> x mod m = x - (m :: int)"
  using mod_small [of "x - m" m] by simp

lemma uint_pos: "a \<noteq> 0 \<Longrightarrow> 0 < uint (a :: 'a::len word)"
  by (metis order_le_less uint_nonnegative unsigned_eq_0_iff)

lemma uint_low: "uint (ucast a :: u256) = uint (a :: 'a::len word) mod 2 ^ 256"
  by (simp add: uint_ucast_mod)

lemma drop_bit_nonzero: "drop_bit k a \<noteq> 0 \<longleftrightarrow> 2 ^ k \<le> uint (a :: 'a::len word)"
proof -
  have "drop_bit k a = 0 \<longleftrightarrow> uint (drop_bit k a) = 0" by (simp only: unsigned_eq_0_iff)
  also have "\<dots> \<longleftrightarrow> uint a < 2 ^ k"
    by (auto simp: uint_shift zdiv_eq_0_iff simp del: unsigned_eq_0_iff)
  finally show ?thesis by auto
qed

locale special_modulus =
  fixes neg :: u257 and m :: int and reduce :: "u257 \<Rightarrow> u256"
  assumes modulus: "m = 2 ^ 256 - uint neg"
    and neg_pos: "0 < uint neg"
    and neg_small: "uint neg < 2 ^ 130"
    and reduce_eq: "reduce a = (if drop_bit 256 (a + neg) \<noteq> 0 then ucast (a + neg) else ucast a)"
begin

lemma m_bounds: "2 ^ 255 < m" "m < 2 ^ 256"
  using modulus neg_pos neg_small by simp_all

lemma reduce_value:
  assumes "uint a + uint neg < 2 ^ 257"
  shows "uint (reduce a) = (if m \<le> uint a then uint a - m else uint a)"
proof -
  have t: "uint (a + neg) = uint a + uint neg" using assms by (simp add: uint_add_small)
  show ?thesis
  proof (cases "m \<le> uint a")
    case True
    then have "reduce a = ucast (a + neg)" by (simp add: reduce_eq drop_bit_nonzero t modulus)
    moreover have "(uint a + uint neg) mod 2 ^ 256 = uint a - m"
      using True assms modulus by (subst mod_once) simp_all
    ultimately show ?thesis using True by (simp add: uint_low t)
  next
    case False
    then have "reduce a = ucast a" by (simp add: reduce_eq drop_bit_nonzero t modulus)
    moreover have "uint a mod 2 ^ 256 = uint a" using False m_bounds by simp
    ultimately show ?thesis using False by (simp add: uint_low)
  qed
qed

lemma reduce_cong: "uint a + uint neg < 2 ^ 257 \<Longrightarrow> uint (reduce a) mod m = uint a mod m"
  by (simp add: reduce_value)

lemma reduce_exact:
  assumes "uint a < 2 * m"
  shows "uint (reduce a) = uint a mod m"
proof -
  have "uint a + uint neg < 2 * m + uint neg" using assms by simp
  also have "\<dots> \<le> 2 ^ 257" using modulus neg_pos by simp
  finally have "uint a + uint neg < 2 ^ 257" .
  then have "uint (reduce a) = (if m \<le> uint a then uint a - m else uint a)" by (rule reduce_value)
  also have "\<dots> = uint a mod m"
    using assms by (simp add: mod_once mod_small)
  finally show ?thesis .
qed

lemma fold_mod: "fold256 (uint neg) x mod m = x mod m"
  by (simp only: modulus fold256_mod)

lemma sub_word:
  fixes a b M :: u256
  assumes "uint M = m" "uint a < m" "uint b < m"
  shows "uint (if b \<le> a then a - b else a - b + M) = (uint a - uint b) mod m"
proof (cases "b \<le> a")
  case True
  then have "uint b \<le> uint a" by (simp add: word_le_def)
  moreover have "uint a - uint b < m" using assms(2) uint_nonnegative [of b] by linarith
  ultimately show ?thesis using True by (simp add: uint_sub_small mod_small)
next
  case False
  then have lt: "uint a < uint b" by (simp add: word_le_def)
  have nn: "0 \<le> uint a - uint b + m" using assms(3) uint_nonnegative [of a] by linarith
  have "uint (a - b + M) = (uint a - uint b + m) mod 2 ^ 256"
    using assms(1) by (simp add: uint_word_ariths mod_simps)
  also have "\<dots> = uint a - uint b + m"
    using lt nn m_bounds by (intro mod_small) linarith+
  also have "\<dots> = (uint a - uint b + m) mod m"
    using lt nn by (intro mod_small [symmetric]) linarith+
  finally show ?thesis using False by simp
qed

lemma neg_word:
  fixes a M :: u256
  assumes "uint M = m" "uint a \<le> m"
  shows "uint (if a \<noteq> 0 then M - a else 0) = (- uint a) mod m"
proof (cases "a = 0")
  case False
  then have "0 < uint a" by (rule uint_pos)
  then have "(- uint a) mod m = m - uint a"
    using assms(2) by (cases "uint a = m") (simp_all add: zmod_zminus1_eq_if)
  then show ?thesis using False assms by (simp add: uint_sub_small)
qed simp

end

end
