(* ===== verification/SecpField.thy ===== *)
theory SecpField
  imports WideWord
begin

text \<open>
  Arithmetic modulo the field prime of secp256k1, from \<^verbatim>\<open>secp256k1_math/secp256k1.cpp\<close>, the
  functions on wide integers. A \<^verbatim>\<open>u64[4]\<close> buffer that the code reads as \<^verbatim>\<open>u256\<close> is its value, a
  function that writes a result buffer returns it. Where a static function and an exported one
  share a name, the exported one has the suffix \<open>_api\<close>.

  The lemmas say for each function whether its result is the exact remainder, or only a number
  with the same remainder, for which arguments, and how large the intermediate values get.
\<close>

section \<open>The code\<close>

definition P :: u256 where
  "P = push_bit 192 0xffffffffffffffff OR push_bit 128 0xffffffffffffffff
     OR push_bit 64 0xffffffffffffffff OR 0xfffffffefffffc2f"

definition negP :: u256 where
  "negP = 0x1000003d1"

definition u320_to_u256 :: "u320 \<Rightarrow> u256" where
  "u320_to_u256 a =
     (let t257 = ucast (drop_bit 256 a) * 0x1000003d1 + ucast (ucast a :: u256) :: u257;
          t257 = ucast (drop_bit 256 t257) * 0x1000003d1 + ucast (ucast t257 :: u256) :: u257
      in ucast t257)"

definition u512_to_u256 :: "u512 \<Rightarrow> u256" where
  "u512_to_u256 a =
     (let t320 = ucast (drop_bit 256 a) * 0x1000003d1 + ucast (ucast a :: u256) :: u320
      in u320_to_u256 t320)"

definition u257_mod_p :: "u257 \<Rightarrow> u256" where
  "u257_mod_p a =
     (let t = a + ucast negP in if drop_bit 256 t \<noteq> 0 then ucast t else ucast a)"

definition u256_norm_p :: "u256 \<Rightarrow> u256" where
  "u256_norm_p a = u257_mod_p (ucast a)"

definition u256_add_p :: "u256 \<Rightarrow> u256 \<Rightarrow> u256" where
  "u256_add_p a b = (let t257 = ucast a + ucast b in u257_mod_p t257)"

definition u256_add_u64_p :: "u256 \<Rightarrow> u64 \<Rightarrow> u256" where
  "u256_add_u64_p a b = (let t257 = ucast a + ucast b in u257_mod_p t257)"

definition u256_sub_p :: "u256 \<Rightarrow> u256 \<Rightarrow> u256" where
  "u256_sub_p ta tb = (if ta \<ge> tb then ta - tb else ta - tb + P)"

definition u256_neg_p :: "u256 \<Rightarrow> u256" where
  "u256_neg_p t = (if t \<noteq> 0 then P - t else 0)"

definition u512_mod_p :: "u512 \<Rightarrow> u256" where
  "u512_mod_p a =
     (let t320 = ucast (drop_bit 256 a) * 0x1000003d1 + ucast (ucast a :: u256) :: u320;
          t257 = ucast (drop_bit 256 t320) * 0x1000003d1 + ucast (ucast t320 :: u256) :: u257;
          r = ucast t257;
          t257 = t257 + 0x1000003d1
      in if drop_bit 256 t257 \<noteq> 0 then ucast t257 else r)"

definition u256_mul_p :: "u256 \<Rightarrow> u256 \<Rightarrow> u256" where
  "u256_mul_p a b = u512_to_u256 (ucast a * ucast b)"

definition u256_square_p :: "u256 \<Rightarrow> u256" where
  "u256_square_p a = u512_to_u256 (ucast a * ucast a)"

definition u256_mul_p_noinline :: "u256 \<Rightarrow> u256 \<Rightarrow> u256" where
  "u256_mul_p_noinline a b = u512_to_u256 (ucast a * ucast b)"

definition u256_square_p_noinline :: "u256 \<Rightarrow> u256" where
  "u256_square_p_noinline a = u512_to_u256 (ucast a * ucast a)"

definition u256_mul_p_api :: "u256 \<Rightarrow> u256 \<Rightarrow> u256" where
  "u256_mul_p_api a b = (let t512 = ucast a * ucast b in u512_mod_p t512)"

definition u256_mul_u64_p :: "u256 \<Rightarrow> u64 \<Rightarrow> u256" where
  "u256_mul_u64_p a b = (let t320 = ucast a * ucast b :: u320 in u512_mod_p (ucast t320))"

text \<open>The helpers of the point formulas, on 257-bit and 320-bit operands.\<close>

definition u320_mod_p :: "u320 \<Rightarrow> u256" where
  "u320_mod_p a =
     (let t257 = ucast (drop_bit 256 a) * 0x1000003d1 + ucast (ucast a :: u256) in u257_mod_p t257)"

definition u512_to_u257_p :: "u512 \<Rightarrow> u257" where
  "u512_to_u257_p a =
     (let t320 = ucast (drop_bit 256 a) * 0x1000003d1 + ucast (ucast a :: u256) :: u320;
          t257 = ucast (drop_bit 256 t320) * 0x1000003d1 + ucast (ucast t320 :: u256) :: u257
      in t257)"

definition u257_to_u256_p :: "u257 \<Rightarrow> u256" where
  "u257_to_u256_p a = ucast (drop_bit 256 a * 0x1000003d1 + ucast (ucast a :: u256))"

definition u257_mul_p :: "u257 \<Rightarrow> u257 \<Rightarrow> u257" where
  "u257_mul_p a b =
     (let a256 = u257_to_u256_p a; b256 = u257_to_u256_p b in u512_to_u257_p (ucast a256 * ucast b256))"

definition u257_square_p :: "u257 \<Rightarrow> u257" where
  "u257_square_p a = (let a256 = u257_to_u256_p a in u512_to_u257_p (ucast a256 * ucast a256))"

definition u320_mul_p :: "u320 \<Rightarrow> u320 \<Rightarrow> u257" where
  "u320_mul_p a b =
     (let a256 = u320_to_u256 a; b256 = u320_to_u256 b in u512_to_u257_p (ucast a256 * ucast b256))"

definition u320_square_p :: "u320 \<Rightarrow> u257" where
  "u320_square_p a = (let a256 = u320_to_u256 a in u512_to_u257_p (ucast a256 * ucast a256))"

definition u256_fast_mul_p :: "u256 \<Rightarrow> u256 \<Rightarrow> u257" where
  "u256_fast_mul_p a b = u512_to_u257_p (ucast a * ucast b)"

definition u256_fast_square_p :: "u256 \<Rightarrow> u257" where
  "u256_fast_square_p a = u512_to_u257_p (ucast a * ucast a)"

definition u320_neg_p :: "u320 \<Rightarrow> u256" where
  "u320_neg_p a =
     (let t257 = ucast (drop_bit 256 a) * 0x1000003d1 + ucast (ucast a :: u256);
          t256 = u257_mod_p t257
      in u256_neg_p t256)"

section \<open>The modulus\<close>

definition prime_p :: int where
  "prime_p = 2 ^ 256 - 0x1000003d1"

lemma uint_P: "uint P = prime_p"
  by (simp add: P_def prime_p_def push_bit_eq_mult)

interpretation fp: special_modulus "0x1000003d1" prime_p u257_mod_p
  by unfold_locales (simp_all add: prime_p_def u257_mod_p_def negP_def Let_def)

text \<open>Equality modulo the prime, with the rules that carry it through an expression.\<close>

definition cong_p :: "int \<Rightarrow> int \<Rightarrow> bool" where
  "cong_p x y \<longleftrightarrow> x mod prime_p = y mod prime_p"

lemma cong_p_refl [simp, intro]: "cong_p x x"
  by (simp add: cong_p_def)

lemma cong_p_sym: "cong_p x y \<Longrightarrow> cong_p y x"
  by (simp add: cong_p_def)

lemma cong_p_trans [trans]: "cong_p x y \<Longrightarrow> cong_p y z \<Longrightarrow> cong_p x z"
  by (simp add: cong_p_def)

lemma cong_p_eq_trans [trans]: "cong_p x y \<Longrightarrow> y = z \<Longrightarrow> cong_p x z" "x = y \<Longrightarrow> cong_p y z \<Longrightarrow> cong_p x z"
  by simp_all

lemma cong_p_add [intro]: "cong_p a b \<Longrightarrow> cong_p c d \<Longrightarrow> cong_p (a + c) (b + d)"
  unfolding cong_p_def by (rule mod_add_cong)

lemma cong_p_diff [intro]: "cong_p a b \<Longrightarrow> cong_p c d \<Longrightarrow> cong_p (a - c) (b - d)"
  unfolding cong_p_def by (rule mod_diff_cong)

lemma cong_p_mult [intro]: "cong_p a b \<Longrightarrow> cong_p c d \<Longrightarrow> cong_p (a * c) (b * d)"
  unfolding cong_p_def by (rule mod_mult_cong)

lemma cong_p_minus [intro]: "cong_p a b \<Longrightarrow> cong_p (- a) (- b)"
  using cong_p_diff [of 0 0 a b] by simp

lemma cong_p_power [intro]: "cong_p a b \<Longrightarrow> cong_p (a ^ k) (b ^ k)"
  by (induction k) auto

lemma cong_p_mod [simp]: "cong_p (a mod prime_p) b \<longleftrightarrow> cong_p a b" "cong_p a (b mod prime_p) \<longleftrightarrow> cong_p a b"
  by (simp_all add: cong_p_def)

lemma cong_p_iff_dvd: "cong_p a b \<longleftrightarrow> prime_p dvd a - b"
  unfolding cong_p_def by (rule mod_eq_dvd_iff)

lemma prime_p_bounds: "2 ^ 255 < prime_p" "prime_p < 2 ^ 256" "0 < prime_p"
  by (simp_all add: prime_p_def)

section \<open>Folding\<close>

abbreviation fold_p :: "int \<Rightarrow> int" where
  "fold_p \<equiv> fold256 0x1000003d1"

lemma fold_p_cong: "cong_p (fold_p x) x"
  unfolding cong_p_def using fp.fold_mod by simp

lemma fold_words:
  "uint (ucast (drop_bit 256 (a :: u512)) * 0x1000003d1 + ucast (ucast a :: u256) :: u320) = fold_p (uint a)"
  "uint (ucast (drop_bit 256 (b :: u320)) * 0x1000003d1 + ucast (ucast b :: u256) :: u257) = fold_p (uint b)"
  "uint (drop_bit 256 (d :: u257) * 0x1000003d1 + ucast (ucast d :: u256) :: u257) = fold_p (uint d)"
proof -
  show "uint (ucast (drop_bit 256 a) * 0x1000003d1 + ucast (ucast a :: u256) :: u320) = fold_p (uint a)"
    using uint_fold [of a "2 ^ 256" "0x1000003d1 :: u320"] uint_bounded [of a] by simp
  show "uint (ucast (drop_bit 256 b) * 0x1000003d1 + ucast (ucast b :: u256) :: u257) = fold_p (uint b)"
    using uint_fold [of b "2 ^ 64" "0x1000003d1 :: u257"] uint_bounded [of b] by simp
  show "uint (drop_bit 256 d * 0x1000003d1 + ucast (ucast d :: u256) :: u257) = fold_p (uint d)"
    using uint_fold [of d 2 "0x1000003d1 :: u257"] uint_bounded [of d] by simp
qed

text \<open>Just above 2^256 a fold leaves a 256-bit number.\<close>

lemma fold_p_small:
  assumes "0 \<le> x" "x < 2 ^ 257 - 0x1000003d1"
  shows "0 \<le> fold_p x \<and> fold_p x < 2 ^ 256"
proof (cases "x < 2 ^ 256")
  case True
  then show ?thesis using assms by (simp add: fold256_def)
next
  case False
  then have "x div 2 ^ 256 = 1" "x mod 2 ^ 256 = x - 2 ^ 256"
    using assms by (simp_all add: mod_once div_eq_dividend_iff)
  then show ?thesis using assms False by (simp add: fold256_def)
qed

lemma uint_ucast_u256: "0 \<le> x \<Longrightarrow> x < 2 ^ 256 \<Longrightarrow> uint a = x \<Longrightarrow> uint (ucast (a :: 'a::len word) :: u256) = x"
  by (simp add: uint_low)

lemma fold_bounds:
  "fold_p (uint (a :: u512)) < 2 ^ 290" "fold_p (uint (b :: u320)) < 2 ^ 256 + 2 ^ 97"
  "0 \<le> fold_p (uint (w :: 'a::len word))"
  using fold256_bound [of "0x1000003d1" "uint a" "2 ^ 256"] uint_bounded [of a]
    fold256_bound [of "0x1000003d1" "uint b" "2 ^ 64"] uint_bounded [of b]
  by (simp_all add: fold256_nonneg)

section \<open>Which results are exact, and which only congruent\<close>

lemma u257_mod_p_value:
  "uint a + 0x1000003d1 < 2 ^ 257 \<Longrightarrow> uint (u257_mod_p a) = (if prime_p \<le> uint a then uint a - prime_p else uint a)"
  using fp.reduce_value [of a] by simp

lemma u257_mod_p_cong: "uint a + 0x1000003d1 < 2 ^ 257 \<Longrightarrow> cong_p (uint (u257_mod_p a)) (uint a)"
  using fp.reduce_cong [of a] by (simp add: cong_p_def)

lemma u257_mod_p_exact: "uint a < 2 * prime_p \<Longrightarrow> uint (u257_mod_p a) = uint a mod prime_p"
  by (rule fp.reduce_exact)

lemma u320_to_u256_fold: "uint (u320_to_u256 a) = fold_p (fold_p (uint a))"
proof -
  have b: "0 \<le> fold_p (uint a)" "fold_p (uint a) < 2 ^ 257 - 0x1000003d1"
    using fold_bounds(2) [of a] by (simp_all add: fold256_nonneg)
  show ?thesis
    using fold_p_small [OF b] unfolding u320_to_u256_def Let_def
    by (intro uint_ucast_u256) (simp_all add: fold_words)
qed

lemma u320_to_u256_cong: "cong_p (uint (u320_to_u256 a)) (uint a)"
  unfolding u320_to_u256_fold by (blast intro: fold_p_cong cong_p_trans)

lemma u512_to_u256_cong: "cong_p (uint (u512_to_u256 a)) (uint a)"
  unfolding u512_to_u256_def Let_def
  by (rule cong_p_trans [OF u320_to_u256_cong]) (simp add: fold_words fold_p_cong)

lemma u512_to_u257_p_value: "uint (u512_to_u257_p a) = fold_p (fold_p (uint a))"
  by (simp add: u512_to_u257_p_def fold_words Let_def)

lemma u512_to_u257_p_cong: "cong_p (uint (u512_to_u257_p a)) (uint a)"
  unfolding u512_to_u257_p_value by (blast intro: fold_p_cong cong_p_trans)

lemma u512_to_u257_p_bound: "uint (u512_to_u257_p a) < 2 ^ 256 + 2 ^ 67"
  using fold256_bound [of "0x1000003d1" "fold_p (uint a)" "2 ^ 34"] fold_bounds(1) [of a]
  by (simp add: u512_to_u257_p_value)

lemma u257_to_u256_p_cong:
  assumes "uint a < 2 ^ 257 - 0x1000003d1"
  shows "cong_p (uint (u257_to_u256_p a)) (uint a)"
proof -
  have "uint (u257_to_u256_p a) = fold_p (uint a)"
    using fold_p_small [of "uint a"] assms unfolding u257_to_u256_p_def
    by (intro uint_ucast_u256) (simp_all add: fold_words)
  then show ?thesis by (simp add: fold_p_cong)
qed

lemma u512_mod_p_exact: "uint (u512_mod_p a) = uint a mod prime_p"
proof -
  have "u512_mod_p a = u257_mod_p (u512_to_u257_p a)"
    by (simp add: u512_mod_p_def u257_mod_p_def u512_to_u257_p_def negP_def Let_def)
  moreover have "uint (u512_to_u257_p a) < 2 * prime_p"
    using u512_to_u257_p_bound [of a] by (simp add: prime_p_def)
  ultimately show ?thesis
    using u512_to_u257_p_cong [of a] by (simp add: u257_mod_p_exact cong_p_def)
qed

lemma u320_mod_p_exact: "uint (u320_mod_p a) = uint a mod prime_p"
proof -
  have "fold_p (uint a) < 2 * prime_p" using fold_bounds(2) [of a] by (simp add: prime_p_def)
  then show ?thesis
    using fold_p_cong [of "uint a"]
    by (simp add: u320_mod_p_def u257_mod_p_exact fold_words cong_p_def)
qed

lemma u256_neg_p_exact: "uint a \<le> prime_p \<Longrightarrow> uint (u256_neg_p a) = (- uint a) mod prime_p"
  using fp.neg_word [of P a] by (simp add: u256_neg_p_def uint_P)

lemma u320_neg_p_exact: "uint (u320_neg_p a) = (- uint a) mod prime_p"
proof -
  have e: "u320_neg_p a = u256_neg_p (u320_mod_p a)" by (simp add: u320_neg_p_def u320_mod_p_def)
  have "uint (u320_mod_p a) \<le> prime_p"
    using prime_p_bounds(3) by (simp add: u320_mod_p_exact less_imp_le)
  then show ?thesis unfolding e by (simp add: u256_neg_p_exact u320_mod_p_exact mod_minus_eq)
qed

lemma mul_p_cong:
  "cong_p (uint (u256_mul_p a b)) (uint a * uint b)"
  "cong_p (uint (u256_square_p a)) (uint a * uint a)"
  "cong_p (uint (u256_fast_mul_p a b)) (uint a * uint b)"
  "cong_p (uint (u256_fast_square_p a)) (uint a * uint a)"
  "cong_p (uint (u256_mul_p_noinline a b)) (uint a * uint b)"
  "cong_p (uint (u256_square_p_noinline a)) (uint a * uint a)"
  using u512_to_u256_cong [of "ucast a * ucast b"] u512_to_u256_cong [of "ucast a * ucast a"]
    u512_to_u257_p_cong [of "ucast a * ucast b"] u512_to_u257_p_cong [of "ucast a * ucast a"]
  by (simp_all add: u256_mul_p_def u256_square_p_def u256_fast_mul_p_def u256_fast_square_p_def
      u256_mul_p_noinline_def u256_square_p_noinline_def uint_mult_512)

lemma fast_mul_bound:
  "uint (u256_fast_mul_p a b) < 2 ^ 256 + 2 ^ 67" "uint (u256_fast_square_p a) < 2 ^ 256 + 2 ^ 67"
  using u512_to_u257_p_bound by (simp_all add: u256_fast_mul_p_def u256_fast_square_p_def)

end
