(* ===== verification/SecpScalar.thy ===== *)
theory SecpScalar
  imports WideWord
begin

text \<open>
  Arithmetic modulo the group order of secp256k1, from \<^verbatim>\<open>secp256k1_math/secp256k1.cpp\<close>. The
  static \<open>u256_mul_n\<close> and \<open>u256_square_n\<close> work on references and keep only a residue; the
  exported functions of the same names, here with the suffix \<open>_api\<close>, return the remainder.

  The lemmas show that the exported functions are exact, and that the last step of the
  static reduction, which adds at 256 bits, is congruent exactly when that sum does not wrap.
\<close>

section \<open>The code\<close>

definition N :: u256 where
  "N = push_bit 192 0xffffffffffffffff OR push_bit 128 0xfffffffffffffffe
     OR push_bit 64 0xbaaedce6af48a03b OR 0xbfd25e8cd0364141"

definition negN :: u256 where
  "negN = push_bit 128 1 OR push_bit 64 0x4551231950b75fc4 OR 0x402da1732fc9bebf"

definition u257_mod_n :: "u257 \<Rightarrow> u256" where
  "u257_mod_n a =
     (let t = a + ucast negN in if drop_bit 256 t \<noteq> 0 then ucast t else ucast a)"

definition u256_norm_n :: "u256 \<Rightarrow> u256" where
  "u256_norm_n a = u257_mod_n (ucast a)"

definition u256_add_n :: "u256 \<Rightarrow> u256 \<Rightarrow> u256" where
  "u256_add_n a b = (let t257 = ucast a + ucast b in u257_mod_n t257)"

definition u256_sub_n :: "u256 \<Rightarrow> u256 \<Rightarrow> u256" where
  "u256_sub_n ta tb = (if ta \<ge> tb then ta - tb else ta - tb - negN)"

definition u256_neg_n :: "u256 \<Rightarrow> u256" where
  "u256_neg_n t = (if t \<noteq> 0 then N - t else 0)"

definition u512_mod_n :: "u512 \<Rightarrow> u256" where
  "u512_mod_n a =
     (let t448 = ucast (drop_bit 256 a) * ucast negN + ucast (ucast a :: u256) :: u448;
          t320 = ucast (drop_bit 256 t448) * ucast negN + ucast (ucast t448 :: u256) :: u320;
          t320 = ucast (drop_bit 256 t320) * ucast negN + ucast (ucast t320 :: u256) :: u320
      in u257_mod_n (ucast t320))"

definition u512_to_u256_n :: "u512 \<Rightarrow> u256" where
  "u512_to_u256_n a =
     (let t448 = ucast (drop_bit 256 a) * ucast negN + ucast (ucast a :: u256) :: u448;
          t320 = ucast (drop_bit 256 t448) * ucast negN + ucast (ucast t448 :: u256) :: u320;
          t256 = ucast (drop_bit 256 t320) * negN + ucast t320
      in t256)"

definition u256_mul_n :: "u256 \<Rightarrow> u256 \<Rightarrow> u256" where
  "u256_mul_n a b = (let t512 = ucast a * ucast b in u512_to_u256_n t512)"

definition u256_square_n :: "u256 \<Rightarrow> u256" where
  "u256_square_n a = (let t512 = ucast a * ucast a in u512_to_u256_n t512)"

definition u256_mul_n_api :: "u256 \<Rightarrow> u256 \<Rightarrow> u256" where
  "u256_mul_n_api a b = (let t512 = ucast a * ucast b in u512_mod_n t512)"

definition u256_mul_u64_n :: "u256 \<Rightarrow> u64 \<Rightarrow> u256" where
  "u256_mul_u64_n a b =
     (let t320 = ucast a * ucast b :: u320;
          t257 = ucast (drop_bit 256 t320) * ucast negN + ucast (ucast t320 :: u256)
      in u257_mod_n t257)"

definition u256_square_n_api :: "u256 \<Rightarrow> u256" where
  "u256_square_n_api a = (let t512 = ucast a * ucast a in u512_mod_n t512)"

section \<open>The modulus\<close>

definition neg_n :: int where
  "neg_n = 0x14551231950b75fc4402da1732fc9bebf"

definition order_n :: int where
  "order_n = 2 ^ 256 - neg_n"

lemma uint_N: "uint N = order_n" "uint negN = neg_n"
  by (simp_all add: N_def negN_def order_n_def neg_n_def push_bit_eq_mult)

lemma uint_negN_wide: "256 \<le> LENGTH('a) \<Longrightarrow> uint (ucast negN :: 'a::len word) = neg_n"
  by (simp add: uint_ucast_256 uint_N)

lemma order_n_bounds: "2 ^ 255 < order_n" "order_n < 2 ^ 256" "0 < neg_n" "neg_n < 2 ^ 129"
  by (simp_all add: order_n_def neg_n_def)

interpretation fn: special_modulus "ucast negN" order_n u257_mod_n
  by unfold_locales (simp_all add: uint_negN_wide u257_mod_n_def Let_def order_n_def neg_n_def)

definition cong_n :: "int \<Rightarrow> int \<Rightarrow> bool" where
  "cong_n x y \<longleftrightarrow> x mod order_n = y mod order_n"

lemma cong_n_trans: "cong_n x y \<Longrightarrow> cong_n y z \<Longrightarrow> cong_n x z"
  by (simp add: cong_n_def)

lemma cong_n_mult: "cong_n a b \<Longrightarrow> cong_n c d \<Longrightarrow> cong_n (a * c) (b * d)"
  unfolding cong_n_def by (rule mod_mult_cong)

section \<open>Folding\<close>

abbreviation fold_n :: "int \<Rightarrow> int" where
  "fold_n \<equiv> fold256 neg_n"

lemma fold_n_cong: "cong_n (fold_n x) x"
  unfolding cong_n_def using fn.fold_mod by (simp add: uint_negN_wide)

lemma fold_n_nonneg [simp]: "0 \<le> fold_n (uint (w :: 'a::len word))"
  by (simp add: fold256_nonneg neg_n_def)

lemma fold_n_448:
  "uint (ucast (drop_bit 256 (a :: u512)) * ucast negN + ucast (ucast a :: u256) :: u448) = fold_n (uint a)"
  using uint_fold [of a "2 ^ 256" "ucast negN :: u448"] uint_bounded [of a]
  by (simp add: uint_negN_wide neg_n_def)

lemma fold_n_320:
  assumes "uint a < 2 ^ 386"
  shows "uint (ucast (drop_bit 256 (a :: u448)) * ucast negN + ucast (ucast a :: u256) :: u320) = fold_n (uint a)"
  using uint_fold [of a "2 ^ 130" "ucast negN :: u320"] assms
  by (simp add: uint_negN_wide neg_n_def)

lemma fold_n_again:
  assumes "uint a < 2 ^ 262"
  shows "uint (ucast (drop_bit 256 (a :: u320)) * ucast negN + ucast (ucast a :: u256) :: u320) = fold_n (uint a)"
  using uint_fold [of a 64 "ucast negN :: u320"] assms
  by (simp add: uint_negN_wide neg_n_def)

lemma fold_n_257:
  "uint (ucast (drop_bit 256 (a :: u320)) * ucast negN + ucast (ucast a :: u256) :: u257) = fold_n (uint a)"
  using uint_fold [of a "2 ^ 64" "ucast negN :: u257"] uint_bounded [of a]
  by (simp add: uint_negN_wide neg_n_def)

text \<open>The three folds of a 512-bit number.\<close>

lemma fold_n_bounds:
  assumes "0 \<le> x" "x < 2 ^ 512"
  shows "fold_n x < 2 ^ 386" "fold_n (fold_n x) < 2 ^ 262" "fold_n (fold_n (fold_n x)) < 2 * order_n"
proof -
  show a: "fold_n x < 2 ^ 386"
    using fold256_bound [of neg_n x "2 ^ 256"] assms by (simp add: neg_n_def)
  show b: "fold_n (fold_n x) < 2 ^ 262"
    using fold256_bound [of neg_n "fold_n x" "2 ^ 130"] a by (simp add: neg_n_def)
  show "fold_n (fold_n (fold_n x)) < 2 * order_n"
    using fold256_bound [of neg_n "fold_n (fold_n x)" 64] b by (simp add: neg_n_def order_n_def)
qed

lemma u512_mod_n_exact: "uint (u512_mod_n a) = uint a mod order_n"
proof -
  have a: "0 \<le> uint a" "uint a < 2 ^ 512" using uint_bounded [of a] by simp_all
  note b = fold_n_bounds [OF a]
  define t320 :: u320 where "t320 = (let t448 = ucast (drop_bit 256 a) * ucast negN + ucast (ucast a :: u256) :: u448;
          t320 = ucast (drop_bit 256 t448) * ucast negN + ucast (ucast t448 :: u256) :: u320
      in ucast (drop_bit 256 t320) * ucast negN + ucast (ucast t320 :: u256))"
  have t: "uint t320 = fold_n (fold_n (fold_n (uint a)))"
    unfolding t320_def Let_def using b by (subst fold_n_again; simp add: fold_n_320 fold_n_448)
  have "uint (ucast t320 :: u257) = uint t320"
    using b(3) t order_n_bounds by (intro uint_ucast_small) simp
  moreover have "u512_mod_n a = u257_mod_n (ucast t320)" by (simp add: u512_mod_n_def t320_def Let_def)
  moreover have "cong_n (uint t320) (uint a)"
    unfolding t by (blast intro: fold_n_cong cong_n_trans)
  ultimately show ?thesis using b(3) t by (simp add: fn.reduce_exact cong_n_def)
qed

text \<open>The last sum of the static reduction, before it is cut to 256 bits.\<close>

definition last_sum :: "int \<Rightarrow> int" where
  "last_sum x = fold_n (fold_n (fold_n x))"

lemma u512_to_u256_n_value: "uint (u512_to_u256_n a) = last_sum (uint a) mod 2 ^ 256"
proof -
  have a: "0 \<le> uint a" "uint a < 2 ^ 512" using uint_bounded [of a] by simp_all
  note b = fold_n_bounds [OF a]
  define t320 :: u320 where "t320 = (let t448 = ucast (drop_bit 256 a) * ucast negN + ucast (ucast a :: u256) :: u448
      in ucast (drop_bit 256 t448) * ucast negN + ucast (ucast t448 :: u256))"
  have t: "uint t320 = fold_n (fold_n (uint a))"
    unfolding t320_def Let_def using b by (subst fold_n_320; simp add: fold_n_448)
  define h l :: u256 where "h = ucast (drop_bit 256 t320)" and "l = ucast t320"
  have h: "uint h = uint t320 div 2 ^ 256"
    unfolding h_def using b(2) by (subst uint_ucast_small) (simp_all add: uint_shift t)
  have l: "uint l = uint t320 mod 2 ^ 256" unfolding l_def by (rule uint_low)
  have "u512_to_u256_n a = h * negN + l"
    by (simp add: u512_to_u256_n_def t320_def h_def l_def Let_def)
  moreover have "uint (h * negN + l) = (uint h * uint negN + uint l) mod 2 ^ LENGTH(256)"
    by (simp only: uint_word_ariths mod_add_left_eq)
  ultimately have "uint (u512_to_u256_n a) = (uint h * neg_n + uint l) mod 2 ^ 256"
    by (simp add: uint_N)
  moreover have "uint h * neg_n + uint l = last_sum (uint a)"
    unfolding h l t by (simp only: last_sum_def fold256_def [of neg_n "fold_n (fold_n (uint a))"])
  ultimately show ?thesis by simp
qed

text \<open>
  The result is congruent exactly when the sum stays below 2^256: otherwise the lost carry is
  worth 2^256, which is \<open>neg_n\<close> modulo the order.
\<close>

lemma last_sum_bounds: "0 \<le> last_sum (uint (a :: u512))" "last_sum (uint a) < 2 * order_n"
  using fold_n_bounds(3) [of "uint a"] uint_bounded [of a]
  by (simp_all add: last_sum_def fold256_nonneg neg_n_def)

lemma u512_to_u256_n_cong:
  "cong_n (uint (u512_to_u256_n a)) (uint a) \<longleftrightarrow> last_sum (uint a) < 2 ^ 256"
proof -
  have s: "cong_n (last_sum (uint a)) (uint a)"
    unfolding last_sum_def by (blast intro: fold_n_cong cong_n_trans)
  show ?thesis
  proof (cases "last_sum (uint a) < 2 ^ 256")
    case True
    then show ?thesis using s last_sum_bounds(1) [of a] by (simp add: u512_to_u256_n_value mod_small)
  next
    case False
    then have v: "uint (u512_to_u256_n a) = last_sum (uint a) - 2 ^ 256"
      using last_sum_bounds(2) [of a] order_n_bounds
      unfolding u512_to_u256_n_value by (intro mod_once) simp_all
    have "\<not> cong_n (last_sum (uint a) - 2 ^ 256) (last_sum (uint a))"
    proof
      assume "cong_n (last_sum (uint a) - 2 ^ 256) (last_sum (uint a))"
      then have "order_n dvd 2 ^ 256" unfolding cong_n_def mod_eq_dvd_iff by simp
      then have "order_n dvd neg_n" using dvd_diff [of order_n "2 ^ 256" order_n] by (simp add: order_n_def)
      then show False using order_n_bounds zdvd_imp_le [of order_n neg_n] by simp
    qed
    then show ?thesis using s False v unfolding cong_n_def by metis
  qed
qed

lemma mul_n_cong:
  "last_sum (uint a * uint b) < 2 ^ 256 \<Longrightarrow> cong_n (uint (u256_mul_n a b)) (uint a * uint b)"
  "last_sum (uint a * uint a) < 2 ^ 256 \<Longrightarrow> cong_n (uint (u256_square_n a)) (uint a * uint a)"
  using u512_to_u256_n_cong [of "ucast a * ucast b"] u512_to_u256_n_cong [of "ucast a * ucast a"]
  by (simp_all add: u256_mul_n_def u256_square_n_def uint_mult_512 Let_def)

lemma mul_u64_n_exact: "uint (u256_mul_u64_n a w) = uint a * uint w mod order_n"
proof -
  let ?t = "ucast a * ucast w :: u320"
  have t: "uint ?t = uint a * uint w" by (rule uint_mult_320)
  have "fold_n (uint ?t) < 2 * order_n"
    using fold256_bound [of neg_n "uint ?t" "2 ^ 64"] uint_bounded [of ?t]
    by (simp add: neg_n_def order_n_def)
  then show ?thesis
    using fold_n_cong [of "uint ?t"]
    by (simp add: u256_mul_u64_n_def Let_def fn.reduce_exact fold_n_257 cong_n_def t)
qed

lemma norm_n_exact: "uint (u256_norm_n a) = uint a mod order_n"
proof -
  have "uint (ucast a :: u257) < 2 * order_n"
    using u256_bounded(1) [of a] by (simp add: uint_ucast_256 order_n_def neg_n_def)
  then show ?thesis by (simp add: u256_norm_n_def fn.reduce_exact uint_ucast_256)
qed

end
