(* ===== verification/SecpChain.thy ===== *)
theory SecpChain
  imports SecpField SecpScalar
begin

text \<open>
  The inverses and the square root of \<^verbatim>\<open>secp256k1.cpp\<close>: straight-line addition chains of
  products and squares. A chain is written over an arbitrary product and square; the code runs it
  on field elements or scalars, and run on the integers with sum and doubling it computes
  the exponent it raises its argument to.

  The lemmas carry a relation between values and exponents through a chain, evaluate the
  exponents, and conclude what the three functions return.
\<close>

section \<open>The code\<close>

definition inv_p_chain :: "('a \<Rightarrow> 'a \<Rightarrow> 'a) \<Rightarrow> ('a \<Rightarrow> 'a) \<Rightarrow> 'a \<Rightarrow> 'a" where
  "inv_p_chain mul sqr x =
     (let t10 = x; t10 = sqr t10; t100 = t10; t100 = sqr t100; t101 = x; t101 = mul t101 t100;
          t111 = t10; t111 = mul t111 t101; t1110 = t111; t1110 = sqr t1110; t111000 = t1110;
          t111000 = (sqr ^^ 2) t111000; t111111 = t111; t111111 = mul t111111 t111000;
          i13 = t111111; i13 = (sqr ^^ 4) i13; i13 = mul i13 t1110; x12 = i13;
          x12 = (sqr ^^ 2) x12; x12 = mul x12 t111; x22 = x12; x22 = (sqr ^^ 10) x22;
          x22 = mul x22 i13; x22 = mul x22 x; i29 = x22; i29 = sqr i29; i31 = i29;
          i31 = (sqr ^^ 2) i31; i54 = i31; i54 = (sqr ^^ 22) i54; i54 = mul i54 i31; i122 = i54;
          i122 = (sqr ^^ 20) i122; i122 = mul i122 i29; i122 = (sqr ^^ 46) i122;
          i122 = mul i122 i54; x223 = i122; x223 = (sqr ^^ 110) x223; x223 = mul x223 i122;
          x223 = mul x223 t111; i269 = x223; i269 = (sqr ^^ 23) i269; i269 = mul i269 x22;
          i269 = (sqr ^^ 7) i269; i269 = mul i269 t101; i269 = (sqr ^^ 3) i269; result = t101;
          result = mul result i269
      in result)"

definition u256_inv_p :: "u256 \<Rightarrow> u256" where
  "u256_inv_p x =
     u257_mod_p (ucast (inv_p_chain u256_mul_p_noinline u256_square_p_noinline x))"

text \<open>The values of \<open>result\<close> and \<open>cond\<close>.\<close>

definition sqrt_p_chain :: "('a \<Rightarrow> 'a \<Rightarrow> 'a) \<Rightarrow> ('a \<Rightarrow> 'a) \<Rightarrow> 'a \<Rightarrow> 'a \<times> 'a" where
  "sqrt_p_chain mul sqr x =
     (let t10 = x; t10 = sqr t10; t11 = x; t11 = mul t11 t10; t1100 = t11;
          t1100 = (sqr ^^ 2) t1100; t1111 = t11; t1111 = mul t1111 t1100; t11110 = t1111;
          t11110 = sqr t11110; t11111 = x; t11111 = mul t11111 t11110; t1111100 = t11111;
          t1111100 = (sqr ^^ 2) t1111100; t1111111 = t11; t1111111 = mul t1111111 t1111100;
          x11 = t1111111; x11 = (sqr ^^ 4) x11; x11 = mul x11 t1111; x22 = x11;
          x22 = (sqr ^^ 11) x22; x22 = mul x22 x11; x27 = x22; x27 = (sqr ^^ 5) x27;
          x27 = mul x27 t11111; x54 = x27; x54 = (sqr ^^ 27) x54; x54 = mul x54 x27; x108 = x54;
          x108 = (sqr ^^ 54) x108; x108 = mul x108 x54; x216 = x108; x216 = (sqr ^^ 108) x216;
          x216 = mul x216 x108; x223 = x216; x223 = (sqr ^^ 7) x223; x223 = mul x223 t1111111;
          i266 = x223; i266 = (sqr ^^ 23) i266; i266 = mul i266 x22; i266 = (sqr ^^ 5) i266;
          i266 = mul i266 x; i266 = (sqr ^^ 3) i266; t = mul t11 i266; result = mul t x;
          cond = mul result t
      in (result, cond))"

text \<open>The return code and the result buffer, which holds \<open>r\<close> before.\<close>

definition u256_sqrt_p :: "u256 \<Rightarrow> u256 \<Rightarrow> int \<times> u256" where
  "u256_sqrt_p x r =
     (let (result, cond) = sqrt_p_chain u256_mul_p_noinline u256_square_p_noinline x;
          cond = u257_mod_p (ucast cond)
      in if cond = 1 then (1, u257_mod_p (ucast result)) else (0, r))"

definition inv_n_chain :: "('a \<Rightarrow> 'a \<Rightarrow> 'a) \<Rightarrow> ('a \<Rightarrow> 'a) \<Rightarrow> 'a \<Rightarrow> 'a" where
  "inv_n_chain mul sqr x =
     (let t10 = x; t10 = sqr t10; t11 = x; t11 = mul t11 t10; t101 = t10; t101 = mul t101 t11;
          t111 = t10; t111 = mul t111 t101; t1001 = t10; t1001 = mul t1001 t111; t1011 = t10;
          t1011 = mul t1011 t1001; t1101 = t10; t1101 = mul t1101 t1011; t110100 = t1101;
          t110100 = (sqr ^^ 2) t110100; t111111 = t1011; t111111 = mul t111111 t110100;
          t1111110 = t111111; t1111110 = sqr t1111110; t1111111 = x;
          t1111111 = mul t1111111 t1111110; t11111110 = t1111111; t11111110 = sqr t11111110;
          t11111111 = x; t11111111 = mul t11111111 t11111110; i17 = t11111111;
          i17 = (sqr ^^ 3) i17; i19 = i17; i19 = (sqr ^^ 2) i19; i20 = i19; i20 = sqr i20;
          i21 = i20; i21 = sqr i21; i39 = i21; i39 = (sqr ^^ 7) i39; i39 = mul i39 i20;
          i39 = (sqr ^^ 9) i39; i39 = mul i39 i21; i73 = i39; i73 = (sqr ^^ 6) i73;
          i73 = mul i73 i19; i73 = (sqr ^^ 26) i73; i73 = mul i73 i39; x127 = i73;
          x127 = (sqr ^^ 4) x127; x127 = mul x127 i17; x127 = (sqr ^^ 60) x127;
          x127 = mul x127 i73; x127 = mul x127 t1111111; i154 = x127; i154 = (sqr ^^ 5) i154;
          i154 = mul i154 t1011; i154 = (sqr ^^ 3) i154; i154 = mul i154 t101;
          i154 = (sqr ^^ 4) i154; i166 = t101; i166 = mul i166 i154; i166 = (sqr ^^ 4) i166;
          i166 = mul i166 t111; i166 = (sqr ^^ 5) i166; i166 = mul i166 t1101; i181 = i166;
          i181 = (sqr ^^ 2) i181; i181 = mul i181 t11; i181 = (sqr ^^ 5) i181;
          i181 = mul i181 t111; i181 = (sqr ^^ 6) i181; i193 = t1101; i193 = mul i193 i181;
          i193 = (sqr ^^ 5) i193; i193 = mul i193 t1011; i193 = (sqr ^^ 4) i193;
          i193 = mul i193 t1101; i214 = i193; i214 = (sqr ^^ 3) i214; i214 = mul i214 x;
          i214 = (sqr ^^ 6) i214; i214 = mul i214 t101; i214 = (sqr ^^ 10) i214; i230 = t111;
          i230 = mul i230 i214; i230 = (sqr ^^ 4) i230; i230 = mul i230 t111;
          i230 = (sqr ^^ 9) i230; i230 = mul i230 t11111111; i247 = i230; i247 = (sqr ^^ 5) i247;
          i247 = mul i247 t1001; i247 = (sqr ^^ 6) i247; i247 = mul i247 t1011;
          i247 = (sqr ^^ 4) i247; i261 = t1101; i261 = mul i261 i247; i261 = (sqr ^^ 5) i261;
          i261 = mul i261 t11; i261 = (sqr ^^ 6) i261; i261 = mul i261 t1101; i283 = i261;
          i283 = (sqr ^^ 10) i283; i283 = mul i283 t1101; i283 = (sqr ^^ 4) i283;
          i283 = mul i283 t1001; i283 = (sqr ^^ 6) i283; result = x; result = mul result i283;
          result = (sqr ^^ 8) result; result = mul result t111111
      in result)"

definition u256_inv_n :: "u256 \<Rightarrow> u256" where
  "u256_inv_n x = u257_mod_n (ucast (inv_n_chain u256_mul_n u256_square_n x))"

section \<open>Running a chain on related values\<close>

lemma funpow_rel: "(\<And>a b. R a b \<Longrightarrow> R (f a) (g b)) \<Longrightarrow> R a b \<Longrightarrow> R ((f ^^ n) a) ((g ^^ n) b)"
  by (induction n) simp_all

locale chain_relation =
  fixes R :: "'a \<Rightarrow> 'b \<Rightarrow> bool" and mul :: "'a \<Rightarrow> 'a \<Rightarrow> 'a" and sqr :: "'a \<Rightarrow> 'a"
    and mul' :: "'b \<Rightarrow> 'b \<Rightarrow> 'b" and sqr' :: "'b \<Rightarrow> 'b"
  assumes mul_rel: "R a b \<Longrightarrow> R c d \<Longrightarrow> R (mul a c) (mul' b d)"
    and sqr_rel: "R a b \<Longrightarrow> R (sqr a) (sqr' b)"
begin

lemma mul_fun: "rel_fun R (rel_fun R R) mul mul'"
  by (simp add: rel_fun_def mul_rel)

lemma power_fun: "rel_fun R R (sqr ^^ n) (sqr' ^^ n)"
  by (simp add: rel_fun_def funpow_rel [of R] sqr_rel)

lemma sqr_fun: "rel_fun R R sqr sqr'"
  by (simp add: rel_fun_def sqr_rel)

lemma inv_p_rel:
  assumes "R x y"
  shows "R (inv_p_chain mul sqr x) (inv_p_chain mul' sqr' y)"
proof -
  note [transfer_rule] = mul_fun power_fun sqr_fun
  have "rel_fun R R (inv_p_chain mul sqr) (inv_p_chain mul' sqr')"
    unfolding inv_p_chain_def by transfer_prover
  then show ?thesis using assms by (simp add: rel_fun_def)
qed

lemma sqrt_p_rel:
  assumes "R x y"
  shows "rel_prod R R (sqrt_p_chain mul sqr x) (sqrt_p_chain mul' sqr' y)"
proof -
  note [transfer_rule] = mul_fun power_fun sqr_fun
  have "rel_fun R (rel_prod R R) (sqrt_p_chain mul sqr) (sqrt_p_chain mul' sqr')"
    unfolding sqrt_p_chain_def by transfer_prover
  then show ?thesis using assms by (simp add: rel_fun_def)
qed

lemma inv_n_rel:
  assumes "R x y"
  shows "R (inv_n_chain mul sqr x) (inv_n_chain mul' sqr' y)"
proof -
  note [transfer_rule] = mul_fun power_fun sqr_fun
  have "rel_fun R R (inv_n_chain mul sqr) (inv_n_chain mul' sqr')"
    unfolding inv_n_chain_def by transfer_prover
  then show ?thesis using assms by (simp add: rel_fun_def)
qed

end

section \<open>The exponents\<close>

definition double :: "int \<Rightarrow> int" where
  "double i = 2 * i"

lemma inv_p_exponent: "inv_p_chain (+) double 1 = prime_p - 2"
  by code_simp

lemma sqrt_p_exponent:
  "sqrt_p_chain (+) double 1 = ((prime_p + 1) div 4, (prime_p - 1) div 2)"
  by code_simp

lemma inv_n_exponent: "inv_n_chain (+) double 1 = order_n - 2"
  by code_simp

section \<open>Powers modulo the prime\<close>

definition power_p :: "int \<Rightarrow> u256 \<Rightarrow> int \<Rightarrow> bool" where
  "power_p X v i \<longleftrightarrow> 0 \<le> i \<and> cong_p (uint v) (X ^ nat i)"

lemma exponent_sum: "0 \<le> i \<Longrightarrow> 0 \<le> j \<Longrightarrow> X ^ nat (i + j) = X ^ nat i * X ^ nat j" for X :: int
  by (simp add: nat_add_distrib power_add)

lemma exponent_double: "0 \<le> i \<Longrightarrow> X ^ nat (double i) = X ^ nat i * X ^ nat i" "0 \<le> double i \<longleftrightarrow> 0 \<le> i"
  for X :: int
  using exponent_sum [of i i X] by (simp_all add: double_def)

interpretation pow_p: chain_relation "power_p X" u256_mul_p_noinline u256_square_p_noinline "(+)" double
  for X
proof
  show "power_p X (u256_mul_p_noinline a c) (i + j)" if "power_p X a i" "power_p X c j" for a c i j
    using that cong_p_trans [OF mul_p_cong(5) cong_p_mult, of a _ c]
    by (simp add: power_p_def exponent_sum)
  show "power_p X (u256_square_p_noinline a) (double i)" if "power_p X a i" for a i
    using that cong_p_trans [OF mul_p_cong(6) cong_p_mult, of a]
    by (simp add: power_p_def exponent_double)
qed

lemma uint_norm: "uint (u257_mod_p (ucast v)) = uint (v :: u256) mod prime_p"
proof -
  have "uint (ucast v :: u257) < 2 * prime_p"
    using u256_bounded(1) [of v] by (simp add: uint_ucast_256 prime_p_def)
  then show ?thesis by (simp add: u257_mod_p_exact uint_ucast_256)
qed

lemma inv_p_power: "uint (u256_inv_p x) = uint x ^ nat (prime_p - 2) mod prime_p"
proof -
  have "power_p (uint x) (inv_p_chain u256_mul_p_noinline u256_square_p_noinline x) (prime_p - 2)"
    unfolding inv_p_exponent [symmetric] by (rule pow_p.inv_p_rel) (simp add: power_p_def)
  then show ?thesis by (simp add: u256_inv_p_def uint_norm power_p_def cong_p_def)
qed

text \<open>
  The square root: \<open>cond\<close> is the argument to the power \<open>(p - 1) / 2\<close>, the root the argument
  to the power \<open>(p + 1) / 4\<close>.
\<close>

lemma sqrt_p_power:
  "u256_sqrt_p x r =
     (if uint x ^ nat ((prime_p - 1) div 2) mod prime_p = 1
      then (1, word_of_int (uint x ^ nat ((prime_p + 1) div 4) mod prime_p)) else (0, r))"
proof -
  obtain res cond where c: "sqrt_p_chain u256_mul_p_noinline u256_square_p_noinline x = (res, cond)"
    by fastforce
  have "rel_prod (power_p (uint x)) (power_p (uint x))
      (sqrt_p_chain u256_mul_p_noinline u256_square_p_noinline x) ((prime_p + 1) div 4, (prime_p - 1) div 2)"
    unfolding sqrt_p_exponent [symmetric] by (rule pow_p.sqrt_p_rel) (simp add: power_p_def)
  then have v: "uint res mod prime_p = uint x ^ nat ((prime_p + 1) div 4) mod prime_p"
    "uint cond mod prime_p = uint x ^ nat ((prime_p - 1) div 2) mod prime_p"
    by (simp_all add: c power_p_def cong_p_def)
  have "u257_mod_p (ucast cond) = 1 \<longleftrightarrow> uint cond mod prime_p = 1"
    using uint_norm [of cond] by (metis uint_1_eq word_uint_eq_iff)
  moreover have "u257_mod_p (ucast res) = word_of_int (uint res mod prime_p)"
    using uint_norm [of res] by (metis word_of_int_uint)
  ultimately show ?thesis by (simp add: u256_sqrt_p_def c v)
qed

lemma sqrt_p_squares:
  assumes "uint x ^ nat ((prime_p - 1) div 2) mod prime_p = 1"
  shows "(uint x ^ nat ((prime_p + 1) div 4)) ^ 2 mod prime_p = uint x mod prime_p"
proof -
  have e: "nat ((prime_p + 1) div 4) * 2 = Suc (nat ((prime_p - 1) div 2))"
    by (simp add: prime_p_def)
  have "(uint x ^ nat ((prime_p + 1) div 4)) ^ 2 = uint x * uint x ^ nat ((prime_p - 1) div 2)"
    by (simp only: power_mult [symmetric] e power_Suc)
  also have "\<dots> mod prime_p = uint x * (uint x ^ nat ((prime_p - 1) div 2) mod prime_p) mod prime_p"
    by (simp only: mod_mult_right_eq)
  finally show ?thesis by (simp add: assms)
qed

section \<open>Powers modulo the order\<close>

text \<open>The scalar product and square, undefined where the last sum of the reduction wraps.\<close>

definition mul_n_checked :: "u256 option \<Rightarrow> u256 option \<Rightarrow> u256 option" where
  "mul_n_checked v w =
     (case (v, w) of
       (Some a, Some b) \<Rightarrow> if last_sum (uint a * uint b) < 2 ^ 256 then Some (u256_mul_n a b) else None
     | _ \<Rightarrow> None)"

definition square_n_checked :: "u256 option \<Rightarrow> u256 option" where
  "square_n_checked v =
     (case v of
       Some a \<Rightarrow> if last_sum (uint a * uint a) < 2 ^ 256 then Some (u256_square_n a) else None
     | None \<Rightarrow> None)"

definition power_n :: "int \<Rightarrow> u256 option \<Rightarrow> int \<Rightarrow> bool" where
  "power_n X v i \<longleftrightarrow> 0 \<le> i \<and> (\<forall>w. v = Some w \<longrightarrow> cong_n (uint w) (X ^ nat i))"

interpretation pow_n: chain_relation "power_n X" mul_n_checked square_n_checked "(+)" double for X
proof
  show "power_n X (mul_n_checked a c) (i + j)" if "power_n X a i" "power_n X c j" for a c i j
    using that cong_n_trans [OF mul_n_cong(1) cong_n_mult]
    by (auto simp: power_n_def mul_n_checked_def exponent_sum split: option.splits)
  show "power_n X (square_n_checked a) (double i)" if "power_n X a i" for a i
    using that cong_n_trans [OF mul_n_cong(2) cong_n_mult]
    by (auto simp: power_n_def square_n_checked_def exponent_double split: option.splits)
qed

interpretation run_n: chain_relation "\<lambda>v w. v = Some w \<or> v = None" mul_n_checked square_n_checked
  u256_mul_n u256_square_n
  by unfold_locales (auto simp: mul_n_checked_def square_n_checked_def split: option.splits)

interpretation unit_n: chain_relation "\<lambda>v (_ :: unit). v = Some 1" mul_n_checked square_n_checked
  "\<lambda>_ _. ()" "\<lambda>_. ()"
proof
  have "last_sum 1 = 1" by (simp add: last_sum_def fold256_def)
  moreover from this have "u256_mul_n 1 1 = 1" "u256_square_n 1 = 1"
    using u512_to_u256_n_value [of 1]
    by (simp_all add: u256_mul_n_def u256_square_n_def word_uint_eq_iff)
  ultimately show "a = Some 1 \<Longrightarrow> c = Some 1 \<Longrightarrow> mul_n_checked a c = Some 1"
    "a = Some 1 \<Longrightarrow> square_n_checked a = Some 1" for a c
    by (simp_all add: mul_n_checked_def square_n_checked_def)
qed

lemma inv_n_power:
  assumes "inv_n_chain mul_n_checked square_n_checked (Some x) \<noteq> None"
  shows "uint (u256_inv_n x) = uint x ^ nat (order_n - 2) mod order_n"
proof -
  let ?v = "inv_n_chain mul_n_checked square_n_checked (Some x)"
  let ?w = "inv_n_chain u256_mul_n u256_square_n x"
  have "?v = Some ?w \<or> ?v = None" by (rule run_n.inv_n_rel) simp
  then have w: "?v = Some ?w" using assms by simp
  have "power_n (uint x) ?v (order_n - 2)"
    unfolding inv_n_exponent [symmetric] by (rule pow_n.inv_n_rel) (simp add: power_n_def cong_n_def)
  then have "cong_n (uint ?w) (uint x ^ nat (order_n - 2))" by (simp add: power_n_def w)
  moreover have "uint (ucast ?w :: u257) < 2 * order_n"
    using u256_bounded(1) [of ?w] order_n_bounds by (simp add: uint_ucast_256 order_n_def neg_n_def)
  ultimately show ?thesis by (simp add: u256_inv_n_def fn.reduce_exact uint_ucast_256 cong_n_def)
qed

lemma inv_n_checked_one: "inv_n_chain mul_n_checked square_n_checked (Some 1) \<noteq> None"
proof -
  have "inv_n_chain mul_n_checked square_n_checked (Some 1) = Some 1" by (rule unit_n.inv_n_rel) simp
  then show ?thesis by simp
qed

end
