(* ===== verification/SecpLimb.thy ===== *)
theory SecpLimb
  imports SecpField
begin

text \<open>
  The 64-bit limb arithmetic of \<^verbatim>\<open>secp256k1.cpp\<close>: the add-with-carry and subtract-with-borrow
  sequences written in assembly, the reduction of eight limbs modulo the field prime, and the
  exported squaring built on them. A register operand that the assembly updates is a list
  element of the result; limbs are listed from the least significant one. The code's
  \<open>u512_mod_p\<close> and \<open>u256_square_p\<close> on limbs have the suffix \<open>_limbs\<close>, since functions on wide
  integers have the same names.

  The lemmas read a list of limbs as a number; every sequence adds or subtracts the numbers
  modulo the width of its destination, and the squaring returns the square modulo the prime.
\<close>

section \<open>The instructions\<close>

text \<open>\<^verbatim>\<open>addq\<close> and \<^verbatim>\<open>adcq\<close>: the sum of two registers and the carry, and the carry out.\<close>

definition adc :: "u64 \<Rightarrow> u64 \<Rightarrow> bool \<Rightarrow> u64 \<times> bool" where
  "adc x y c = (let s = unat x + unat y + of_bool c in (word_of_nat s, 2 ^ 64 \<le> s))"

text \<open>\<^verbatim>\<open>subq\<close> and \<^verbatim>\<open>sbbq\<close>: register \<open>y\<close> less \<open>x\<close> and the borrow, and the borrow out.\<close>

definition sbb :: "u64 \<Rightarrow> u64 \<Rightarrow> bool \<Rightarrow> u64 \<times> bool" where
  "sbb x y b = (y - x - of_bool b, unat y < unat x + of_bool b)"

text \<open>
  One addition and then \<^verbatim>\<open>adcq\<close> down the destination registers, with 0 where there is no
  further source register; the last carry is dropped.
\<close>

fun adc_chain :: "u64 list \<Rightarrow> u64 list \<Rightarrow> bool \<Rightarrow> u64 list" where
  "adc_chain xs [] c = []"
| "adc_chain [] (y # ys) c = (let (s, c') = adc 0 y c in s # adc_chain [] ys c')"
| "adc_chain (x # xs) (y # ys) c = (let (s, c') = adc x y c in s # adc_chain xs ys c')"

fun sbb_chain :: "u64 list \<Rightarrow> u64 list \<Rightarrow> bool \<Rightarrow> u64 list" where
  "sbb_chain xs [] b = []"
| "sbb_chain [] (y # ys) b = (let (s, b') = sbb 0 y b in s # sbb_chain [] ys b')"
| "sbb_chain (x # xs) (y # ys) b = (let (s, b') = sbb x y b in s # sbb_chain xs ys b')"

section \<open>The code\<close>

definition mul :: "u64 \<Rightarrow> u64 \<Rightarrow> u64 \<times> u64" where
  "mul x y = (let t = ucast x * ucast y :: 128 word in (ucast t, ucast (drop_bit 64 t)))"

definition square :: "u64 \<Rightarrow> u64 \<times> u64" where
  "square x = mul x x"

text \<open>The single-source additions and subtraction, by the registers the carry runs through.\<close>

definition add1 :: "u64 \<Rightarrow> u64 \<times> u64 \<Rightarrow> u64 list" where
  "add1 x = (\<lambda>(y, of1). adc_chain [x] [y, of1] False)"

definition add2 :: "u64 \<Rightarrow> u64 \<times> u64 \<times> u64 \<Rightarrow> u64 list" where
  "add2 x = (\<lambda>(y, of1, of2). adc_chain [x] [y, of1, of2] False)"

definition add3 :: "u64 \<Rightarrow> u64 \<times> u64 \<times> u64 \<times> u64 \<Rightarrow> u64 list" where
  "add3 x = (\<lambda>(y, of1, of2, of3). adc_chain [x] [y, of1, of2, of3] False)"

definition sub3 :: "u64 \<Rightarrow> u64 \<times> u64 \<times> u64 \<times> u64 \<Rightarrow> u64 list" where
  "sub3 x = (\<lambda>(y, of1, of2, of3). sbb_chain [x] [y, of1, of2, of3] False)"

definition add4 :: "u64 \<Rightarrow> u64 \<times> u64 \<times> u64 \<times> u64 \<times> u64 \<Rightarrow> u64 list" where
  "add4 x = (\<lambda>(y, of1, of2, of3, of4). adc_chain [x] [y, of1, of2, of3, of4] False)"

definition add5 :: "u64 \<Rightarrow> u64 \<times> u64 \<times> u64 \<times> u64 \<times> u64 \<times> u64 \<Rightarrow> u64 list" where
  "add5 x = (\<lambda>(y, of1, of2, of3, of4, of5). adc_chain [x] [y, of1, of2, of3, of4, of5] False)"

text \<open>The wide additions and subtractions: source registers, destination registers.\<close>

definition add_u448_384 :: "u64 list \<Rightarrow> u64 list \<Rightarrow> u64 list" where
  "add_u448_384 x y = adc_chain (take 6 x) (take 7 y) False"

definition add_u448_256 :: "u64 list \<Rightarrow> u64 list \<Rightarrow> u64 list" where
  "add_u448_256 x y = adc_chain (take 4 x) (take 7 y) False"

definition add_u384_256 :: "u64 list \<Rightarrow> u64 list \<Rightarrow> u64 list" where
  "add_u384_256 x y = adc_chain (take 4 x) (take 6 y) False"

definition add_u384_320 :: "u64 list \<Rightarrow> u64 list \<Rightarrow> u64 list" where
  "add_u384_320 x y = adc_chain (take 5 x) (take 6 y) False"

definition add_u320_192 :: "u64 list \<Rightarrow> u64 list \<Rightarrow> u64 list" where
  "add_u320_192 x y = adc_chain (take 3 x) (take 5 y) False"

definition add_u320_128 :: "u64 list \<Rightarrow> u64 list \<Rightarrow> u64 list" where
  "add_u320_128 x y = adc_chain (take 2 x) (take 5 y) False"

definition add_u192_128 :: "u64 list \<Rightarrow> u64 list \<Rightarrow> u64 list" where
  "add_u192_128 x y = adc_chain (take 2 x) (take 3 y) False"

definition add_u256_192 :: "u64 list \<Rightarrow> u64 list \<Rightarrow> u64 list" where
  "add_u256_192 x y = adc_chain (take 3 x) (take 4 y) False"

definition add_u256_128 :: "u64 list \<Rightarrow> u64 list \<Rightarrow> u64 list" where
  "add_u256_128 x y = adc_chain (take 2 x) (take 4 y) False"

definition sub_u256_192 :: "u64 list \<Rightarrow> u64 list \<Rightarrow> u64 list" where
  "sub_u256_192 x y = sbb_chain (take 3 x) (take 4 y) False"

definition add_u320_256 :: "u64 list \<Rightarrow> u64 list \<Rightarrow> u64 list" where
  "add_u320_256 x y = adc_chain (take 4 x) (take 5 y) False"

definition sub_u320_u256 :: "u64 list \<Rightarrow> u64 list \<Rightarrow> u64 list" where
  "sub_u320_u256 x y = sbb_chain (take 4 x) (take 5 y) False"

definition sub_u256_u256 :: "u64 list \<Rightarrow> u64 list \<Rightarrow> u64 list" where
  "sub_u256_u256 x y = sbb_chain (take 4 x) (take 4 y) False"

text \<open>The comparisons compare the numbers of four limbs, loaded as one integer.\<close>

definition load256 :: "u64 list \<Rightarrow> u256" where
  "load256 x = word_rcat (rev (take 4 x))"

definition u256_less_than :: "u64 list \<Rightarrow> u64 list \<Rightarrow> int" where
  "u256_less_than a b = of_bool (load256 a < load256 b)"

definition u256_less_than_equal :: "u64 list \<Rightarrow> u64 list \<Rightarrow> int" where
  "u256_less_than_equal a b = of_bool (load256 a \<le> load256 b)"

definition u256_great_than :: "u64 list \<Rightarrow> u64 list \<Rightarrow> int" where
  "u256_great_than a b = of_bool (load256 a > load256 b)"

definition u256_great_than_equal :: "u64 list \<Rightarrow> u64 list \<Rightarrow> int" where
  "u256_great_than_equal a b = of_bool (load256 a \<ge> load256 b)"

text \<open>
  The reductions: \<open>x\<close> holds the low four limbs and is returned updated. The fifth limb is a
  parameter by value.
\<close>

definition u320_mod_p_sub :: "u64 list \<Rightarrow> u64 \<Rightarrow> u64 list" where
  "u320_mod_p_sub x x5 =
     (case add4 0x1000003d1 (x ! 0, x ! 1, x ! 2, x ! 3, x5) of
        [t0, t1, t2, t3, x5'] \<Rightarrow> if x5' \<noteq> 0 then [t0, t1, t2, t3] else x
      | _ \<Rightarrow> x)"

definition u320_mod_p_limbs :: "u64 list \<Rightarrow> u64 \<Rightarrow> u64 list" where
  "u320_mod_p_limbs x x5 =
     (let (t0, t1) = mul x5 0x1000003d1;
          y = add_u320_128 [t0, t1] (x @ [0])
      in u320_mod_p_sub (take 4 y) (y ! 4))"

definition u512_mod_p_limbs :: "u64 list \<Rightarrow> u64 list" where
  "u512_mod_p_limbs t =
     (let (x5, H0) = mul (t ! 4) 0x1000003d1;
          (x6, H1) = mul (t ! 5) 0x1000003d1;
          (x7, H2) = mul (t ! 6) 0x1000003d1;
          (x8, H3) = mul (t ! 7) 0x1000003d1;
          h = add_u256_192 [H0, H1, H2] [x6, x7, x8, H3];
          y = add_u320_256 [x5, h ! 0, h ! 1, h ! 2] (take 4 t @ [h ! 3])
      in u320_mod_p_limbs (take 4 y) (y ! 4))"

definition u256_square_p_limbs :: "u64 list \<Rightarrow> u64 list" where
  "u256_square_p_limbs a =
     (let (L00, H00) = square (a ! 0); (L01, H01) = mul (a ! 0) (a ! 1);
          (L02, H02) = mul (a ! 0) (a ! 2); (L03, H03) = mul (a ! 0) (a ! 3);
          (L11, H11) = square (a ! 1); (L12, H12) = mul (a ! 1) (a ! 2);
          (L13, H13) = mul (a ! 1) (a ! 3); (L22, H22) = square (a ! 2);
          (L23, H23) = mul (a ! 2) (a ! 3); (L33, H33) = square (a ! 3);
          t = [L00, L01, L02, L03, L13, L23, L33, H33];
          t = take 1 t @ add_u448_384 [L01, L11, L12, L22, L23, H23] (drop 1 t);
          t = take 1 t @ add_u448_384 [H00, L02, L12, L13, H13, H23] (drop 1 t);
          t = take 2 t @ add_u384_256 [H01, L03, H03, H22] (drop 2 t);
          t = take 2 t @ add_u384_256 [H01, H02, H12, H13] (drop 2 t);
          t = take 3 t @ add_u320_128 [H11, H12] (drop 3 t);
          t = take 3 t @ add_u320_128 [H02, H03] (drop 3 t)
      in u512_mod_p_limbs t)"

section \<open>Limbs as numbers\<close>

fun num :: "u64 list \<Rightarrow> int" where
  "num [] = 0"
| "num (x # xs) = uint x + 2 ^ 64 * num xs"

lemma num_nonneg [simp]: "0 \<le> num xs"
  by (induction xs) simp_all

lemma u64_bounded: "uint (x :: u64) < 2 ^ 64"
  using uint_bounded [of x] by simp

lemma num_bound: "num xs < 2 ^ (64 * length xs)"
proof (induction xs)
  case (Cons x xs)
  have "uint x + 2 ^ 64 * num xs < 2 ^ 64 * (num xs + 1)" using u64_bounded [of x] by (simp add: algebra_simps)
  also have "\<dots> \<le> 2 ^ 64 * 2 ^ (64 * length xs)" using Cons by (intro mult_left_mono) simp_all
  finally show ?case by (simp add: power_add)
qed simp

lemma num_append: "num (xs @ ys) = num xs + 2 ^ (64 * length xs) * num ys"
  by (induction xs) (simp_all add: algebra_simps power_add)

text \<open>A carry chain, one limb at a time.\<close>

lemma mod_limb: "0 \<le> s \<Longrightarrow> s < m \<Longrightarrow> 0 < n \<Longrightarrow> (s + m * t) mod (m * n) = s + m * (t mod (n :: int))"
  by (simp add: zmod_zmult2_eq)

lemma carry_step:
  assumes "uint s + 2 ^ 64 * k' = p + q + k"
  shows "uint (s :: u64) + 2 ^ 64 * ((X + Y + k') mod 2 ^ (64 * n)) =
    (p + 2 ^ 64 * X + (q + 2 ^ 64 * Y) + k) mod 2 ^ (64 * Suc n)"
proof -
  have a: "p + 2 ^ 64 * X + (q + 2 ^ 64 * Y) + k = uint s + 2 ^ 64 * (X + Y + k')"
    using assms by (simp add: algebra_simps)
  have b: "(2 :: int) ^ (64 * Suc n) = 2 ^ 64 * 2 ^ (64 * n)" by (simp only: mult_Suc_right power_add)
  have c: "(uint s + 2 ^ 64 * (X + Y + k')) mod (2 ^ 64 * 2 ^ (64 * n)) =
      uint s + 2 ^ 64 * ((X + Y + k') mod 2 ^ (64 * n))"
    by (rule mod_limb) (simp_all only: u64_bounded uint_nonnegative zero_less_power zero_less_numeral)
  show ?thesis unfolding a b c ..
qed

lemma uint_word_of_nat64: "uint (word_of_nat n :: u64) = int n mod 2 ^ 64"
  by (simp add: unsigned_of_nat take_bit_eq_mod zmod_int)

lemma adc_value:
  "adc x y c = (s, c') \<Longrightarrow> uint s + 2 ^ 64 * of_bool c' = uint x + uint y + of_bool c"
proof -
  let ?t = "uint x + uint y + of_bool c"
  assume "adc x y c = (s, c')"
  then have "s = word_of_nat (unat x + unat y + of_bool c)"
    and c': "c' = (2 ^ 64 \<le> int (unat x + unat y + of_bool c))"
    by (simp_all only: adc_def Let_def prod.inject) (simp add: nat_le_iff flip: of_nat_le_iff [where ?'a = int])
  then have s: "uint s = int (unat x + unat y + of_bool c) mod 2 ^ 64"
    by (simp only: uint_word_of_nat64)
  have t: "int (unat x + unat y + of_bool c) = ?t" by simp
  have "0 \<le> ?t" "?t < 2 * 2 ^ 64" using u64_bounded [of x] u64_bounded [of y] by simp_all
  then show ?thesis unfolding s c' t
    by (cases "2 ^ 64 \<le> ?t") (simp_all add: mod_once mod_small)
qed

lemma length_adc_chain [simp]: "length (adc_chain xs ys c) = length ys"
  by (induction xs ys c rule: adc_chain.induct) (simp_all split: prod.splits)

lemma num_adc_chain:
  "length xs \<le> length ys \<Longrightarrow>
    num (adc_chain xs ys c) = (num xs + num ys + of_bool c) mod 2 ^ (64 * length ys)"
proof (induction xs ys c rule: adc_chain.induct)
  case (2 y ys c)
  obtain s c' where s: "adc 0 y c = (s, c')" by fastforce
  then show ?case using 2 carry_step [OF adc_value [OF s], of 0 "num ys" "length ys"] by simp
next
  case (3 x xs y ys c)
  obtain s c' where s: "adc x y c = (s, c')" by fastforce
  then show ?case using 3 carry_step [OF adc_value [OF s], of "num xs" "num ys" "length ys"] by simp
qed simp

lemma sbb_value:
  "sbb x y b = (s, b') \<Longrightarrow> uint s + 2 ^ 64 * (- of_bool b') = uint y + (- uint x) + (- of_bool b)"
proof -
  let ?t = "uint y - uint x - of_bool b"
  assume "sbb x y b = (s, b')"
  then have s: "s = y - x - of_bool b" and b': "b' = (unat y < unat x + of_bool b)"
    by (simp_all add: sbb_def)
  have "uint s = ?t mod 2 ^ 64" unfolding s
    by (cases b) (simp_all add: uint_word_ariths mod_simps)
  moreover have "b' \<longleftrightarrow> ?t < 0" unfolding b'
    by (cases b) (simp_all add: diff_less_eq ac_simps flip: of_nat_less_iff [where ?'a = int])
  moreover have "- (2 ^ 64) \<le> ?t" "?t < 2 ^ 64"
    using u64_bounded [of x] u64_bounded [of y] uint_nonnegative [of x] uint_nonnegative [of y]
      of_bool_less_eq_one [of b, where ?'a = int] zero_less_eq_of_bool [of b, where ?'a = int]
    by linarith+
  ultimately show ?thesis
    using mod_small [of ?t "2 ^ 64"] mod_small [of "?t + 2 ^ 64" "2 ^ 64"] by (cases b') simp_all
qed

lemma num_sbb_chain:
  "length xs \<le> length ys \<Longrightarrow>
    num (sbb_chain xs ys b) = (num ys - num xs - of_bool b) mod 2 ^ (64 * length ys)"
proof (induction xs ys b rule: sbb_chain.induct)
  case (2 y ys b)
  obtain s b' where s: "sbb 0 y b = (s, b')" by fastforce
  then show ?case using 2 carry_step [OF sbb_value [OF s], of 0 "num ys" "length ys"] by (simp add: algebra_simps)
next
  case (3 x xs y ys b)
  obtain s b' where s: "sbb x y b = (s, b')" by fastforce
  then show ?case using 3 carry_step [OF sbb_value [OF s], of "- num xs" "num ys" "length ys"]
    by (simp add: algebra_simps)
qed simp

lemma num_adc_exact:
  "length xs \<le> length ys \<Longrightarrow> num xs + num ys < 2 ^ (64 * length ys) \<Longrightarrow>
    num (adc_chain xs ys False) = num xs + num ys"
  by (simp add: num_adc_chain mod_small)

lemma mul_value: "mul x y = (l, h) \<Longrightarrow> uint l + 2 ^ 64 * uint h = uint x * uint y"
proof -
  let ?t = "ucast x * ucast y :: 128 word"
  have "uint x * uint y < 2 ^ 64 * 2 ^ 64" using u64_bounded by (intro mult_strict_mono') simp_all
  moreover have "uint (ucast x :: 128 word) = uint x" "uint (ucast y :: 128 word) = uint y"
    using u64_bounded [of x] u64_bounded [of y] by (simp_all add: uint_ucast_small)
  ultimately have t: "uint ?t = uint x * uint y" by (simp add: uint_mult_small)
  assume "mul x y = (l, h)"
  then have "l = ucast ?t" "h = ucast (drop_bit 64 ?t)" by (simp_all add: mul_def Let_def)
  moreover have "uint ?t div 2 ^ 64 < 2 ^ 64" "0 \<le> uint ?t div 2 ^ 64"
    using uint_bounded [of ?t] by (simp_all add: pos_imp_zdiv_nonneg_iff)
  ultimately have "uint l = uint ?t mod 2 ^ 64" "uint h = uint ?t div 2 ^ 64"
    by (simp_all add: uint_ucast_mod uint_shift mod_small)
  then show ?thesis using t by simp
qed

section \<open>Reduction of limbs\<close>

lemma list4: "length x = 4 \<Longrightarrow> x = [x ! 0, x ! 1, x ! 2, x ! 3]"
  by (auto simp: numeral_eq_Suc length_Suc_conv)

lemma list5: "length x = 5 \<Longrightarrow> x = [x ! 0, x ! 1, x ! 2, x ! 3, x ! 4]"
  by (auto simp: numeral_eq_Suc length_Suc_conv)

lemma num_snoc4: "length x = 4 \<Longrightarrow> num (x @ [w]) = num x + 2 ^ 256 * uint w"
  by (simp add: num_append)

lemma num_take4: "length y = 5 \<Longrightarrow> num y = num (take 4 y) + 2 ^ 256 * uint (y ! 4)"
  using num_snoc4 [of "take 4 y" "y ! 4"] take_Suc_conv_app_nth [of 4 y] by simp

lemma num_256: "length x = 4 \<Longrightarrow> num x < 2 ^ 256"
  using num_bound [of x] by simp

lemma high_limb:
  assumes "length y = 5"
  shows "y ! 4 \<noteq> 0 \<longleftrightarrow> 2 ^ 256 \<le> num y"
proof -
  have n: "num y = num (take 4 y) + 2 ^ 256 * uint (y ! 4)" by (rule num_take4 [OF assms])
  have b: "num (take 4 y) < 2 ^ 256" using assms by (intro num_256) simp
  show ?thesis
  proof
    assume "y ! 4 \<noteq> 0"
    then have "1 \<le> uint (y ! 4)" using uint_pos [of "y ! 4"] by linarith
    then have "2 ^ 256 * 1 \<le> 2 ^ 256 * uint (y ! 4)" by (rule mult_left_mono) simp
    then show "2 ^ 256 \<le> num y" using n num_nonneg [of "take 4 y"] by linarith
  qed (use n b in auto)
qed

lemma mod_p_sub_value:
  assumes "length x = 4" "num x + 2 ^ 256 * uint x5 < 2 * prime_p"
  shows "length (u320_mod_p_sub x x5) = 4 \<and>
    num (u320_mod_p_sub x x5) = (num x + 2 ^ 256 * uint x5) mod prime_p"
proof -
  let ?V = "num x + 2 ^ 256 * uint x5"
  define y where "y = adc_chain [0x1000003d1] (x @ [x5]) False"
  have "x @ [x5] = [x ! 0, x ! 1, x ! 2, x ! 3, x5]"
    using arg_cong [OF list4 [OF assms(1)], of "\<lambda>z. z @ [x5]"] by simp
  then have y: "add4 0x1000003d1 (x ! 0, x ! 1, x ! 2, x ! 3, x5) = y" "length y = 5"
    using assms(1) by (simp_all only: y_def add4_def prod.case length_adc_chain) simp
  have c: "num [0x1000003d1 :: u64] = 0x1000003d1" by simp
  have V: "num (x @ [x5]) = ?V" by (rule num_snoc4 [OF assms(1)])
  have n: "num y = 0x1000003d1 + ?V"
    unfolding y_def using num_adc_exact [of "[0x1000003d1]" "x @ [x5]"] assms
    by (simp only: V c) (simp add: prime_p_def)
  have r: "u320_mod_p_sub x x5 = (if y ! 4 \<noteq> 0 then take 4 y else x)"
    unfolding u320_mod_p_sub_def y(1) by (subst list5 [OF y(2)], subst (5) list5 [OF y(2)]) simp
  show ?thesis
  proof (cases "2 ^ 256 \<le> num y")
    case True
    then have "num (take 4 y) = num y - 2 ^ 256 * uint (y ! 4)" "y ! 4 \<noteq> 0" "num (take 4 y) < 2 ^ 256"
      using num_take4 [OF y(2)] high_limb [OF y(2)] num_256 [of "take 4 y"] y(2) by simp_all
    moreover from this have "uint (y ! 4) = 1"
      using n assms(2) uint_pos [of "y ! 4"] num_nonneg [of "take 4 y"] by (simp add: prime_p_def)
    moreover have "?V mod prime_p = ?V - prime_p"
      using True n assms(2) by (intro mod_once) (simp_all add: prime_p_def)
    ultimately show ?thesis using n y(2) by (simp add: r prime_p_def)
  next
    case False
    then have "y ! 4 = 0" using high_limb [OF y(2)] by blast
    moreover have "?V mod prime_p = ?V"
      using False n by (intro mod_small) (simp_all add: prime_p_def)
    moreover have "uint x5 < 1"
      using False [simplified] n [simplified] num_nonneg [of x] uint_nonnegative [of x5] by linarith
    then have "uint x5 = 0" using uint_nonnegative [of x5] by linarith
    ultimately show ?thesis using assms(1) by (simp add: r)
  qed
qed

lemma mod_p_limbs_value:
  assumes "length x = 4"
  shows "length (u320_mod_p_limbs x x5) = 4 \<and>
    num (u320_mod_p_limbs x x5) = (num x + 2 ^ 256 * uint x5) mod prime_p"
proof -
  obtain t0 t1 where t: "mul x5 0x1000003d1 = (t0, t1)" by fastforce
  define y where "y = add_u320_128 [t0, t1] (x @ [0])"
  have y5: "length y = 5" using assms by (simp add: y_def add_u320_128_def)
  have c: "num [t0, t1] = uint x5 * 0x1000003d1" using mul_value [OF t] by simp
  have z: "num (x @ [0]) = num x" using num_snoc4 [OF assms, of 0] by simp
  have b: "uint x5 * 0x1000003d1 < 2 ^ 64 * 0x1000003d1" using u64_bounded by simp
  have n: "num y = uint x5 * 0x1000003d1 + num x"
    using num_adc_exact [of "[t0, t1]" "x @ [0]"] assms b num_256 [OF assms]
    by (simp only: y_def add_u320_128_def) (simp add: c z del: num.simps)
  have s: "num (take 4 y) + 2 ^ 256 * uint (y ! 4) = num y" using num_take4 [OF y5] by simp
  have "num y < 2 * prime_p" using n b num_256 [OF assms] by (simp add: prime_p_def)
  note r = mod_p_sub_value [of "take 4 y" "y ! 4", unfolded s, OF _ this]
  have "num y mod prime_p = (num x + 2 ^ 256 * uint x5) mod prime_p"
    using cong_p_mult [of "2 ^ 256" "0x1000003d1" "uint x5" "uint x5"]
    unfolding n by (simp add: cong_p_iff_dvd prime_p_def mod_eq_dvd_iff algebra_simps)
  then show ?thesis using r y5 by (simp add: u320_mod_p_limbs_def t flip: y_def)
qed

text \<open>Eight limbs: the high half times the small constant is added to the low half.\<close>

lemma u512_mod_p_limbs_value:
  assumes "length t = 8"
  shows "length (u512_mod_p_limbs t) = 4 \<and> num (u512_mod_p_limbs t) = num t mod prime_p"
proof -
  obtain x5 H0 where 5: "mul (t ! 4) 0x1000003d1 = (x5, H0)" by fastforce
  obtain x6 H1 where 6: "mul (t ! 5) 0x1000003d1 = (x6, H1)" by fastforce
  obtain x7 H2 where 7: "mul (t ! 6) 0x1000003d1 = (x7, H2)" by fastforce
  obtain x8 H3 where 8: "mul (t ! 7) 0x1000003d1 = (x8, H3)" by fastforce
  define hi where "hi = num (drop 4 t)"
  have "drop 4 t = [t ! 4, t ! 5, t ! 6, t ! 7]"
    using list4 [of "drop 4 t"] assms by simp
  then have hi: "hi = uint (t ! 4) + 2 ^ 64 * (uint (t ! 5) + 2 ^ 64 * (uint (t ! 6) + 2 ^ 64 * uint (t ! 7)))"
    by (simp add: hi_def)
  have hi_bound: "0 \<le> hi" "hi < 2 ^ 256" using num_256 [of "drop 4 t"] assms by (simp_all add: hi_def)
  have c: "uint (0x1000003d1 :: u64) = 0x1000003d1" by simp
  have prod: "uint x5 + 2 ^ 64 * (num [H0, H1, H2] + num [x6, x7, x8, H3]) = hi * 0x1000003d1"
    using mul_value [OF 5, unfolded c] mul_value [OF 6, unfolded c] mul_value [OF 7, unfolded c]
      mul_value [OF 8, unfolded c]
    unfolding hi by (simp add: algebra_simps)
  define h where "h = add_u256_192 [H0, H1, H2] [x6, x7, x8, H3]"
  have h4: "length h = 4" by (simp add: h_def add_u256_192_def del: adc_chain.simps)
  have "2 ^ 64 * (num [H0, H1, H2] + num [x6, x7, x8, H3]) \<le> hi * 0x1000003d1"
    using prod uint_nonnegative [of x5] by linarith
  then have "num [H0, H1, H2] + num [x6, x7, x8, H3] < 2 ^ 256"
    using hi_bound by (simp del: num.simps)
  then have h: "num h = num [H0, H1, H2] + num [x6, x7, x8, H3]"
    using num_adc_exact [of "[H0, H1, H2]" "[x6, x7, x8, H3]"]
    by (simp only: h_def add_u256_192_def) (simp del: num.simps)
  define y where "y = add_u320_256 [x5, h ! 0, h ! 1, h ! 2] (take 4 t @ [h ! 3])"
  have t4: "length (take 4 t) = 4" using assms by simp
  have y5: "length y = 5" using t4 by (simp add: y_def add_u320_256_def)
  have split: "num [x5, h ! 0, h ! 1, h ! 2] + 2 ^ 256 * uint (h ! 3) = hi * 0x1000003d1"
    using prod h arg_cong [OF list4 [OF h4], of num] by (simp add: algebra_simps)
  have low: "num (take 4 t @ [h ! 3]) = num (take 4 t) + 2 ^ 256 * uint (h ! 3)"
    by (rule num_snoc4 [OF t4])
  have total: "num [x5, h ! 0, h ! 1, h ! 2] + num (take 4 t @ [h ! 3]) = hi * 0x1000003d1 + num (take 4 t)"
    using split low by linarith
  have "num y = hi * 0x1000003d1 + num (take 4 t)"
    unfolding y_def add_u320_256_def
    using num_adc_exact [of "[x5, h ! 0, h ! 1, h ! 2]" "take 4 t @ [h ! 3]"] total hi_bound
      num_256 [OF t4] t4
    by (simp del: num.simps)
  then have v: "num (take 4 y) + 2 ^ 256 * uint (y ! 4) = hi * 0x1000003d1 + num (take 4 t)"
    using num_take4 [OF y5] by simp
  have "num t = num (take 4 t) + 2 ^ 256 * hi"
    using num_append [of "take 4 t" "drop 4 t"] assms by (simp add: hi_def)
  then have "(hi * 0x1000003d1 + num (take 4 t)) mod prime_p = num t mod prime_p"
    by (simp add: mod_eq_dvd_iff prime_p_def algebra_simps)
  moreover have "u512_mod_p_limbs t = u320_mod_p_limbs (take 4 y) (y ! 4)"
    by (simp only: u512_mod_p_limbs_def 5 6 7 8 Let_def prod.case h_def [symmetric] y_def [symmetric])
  ultimately show ?thesis
    using mod_p_limbs_value [of "take 4 y" "y ! 4"] y5 v by simp
qed

section \<open>Squaring\<close>

text \<open>Adding \<open>xs\<close> into an eight-limb accumulator from limb \<open>k\<close> on.\<close>

lemma accumulate:
  assumes "length t = 8" "k \<le> 8" "length xs \<le> 8 - k"
  shows "length (take k t @ adc_chain xs (drop k t) False) = 8"
    and "num (take k t @ adc_chain xs (drop k t) False) = (num t + 2 ^ (64 * k) * num xs) mod 2 ^ 512"
proof -
  show "length (take k t @ adc_chain xs (drop k t) False) = 8" using assms by simp
  have n: "num (adc_chain xs (drop k t) False) = (num xs + num (drop k t)) mod 2 ^ (64 * (8 - k))"
    using num_adc_chain [of xs "drop k t" False] assms by simp
  have t: "num t = num (take k t) + 2 ^ (64 * k) * num (drop k t)"
    using num_append [of "take k t" "drop k t"] assms by (simp add: min_def)
  have m: "(2 :: int) ^ 512 = 2 ^ (64 * k) * 2 ^ (64 * (8 - k))"
    using assms(2) by (simp only: power_add [symmetric]) (simp add: algebra_simps)
  have b: "num (take k t) < 2 ^ (64 * k)" using num_bound [of "take k t"] assms by (simp add: min_def)
  have "num t + 2 ^ (64 * k) * num xs = num (take k t) + 2 ^ (64 * k) * (num xs + num (drop k t))"
    unfolding t by (simp add: algebra_simps)
  then have "(num t + 2 ^ (64 * k) * num xs) mod 2 ^ 512 =
      num (take k t) + 2 ^ (64 * k) * ((num xs + num (drop k t)) mod 2 ^ (64 * (8 - k)))"
    using mod_limb [of "num (take k t)" "2 ^ (64 * k)" "2 ^ (64 * (8 - k))" "num xs + num (drop k t)"] b
    unfolding m by simp
  then show "num (take k t @ adc_chain xs (drop k t) False) = (num t + 2 ^ (64 * k) * num xs) mod 2 ^ 512"
    using assms by (simp add: num_append n min_def)
qed

lemma limbs_squared:
  "(num [a, b, c, d])\<^sup>2 = uint a * uint a + 2 * 2 ^ 64 * (uint a * uint b) + 2 ^ 128 * (2 * (uint a * uint c) + uint b * uint b) +
     2 ^ 192 * (2 * (uint a * uint d) + 2 * (uint b * uint c)) + 2 ^ 256 * (2 * (uint b * uint d) + uint c * uint c) +
     2 ^ 320 * (2 * (uint c * uint d)) + 2 ^ 384 * (uint d * uint d)"
  by (simp add: power2_eq_square algebra_simps)

lemma square_limbs_value:
  assumes "length a = 4"
  shows "length (u256_square_p_limbs a) = 4 \<and> num (u256_square_p_limbs a) = (num a)\<^sup>2 mod prime_p"
proof -
  obtain L00 H00 where 00: "mul (a ! 0) (a ! 0) = (L00, H00)" by fastforce
  obtain L01 H01 where 01: "mul (a ! 0) (a ! 1) = (L01, H01)" by fastforce
  obtain L02 H02 where 02: "mul (a ! 0) (a ! 2) = (L02, H02)" by fastforce
  obtain L03 H03 where 03: "mul (a ! 0) (a ! 3) = (L03, H03)" by fastforce
  obtain L11 H11 where 11: "mul (a ! 1) (a ! 1) = (L11, H11)" by fastforce
  obtain L12 H12 where 12: "mul (a ! 1) (a ! 2) = (L12, H12)" by fastforce
  obtain L13 H13 where 13: "mul (a ! 1) (a ! 3) = (L13, H13)" by fastforce
  obtain L22 H22 where 22: "mul (a ! 2) (a ! 2) = (L22, H22)" by fastforce
  obtain L23 H23 where 23: "mul (a ! 2) (a ! 3) = (L23, H23)" by fastforce
  obtain L33 H33 where 33: "mul (a ! 3) (a ! 3) = (L33, H33)" by fastforce
  let ?A = "[L01, L11, L12, L22, L23, H23]" and ?B = "[H00, L02, L12, L13, H13, H23]"
  let ?C = "[H01, L03, H03, H22]" and ?D = "[H01, H02, H12, H13]" and ?E = "[H11, H12]" and ?F = "[H02, H03]"
  define t0 where "t0 = [L00, L01, L02, L03, L13, L23, L33, H33]"
  define t1 where "t1 = take 1 t0 @ adc_chain ?A (drop 1 t0) False"
  define t2 where "t2 = take 1 t1 @ adc_chain ?B (drop 1 t1) False"
  define t3 where "t3 = take 2 t2 @ adc_chain ?C (drop 2 t2) False"
  define t4 where "t4 = take 2 t3 @ adc_chain ?D (drop 2 t3) False"
  define t5 where "t5 = take 3 t4 @ adc_chain ?E (drop 3 t4) False"
  define t6 where "t6 = take 3 t5 @ adc_chain ?F (drop 3 t5) False"
  have l0: "length t0 = 8" by (simp add: t0_def)
  have l1: "length t1 = 8" unfolding t1_def by (rule accumulate(1) [OF l0]) simp_all
  have l2: "length t2 = 8" unfolding t2_def by (rule accumulate(1) [OF l1]) simp_all
  have l3: "length t3 = 8" unfolding t3_def by (rule accumulate(1) [OF l2]) simp_all
  have l4: "length t4 = 8" unfolding t4_def by (rule accumulate(1) [OF l3]) simp_all
  have l5: "length t5 = 8" unfolding t5_def by (rule accumulate(1) [OF l4]) simp_all
  have l6: "length t6 = 8" unfolding t6_def by (rule accumulate(1) [OF l5]) simp_all
  have n1: "num t1 = (num t0 + 2 ^ (64 * 1) * num ?A) mod 2 ^ 512"
    unfolding t1_def by (rule accumulate(2) [OF l0]) simp_all
  have n2: "num t2 = (num t1 + 2 ^ (64 * 1) * num ?B) mod 2 ^ 512"
    unfolding t2_def by (rule accumulate(2) [OF l1]) simp_all
  have n3: "num t3 = (num t2 + 2 ^ (64 * 2) * num ?C) mod 2 ^ 512"
    unfolding t3_def by (rule accumulate(2) [OF l2]) simp_all
  have n4: "num t4 = (num t3 + 2 ^ (64 * 2) * num ?D) mod 2 ^ 512"
    unfolding t4_def by (rule accumulate(2) [OF l3]) simp_all
  have n5: "num t5 = (num t4 + 2 ^ (64 * 3) * num ?E) mod 2 ^ 512"
    unfolding t5_def by (rule accumulate(2) [OF l4]) simp_all
  have n6: "num t6 = (num t5 + 2 ^ (64 * 3) * num ?F) mod 2 ^ 512"
    unfolding t6_def by (rule accumulate(2) [OF l5]) simp_all
  let ?total = "num t0 + 2 ^ (64 * 1) * num ?A + 2 ^ (64 * 1) * num ?B + 2 ^ (64 * 2) * num ?C
    + 2 ^ (64 * 2) * num ?D + 2 ^ (64 * 3) * num ?E + 2 ^ (64 * 3) * num ?F"
  have sum: "num t6 = ?total mod 2 ^ 512"
    unfolding n6 n5 n4 n3 n2 n1 by (simp only: mod_add_left_eq)
  have sq: "(num a)\<^sup>2 = ?total"
    unfolding arg_cong [OF list4 [OF assms], of num] limbs_squared t0_def
      mul_value [OF 00, symmetric] mul_value [OF 01, symmetric] mul_value [OF 02, symmetric]
      mul_value [OF 03, symmetric] mul_value [OF 11, symmetric] mul_value [OF 12, symmetric]
      mul_value [OF 13, symmetric] mul_value [OF 22, symmetric] mul_value [OF 23, symmetric]
      mul_value [OF 33, symmetric]
    by (simp add: algebra_simps)
  have "(num a)\<^sup>2 < (2 ^ 256)\<^sup>2" using num_256 [OF assms] by (intro power_strict_mono) simp_all
  then have n: "num t6 = (num a)\<^sup>2" using sum by (simp only: sq [symmetric]) (simp add: mod_small)
  have a: "add_u448_384 ?A (drop 1 t0) = adc_chain ?A (drop 1 t0) False"
    "add_u448_384 ?B (drop 1 t1) = adc_chain ?B (drop 1 t1) False"
    "add_u384_256 ?C (drop 2 t2) = adc_chain ?C (drop 2 t2) False"
    "add_u384_256 ?D (drop 2 t3) = adc_chain ?D (drop 2 t3) False"
    "add_u320_128 ?E (drop 3 t4) = adc_chain ?E (drop 3 t4) False"
    "add_u320_128 ?F (drop 3 t5) = adc_chain ?F (drop 3 t5) False"
    using l0 l1 l2 l3 l4 l5
    by (simp_all add: add_u448_384_def add_u384_256_def add_u320_128_def del: adc_chain.simps)
  have "u256_square_p_limbs a = u512_mod_p_limbs t6"
    by (simp only: u256_square_p_limbs_def square_def 00 01 02 03 11 12 13 22 23 33 Let_def prod.case a
        t0_def [symmetric] t1_def [symmetric] t2_def [symmetric] t3_def [symmetric] t4_def [symmetric]
        t5_def [symmetric] t6_def [symmetric])
  then show ?thesis using u512_mod_p_limbs_value [OF l6] n by simp
qed

end
