(* ===== verification/SecpPoint.thy ===== *)
theory SecpPoint
  imports SecpField
begin

text \<open>
  Point addition and doubling of \<^verbatim>\<open>secp256k1.cpp\<close> in Jacobian coordinates. A function that
  writes a point to \<open>r\<close> takes the old value of \<open>r\<close>, since some branches write only \<open>z\<close>. The
  blocks the exported functions repeat, the chord through two points and the tangent, are one
  definition each.

  The lemmas give the results as polynomials in the coordinates modulo the prime, and
  derive from them that the functions compute the chord and tangent law of the affine points
  the coordinates stand for.
\<close>

section \<open>The code\<close>

record jpoint =
  jx :: u256
  jy :: u256
  jz :: u256

record point =
  px :: u256
  py :: u256

definition isZero :: "jpoint \<Rightarrow> bool" where
  "isZero a \<longleftrightarrow> jz a = 0"

text \<open>\<open>retX\<close> and \<open>retY\<close> of a doubling.\<close>

definition tangent :: "u256 \<Rightarrow> u256 \<Rightarrow> u256 \<times> u256" where
  "tangent x y =
     (let xx = u256_fast_square_p x;
          yy = u257_to_u256_p (u256_fast_square_p y);
          xyy = u256_fast_mul_p x yy;
          xx3 = u320_to_u256 (3 * ucast xx);
          xyy4 = 4 * ucast xyy :: u320;
          t1 = u256_square_p xx3;
          t2 = 2 * xyy4;
          t3 = u320_neg_p t2;
          retX = u257_mod_p (ucast t1 + ucast t3);
          t4 = xyy4 + ucast (u256_neg_p retX);
          t5 = u256_mul_p xx3 (u320_to_u256 t4);
          t6 = 8 * ucast (u256_square_p yy) :: u320;
          t7 = ucast t5 + ucast (u320_neg_p t6) :: u257;
          retY = u257_mod_p t7
      in (retX, retY))"

definition jpoint_double :: "jpoint \<Rightarrow> jpoint \<Rightarrow> jpoint" where
  "jpoint_double a r =
     (if isZero a then r\<lparr>jz := 0\<rparr>
      else
        let (retX, retY) = tangent (jx a) (jy a);
            t8 = 2 * ucast (u256_mul_p (jy a) (jz a)) :: u257;
            retZ = u257_mod_p t8
        in r\<lparr>jx := retX, jy := retY, jz := retZ\<rparr>)"

definition point_double :: "point \<Rightarrow> jpoint \<Rightarrow> jpoint" where
  "point_double a r =
     (let (retX, retY) = tangent (px a) (py a);
          t8 = 2 * ucast (py a) :: u257;
          retZ = u257_mod_p t8
      in r\<lparr>jx := retX, jy := retY, jz := retZ\<rparr>)"

text \<open>The block for different \<open>u1\<close> and \<open>u2\<close>; \<open>z\<close> is the product of the two \<open>z\<close> coordinates.\<close>

definition chord :: "u256 \<Rightarrow> u256 \<Rightarrow> u256 \<Rightarrow> u256 \<Rightarrow> u256 \<Rightarrow> jpoint \<Rightarrow> jpoint" where
  "chord u1 u2 s1 s2 z r =
     (let h = u257_to_u256_p (ucast u2 + ucast (u256_neg_p u1));
          s = u257_to_u256_p (ucast s2 + ucast (u256_neg_p s1));
          hh = u256_square_p h;
          hhh = u256_mul_p hh h;
          hh = u256_mul_p hh u1;
          t1 = u256_square_p s;
          t2 = u256_neg_p (u320_mod_p (ucast hhh + 2 * ucast hh));
          retX = u257_mod_p (ucast t1 + ucast t2);
          t3 = u257_to_u256_p (ucast hh + ucast (u256_neg_p retX));
          t4 = u256_mul_p s t3;
          t5 = u256_fast_mul_p s1 hhh;
          t6 = u256_neg_p (u257_mod_p t5);
          retY = u257_mod_p (ucast t4 + ucast t6);
          retZ = u257_mod_p (u256_fast_mul_p z h)
      in r\<lparr>jx := retX, jy := retY, jz := retZ\<rparr>)"

definition jpoint_add :: "jpoint \<Rightarrow> jpoint \<Rightarrow> jpoint \<Rightarrow> jpoint" where
  "jpoint_add a b r =
     (if isZero a then b
      else if isZero b then a
      else
        let aZZ = u256_square_p (jz a);
            bZZ = u256_square_p (jz b);
            u1 = u257_mod_p (u256_fast_mul_p (jx a) bZZ);
            u2 = u257_mod_p (u256_fast_mul_p (jx b) aZZ);
            s1 = u257_mod_p (u256_fast_mul_p (u256_mul_p (jy a) bZZ) (jz b));
            s2 = u257_mod_p (u256_fast_mul_p (u256_mul_p (jy b) aZZ) (jz a))
        in if u1 \<noteq> u2 then chord u1 u2 s1 s2 (u256_mul_p (jz a) (jz b)) r
           else if s1 = s2 then jpoint_double a r
           else r\<lparr>jz := 0\<rparr>)"

definition jpoint_add_point :: "jpoint \<Rightarrow> point \<Rightarrow> jpoint \<Rightarrow> jpoint" where
  "jpoint_add_point a b r =
     (if isZero a then r\<lparr>jx := px b, jy := py b, jz := 1\<rparr>
      else
        let aZZ = u256_square_p (jz a);
            u1 = jx a;
            u2 = u257_mod_p (u256_fast_mul_p (px b) aZZ);
            s1 = jy a;
            s2 = u257_mod_p (u256_fast_mul_p (u256_mul_p (py b) aZZ) (jz a))
        in if u1 \<noteq> u2 then chord u1 u2 s1 s2 (jz a) r
           else if s1 = s2 then point_double b r
           else r\<lparr>jz := 0\<rparr>)"

section \<open>Steps of the formulas\<close>

lemma u256_neg_p_cong:
  assumes "uint a \<le> prime_p"
  shows "cong_p (uint (u256_neg_p a)) (- uint a)" "uint (u256_neg_p a) < prime_p"
  using assms prime_p_bounds(3) by (simp_all add: u256_neg_p_exact)

lemma u320_neg_p_cong:
  "cong_p (uint (u320_neg_p a)) (- uint a)" "uint (u320_neg_p a) < prime_p"
  using prime_p_bounds(3) by (simp_all add: u320_neg_p_exact)

text \<open>The sum of any 256-bit number and one below the prime does not leave 257 bits.\<close>

lemma sum_257:
  assumes "uint (b :: u256) < prime_p"
  shows "uint (ucast (a :: u256) + ucast b :: u257) = uint a + uint b"
    "uint a + uint b < 2 ^ 257 - 0x1000003d1"
  using assms u256_bounded(1) [of a] by (simp_all add: uint_add_small uint_ucast_256 prime_p_def)

lemma sum_mod_p:
  assumes "uint (b :: u256) < prime_p"
  shows "cong_p (uint (u257_mod_p (ucast (a :: u256) + ucast b))) (uint a + uint b)"
    "cong_p (uint (u257_to_u256_p (ucast a + ucast b))) (uint a + uint b)"
  using u257_mod_p_cong [of "ucast a + ucast b"] u257_to_u256_p_cong [of "ucast a + ucast b"]
    sum_257 [OF assms, of a] by simp_all

lemma diff_mod_p:
  assumes "uint b \<le> prime_p"
  shows "cong_p (uint (u257_to_u256_p (ucast (a :: u256) + ucast (u256_neg_p b)))) (uint a - uint b)"
  using cong_p_trans [OF sum_mod_p(2) [OF u256_neg_p_cong(2) [OF assms], of a]
    cong_p_add [OF cong_p_refl u256_neg_p_cong(1) [OF assms]]] by simp

lemma fast_mod_p:
  "uint (u257_mod_p (u256_fast_mul_p a b)) = uint a * uint b mod prime_p"
proof -
  have "uint (u256_fast_mul_p a b) < 2 * prime_p"
    using fast_mul_bound(1) [of a b] by (simp add: prime_p_def)
  then show ?thesis using mul_p_cong(3) [of a b] by (simp add: u257_mod_p_exact cong_p_def)
qed

lemma fast_square_256: "cong_p (uint (u257_to_u256_p (u256_fast_square_p a))) (uint a * uint a)"
  using u257_to_u256_p_cong [of "u256_fast_square_p a"] fast_mul_bound(2) [of a] mul_p_cong(4) [of a]
  by (auto intro: cong_p_trans)

section \<open>The chord\<close>

lemma chord_value:
  assumes canonical: "uint u1 < prime_p" "uint s1 < prime_p"
    and r': "r' = chord u1 u2 s1 s2 z r"
  defines "H \<equiv> uint u2 - uint u1" and "S \<equiv> uint s2 - uint s1"
  shows "cong_p (uint (jx r')) (S\<^sup>2 - H ^ 3 - 2 * uint u1 * H\<^sup>2)"
    and "uint (jx r') \<le> prime_p \<Longrightarrow>
      cong_p (uint (jy r')) (S * (uint u1 * H\<^sup>2 - uint (jx r')) - uint s1 * H ^ 3)"
    and "cong_p (uint (jz r')) (uint z * H)"
proof -
  define h where "h = u257_to_u256_p (ucast u2 + ucast (u256_neg_p u1))"
  define s where "s = u257_to_u256_p (ucast s2 + ucast (u256_neg_p s1))"
  define hhh where "hhh = u256_mul_p (u256_square_p h) h"
  define hh where "hh = u256_mul_p (u256_square_p h) u1"
  define t2 where "t2 = u256_neg_p (u320_mod_p (ucast hhh + 2 * ucast hh))"
  define retX where "retX = u257_mod_p (ucast (u256_square_p s) + ucast t2)"
  define t3 where "t3 = u257_to_u256_p (ucast hh + ucast (u256_neg_p retX))"
  define t6 where "t6 = u256_neg_p (u257_mod_p (u256_fast_mul_p s1 hhh))"
  note defs = h_def s_def hhh_def hh_def t2_def retX_def t3_def t6_def
  have r: "jx r' = retX" "jy r' = u257_mod_p (ucast (u256_mul_p s t3) + ucast t6)"
    "jz r' = u257_mod_p (u256_fast_mul_p z h)"
    by (simp_all add: r' chord_def Let_def defs)
  have h: "cong_p (uint h) H" and s: "cong_p (uint s) S"
    using canonical unfolding h_def s_def H_def S_def by (simp_all add: diff_mod_p)
  have hhh: "cong_p (uint hhh) (H ^ 3)" and hh: "cong_p (uint hh) (H\<^sup>2 * uint u1)"
    unfolding hhh_def hh_def power2_eq_square power3_eq_cube
    by (rule mul_p_cong [THEN cong_p_trans] cong_p_mult h cong_p_refl)+
  have e: "uint (ucast hhh + 2 * ucast hh :: u320) = uint hhh + 2 * uint hh"
    using u256_bounded [of hhh] u256_bounded [of hh]
    by (simp add: uint_add_small uint_mult_small uint_ucast_256)
  have "cong_p (uint hhh + 2 * uint hh) (H ^ 3 + 2 * (H\<^sup>2 * uint u1))"
    by (intro cong_p_add cong_p_mult hhh hh cong_p_refl)
  then have q: "cong_p (uint (u320_mod_p (ucast hhh + 2 * ucast hh))) (H ^ 3 + 2 * (H\<^sup>2 * uint u1))"
    by (simp add: u320_mod_p_exact e)
  have "uint (u320_mod_p (ucast hhh + 2 * ucast hh)) \<le> prime_p"
    using prime_p_bounds(3) by (simp add: u320_mod_p_exact less_imp_le)
  note n = u256_neg_p_cong [OF this, folded t2_def]
  have t2: "cong_p (uint t2) (- (H ^ 3 + 2 * (H\<^sup>2 * uint u1)))"
    by (rule cong_p_trans [OF n(1) cong_p_minus [OF q]])
  have "cong_p (uint (u256_square_p s) + uint t2) (S * S + - (H ^ 3 + 2 * (H\<^sup>2 * uint u1)))"
    by (rule cong_p_add [OF cong_p_trans [OF mul_p_cong(2)] t2]) (rule cong_p_mult [OF s s])
  with sum_mod_p(1) [OF n(2), of "u256_square_p s", folded retX_def]
  have X: "cong_p (uint retX) (S * S + - (H ^ 3 + 2 * (H\<^sup>2 * uint u1)))" by (rule cong_p_trans)
  then show "cong_p (uint (jx r')) (S\<^sup>2 - H ^ 3 - 2 * uint u1 * H\<^sup>2)"
    by (simp add: r power2_eq_square algebra_simps)
  show "cong_p (uint (jz r')) (uint z * H)"
    by (simp add: r fast_mod_p cong_p_mult h)
  show "cong_p (uint (jy r')) (S * (uint u1 * H\<^sup>2 - uint (jx r')) - uint s1 * H ^ 3)"
    if "uint (jx r') \<le> prime_p"
  proof -
    have t3: "cong_p (uint t3) (H\<^sup>2 * uint u1 - uint retX)"
      using cong_p_trans [OF diff_mod_p cong_p_diff [OF hh cong_p_refl]] that by (simp add: t3_def r)
    have "uint (u257_mod_p (u256_fast_mul_p s1 hhh)) \<le> prime_p"
      using prime_p_bounds(3) by (simp add: fast_mod_p less_imp_le)
    note n6 = u256_neg_p_cong [OF this, folded t6_def]
    have t6: "cong_p (uint t6) (- (uint s1 * H ^ 3))"
      using n6(1) by (rule cong_p_trans) (simp add: fast_mod_p cong_p_minus cong_p_mult hhh)
    have "cong_p (uint (jy r')) (S * (H\<^sup>2 * uint u1 - uint retX) + - (uint s1 * H ^ 3))"
      unfolding r by (rule sum_mod_p(1) [OF n6(2), THEN cong_p_trans] cong_p_add t6
          mul_p_cong(1) [THEN cong_p_trans] cong_p_mult s t3)+
    then show ?thesis by (simp add: r algebra_simps)
  qed
qed

section \<open>The tangent\<close>

lemma scaled_320: "k * uint v < 2 ^ 320 \<Longrightarrow> 0 \<le> k \<Longrightarrow> uint (word_of_int k * ucast (v :: 'a::len word) :: u320) = k * uint v"
  if "LENGTH('a) \<le> 320" "k < 2 ^ 320" for k
proof -
  assume a: "k * uint v < 2 ^ 320" "0 \<le> k"
  have "(2 :: int) ^ LENGTH('a) \<le> 2 ^ 320" using that(1) by (rule power_increasing) simp
  with uint_bounded [of v] have "uint v < 2 ^ 320" by (rule less_le_trans)
  then have "uint v < 2 ^ LENGTH(320)" by simp
  then have "uint (ucast v :: u320) = uint v" by (rule uint_ucast_small)
  moreover have "uint (word_of_int k :: u320) = k"
    using a(2) that(2) by (simp add: uint_word_of_int mod_small)
  ultimately show ?thesis using a(1) by (simp add: uint_mult_small)
qed

lemma tangent_value:
  assumes t: "tangent x y = (X, Y)"
  shows "cong_p (uint X) (9 * uint x ^ 4 - 8 * (uint x * (uint y)\<^sup>2))"
    and "uint X \<le> prime_p \<Longrightarrow>
      cong_p (uint Y) (3 * (uint x)\<^sup>2 * (4 * (uint x * (uint y)\<^sup>2) - uint X) - 8 * uint y ^ 4)"
proof -
  define xx where "xx = u256_fast_square_p x"
  define yy where "yy = u257_to_u256_p (u256_fast_square_p y)"
  define xyy where "xyy = u256_fast_mul_p x yy"
  define xx3 where "xx3 = u320_to_u256 (3 * ucast xx)"
  define xyy4 :: u320 where "xyy4 = 4 * ucast xyy"
  define t3 where "t3 = u320_neg_p (2 * xyy4)"
  define retX where "retX = u257_mod_p (ucast (u256_square_p xx3) + ucast t3)"
  define t4 where "t4 = xyy4 + ucast (u256_neg_p retX)"
  define t5 where "t5 = u256_mul_p xx3 (u320_to_u256 t4)"
  define t6 :: u320 where "t6 = 8 * ucast (u256_square_p yy)"
  note defs = xx_def yy_def xyy_def xx3_def xyy4_def t3_def retX_def t4_def t5_def t6_def
  have "(X, Y) = (retX, u257_mod_p (ucast t5 + ucast (u320_neg_p t6)))"
    unfolding t [symmetric] tangent_def Let_def defs by (rule refl)
  then have r: "X = retX" "Y = u257_mod_p (ucast t5 + ucast (u320_neg_p t6))" by simp_all
  have xx: "cong_p (uint xx) ((uint x)\<^sup>2)" "uint xx < 2 ^ 256 + 2 ^ 67"
    using mul_p_cong(4) [of x] fast_mul_bound(2) [of x] by (simp_all add: xx_def power2_eq_square)
  have yy: "cong_p (uint yy) ((uint y)\<^sup>2)"
    using fast_square_256 [of y] by (simp add: yy_def power2_eq_square)
  have xyy: "cong_p (uint xyy) (uint x * (uint y)\<^sup>2)" "uint xyy < 2 ^ 256 + 2 ^ 67"
    unfolding xyy_def using cong_p_trans [OF mul_p_cong(3) cong_p_mult [OF cong_p_refl yy]]
      fast_mul_bound(1) [of x yy] by simp_all
  have e3: "uint (3 * ucast xx :: u320) = 3 * uint xx"
    using scaled_320 [of 3 xx] xx(2) by simp
  have xx3: "cong_p (uint xx3) (3 * (uint x)\<^sup>2)"
    unfolding xx3_def by (rule cong_p_trans [OF u320_to_u256_cong]) (simp add: e3 cong_p_mult xx)
  have e4: "uint xyy4 = 4 * uint xyy"
    unfolding xyy4_def using scaled_320 [of 4 xyy] xyy(2) by simp
  have c4: "cong_p (uint xyy4) (4 * (uint x * (uint y)\<^sup>2))"
    unfolding e4 by (intro cong_p_mult cong_p_refl xyy)
  have e8: "uint (2 * xyy4) = 2 * uint xyy4"
    using scaled_320 [of 2 xyy4] xyy(2) by (simp add: e4)
  have t3: "cong_p (uint t3) (- (2 * (4 * (uint x * (uint y)\<^sup>2))))" "uint t3 < prime_p"
    unfolding t3_def
    by (rule cong_p_trans [OF u320_neg_p_cong(1)], unfold e8, intro cong_p_minus cong_p_mult cong_p_refl c4)
      (rule u320_neg_p_cong(2))
  have X: "cong_p (uint retX) (3 * (uint x)\<^sup>2 * (3 * (uint x)\<^sup>2) + - (2 * (4 * (uint x * (uint y)\<^sup>2))))"
    unfolding retX_def
    by (rule cong_p_trans [OF sum_mod_p(1) [OF t3(2)]],
        rule cong_p_add [OF cong_p_trans [OF mul_p_cong(2) cong_p_mult [OF xx3 xx3]] t3(1)])
  then show "cong_p (uint X) (9 * uint x ^ 4 - 8 * (uint x * (uint y)\<^sup>2))"
    by (simp add: r power2_eq_square power4_eq_xxxx algebra_simps)
  show "cong_p (uint Y) (3 * (uint x)\<^sup>2 * (4 * (uint x * (uint y)\<^sup>2) - uint X) - 8 * uint y ^ 4)"
    if le: "uint X \<le> prime_p"
  proof -
    note n = u256_neg_p_cong [of retX, OF le [unfolded r]]
    have "uint t4 = uint xyy4 + uint (u256_neg_p retX)"
      unfolding t4_def using xyy(2) n(2) e4
      by (subst uint_add_small) (simp_all add: uint_ucast_256 prime_p_def)
    then have "cong_p (uint t4) (4 * (uint x * (uint y)\<^sup>2) + - uint retX)"
      using cong_p_add [OF c4 n(1)] by simp
    then have t5: "cong_p (uint t5) (3 * (uint x)\<^sup>2 * (4 * (uint x * (uint y)\<^sup>2) + - uint retX))"
      unfolding t5_def
      by (rule cong_p_trans [OF mul_p_cong(1) cong_p_mult [OF xx3 cong_p_trans [OF u320_to_u256_cong]]])
    have "uint t6 = 8 * uint (u256_square_p yy)"
      unfolding t6_def using scaled_320 [of 8 "u256_square_p yy"] u256_bounded(1) [of "u256_square_p yy"] by simp
    then have "cong_p (uint t6) (8 * ((uint y)\<^sup>2 * (uint y)\<^sup>2))"
      using cong_p_mult [OF cong_p_refl [of 8] cong_p_trans [OF mul_p_cong(2) cong_p_mult [OF yy yy]]] by simp
    note n6 = cong_p_trans [OF u320_neg_p_cong(1) cong_p_minus [OF this]]
    have "cong_p (uint Y) (3 * (uint x)\<^sup>2 * (4 * (uint x * (uint y)\<^sup>2) + - uint retX) + - (8 * ((uint y)\<^sup>2 * (uint y)\<^sup>2)))"
      unfolding r by (rule cong_p_trans [OF sum_mod_p(1) [OF u320_neg_p_cong(2)] cong_p_add [OF t5 n6]])
    then show ?thesis by (simp add: r power2_eq_square power4_eq_xxxx algebra_simps)
  qed
qed

section \<open>Affine points\<close>

text \<open>Coordinates \<open>(X, Y, Z)\<close> stand for the affine point \<open>(X / Z^2, Y / Z^3)\<close>.\<close>

definition stands_for :: "jpoint \<Rightarrow> int \<Rightarrow> int \<Rightarrow> bool" where
  "stands_for a x y \<longleftrightarrow>
     cong_p (uint (jx a)) (x * (uint (jz a))\<^sup>2) \<and> cong_p (uint (jy a)) (y * uint (jz a) ^ 3)"

definition on_curve :: "jpoint \<Rightarrow> bool" where
  "on_curve a \<longleftrightarrow> cong_p ((uint (jy a))\<^sup>2) (uint (jx a) ^ 3 + 7 * uint (jz a) ^ 6)"

lemma chord_affine:
  assumes U: "cong_p U1 (x1 * W\<^sup>2)" "cong_p U2 (x2 * W\<^sup>2)" and V: "cong_p S1 (y1 * W ^ 3)" "cong_p S2 (y2 * W ^ 3)"
    and slope: "cong_p (m * (x2 - x1)) (y2 - y1)"
    and X: "cong_p X ((S2 - S1)\<^sup>2 - (U2 - U1) ^ 3 - 2 * U1 * (U2 - U1)\<^sup>2)"
    and Y: "cong_p Y ((S2 - S1) * (U1 * (U2 - U1)\<^sup>2 - X) - S1 * (U2 - U1) ^ 3)"
    and Z: "cong_p Z (W * (U2 - U1))"
  defines "x3 \<equiv> m\<^sup>2 - x1 - x2"
  shows "cong_p X (x3 * Z\<^sup>2)" "cong_p Y ((m * (x1 - x3) - y1) * Z ^ 3)"
proof -
  define d where "d = x2 - x1"
  have H: "cong_p (U2 - U1) (d * W\<^sup>2)"
    using cong_p_diff [OF U(2,1)] by (simp add: d_def algebra_simps)
  have "cong_p (S2 - S1) ((y2 - y1) * W ^ 3)" using cong_p_diff [OF V(2,1)] by (simp add: algebra_simps)
  moreover have "cong_p ((y2 - y1) * W ^ 3) (m * d * W ^ 3)"
    unfolding d_def by (intro cong_p_mult cong_p_refl cong_p_sym [OF slope])
  ultimately have S: "cong_p (S2 - S1) (m * d * W ^ 3)" by (rule cong_p_trans)
  have "cong_p Z (W * (d * W\<^sup>2))" by (rule cong_p_trans [OF Z cong_p_mult [OF cong_p_refl H]])
  moreover have "W * (d * W\<^sup>2) = d * W ^ 3" by (simp add: power2_eq_square power3_eq_cube algebra_simps)
  ultimately have Z: "cong_p Z (d * W ^ 3)" by simp
  have "cong_p X ((m * d * W ^ 3)\<^sup>2 - (d * W\<^sup>2) ^ 3 - 2 * (x1 * W\<^sup>2) * (d * W\<^sup>2)\<^sup>2)"
    by (rule cong_p_trans [OF X]) (intro cong_p_diff cong_p_mult cong_p_power S H U cong_p_refl)
  moreover have "(m * d * W ^ 3)\<^sup>2 - (d * W\<^sup>2) ^ 3 - 2 * (x1 * W\<^sup>2) * (d * W\<^sup>2)\<^sup>2 = x3 * (d * W ^ 3)\<^sup>2"
    by (simp add: x3_def d_def) algebra
  ultimately have X': "cong_p X (x3 * (d * W ^ 3)\<^sup>2)" by simp
  then show "cong_p X (x3 * Z\<^sup>2)"
    by (rule cong_p_trans) (intro cong_p_mult cong_p_power cong_p_refl cong_p_sym [OF Z])
  have "cong_p Y ((m * d * W ^ 3) * ((x1 * W\<^sup>2) * (d * W\<^sup>2)\<^sup>2 - x3 * (d * W ^ 3)\<^sup>2) - y1 * W ^ 3 * (d * W\<^sup>2) ^ 3)"
    by (rule cong_p_trans [OF Y]) (intro cong_p_diff cong_p_mult cong_p_power S H U V X' cong_p_refl)
  moreover have "(m * d * W ^ 3) * ((x1 * W\<^sup>2) * (d * W\<^sup>2)\<^sup>2 - x3 * (d * W ^ 3)\<^sup>2) - y1 * W ^ 3 * (d * W\<^sup>2) ^ 3 =
      (m * (x1 - x3) - y1) * (d * W ^ 3) ^ 3"
    by algebra
  ultimately have "cong_p Y ((m * (x1 - x3) - y1) * (d * W ^ 3) ^ 3)" by simp
  then show "cong_p Y ((m * (x1 - x3) - y1) * Z ^ 3)"
    by (rule cong_p_trans) (intro cong_p_mult cong_p_power cong_p_refl cong_p_sym [OF Z])
qed

lemma tangent_affine:
  assumes a: "cong_p A (x * W\<^sup>2)" "cong_p C (y * W ^ 3)"
    and slope: "cong_p (m * (2 * y)) (3 * x\<^sup>2)"
    and X: "cong_p X (9 * A ^ 4 - 8 * (A * C\<^sup>2))"
    and Y: "cong_p Y (3 * A\<^sup>2 * (4 * (A * C\<^sup>2) - X) - 8 * C ^ 4)"
    and Z: "cong_p Z (2 * (C * W))"
  defines "x3 \<equiv> m\<^sup>2 - 2 * x"
  shows "cong_p X (x3 * Z\<^sup>2)" "cong_p Y ((m * (x - x3) - y) * Z ^ 3)"
proof -
  have "cong_p Z (2 * (y * W ^ 3 * W))"
    by (rule cong_p_trans [OF Z]) (intro cong_p_mult cong_p_refl a)
  then have Z: "cong_p Z (2 * y * W ^ 4)" by (simp add: power4_eq_xxxx power3_eq_cube algebra_simps)
  have sq: "cong_p (9 * x ^ 4) ((m * (2 * y))\<^sup>2)"
    using cong_p_sym [OF cong_p_power [OF slope, of 2]] by (simp add: power2_eq_square power4_eq_xxxx algebra_simps)
  have "cong_p X (9 * (x * W\<^sup>2) ^ 4 - 8 * ((x * W\<^sup>2) * (y * W ^ 3)\<^sup>2))"
    by (rule cong_p_trans [OF X]) (intro cong_p_diff cong_p_mult cong_p_power a cong_p_refl)
  also have "9 * (x * W\<^sup>2) ^ 4 - 8 * ((x * W\<^sup>2) * (y * W ^ 3)\<^sup>2) = 9 * x ^ 4 * W ^ 8 - 8 * (x * y\<^sup>2) * W ^ 8"
    by algebra
  also have "cong_p (9 * x ^ 4 * W ^ 8 - 8 * (x * y\<^sup>2) * W ^ 8) ((m * (2 * y))\<^sup>2 * W ^ 8 - 8 * (x * y\<^sup>2) * W ^ 8)"
    by (intro cong_p_diff cong_p_mult cong_p_refl sq)
  also have "(m * (2 * y))\<^sup>2 * W ^ 8 - 8 * (x * y\<^sup>2) * W ^ 8 = x3 * (2 * y * W ^ 4)\<^sup>2"
    by (simp add: x3_def) algebra
  finally have X': "cong_p X (x3 * (2 * y * W ^ 4)\<^sup>2)" .
  then show "cong_p X (x3 * Z\<^sup>2)"
    by (rule cong_p_trans) (intro cong_p_mult cong_p_power cong_p_refl cong_p_sym [OF Z])
  let ?K = "(4 * y\<^sup>2 * W ^ 12) * (x - x3)"
  have "cong_p Y (3 * (x * W\<^sup>2)\<^sup>2 * (4 * ((x * W\<^sup>2) * (y * W ^ 3)\<^sup>2) - x3 * (2 * y * W ^ 4)\<^sup>2) - 8 * (y * W ^ 3) ^ 4)"
    by (rule cong_p_trans [OF Y]) (intro cong_p_diff cong_p_mult cong_p_power a X' cong_p_refl)
  also have "3 * (x * W\<^sup>2)\<^sup>2 * (4 * ((x * W\<^sup>2) * (y * W ^ 3)\<^sup>2) - x3 * (2 * y * W ^ 4)\<^sup>2) - 8 * (y * W ^ 3) ^ 4 =
      3 * x\<^sup>2 * ?K - 8 * y ^ 4 * W ^ 12"
    by algebra
  also have "cong_p (3 * x\<^sup>2 * ?K - 8 * y ^ 4 * W ^ 12) (m * (2 * y) * ?K - 8 * y ^ 4 * W ^ 12)"
    by (intro cong_p_diff cong_p_mult cong_p_refl cong_p_sym [OF slope])
  also have "m * (2 * y) * ?K - 8 * y ^ 4 * W ^ 12 = (m * (x - x3) - y) * (2 * y * W ^ 4) ^ 3"
    by algebra
  finally have "cong_p Y ((m * (x - x3) - y) * (2 * y * W ^ 4) ^ 3)" .
  then show "cong_p Y ((m * (x - x3) - y) * Z ^ 3)"
    by (rule cong_p_trans) (intro cong_p_mult cong_p_power cong_p_refl cong_p_sym [OF Z])
qed

text \<open>The curve equation is kept: both sides differ by multiples of the equations of the arguments.\<close>

lemma cong_p_zero: "cong_p a b \<longleftrightarrow> cong_p (a - b) 0"
  by (simp add: cong_p_iff_dvd)

lemma chord_curve:
  assumes a: "cong_p (S1\<^sup>2) (U1 ^ 3 + B)" and b: "cong_p (S2\<^sup>2) (U2 ^ 3 + B)"
    and X: "cong_p X ((S2 - S1)\<^sup>2 - (U2 - U1) ^ 3 - 2 * U1 * (U2 - U1)\<^sup>2)"
    and Y: "cong_p Y ((S2 - S1) * (U1 * (U2 - U1)\<^sup>2 - X) - S1 * (U2 - U1) ^ 3)"
  shows "cong_p (Y\<^sup>2) (X ^ 3 + B * (U2 - U1) ^ 6)"
proof -
  define H S where "H = U2 - U1" and "S = S2 - S1"
  define E1 E2 where "E1 = S1\<^sup>2 - U1 ^ 3 - B" and "E2 = (S1 + S)\<^sup>2 - (U1 + H) ^ 3 - B"
  define X0 where "X0 = S\<^sup>2 - H ^ 3 - 2 * U1 * H\<^sup>2"
  define Y0 where "Y0 = S * (U1 * H\<^sup>2 - X0) - S1 * H ^ 3"
  have E: "cong_p E1 0" "cong_p E2 0"
    using a b by (simp_all add: E1_def E2_def H_def S_def cong_p_iff_dvd algebra_simps)
  have X0: "cong_p X X0" using X by (simp add: X0_def H_def S_def)
  have "cong_p Y Y0"
    unfolding Y0_def H_def S_def
    by (rule cong_p_trans [OF Y]) (intro cong_p_diff cong_p_mult cong_p_refl X0)
  then have y: "cong_p (Y\<^sup>2) (Y0\<^sup>2)" by (rule cong_p_power)
  have "Y0\<^sup>2 = X0 ^ 3 + B * H ^ 6 - H ^ 3 * (E1 - E2) * (X0 - U1 * H\<^sup>2) + E1 * H ^ 6"
    unfolding Y0_def X0_def E1_def E2_def by algebra
  also have "cong_p \<dots> (X0 ^ 3 + B * H ^ 6 - H ^ 3 * (0 - 0) * (X0 - U1 * H\<^sup>2) + 0 * H ^ 6)"
    by (intro cong_p_add cong_p_diff cong_p_mult cong_p_refl E)
  also have "X0 ^ 3 + B * H ^ 6 - H ^ 3 * (0 - 0) * (X0 - U1 * H\<^sup>2) + 0 * H ^ 6 = X0 ^ 3 + B * H ^ 6" by simp
  also have "cong_p (X0 ^ 3 + B * H ^ 6) (X ^ 3 + B * H ^ 6)"
    by (intro cong_p_add cong_p_power cong_p_refl cong_p_sym [OF X0])
  finally show ?thesis using y by (simp add: H_def cong_p_trans)
qed

lemma tangent_curve:
  assumes a: "cong_p (C\<^sup>2) (A ^ 3 + B)"
    and X: "cong_p X (9 * A ^ 4 - 8 * (A * C\<^sup>2))"
    and Y: "cong_p Y (3 * A\<^sup>2 * (4 * (A * C\<^sup>2) - X) - 8 * C ^ 4)"
  shows "cong_p (Y\<^sup>2) (X ^ 3 + B * (2 * C) ^ 6)"
proof -
  define E where "E = C\<^sup>2 - A ^ 3 - B"
  define X0 where "X0 = 9 * A ^ 4 - 8 * (A * C\<^sup>2)"
  define Y0 where "Y0 = 3 * A\<^sup>2 * (4 * (A * C\<^sup>2) - X0) - 8 * C ^ 4"
  have E: "cong_p E 0" using a by (simp add: E_def cong_p_iff_dvd algebra_simps)
  have X0: "cong_p X X0" using X by (simp add: X0_def)
  have "cong_p Y Y0"
    unfolding Y0_def by (rule cong_p_trans [OF Y]) (intro cong_p_diff cong_p_mult cong_p_refl X0)
  then have y: "cong_p (Y\<^sup>2) (Y0\<^sup>2)" by (rule cong_p_power)
  have "Y0\<^sup>2 = X0 ^ 3 + B * (2 * C) ^ 6 + 64 * C ^ 6 * E"
    unfolding Y0_def X0_def E_def by algebra
  also have "cong_p \<dots> (X0 ^ 3 + B * (2 * C) ^ 6 + 64 * C ^ 6 * 0)"
    by (intro cong_p_add cong_p_mult cong_p_refl E)
  also have "X0 ^ 3 + B * (2 * C) ^ 6 + 64 * C ^ 6 * 0 = X0 ^ 3 + B * (2 * C) ^ 6" by simp
  also have "cong_p (X0 ^ 3 + B * (2 * C) ^ 6) (X ^ 3 + B * (2 * C) ^ 6)"
    by (intro cong_p_add cong_p_power cong_p_refl cong_p_sym [OF X0])
  finally show ?thesis using y by (simp add: cong_p_trans)
qed

section \<open>The branches of an addition\<close>

lemma operand_value:
  "uint (u257_mod_p (u256_fast_mul_p x (u256_square_p z))) = uint x * (uint z)\<^sup>2 mod prime_p"
  "uint (u257_mod_p (u256_fast_mul_p (u256_mul_p y (u256_square_p z)) z)) = uint y * uint z ^ 3 mod prime_p"
proof -
  have "cong_p (uint x * uint (u256_square_p z)) (uint x * (uint z * uint z))"
    by (intro cong_p_mult cong_p_refl mul_p_cong(2))
  then show "uint (u257_mod_p (u256_fast_mul_p x (u256_square_p z))) = uint x * (uint z)\<^sup>2 mod prime_p"
    by (simp add: fast_mod_p cong_p_def power2_eq_square)
  have "cong_p (uint (u256_mul_p y (u256_square_p z)) * uint z) (uint y * (uint z * uint z) * uint z)"
    by (rule cong_p_mult [OF cong_p_trans [OF mul_p_cong(1) cong_p_mult [OF cong_p_refl mul_p_cong(2)]] cong_p_refl])
  then show "uint (u257_mod_p (u256_fast_mul_p (u256_mul_p y (u256_square_p z)) z)) = uint y * uint z ^ 3 mod prime_p"
    by (simp add: fast_mod_p cong_p_def power3_eq_cube mult.assoc)
qed

lemma word_eq_cong:
  "uint u = x mod prime_p \<Longrightarrow> uint v = y mod prime_p \<Longrightarrow> (u :: u256) = v \<longleftrightarrow> cong_p x y"
  by (simp add: cong_p_def word_uint_eq_iff)

text \<open>What \<open>jpoint_add\<close> returns for two points that are not at infinity.\<close>

lemma jpoint_add_cases:
  fixes a b r
  assumes "\<not> isZero a" "\<not> isZero b"
  defines "U1 \<equiv> uint (jx a) * (uint (jz b))\<^sup>2" and "U2 \<equiv> uint (jx b) * (uint (jz a))\<^sup>2"
    and "S1 \<equiv> uint (jy a) * uint (jz b) ^ 3" and "S2 \<equiv> uint (jy b) * uint (jz a) ^ 3"
  shows "\<not> cong_p U1 U2 \<Longrightarrow> \<exists>u1 u2 s1 s2. jpoint_add a b r = chord u1 u2 s1 s2 (u256_mul_p (jz a) (jz b)) r \<and>
      uint u1 = U1 mod prime_p \<and> uint u2 = U2 mod prime_p \<and> uint s1 = S1 mod prime_p \<and> uint s2 = S2 mod prime_p"
    and "cong_p U1 U2 \<Longrightarrow> cong_p S1 S2 \<Longrightarrow> jpoint_add a b r = jpoint_double a r"
    and "cong_p U1 U2 \<Longrightarrow> \<not> cong_p S1 S2 \<Longrightarrow> jpoint_add a b r = r\<lparr>jz := 0\<rparr>"
proof -
  define u1 where "u1 = u257_mod_p (u256_fast_mul_p (jx a) (u256_square_p (jz b)))"
  define u2 where "u2 = u257_mod_p (u256_fast_mul_p (jx b) (u256_square_p (jz a)))"
  define s1 where "s1 = u257_mod_p (u256_fast_mul_p (u256_mul_p (jy a) (u256_square_p (jz b))) (jz b))"
  define s2 where "s2 = u257_mod_p (u256_fast_mul_p (u256_mul_p (jy b) (u256_square_p (jz a))) (jz a))"
  have v: "uint u1 = U1 mod prime_p" "uint u2 = U2 mod prime_p" "uint s1 = S1 mod prime_p" "uint s2 = S2 mod prime_p"
    by (simp_all only: u1_def u2_def s1_def s2_def U1_def U2_def S1_def S2_def operand_value)
  have add: "jpoint_add a b r = (if u1 \<noteq> u2 then chord u1 u2 s1 s2 (u256_mul_p (jz a) (jz b)) r
      else if s1 = s2 then jpoint_double a r else r\<lparr>jz := 0\<rparr>)"
    using assms(1,2) by (simp add: jpoint_add_def Let_def u1_def u2_def s1_def s2_def)
  note e = word_eq_cong [OF v(1,2)] word_eq_cong [OF v(3,4)]
  show "\<not> cong_p U1 U2 \<Longrightarrow> \<exists>u1 u2 s1 s2. jpoint_add a b r = chord u1 u2 s1 s2 (u256_mul_p (jz a) (jz b)) r \<and>
      uint u1 = U1 mod prime_p \<and> uint u2 = U2 mod prime_p \<and> uint s1 = S1 mod prime_p \<and> uint s2 = S2 mod prime_p"
    using add e v by auto
  show "cong_p U1 U2 \<Longrightarrow> cong_p S1 S2 \<Longrightarrow> jpoint_add a b r = jpoint_double a r"
    "cong_p U1 U2 \<Longrightarrow> \<not> cong_p S1 S2 \<Longrightarrow> jpoint_add a b r = r\<lparr>jz := 0\<rparr>"
    using add e by simp_all
qed

lemma jpoint_add_point_cases:
  fixes a b r
  assumes "\<not> isZero a" "uint (jx a) < prime_p" "uint (jy a) < prime_p"
  defines "U2 \<equiv> uint (px b) * (uint (jz a))\<^sup>2" and "S2 \<equiv> uint (py b) * uint (jz a) ^ 3"
  shows "\<not> cong_p (uint (jx a)) U2 \<Longrightarrow> \<exists>u2 s2. jpoint_add_point a b r = chord (jx a) u2 (jy a) s2 (jz a) r \<and>
      uint u2 = U2 mod prime_p \<and> uint s2 = S2 mod prime_p"
    and "cong_p (uint (jx a)) U2 \<Longrightarrow> cong_p (uint (jy a)) S2 \<Longrightarrow> jpoint_add_point a b r = point_double b r"
    and "cong_p (uint (jx a)) U2 \<Longrightarrow> \<not> cong_p (uint (jy a)) S2 \<Longrightarrow> jpoint_add_point a b r = r\<lparr>jz := 0\<rparr>"
proof -
  define u2 where "u2 = u257_mod_p (u256_fast_mul_p (px b) (u256_square_p (jz a)))"
  define s2 where "s2 = u257_mod_p (u256_fast_mul_p (u256_mul_p (py b) (u256_square_p (jz a))) (jz a))"
  have v: "uint u2 = U2 mod prime_p" "uint s2 = S2 mod prime_p"
    by (simp_all only: u2_def s2_def U2_def S2_def operand_value)
  have c: "uint (jx a) = uint (jx a) mod prime_p" "uint (jy a) = uint (jy a) mod prime_p"
    using assms(2,3) u256_bounded(2) by (simp_all add: mod_small)
  have add: "jpoint_add_point a b r = (if jx a \<noteq> u2 then chord (jx a) u2 (jy a) s2 (jz a) r
      else if jy a = s2 then point_double b r else r\<lparr>jz := 0\<rparr>)"
    using assms(1) by (simp add: jpoint_add_point_def Let_def u2_def s2_def)
  note e = word_eq_cong [OF c(1) v(1)] word_eq_cong [OF c(2) v(2)]
  show "\<not> cong_p (uint (jx a)) U2 \<Longrightarrow> \<exists>u2 s2. jpoint_add_point a b r = chord (jx a) u2 (jy a) s2 (jz a) r \<and>
      uint u2 = U2 mod prime_p \<and> uint s2 = S2 mod prime_p"
    using add e v by auto
  show "cong_p (uint (jx a)) U2 \<Longrightarrow> cong_p (uint (jy a)) S2 \<Longrightarrow> jpoint_add_point a b r = point_double b r"
    "cong_p (uint (jx a)) U2 \<Longrightarrow> \<not> cong_p (uint (jy a)) S2 \<Longrightarrow> jpoint_add_point a b r = r\<lparr>jz := 0\<rparr>"
    using add e by simp_all
qed

text \<open>A doubling, with the two sums that must not leave their range.\<close>

definition double_in_range :: "jpoint \<Rightarrow> bool" where
  "double_in_range a \<longleftrightarrow> uint (fst (tangent (jx a) (jy a))) \<le> prime_p \<and>
     2 * uint (u256_mul_p (jy a) (jz a)) < 2 ^ 257 - 0x1000003d1"

lemma jpoint_double_value:
  assumes "\<not> isZero a" and range: "double_in_range a" and r': "r' = jpoint_double a r"
  shows "cong_p (uint (jx r')) (9 * uint (jx a) ^ 4 - 8 * (uint (jx a) * (uint (jy a))\<^sup>2))"
    and "cong_p (uint (jy r'))
      (3 * (uint (jx a))\<^sup>2 * (4 * (uint (jx a) * (uint (jy a))\<^sup>2) - uint (jx r')) - 8 * uint (jy a) ^ 4)"
    and "cong_p (uint (jz r')) (2 * (uint (jy a) * uint (jz a)))"
proof -
  obtain X Y where t: "tangent (jx a) (jy a) = (X, Y)" by fastforce
  let ?m = "u256_mul_p (jy a) (jz a)"
  have b: "uint X \<le> prime_p" "2 * uint ?m < 2 ^ 257 - 0x1000003d1"
    using range by (simp_all add: double_in_range_def t)
  have r: "jx r' = X" "jy r' = Y" "jz r' = u257_mod_p (2 * ucast ?m)"
    using assms(1) by (simp_all add: r' jpoint_double_def t Let_def)
  show "cong_p (uint (jx r')) (9 * uint (jx a) ^ 4 - 8 * (uint (jx a) * (uint (jy a))\<^sup>2))"
    "cong_p (uint (jy r'))
      (3 * (uint (jx a))\<^sup>2 * (4 * (uint (jx a) * (uint (jy a))\<^sup>2) - uint (jx r')) - 8 * uint (jy a) ^ 4)"
    using tangent_value [OF t] b(1) by (simp_all add: r)
  have e: "uint (2 * ucast ?m :: u257) = 2 * uint ?m"
    using b(2) by (simp add: uint_mult_small uint_ucast_256)
  have "cong_p (uint (jz r')) (2 * uint ?m)"
    unfolding r using u257_mod_p_cong [of "2 * ucast ?m"] b(2) by (simp add: e)
  then show "cong_p (uint (jz r')) (2 * (uint (jy a) * uint (jz a)))"
    by (rule cong_p_trans) (intro cong_p_mult cong_p_refl mul_p_cong(1))
qed

section \<open>Closure\<close>

text \<open>A point at infinity or on the curve, and the ranges an addition relies on.\<close>

definition valid_point :: "jpoint \<Rightarrow> bool" where
  "valid_point a \<longleftrightarrow> isZero a \<or> on_curve a"

definition add_in_range :: "jpoint \<Rightarrow> jpoint \<Rightarrow> jpoint \<Rightarrow> bool" where
  "add_in_range a b r \<longleftrightarrow>
     (if cong_p (uint (jx a) * (uint (jz b))\<^sup>2) (uint (jx b) * (uint (jz a))\<^sup>2)
      then double_in_range a else uint (jx (jpoint_add a b r)) \<le> prime_p)"

lemma double_on_curve:
  assumes "\<not> isZero a" "on_curve a" "double_in_range a"
  shows "on_curve (jpoint_double a r)"
proof -
  note v = jpoint_double_value [OF assms(1,3) refl, of r]
  let ?r = "jpoint_double a r"
  have "cong_p ((uint (jy ?r))\<^sup>2) (uint (jx ?r) ^ 3 + 7 * uint (jz a) ^ 6 * (2 * uint (jy a)) ^ 6)"
    by (rule tangent_curve [OF assms(2) [unfolded on_curve_def] v(1,2)])
  also have "7 * uint (jz a) ^ 6 * (2 * uint (jy a)) ^ 6 = 7 * (2 * (uint (jy a) * uint (jz a))) ^ 6"
    by (simp add: power_mult_distrib)
  also have "cong_p (uint (jx ?r) ^ 3 + 7 * (2 * (uint (jy a) * uint (jz a))) ^ 6)
      (uint (jx ?r) ^ 3 + 7 * uint (jz ?r) ^ 6)"
    by (intro cong_p_add cong_p_mult cong_p_power cong_p_refl cong_p_sym [OF v(3)])
  finally show ?thesis by (simp add: on_curve_def)
qed

lemma scaled_on_curve:
  assumes "on_curve a"
  shows "cong_p ((uint (jy a) * w ^ 3)\<^sup>2) ((uint (jx a) * w\<^sup>2) ^ 3 + 7 * (uint (jz a) * w) ^ 6)"
proof -
  have "cong_p ((uint (jy a))\<^sup>2 * w ^ 6) ((uint (jx a) ^ 3 + 7 * uint (jz a) ^ 6) * w ^ 6)"
    using assms unfolding on_curve_def by (intro cong_p_mult cong_p_refl)
  then show ?thesis by (simp add: power_mult_distrib algebra_simps flip: power_mult)
qed

lemma chord_on_curve:
  assumes "\<not> isZero a" "\<not> isZero b" "on_curve a" "on_curve b"
    and ne: "\<not> cong_p (uint (jx a) * (uint (jz b))\<^sup>2) (uint (jx b) * (uint (jz a))\<^sup>2)"
    and le: "uint (jx (jpoint_add a b r)) \<le> prime_p"
  shows "on_curve (jpoint_add a b r)"
proof -
  let ?r = "jpoint_add a b r" and ?W = "uint (jz a) * uint (jz b)"
  obtain u1 u2 s1 s2 where c: "?r = chord u1 u2 s1 s2 (u256_mul_p (jz a) (jz b)) r"
    and u: "uint u1 = uint (jx a) * (uint (jz b))\<^sup>2 mod prime_p" "uint u2 = uint (jx b) * (uint (jz a))\<^sup>2 mod prime_p"
      "uint s1 = uint (jy a) * uint (jz b) ^ 3 mod prime_p" "uint s2 = uint (jy b) * uint (jz a) ^ 3 mod prime_p"
    using jpoint_add_cases(1) [OF assms(1,2) ne, of r] by blast
  have can: "uint u1 < prime_p" "uint s1 < prime_p" using u prime_p_bounds(3) by simp_all
  note v = chord_value [OF can c]
  have e: "cong_p (uint u1) (uint (jx a) * (uint (jz b))\<^sup>2)" "cong_p (uint s1) (uint (jy a) * uint (jz b) ^ 3)"
    "cong_p (uint u2) (uint (jx b) * (uint (jz a))\<^sup>2)" "cong_p (uint s2) (uint (jy b) * uint (jz a) ^ 3)"
    by (simp_all add: u)
  have curve: "cong_p ((uint s)\<^sup>2) (uint u' ^ 3 + 7 * ?W ^ 6)"
    if "cong_p (uint s) Y" "cong_p (uint u') X" "cong_p (Y\<^sup>2) (X ^ 3 + 7 * ?W ^ 6)" for s u' :: u256 and X Y
    using cong_p_trans [OF cong_p_power [OF that(1), of 2] cong_p_trans [OF that(3)]]
      cong_p_add [OF cong_p_power [OF cong_p_sym [OF that(2)], of 3] cong_p_refl [of "7 * ?W ^ 6"]] by blast
  have a: "cong_p ((uint s1)\<^sup>2) (uint u1 ^ 3 + 7 * ?W ^ 6)"
    by (rule curve [OF e(2,1) scaled_on_curve [OF assms(3)]])
  have b: "cong_p ((uint s2)\<^sup>2) (uint u2 ^ 3 + 7 * ?W ^ 6)"
    using curve [OF e(4,3)] scaled_on_curve [OF assms(4), of "uint (jz a)"] by (simp add: mult.commute)
  have "cong_p ((uint (jy ?r))\<^sup>2) (uint (jx ?r) ^ 3 + 7 * ?W ^ 6 * (uint u2 - uint u1) ^ 6)"
    by (rule chord_curve [OF a b v(1) v(2) [OF le]])
  also have "7 * ?W ^ 6 * (uint u2 - uint u1) ^ 6 = 7 * (?W * (uint u2 - uint u1)) ^ 6"
    by (simp add: power_mult_distrib)
  also have "cong_p (uint (jx ?r) ^ 3 + 7 * (?W * (uint u2 - uint u1)) ^ 6) (uint (jx ?r) ^ 3 + 7 * uint (jz ?r) ^ 6)"
  proof (intro cong_p_add cong_p_mult cong_p_power cong_p_refl)
    have "cong_p (uint (u256_mul_p (jz a) (jz b)) * (uint u2 - uint u1)) (?W * (uint u2 - uint u1))"
      by (intro cong_p_mult cong_p_refl mul_p_cong(1))
    then show "cong_p (?W * (uint u2 - uint u1)) (uint (jz ?r))"
      using v(3) by (blast intro: cong_p_trans cong_p_sym)
  qed
  finally show ?thesis by (simp add: on_curve_def)
qed

section \<open>Evaluating the formulas\<close>

text \<open>The values of the operations as integer expressions, to run the formulas on given points.\<close>

lemma mul_p_value:
  "uint (u256_mul_p a b) = fold_p (fold_p (fold_p (uint a * uint b)))"
  "uint (u256_square_p a) = fold_p (fold_p (fold_p (uint a * uint a)))"
  "uint (u256_fast_mul_p a b) = fold_p (fold_p (uint a * uint b))"
  "uint (u256_fast_square_p a) = fold_p (fold_p (uint a * uint a))"
  by (simp_all add: u256_mul_p_def u256_square_p_def u256_fast_mul_p_def u256_fast_square_p_def
      u512_to_u256_def Let_def u320_to_u256_fold fold_words u512_to_u257_p_value uint_mult_512)

lemma u257_to_u256_p_value:
  "uint a < 2 ^ 257 - 0x1000003d1 \<Longrightarrow> uint (u257_to_u256_p a) = fold_p (uint a)"
  using fold_p_small [of "uint a"] unfolding u257_to_u256_p_def
  by (intro uint_ucast_u256) (simp_all add: fold_words)

lemma uint_ucast_257: "uint (ucast (a :: u257) :: u320) = uint a"
  using uint_bounded [of a] by (intro uint_ucast_small) simp

lemma uint_num: "numeral k < (2 :: int) ^ LENGTH('a) \<Longrightarrow> uint (numeral k :: 'a::len word) = numeral k"
  by (simp add: uint_numeral mod_small del: unsigned_numeral uint_bintrunc)

lemma fold_num: "fold256 c (numeral k) = numeral k - push_bit 256 (drop_bit 256 (numeral k)) + drop_bit 256 (numeral k) * c"
proof -
  have "numeral k mod 2 ^ 256 = (numeral k :: int) - 2 ^ 256 * (numeral k div 2 ^ 256)"
    by (simp only: minus_mult_div_eq_mod)
  then show ?thesis by (simp add: fold256_def drop_bit_eq_div push_bit_eq_mult)
qed

lemma fold_zero_one: "fold256 c 0 = 0" "fold256 c 1 = 1"
  by (simp_all add: fold256_def)

lemmas point_eval = mul_p_value u257_to_u256_p_value u257_mod_p_value u256_neg_p_exact u320_neg_p_exact
  u320_mod_p_exact u320_to_u256_fold uint_ucast_256 uint_ucast_257 uint_add_small uint_mult_small
  fold_num fold_zero_one prime_p_def word_uint_eq_iff uint_num

end
