(* ===== verification/SecpProperties.thy ===== *)
theory SecpProperties
  imports SecpChain SecpLimb SecpPoint
begin

text \<open>
  What \<^verbatim>\<open>secp256k1_math/secp256k1.cpp\<close> promises: exact arithmetic modulo the field prime and
  the group order, inverses and square roots, the squaring on limbs, and point addition as the
  chord and tangent law of the curve; and where the code does not keep the promise.
\<close>

section \<open>Sums and products\<close>

lemma add_p_exact: "uint a < prime_p \<Longrightarrow> uint b < prime_p \<Longrightarrow> uint (u256_add_p a b) = (uint a + uint b) mod prime_p"
  by (simp add: u256_add_p_def sum_257 u257_mod_p_exact)

lemma add_u64_p_exact: "uint (u256_add_u64_p a w) = (uint a + uint w) mod prime_p"
proof -
  have w: "uint (w :: u64) < 2 ^ 64" using uint_bounded [of w] by simp
  then have "uint (ucast w :: u257) = uint w" by (intro uint_ucast_small) simp
  then have "uint (ucast a + ucast w :: u257) = uint a + uint w"
    using w u256_bounded(1) [of a] by (simp add: uint_add_small uint_ucast_256)
  moreover have "uint a + uint w < 2 * prime_p" using w u256_bounded(1) [of a] by (simp add: prime_p_def)
  ultimately show ?thesis by (simp add: u256_add_u64_p_def Let_def u257_mod_p_exact)
qed

lemma sub_p_exact: "uint a < prime_p \<Longrightarrow> uint b < prime_p \<Longrightarrow> uint (u256_sub_p a b) = (uint a - uint b) mod prime_p"
  unfolding u256_sub_p_def by (rule fp.sub_word [OF uint_P])

lemma add_n_exact:
  assumes "uint a < order_n" "uint b < order_n"
  shows "uint (u256_add_n a b) = (uint a + uint b) mod order_n"
proof -
  have "uint (ucast a + ucast b :: u257) = uint a + uint b"
    using u256_bounded(1) [of a] u256_bounded(1) [of b] by (simp add: uint_add_small uint_ucast_256)
  then show ?thesis using assms by (simp add: u256_add_n_def fn.reduce_exact)
qed

lemma sub_n_exact: "uint a < order_n \<Longrightarrow> uint b < order_n \<Longrightarrow> uint (u256_sub_n a b) = (uint a - uint b) mod order_n"
proof -
  assume "uint a < order_n" "uint b < order_n"
  moreover have e: "a - b - negN = a - b + N" by (simp add: N_def negN_def push_bit_eq_mult)
  ultimately show ?thesis unfolding u256_sub_n_def e by (intro fn.sub_word [OF uint_N(1)])
qed

text \<open>
  For reduced arguments the sums, differences and negations modulo the field
  prime and modulo the group order are the exact remainders.
\<close>

lemma modular_sums_exact:
  "(uint a < prime_p \<and> uint b < prime_p \<longrightarrow>
     uint (u256_add_p a b) = (uint a + uint b) mod prime_p \<and>
     uint (u256_sub_p a b) = (uint a - uint b) mod prime_p \<and>
     uint (u256_neg_p a) = (- uint a) mod prime_p) \<and>
   (uint a < order_n \<and> uint b < order_n \<longrightarrow>
     uint (u256_add_n a b) = (uint a + uint b) mod order_n \<and>
     uint (u256_sub_n a b) = (uint a - uint b) mod order_n \<and>
     uint (u256_neg_n a) = (- uint a) mod order_n)"
  by (simp add: add_p_exact sub_p_exact u256_neg_p_exact add_n_exact sub_n_exact
      fn.neg_word [OF uint_N(1)] u256_neg_n_def del: if_split)

text \<open>
  The exported products, with a 256-bit and with a 64-bit factor, the exported scalar
  square, the normalisations and the addition of a 64-bit number are the exact remainders for
  all arguments, reduced or not.
\<close>

lemma modular_products_exact:
  "uint (u256_mul_p_api a b) = uint a * uint b mod prime_p \<and>
   uint (u256_mul_u64_p a w) = uint a * uint w mod prime_p \<and>
   uint (u256_add_u64_p a w) = (uint a + uint w) mod prime_p \<and>
   uint (u256_norm_p a) = uint a mod prime_p \<and>
   uint (u256_mul_n_api a b) = uint a * uint b mod order_n \<and>
   uint (u256_square_n_api a) = uint a * uint a mod order_n \<and>
   uint (u256_mul_u64_n a w) = uint a * uint w mod order_n \<and>
   uint (u256_norm_n a) = uint a mod order_n"
proof (intro conjI)
  show "uint (u256_mul_p_api a b) = uint a * uint b mod prime_p"
    by (simp add: u256_mul_p_api_def u512_mod_p_exact uint_mult_512)
  have "uint (ucast (ucast a * ucast w :: u320) :: u512) = uint a * uint w"
    using uint_bounded [of "ucast a * ucast w :: u320"] by (subst uint_ucast_small) (simp_all add: uint_mult_320)
  then show "uint (u256_mul_u64_p a w) = uint a * uint w mod prime_p"
    by (simp only: u256_mul_u64_p_def Let_def u512_mod_p_exact)
  show "uint (u256_add_u64_p a w) = (uint a + uint w) mod prime_p" by (rule add_u64_p_exact)
  show "uint (u256_norm_p a) = uint a mod prime_p" by (simp add: u256_norm_p_def uint_norm)
  show "uint (u256_mul_n_api a b) = uint a * uint b mod order_n"
    "uint (u256_square_n_api a) = uint a * uint a mod order_n"
    by (simp_all add: u256_mul_n_api_def u256_square_n_api_def u512_mod_n_exact uint_mult_512)
  show "uint (u256_mul_u64_n a w) = uint a * uint w mod order_n" by (rule mul_u64_n_exact)
  show "uint (u256_norm_n a) = uint a mod order_n" by (rule norm_n_exact)
qed

text \<open>
  Property C9. The modular arithmetic is exact: sums, differences and negations for reduced
  arguments, and the exported products, normalisations and mixed sums for all arguments.
\<close>

theorem modular_arithmetic_exact:
  "(uint a < prime_p \<and> uint b < prime_p \<longrightarrow>
     uint (u256_add_p a b) = (uint a + uint b) mod prime_p \<and>
     uint (u256_sub_p a b) = (uint a - uint b) mod prime_p \<and>
     uint (u256_neg_p a) = (- uint a) mod prime_p) \<and>
   (uint a < order_n \<and> uint b < order_n \<longrightarrow>
     uint (u256_add_n a b) = (uint a + uint b) mod order_n \<and>
     uint (u256_sub_n a b) = (uint a - uint b) mod order_n \<and>
     uint (u256_neg_n a) = (- uint a) mod order_n) \<and>
   uint (u256_mul_p_api a b) = uint a * uint b mod prime_p \<and>
   uint (u256_mul_u64_p a w) = uint a * uint w mod prime_p \<and>
   uint (u256_add_u64_p a w) = (uint a + uint w) mod prime_p \<and>
   uint (u256_norm_p a) = uint a mod prime_p \<and>
   uint (u256_mul_n_api a b) = uint a * uint b mod order_n \<and>
   uint (u256_square_n_api a) = uint a * uint a mod order_n \<and>
   uint (u256_mul_u64_n a w) = uint a * uint w mod order_n \<and>
   uint (u256_norm_n a) = uint a mod order_n"
  by (intro conjI modular_sums_exact [THEN conjunct1] modular_sums_exact [THEN conjunct2])
    (simp_all only: modular_products_exact)

theorem modular_arithmetic_exact_witness:
  "uint (u256_sub_p 3 5) = (- 2) mod prime_p \<and> uint (u256_sub_n 3 5) = (- 2) mod order_n"
  using modular_arithmetic_exact [of 3 5] by (simp add: prime_p_def order_n_def neg_n_def)

text \<open>
  Property C10. The exported squaring modulo the field prime, written on 64-bit limbs with carry
  chains and ten partial products, returns the exact remainder of the square.
\<close>

theorem square_limbs_exact:
  assumes "length a = 4"
  shows "length (u256_square_p_limbs a) = 4 \<and> num (u256_square_p_limbs a) = (num a)\<^sup>2 mod prime_p"
  by (rule square_limbs_value [OF assms])

theorem square_limbs_exact_witness: "num (u256_square_p_limbs [3, 0, 0, 0]) = 9"
  using square_limbs_exact [of "[3, 0, 0, 0]"] by (simp add: prime_p_def)

text \<open>
  Property C13. The static scalar product keeps the residue exactly when the last sum of its
  reduction stays below 2^256, and there is a reduced scalar whose square loses the carry.
\<close>

theorem scalar_carry_lost:
  "(cong_n (uint (u256_mul_n a b)) (uint a * uint b) \<longleftrightarrow> last_sum (uint a * uint b) < 2 ^ 256) \<and>
   (\<exists>c. uint c < order_n \<and> \<not> cong_n (uint (u256_square_n c)) (uint c * uint c))"
proof
  show "cong_n (uint (u256_mul_n a b)) (uint a * uint b) \<longleftrightarrow> last_sum (uint a * uint b) < 2 ^ 256"
    using u512_to_u256_n_cong [of "ucast a * ucast b"] by (simp add: u256_mul_n_def Let_def uint_mult_512)
  let ?c = "0xd85a8b99ea36a6fda66f05bf6843d0fd4b8fe22fac4071a16c91a0e4c3163487 :: u256"
  have sq: "uint ?c * uint ?c = 0xb6d8eb9a2f95691a982762a31fad96e15e14877f8735e2f9d359a0155f06b89866b489957ab45d37f1f395c592610584c5808dd154abbb8f3ecf266abbfb1f31" by simp
  have "\<not> last_sum (uint ?c * uint ?c) < 2 ^ 256"
    unfolding sq by (simp add: last_sum_def fold_num neg_n_def)
  then have "\<not> cong_n (uint (u256_square_n ?c)) (uint ?c * uint ?c)"
    using u512_to_u256_n_cong [of "ucast ?c * ucast ?c"] uint_mult_512 [of ?c ?c]
    by (simp only: u256_square_n_def Let_def) blast
  moreover have "uint ?c < order_n" by (simp add: order_n_def neg_n_def)
  ultimately show "\<exists>c. uint c < order_n \<and> \<not> cong_n (uint (u256_square_n c)) (uint c * uint c)" by blast
qed

section \<open>Inverses and roots\<close>

lemma field_inverse:
  "uint (u256_inv_p x) = uint x ^ nat (prime_p - 2) mod prime_p \<and>
   (uint x ^ nat (prime_p - 1) mod prime_p = 1 \<longrightarrow> uint x * uint (u256_inv_p x) mod prime_p = 1)"
proof -
  have "nat (prime_p - 1) = Suc (nat (prime_p - 2))"
    using prime_p_bounds(1) by (simp add: Suc_nat_eq_nat_zadd1)
  then have "uint x * uint x ^ nat (prime_p - 2) = uint x ^ nat (prime_p - 1)" by simp
  then have "uint x * (uint x ^ nat (prime_p - 2) mod prime_p) mod prime_p = uint x ^ nat (prime_p - 1) mod prime_p"
    by (simp only: mod_mult_right_eq)
  then show ?thesis by (simp add: inv_p_power)
qed

lemma scalar_inverse:
  assumes "inv_n_chain mul_n_checked square_n_checked (Some x) \<noteq> None"
  shows "uint (u256_inv_n x) = uint x ^ nat (order_n - 2) mod order_n"
  by (rule inv_n_power [OF assms])

text \<open>
  Property C11. The field inverse is the argument to the power \<open>p - 2\<close>, reduced; it is the
  multiplicative inverse of every argument for which Fermat's little theorem holds. The scalar
  inverse is the argument to the power \<open>n - 2\<close>, reduced, for every argument on which no product of
  the chain loses the carry.
\<close>

theorem inverses_exact:
  "uint (u256_inv_p x) = uint x ^ nat (prime_p - 2) mod prime_p \<and>
   (uint x ^ nat (prime_p - 1) mod prime_p = 1 \<longrightarrow> uint x * uint (u256_inv_p x) mod prime_p = 1) \<and>
   (inv_n_chain mul_n_checked square_n_checked (Some y) \<noteq> None \<longrightarrow>
      uint (u256_inv_n y) = uint y ^ nat (order_n - 2) mod order_n)"
  using field_inverse scalar_inverse by blast

theorem inverses_exact_witness: "1 * uint (u256_inv_p 1) mod prime_p = 1 \<and> uint (u256_inv_n 1) = 1"
proof -
  have "(1 :: int) mod prime_p = 1" by (simp add: prime_p_def)
  then show ?thesis using inverses_exact [of 1 1] inv_n_checked_one by (simp add: order_n_def neg_n_def)
qed

text \<open>
  Property C12. The square root function returns 1 exactly when Euler's criterion holds for its
  argument; the number it then writes is reduced and its square is the argument modulo the
  prime. Otherwise it returns 0 and writes nothing.
\<close>

theorem field_square_root:
  "case u256_sqrt_p x r of (code, root) \<Rightarrow>
     (code = 1 \<and> uint x ^ nat ((prime_p - 1) div 2) mod prime_p = 1 \<and>
        uint root < prime_p \<and> (uint root)\<^sup>2 mod prime_p = uint x mod prime_p) \<or>
     (code = 0 \<and> uint x ^ nat ((prime_p - 1) div 2) mod prime_p \<noteq> 1 \<and> root = r)"
proof (cases "uint x ^ nat ((prime_p - 1) div 2) mod prime_p = 1")
  case True
  let ?e = "uint x ^ nat ((prime_p + 1) div 4)"
  let ?w = "word_of_int (?e mod prime_p) :: u256"
  have b: "0 \<le> ?e mod prime_p" "?e mod prime_p < prime_p" using prime_p_bounds(3) by simp_all
  then have u: "uint ?w = ?e mod prime_p"
    using prime_p_bounds(2) by (simp add: uint_word_of_int mod_small)
  have "(uint ?w)\<^sup>2 mod prime_p = uint x mod prime_p"
    unfolding u using sqrt_p_squares [OF True] by (simp only: power_mod)
  moreover have "u256_sqrt_p x r = (1, ?w)" unfolding sqrt_p_power by (simp only: True if_True simp_thms)
  ultimately show ?thesis using True b(2) by (simp only: prod.case u) blast
next
  case False
  then have "u256_sqrt_p x r = (0, r)" unfolding sqrt_p_power by (simp only: if_False)
  then show ?thesis using False by (simp only: prod.case) blast
qed

section \<open>Points\<close>

definition zero_point :: jpoint where
  "zero_point = \<lparr>jx = 0, jy = 0, jz = 0\<rparr>"

lemma scaled_residue:
  "uint s = Y * q ^ k mod prime_p \<Longrightarrow> cong_p Y (y * p ^ k) \<Longrightarrow> cong_p (uint s) (y * (p * q) ^ k)"
  using cong_p_mult [OF _ cong_p_refl [of "q ^ k"], of Y "y * p ^ k"]
  by (simp add: power_mult_distrib mult.assoc)

lemma addition_law:
  assumes "\<not> isZero a" "\<not> isZero b" "stands_for a x1 y1" "stands_for b x2 y2"
    and "\<not> cong_p (uint (jx a) * (uint (jz b))\<^sup>2) (uint (jx b) * (uint (jz a))\<^sup>2)"
    and "cong_p (m * (x2 - x1)) (y2 - y1)" "uint (jx (jpoint_add a b r)) \<le> prime_p"
  shows "stands_for (jpoint_add a b r) (m\<^sup>2 - x1 - x2) (m * (x1 - (m\<^sup>2 - x1 - x2)) - y1)"
proof -
  let ?W = "uint (jz a) * uint (jz b)"
  obtain u1 u2 s1 s2 where c: "jpoint_add a b r = chord u1 u2 s1 s2 (u256_mul_p (jz a) (jz b)) r"
    and u: "uint u1 = uint (jx a) * (uint (jz b))\<^sup>2 mod prime_p" "uint u2 = uint (jx b) * (uint (jz a))\<^sup>2 mod prime_p"
      "uint s1 = uint (jy a) * uint (jz b) ^ 3 mod prime_p" "uint s2 = uint (jy b) * uint (jz a) ^ 3 mod prime_p"
    using jpoint_add_cases(1) [OF assms(1,2,5), of r] by blast
  have can: "uint u1 < prime_p" "uint s1 < prime_p" using u prime_p_bounds(3) by simp_all
  note v = chord_value [OF can c]
  note a = assms(3) [unfolded stands_for_def] and b = assms(4) [unfolded stands_for_def]
  have o: "cong_p (uint u1) (x1 * ?W\<^sup>2)" "cong_p (uint s1) (y1 * ?W ^ 3)"
    using scaled_residue [OF u(1) a [THEN conjunct1]] scaled_residue [OF u(3) a [THEN conjunct2]] by simp_all
  have o': "cong_p (uint u2) (x2 * ?W\<^sup>2)" "cong_p (uint s2) (y2 * ?W ^ 3)"
    using scaled_residue [OF u(2) b [THEN conjunct1]] scaled_residue [OF u(4) b [THEN conjunct2]]
    by (simp_all add: mult.commute [of "uint (jz b)"])
  have "cong_p (uint (u256_mul_p (jz a) (jz b)) * (uint u2 - uint u1)) (?W * (uint u2 - uint u1))"
    by (intro cong_p_mult cong_p_refl mul_p_cong(1))
  with v(3) have "cong_p (uint (jz (jpoint_add a b r))) (?W * (uint u2 - uint u1))" by (rule cong_p_trans)
  then show ?thesis
    using chord_affine [OF o(1) o'(1) o(2) o'(2) assms(6) v(1) v(2) [OF assms(7)]] unfolding stands_for_def by blast
qed

lemma small_chord: "jx (jpoint_add \<lparr>jx = 0, jy = 0, jz = 1\<rparr> \<lparr>jx = 1, jy = 2, jz = 1\<rparr> r) = 3"
proof -
  have "u256_square_p 1 = 1" "u257_mod_p (u256_fast_mul_p 0 1) = 0" "u257_mod_p (u256_fast_mul_p 1 1) = 1"
    "u256_mul_p 0 1 = 0" "u256_mul_p 2 1 = 2" "u257_mod_p (u256_fast_mul_p 2 1) = 2" "u256_mul_p 1 1 = 1" "u256_mul_p 1 0 = 0"
    "u257_to_u256_p (ucast (1 :: u256) + ucast (u256_neg_p 0)) = 1" "u257_to_u256_p (ucast (2 :: u256) + ucast (u256_neg_p 0)) = 2"
    "u256_square_p 2 = 4"
    "u256_neg_p (u320_mod_p (ucast (1 :: u256) + 2 * ucast (0 :: u256))) = 0xfffffffffffffffffffffffffffffffffffffffffffffffffffffffefffffc2e"
    "u257_mod_p (ucast (4 :: u256) + ucast (0xfffffffffffffffffffffffffffffffffffffffffffffffffffffffefffffc2e :: u256)) = 3"
    by (simp_all add: point_eval del: unsigned_numeral uint_bintrunc)
  then show ?thesis by (simp add: jpoint_add_def chord_def Let_def isZero_def)
qed

lemma doubling_law:
  assumes "\<not> isZero a" "stands_for a x y" "cong_p (m * (2 * y)) (3 * x\<^sup>2)" "double_in_range a"
  shows "stands_for (jpoint_double a r) (m\<^sup>2 - 2 * x) (m * (x - (m\<^sup>2 - 2 * x)) - y)"
  using assms(2) tangent_affine [OF _ _ assms(3) jpoint_double_value [OF assms(1,4) refl]]
  by (simp add: stands_for_def)

text \<open>
  Property C14. For two points that stand for affine points with different first coordinates,
  \<open>jpoint_add\<close> returns the point of the chord law, when the first coordinate it computes, which it
  then negates without a reduction, is at most the prime: with the slope \<open>m\<close> through both, the
  third intersection with the curve, reflected. \<open>jpoint_double\<close> returns the point of the tangent
  law, when the two sums that the code does not reduce stay in range. Outside these ranges neither
  law is claimed.
\<close>

theorem point_laws:
  "(\<not> isZero a \<and> \<not> isZero b \<and> stands_for a x1 y1 \<and> stands_for b x2 y2 \<and>
     \<not> cong_p (uint (jx a) * (uint (jz b))\<^sup>2) (uint (jx b) * (uint (jz a))\<^sup>2) \<and>
     cong_p (m * (x2 - x1)) (y2 - y1) \<and> uint (jx (jpoint_add a b r)) \<le> prime_p \<longrightarrow>
     stands_for (jpoint_add a b r) (m\<^sup>2 - x1 - x2) (m * (x1 - (m\<^sup>2 - x1 - x2)) - y1)) \<and>
   (\<not> isZero c \<and> stands_for c x y \<and> cong_p (n * (2 * y)) (3 * x\<^sup>2) \<and> double_in_range c \<longrightarrow>
     stands_for (jpoint_double c r) (n\<^sup>2 - 2 * x) (n * (x - (n\<^sup>2 - 2 * x)) - y))"
  using addition_law doubling_law by blast

theorem point_laws_witness:
  "stands_for (jpoint_add \<lparr>jx = 0, jy = 0, jz = 1\<rparr> \<lparr>jx = 1, jy = 2, jz = 1\<rparr> zero_point) 3 (- 6) \<and>
   stands_for (jpoint_double \<lparr>jx = 0, jy = 1, jz = 1\<rparr> zero_point) 0 (- 1)"
proof -
  have "u256_fast_square_p 0 = 0" "u256_fast_square_p 1 = 1" "u257_to_u256_p 1 = 1" "u256_fast_mul_p 0 1 = 0"
    "u320_to_u256 (3 * ucast (0 :: u257)) = 0" "u256_square_p 0 = 0" "u320_neg_p (2 * (4 * ucast (0 :: u257))) = 0"
    "u257_mod_p (ucast (0 :: u256) + ucast (0 :: u256)) = 0" "u256_mul_p 1 1 = 1"
    by (simp_all add: point_eval del: unsigned_numeral uint_bintrunc)
  then have "double_in_range \<lparr>jx = 0, jy = 1, jz = 1\<rparr>"
    by (simp add: double_in_range_def tangent_def Let_def prime_p_def)
  then show ?thesis
    using point_laws [of "\<lparr>jx = 0, jy = 0, jz = 1\<rparr>" "\<lparr>jx = 1, jy = 2, jz = 1\<rparr>" 0 0 1 2 2 zero_point
        "\<lparr>jx = 0, jy = 1, jz = 1\<rparr>" 0 1 0] small_chord [of zero_point]
    by (simp add: isZero_def stands_for_def cong_p_def prime_p_def)
qed

text \<open>
  Adding an affine point to a Jacobian point with reduced coordinates is the chord
  law as well.
\<close>

lemma mixed_addition_law:
  assumes "\<not> isZero a" "uint (jx a) < prime_p" "uint (jy a) < prime_p" "stands_for a x1 y1"
    and "\<not> cong_p (uint (jx a)) (uint (px b) * (uint (jz a))\<^sup>2)"
    and "cong_p (m * (uint (px b) - x1)) (uint (py b) - y1)" "uint (jx (jpoint_add_point a b r)) \<le> prime_p"
  shows "stands_for (jpoint_add_point a b r) (m\<^sup>2 - x1 - uint (px b)) (m * (x1 - (m\<^sup>2 - x1 - uint (px b))) - y1)"
proof -
  obtain u2 s2 where c: "jpoint_add_point a b r = chord (jx a) u2 (jy a) s2 (jz a) r"
    and u: "uint u2 = uint (px b) * (uint (jz a))\<^sup>2 mod prime_p" "uint s2 = uint (py b) * uint (jz a) ^ 3 mod prime_p"
    using jpoint_add_point_cases(1) [OF assms(1,2,3,5), of r] by blast
  note v = chord_value [OF assms(2,3) c]
  note a = assms(4) [unfolded stands_for_def]
  have o: "cong_p (uint u2) (uint (px b) * (uint (jz a))\<^sup>2)" "cong_p (uint s2) (uint (py b) * uint (jz a) ^ 3)"
    by (simp_all add: u)
  show ?thesis
    using chord_affine [OF a [THEN conjunct1] o(1) a [THEN conjunct2] o(2) assms(6) v(1) v(2) [OF assms(7)] v(3)]
    unfolding stands_for_def by blast
qed

lemma small_mixed: "jx (jpoint_add_point \<lparr>jx = 0, jy = 0, jz = 1\<rparr> \<lparr>px = 1, py = 2\<rparr> r) = 3"
proof -
  have "u256_square_p 1 = 1" "u257_mod_p (u256_fast_mul_p 1 1) = 1"
    "u256_mul_p 2 1 = 2" "u257_mod_p (u256_fast_mul_p 2 1) = 2" "u256_mul_p 1 1 = 1" "u256_mul_p 1 0 = 0"
    "u257_to_u256_p (ucast (1 :: u256) + ucast (u256_neg_p 0)) = 1" "u257_to_u256_p (ucast (2 :: u256) + ucast (u256_neg_p 0)) = 2"
    "u256_square_p 2 = 4"
    "u256_neg_p (u320_mod_p (ucast (1 :: u256) + 2 * ucast (0 :: u256))) = 0xfffffffffffffffffffffffffffffffffffffffffffffffffffffffefffffc2e"
    "u257_mod_p (ucast (4 :: u256) + ucast (0xfffffffffffffffffffffffffffffffffffffffffffffffffffffffefffffc2e :: u256)) = 3"
    by (simp_all add: point_eval del: unsigned_numeral uint_bintrunc)
  then show ?thesis by (simp add: jpoint_add_point_def chord_def Let_def isZero_def)
qed

lemma mixed_addition_law_instance:
  "stands_for (jpoint_add_point \<lparr>jx = 0, jy = 0, jz = 1\<rparr> \<lparr>px = 1, py = 2\<rparr> zero_point) 3 (- 6)"
  using mixed_addition_law [of "\<lparr>jx = 0, jy = 0, jz = 1\<rparr>" 0 0 "\<lparr>px = 1, py = 2\<rparr>" 2 zero_point] small_mixed [of zero_point]
  by (simp add: isZero_def stands_for_def cong_p_def prime_p_def)



lemma curve_eval:
  assumes "y * y mod prime_p = A" "x * x mod prime_p = B" "B * x mod prime_p = C"
    "z * z mod prime_p = D" "D * D mod prime_p = E" "E * D mod prime_p = F"
  shows "cong_p (y\<^sup>2) (x ^ 3 + 7 * z ^ 6) \<longleftrightarrow> A = (C + 7 * F) mod prime_p"
proof -
  have c: "cong_p (y * y) A" "cong_p (x * x) B" "cong_p (B * x) C" "cong_p (z * z) D" "cong_p (D * D) E" "cong_p (E * D) F"
    using assms by (simp_all add: cong_p_def flip: assms)
  have "cong_p (x ^ 3) C"
    using cong_p_trans [OF cong_p_mult [OF c(2) cong_p_refl [of x]] c(3)] by (simp add: power3_eq_cube mult.assoc)
  moreover have "cong_p (z ^ 6) F"
  proof -
    have "cong_p (z * z * (z * z) * (z * z)) (D * D * D)" by (intro cong_p_mult c)
    also have "cong_p (D * D * D) (E * D)" by (intro cong_p_mult c cong_p_refl)
    finally show ?thesis using c(6) by (auto simp: numeral_eq_Suc mult.assoc intro: cong_p_trans)
  qed
  ultimately have "cong_p (x ^ 3 + 7 * z ^ 6) (C + 7 * F)" by (intro cong_p_add cong_p_mult cong_p_refl)
  moreover have "A mod prime_p = A" unfolding assms(1) [symmetric] by (rule mod_mod_trivial)
  ultimately show ?thesis using c(1) unfolding cong_p_def power2_eq_square by metis
qed

lemma mod_p_num: "2 ^ 256 \<le> (numeral k :: int) \<Longrightarrow> numeral k mod prime_p = fold_p (numeral k) mod prime_p"
  using fold_p_cong [of "numeral k"] by (simp add: cong_p_def)

lemma mod_p_small: "numeral k < prime_p \<Longrightarrow> numeral k mod prime_p = numeral k"
  by (rule mod_small) simp_all

lemma prime_p_num: "prime_p = 0xfffffffffffffffffffffffffffffffffffffffffffffffffffffffefffffc2f"
  by (simp add: prime_p_def)

lemmas less_prime_p = arg_cong2 [where f = "(<)", OF refl prime_p_num, of "numeral k" for k]
  arg_cong2 [where f = "(<)", OF refl prime_p_num, of 1]

lemma mod_p_once: "prime_p \<le> numeral k \<Longrightarrow> numeral k < 2 * prime_p \<Longrightarrow> numeral k mod prime_p = numeral k - prime_p"
  by (rule mod_once)

lemmas once_prime_p = arg_cong2 [where f = "(\<le>)", OF prime_p_num refl, of "numeral k" for k]
  arg_cong2 [where f = "(-)", OF refl prime_p_num, of "numeral k" for k]
  arg_cong2 [where f = "(<)", OF refl arg_cong2 [where f = "(*)", OF refl prime_p_num], of "numeral k" 2 for k]

lemmas mod_p_eval = mod_p_once mod_p_num mod_p_small fold_num less_prime_p once_prime_p
  mod_small [OF zero_le_one, of prime_p]





text \<open>
  A point of the curve with reduced coordinates on which the first coordinate of the double is
  not reduced. Its negation wraps, and the second coordinate comes out wrong.
\<close>

lemma tangent_wrapped:
  "tangent
    0xddf4d3a1e6c7a21e409247e2507086659f1d0da769e70d77aa9650424273348e
    0x3e6fa94abfe42e8d8135fef5bd7acba05e778fdc01893e97c436fdf25948160e =
    (0xfffffffffffffffffffffffffffffffffffffffffffffffffffffffefffffc34,
     0xc33fd2f4a28262471b242a9555dc4ffa83247de576a453ab3bd385ab43eaf9f0)"
proof -
  have s0: "u256_fast_square_p 0xddf4d3a1e6c7a21e409247e2507086659f1d0da769e70d77aa9650424273348e =
      0x3f4d04a708689319896187dfe29f01a3f33bc7b9e2800b856bd8fb8cd5d8716b" by (simp add: point_eval del: unsigned_numeral uint_bintrunc)
  have s1: "u256_fast_square_p 0x3e6fa94abfe42e8d8135fef5bd7acba05e778fdc01893e97c436fdf25948160e =
      0x1ab9b975cbee23e2699085acebe8605afa727d3d7265855bfd6c9cef445e581f" by (simp add: point_eval del: unsigned_numeral uint_bintrunc)
  have s2: "u257_to_u256_p 0x1ab9b975cbee23e2699085acebe8605afa727d3d7265855bfd6c9cef445e581f =
      0x1ab9b975cbee23e2699085acebe8605afa727d3d7265855bfd6c9cef445e581f" by (simp add: point_eval del: unsigned_numeral uint_bintrunc)
  have s3: "u256_fast_mul_p 0xddf4d3a1e6c7a21e409247e2507086659f1d0da769e70d77aa9650424273348e 0x1ab9b975cbee23e2699085acebe8605afa727d3d7265855bfd6c9cef445e581f =
      0x5fffffffffffffffffffffffffffffffffffffffffffffffffffffff9ffffe92" by (simp add: point_eval del: unsigned_numeral uint_bintrunc)
  have s4: "u320_to_u256 (3 * ucast (0x3f4d04a708689319896187dfe29f01a3f33bc7b9e2800b856bd8fb8cd5d8716b :: u257)) =
      0xbde70df51939b94c9c24979fa7dd04ebd9b3572da7802290438af2a681895441" by (simp add: point_eval del: unsigned_numeral uint_bintrunc)
  have s5: "u256_square_p 0xbde70df51939b94c9c24979fa7dd04ebd9b3572da7802290438af2a681895441 =
      0xfffffffffffffffffffffffffffffffffffffffffffffffffffffffefffffc37" by (simp add: point_eval del: unsigned_numeral uint_bintrunc)
  have s6: "u320_neg_p (2 * (4 * ucast (0x5fffffffffffffffffffffffffffffffffffffffffffffffffffffff9ffffe92 :: u257))) =
      0xfffffffffffffffffffffffffffffffffffffffffffffffffffffffefffffc2c" by (simp add: point_eval del: unsigned_numeral uint_bintrunc)
  have s7: "u257_mod_p (ucast (0xfffffffffffffffffffffffffffffffffffffffffffffffffffffffefffffc37 :: u256) + ucast (0xfffffffffffffffffffffffffffffffffffffffffffffffffffffffefffffc2c :: u256)) =
      0xfffffffffffffffffffffffffffffffffffffffffffffffffffffffefffffc34" by (simp add: point_eval del: unsigned_numeral uint_bintrunc)
  have s8: "u256_neg_p 0xfffffffffffffffffffffffffffffffffffffffffffffffffffffffefffffc34 =
      0xfffffffffffffffffffffffffffffffffffffffffffffffffffffffffffffffb" by (simp add: u256_neg_p_def P_def push_bit_eq_mult)
  have s9: "u320_to_u256 (4 * ucast (0x5fffffffffffffffffffffffffffffffffffffffffffffffffffffff9ffffe92 :: u257) + ucast (0xfffffffffffffffffffffffffffffffffffffffffffffffffffffffffffffffb :: u256)) =
      0x80000000000000000000000000000000000000000000000000000000800001e5" by (simp add: point_eval del: unsigned_numeral uint_bintrunc)
  have s10: "u256_mul_p 0xbde70df51939b94c9c24979fa7dd04ebd9b3572da7802290438af2a681895441 0x80000000000000000000000000000000000000000000000000000000800001e5 =
      0xbf5d4cd80926bc736d039a8cb0ad8e0e02fc26acb94e624018522409d690eabc" by (simp add: point_eval del: unsigned_numeral uint_bintrunc)
  have s11: "u256_square_p 0x1ab9b975cbee23e2699085acebe8605afa727d3d7265855bfd6c9cef445e581f =
      0x7f83af3c6cd48b458a3bedfeeb5a27c26ffaf518e85541d29b8fd3cb5254bc31" by (simp add: point_eval del: unsigned_numeral uint_bintrunc)
  have s12: "u320_neg_p (8 * ucast (0x7f83af3c6cd48b458a3bedfeeb5a27c26ffaf518e85541d29b8fd3cb5254bc31 :: u256)) =
      0x3e2861c995ba5d3ae209008a52ec1ec80285738bd55f16b238161a16d5a0f34" by (simp add: point_eval del: unsigned_numeral uint_bintrunc)
  have s13: "u257_mod_p (ucast (0xbf5d4cd80926bc736d039a8cb0ad8e0e02fc26acb94e624018522409d690eabc :: u256) + ucast (0x3e2861c995ba5d3ae209008a52ec1ec80285738bd55f16b238161a16d5a0f34 :: u256)) =
      0xc33fd2f4a28262471b242a9555dc4ffa83247de576a453ab3bd385ab43eaf9f0" by (simp add: point_eval del: unsigned_numeral uint_bintrunc)
  show ?thesis by (simp only: tangent_def Let_def prod.case s0 s1 s2 s3 s4 s5 s6 s7 s8 s9 s10 s11 s12 s13)
qed

text \<open>
  Property C16. Doubling does not always keep a point on the curve: there is a point with reduced
  coordinates on the curve whose double, as \<open>jpoint_double\<close> computes it, is not on the curve.
\<close>

theorem doubling_leaves_curve:
  "\<exists>a. on_curve a \<and> \<not> isZero a \<and> uint (jx a) < prime_p \<and> uint (jy a) < prime_p \<and> uint (jz a) < prime_p \<and>
    \<not> on_curve (jpoint_double a r)"
proof -
  let ?a = "\<lparr>jx = 0xddf4d3a1e6c7a21e409247e2507086659f1d0da769e70d77aa9650424273348e,
    jy = 0x3e6fa94abfe42e8d8135fef5bd7acba05e778fdc01893e97c436fdf25948160e, jz = 0x133258d1c2b2e0ab68c1376c3290410d9b094e0a396613896e1ce1a51108075b\<rparr>"
  have "u256_mul_p 0x3e6fa94abfe42e8d8135fef5bd7acba05e778fdc01893e97c436fdf25948160e 0x133258d1c2b2e0ab68c1376c3290410d9b094e0a396613896e1ce1a51108075b =
      0xa1468832305bf700848ac3319dbdf0bdcd0d6a7d885b167f131cc3154ce37f07"
    "u257_mod_p (2 * ucast (0xa1468832305bf700848ac3319dbdf0bdcd0d6a7d885b167f131cc3154ce37f07 :: u256)) =
      0x428d106460b7ee01091586633b7be17b9a1ad4fb10b62cfe2639862b99c701df"
    by (simp_all add: point_eval del: unsigned_numeral uint_bintrunc)
  then have d: "jpoint_double ?a r = r\<lparr>jx := 0xfffffffffffffffffffffffffffffffffffffffffffffffffffffffefffffc34,
      jy := 0xc33fd2f4a28262471b242a9555dc4ffa83247de576a453ab3bd385ab43eaf9f0, jz := 0x428d106460b7ee01091586633b7be17b9a1ad4fb10b62cfe2639862b99c701df\<rparr>"
    by (simp add: jpoint_double_def isZero_def tangent_wrapped)
  have "on_curve ?a"
    unfolding on_curve_def
    by (subst curve_eval [where A = "0x1ab9b975cbee23e2699085acebe8605afa727d3d7265855bfd6c9cef445e581f"
        and B = "0x3f4d04a708689319896187dfe29f01a3f33bc7b9e2800b856bd8fb8cd5d8716b"
        and C = "0x2c62e70442347afc3c98f1022f304cb1b9f2eff9f2b7c0da0cdb86f4daf29846"
        and D = "0xce2d5e9975712804317fa5490424ba686f9bbcdb24cd28d5b334e44e089b5508"
        and E = "0x2314d9bf5b7179304c9d4f8a2ae9a1fc7b362620b728a1e87552e639121b81b8"
        and F = "0xfd7a1e10383f1820e1da39cf3f8802cf0936cb09a48689c96b8270d9a158854e"])
      (simp_all add: mod_p_eval uint_num del: unsigned_numeral uint_bintrunc)
  moreover have "\<not> on_curve (jpoint_double ?a r)"
    unfolding d on_curve_def
    by (subst curve_eval [where A = "0x24800000000000000000000000000000000000000000000800003cd11bf3957d"
        and B = "0x19"
        and C = "0x7d"
        and D = "0x93bbfecf9f0ad36ba36c9b56d3ea6f3463a3c64a4d0884ebbcb7f9e4b25b9b37"
        and E = "0xe5fc7f3668faf8ff80336e77503a6e67cd6e835a1ae544760b42c7b048a27aa1"
        and F = "0x8e5b6db6db6db6db6db6db6db6db6db6db6db6db6db6db6db6db6db64d124705"])
      (simp_all add: mod_p_eval uint_num del: unsigned_numeral uint_bintrunc)
  moreover have "\<not> isZero ?a" "uint (jx ?a) < prime_p" "uint (jy ?a) < prime_p" "uint (jz ?a) < prime_p"
    by (simp_all add: isZero_def prime_p_def)
  ultimately show ?thesis by blast
qed

end
