(* ===== verification/EvmState.thy ===== *)
theory EvmState
  imports Bytes "HOL-Library.Monad_Syntax"
begin

text \<open>
  The data of the virtual machine of \<^verbatim>\<open>src/evmone\<close>: the types of the EVMC interface it
  exchanges with its host (\<^verbatim>\<open>evmc.h\<close>, \<^verbatim>\<open>evmc.hpp\<close>), the execution state with its stack and
  memory (\<^verbatim>\<open>execution_state.hpp\<close>) and the conversions between 256-bit words and big-endian bytes.

  A step that reads or writes outside the stack or the memory has no defined result in C++; here
  it is \<^term>\<open>None\<close>. The stack is the list of its items, the top first; the array that holds it
  is modelled in the theory \<^verbatim>\<open>EvmStack\<close>. The host is not part of the program. It is a record of
  functions over a host state of any type, which every call that may change it returns. An array
  that the interface passes with its size is a list of bytes.
\<close>

type_synonym uint256 = "256 word"

type_synonym bytes = "u8 list"

section \<open>The host interface\<close>

type_synonym evmc_bytes32 = bytes

type_synonym evmc_address = bytes

datatype evmc_call_kind = EVMC_CALL | EVMC_DELEGATECALL | EVMC_CALLCODE | EVMC_CREATE | EVMC_CREATE2

definition EVMC_STATIC :: "32 word" where
  "EVMC_STATIC = 1"

record evmc_message =
  kind :: evmc_call_kind
  flags :: "32 word"
  depth :: int
  gas :: int
  destination :: evmc_address
  sender :: evmc_address
  input_data :: bytes
  msg_value :: evmc_bytes32
  create2_salt :: evmc_bytes32

record evmc_tx_context =
  tx_gas_price :: evmc_bytes32
  tx_origin :: evmc_address
  block_coinbase :: evmc_address
  block_number :: int
  block_timestamp :: int
  block_gas_limit :: int
  block_difficulty :: evmc_bytes32
  chain_id :: evmc_bytes32

datatype evmc_status_code =
    EVMC_SUCCESS | EVMC_FAILURE | EVMC_REVERT | EVMC_OUT_OF_GAS | EVMC_INVALID_INSTRUCTION
  | EVMC_UNDEFINED_INSTRUCTION | EVMC_STACK_OVERFLOW | EVMC_STACK_UNDERFLOW
  | EVMC_BAD_JUMP_DESTINATION | EVMC_INVALID_MEMORY_ACCESS | EVMC_CALL_DEPTH_EXCEEDED
  | EVMC_STATIC_MODE_VIOLATION | EVMC_PRECOMPILE_FAILURE | EVMC_CONTRACT_VALIDATION_FAILURE
  | EVMC_ARGUMENT_OUT_OF_RANGE | EVMC_WASM_UNREACHABLE_INSTRUCTION | EVMC_WASM_TRAP
  | EVMC_INTERNAL_ERROR | EVMC_REJECTED | EVMC_OUT_OF_MEMORY

record evmc_result =
  status_code :: evmc_status_code
  result_gas_left :: int
  output_data :: bytes
  create_address :: evmc_address

datatype evmc_storage_status =
    EVMC_STORAGE_UNCHANGED | EVMC_STORAGE_MODIFIED | EVMC_STORAGE_MODIFIED_AGAIN
  | EVMC_STORAGE_ADDED | EVMC_STORAGE_DELETED

datatype evmc_revision =
    EVMC_FRONTIER | EVMC_HOMESTEAD | EVMC_TANGERINE_WHISTLE | EVMC_SPURIOUS_DRAGON | EVMC_BYZANTIUM
  | EVMC_CONSTANTINOPLE | EVMC_PETERSBURG | EVMC_ISTANBUL | EVMC_BERLIN

text \<open>The revisions are numbered in the order in which they are listed, and compared by number.\<close>

fun revision_number :: "evmc_revision \<Rightarrow> nat" where
  "revision_number EVMC_FRONTIER = 0"
| "revision_number EVMC_HOMESTEAD = 1"
| "revision_number EVMC_TANGERINE_WHISTLE = 2"
| "revision_number EVMC_SPURIOUS_DRAGON = 3"
| "revision_number EVMC_BYZANTIUM = 4"
| "revision_number EVMC_CONSTANTINOPLE = 5"
| "revision_number EVMC_PETERSBURG = 6"
| "revision_number EVMC_ISTANBUL = 7"
| "revision_number EVMC_BERLIN = 8"

lemma revision_number_inject: "revision_number r = revision_number s \<Longrightarrow> r = s"
  by (cases r; cases s) simp_all

instantiation evmc_revision :: linorder
begin

definition less_eq_evmc_revision :: "evmc_revision \<Rightarrow> evmc_revision \<Rightarrow> bool" where
  "less_eq_evmc_revision r s \<longleftrightarrow> revision_number r \<le> revision_number s"

definition less_evmc_revision :: "evmc_revision \<Rightarrow> evmc_revision \<Rightarrow> bool" where
  "less_evmc_revision r s \<longleftrightarrow> revision_number r < revision_number s"

instance
  by standard (auto simp: less_eq_evmc_revision_def less_evmc_revision_def intro: revision_number_inject)

end

text \<open>
  The host functions. The output of \<^verbatim>\<open>copy_code\<close> is the bytes it writes to the buffer, and
  \<^verbatim>\<open>calc_hash\<close> is the hash function that this code base adds to the interface.
\<close>

record 'h evmc_host_interface =
  host_account_exists :: "'h \<Rightarrow> evmc_address \<Rightarrow> bool"
  host_get_storage :: "'h \<Rightarrow> evmc_address \<Rightarrow> evmc_bytes32 \<Rightarrow> evmc_bytes32"
  host_set_storage :: "'h \<Rightarrow> evmc_address \<Rightarrow> evmc_bytes32 \<Rightarrow> evmc_bytes32 \<Rightarrow> evmc_storage_status \<times> 'h"
  host_get_balance :: "'h \<Rightarrow> evmc_address \<Rightarrow> evmc_bytes32"
  host_get_code_size :: "'h \<Rightarrow> evmc_address \<Rightarrow> nat"
  host_get_code_hash :: "'h \<Rightarrow> evmc_address \<Rightarrow> evmc_bytes32"
  host_copy_code :: "'h \<Rightarrow> evmc_address \<Rightarrow> nat \<Rightarrow> nat \<Rightarrow> bytes"
  host_selfdestruct :: "'h \<Rightarrow> evmc_address \<Rightarrow> evmc_address \<Rightarrow> 'h"
  host_call :: "'h \<Rightarrow> evmc_message \<Rightarrow> evmc_result \<times> 'h"
  host_get_tx_context :: "'h \<Rightarrow> evmc_tx_context"
  host_get_block_hash :: "'h \<Rightarrow> int \<Rightarrow> evmc_bytes32"
  host_emit_log :: "'h \<Rightarrow> evmc_address \<Rightarrow> bytes \<Rightarrow> evmc_bytes32 list \<Rightarrow> 'h"
  host_calc_hash :: "bytes \<Rightarrow> evmc_bytes32"

record 'h HostContext =
  interface :: "'h evmc_host_interface"
  context_state :: 'h
  tx_context :: evmc_tx_context

text \<open>The transaction context is fetched once; a time stamp of zero marks the empty cache.\<close>

definition get_tx_context :: "'h HostContext \<Rightarrow> evmc_tx_context \<times> 'h HostContext" where
  "get_tx_context hc =
    (let hc = (if block_timestamp (tx_context hc) = 0
               then hc\<lparr>tx_context := host_get_tx_context (interface hc) (context_state hc)\<rparr> else hc)
     in (tx_context hc, hc))"

definition account_exists :: "'h HostContext \<Rightarrow> evmc_address \<Rightarrow> bool" where
  "account_exists hc = host_account_exists (interface hc) (context_state hc)"

definition get_storage :: "'h HostContext \<Rightarrow> evmc_address \<Rightarrow> evmc_bytes32 \<Rightarrow> evmc_bytes32" where
  "get_storage hc = host_get_storage (interface hc) (context_state hc)"

definition set_storage ::
  "'h HostContext \<Rightarrow> evmc_address \<Rightarrow> evmc_bytes32 \<Rightarrow> evmc_bytes32 \<Rightarrow> evmc_storage_status \<times> 'h HostContext" where
  "set_storage hc addr key val =
    map_prod id (\<lambda>h. hc\<lparr>context_state := h\<rparr>) (host_set_storage (interface hc) (context_state hc) addr key val)"

definition get_balance :: "'h HostContext \<Rightarrow> evmc_address \<Rightarrow> evmc_bytes32" where
  "get_balance hc = host_get_balance (interface hc) (context_state hc)"

definition get_code_size :: "'h HostContext \<Rightarrow> evmc_address \<Rightarrow> nat" where
  "get_code_size hc = host_get_code_size (interface hc) (context_state hc)"

definition get_code_hash :: "'h HostContext \<Rightarrow> evmc_address \<Rightarrow> evmc_bytes32" where
  "get_code_hash hc = host_get_code_hash (interface hc) (context_state hc)"

definition copy_code :: "'h HostContext \<Rightarrow> evmc_address \<Rightarrow> nat \<Rightarrow> nat \<Rightarrow> bytes" where
  "copy_code hc = host_copy_code (interface hc) (context_state hc)"

definition host_ctx_selfdestruct :: "'h HostContext \<Rightarrow> evmc_address \<Rightarrow> evmc_address \<Rightarrow> 'h HostContext" where
  "host_ctx_selfdestruct hc addr beneficiary =
    hc\<lparr>context_state := host_selfdestruct (interface hc) (context_state hc) addr beneficiary\<rparr>"

definition host_ctx_call :: "'h HostContext \<Rightarrow> evmc_message \<Rightarrow> evmc_result \<times> 'h HostContext" where
  "host_ctx_call hc m = map_prod id (\<lambda>h. hc\<lparr>context_state := h\<rparr>) (host_call (interface hc) (context_state hc) m)"

definition get_block_hash :: "'h HostContext \<Rightarrow> int \<Rightarrow> evmc_bytes32" where
  "get_block_hash hc = host_get_block_hash (interface hc) (context_state hc)"

definition emit_log :: "'h HostContext \<Rightarrow> evmc_address \<Rightarrow> bytes \<Rightarrow> evmc_bytes32 list \<Rightarrow> 'h HostContext" where
  "emit_log hc addr data topics =
    hc\<lparr>context_state := host_emit_log (interface hc) (context_state hc) addr data topics\<rparr>"

definition calc_hash :: "'h HostContext \<Rightarrow> bytes \<Rightarrow> evmc_bytes32" where
  "calc_hash hc = host_calc_hash (interface hc)"

section \<open>Words and bytes\<close>

text \<open>\<^verbatim>\<open>intx::be::load\<close>, \<^verbatim>\<open>store\<close> and \<^verbatim>\<open>trunc\<close>.\<close>

definition be_load :: "bytes \<Rightarrow> uint256" where
  "be_load bs = le_word (rev bs)"

definition be_store :: "uint256 \<Rightarrow> bytes" where
  "be_store x = rev (le_bytes 32 x)"

definition be_trunc :: "uint256 \<Rightarrow> evmc_address" where
  "be_trunc x = drop 12 (be_store x)"

section \<open>Stack and memory\<close>

type_synonym evm_stack = "uint256 list"

definition stack_limit :: nat where
  "stack_limit = 1024"

definition stack_at :: "evm_stack \<Rightarrow> nat \<Rightarrow> uint256 option" where
  "stack_at s i = (if i < length s then Some (s ! i) else None)"

definition stack_put :: "evm_stack \<Rightarrow> nat \<Rightarrow> uint256 \<Rightarrow> evm_stack option" where
  "stack_put s i x = (if i < length s then Some (s[i := x]) else None)"

definition stack_push :: "evm_stack \<Rightarrow> uint256 \<Rightarrow> evm_stack option" where
  "stack_push s x = (if length s < stack_limit then Some (x # s) else None)"

fun stack_pop :: "evm_stack \<Rightarrow> (uint256 \<times> evm_stack) option" where
  "stack_pop [] = None"
| "stack_pop (x # s) = Some (x, s)"

text \<open>Memory: \<^verbatim>\<open>resize\<close> keeps the front and fills with zeros; copies stay inside it.\<close>

definition memory_resize :: "bytes \<Rightarrow> nat \<Rightarrow> bytes" where
  "memory_resize m n = take n m @ replicate (n - length m) 0"

definition memory_read :: "bytes \<Rightarrow> nat \<Rightarrow> nat \<Rightarrow> bytes option" where
  "memory_read m i n = (if n = 0 then Some [] else if i + n \<le> length m then Some (take n (drop i m)) else None)"

definition memory_write :: "bytes \<Rightarrow> nat \<Rightarrow> bytes \<Rightarrow> bytes option" where
  "memory_write m i bs =
    (if bs = [] then Some m
     else if i + length bs \<le> length m then Some (take i m @ bs @ drop (i + length bs) m) else None)"

section \<open>The execution state\<close>

record 'h ExecutionState =
  gas_left :: int
  stack :: evm_stack
  memory :: bytes
  msg :: evmc_message
  host :: "'h HostContext"
  revision :: evmc_revision
  return_data :: bytes
  code :: bytes
  status :: evmc_status_code
  output_offset :: nat
  output_size :: nat

end
