(* ===== verification/EvmArith.thy ===== *)
theory EvmArith
  imports EvmState
begin

text \<open>
  The instructions of \<^verbatim>\<open>instructions.hpp\<close> that work on the stack alone: arithmetic,
  comparison, bit operations, \<^verbatim>\<open>POP\<close>, \<^verbatim>\<open>DUP\<close> and \<^verbatim>\<open>SWAP\<close>. Each returns the new stack, or
  \<^term>\<open>None\<close> when it would access an item outside the stack. The sums and products of
  \<^verbatim>\<open>intx::uint256\<close> wrap as those of 256-bit words do; the functions of \<^verbatim>\<open>intx.hpp\<close> with an
  algorithm of their own (signed division, modular sums and products, powers, the count of
  significant bytes) are translated.
\<close>

section \<open>Functions of the integer library\<close>

definition shift_left :: "uint256 \<Rightarrow> uint256 \<Rightarrow> uint256" where
  "shift_left x shift = (if shift < 256 then push_bit (unat shift) x else 0)"

definition shift_right :: "uint256 \<Rightarrow> uint256 \<Rightarrow> uint256" where
  "shift_right x shift = (if shift < 256 then drop_bit (unat shift) x else 0)"

definition sdivrem :: "uint256 \<Rightarrow> uint256 \<Rightarrow> uint256 \<times> uint256" where
  "sdivrem u v =
    (let sign_mask = push_bit 255 1;
       u_is_neg = u AND sign_mask \<noteq> 0;
       v_is_neg = v AND sign_mask \<noteq> 0;
       u_abs = if u_is_neg then - u else u;
       v_abs = if v_is_neg then - v else v;
       q_is_neg = u_is_neg \<noteq> v_is_neg;
       quot = u_abs div v_abs;
       rem = u_abs mod v_abs
     in (if q_is_neg then - quot else quot, if u_is_neg then - rem else rem))"

definition uint_addmod :: "uint256 \<Rightarrow> uint256 \<Rightarrow> uint256 \<Rightarrow> uint256" where
  "uint_addmod x y m =
    (let value = x + y; carry = of_bool (value < x);
       s = push_bit 256 carry OR ucast value :: 512 word
     in ucast (s mod ucast m))"

definition uint_mulmod :: "uint256 \<Rightarrow> uint256 \<Rightarrow> uint256 \<Rightarrow> uint256" where
  "uint_mulmod x y m = ucast (ucast x * ucast y mod ucast m :: 512 word)"

function exp_loop :: "uint256 \<Rightarrow> uint256 \<Rightarrow> uint256 \<Rightarrow> uint256" where
  "exp_loop result base exponent =
    (if exponent \<noteq> 0
     then let result = (if exponent AND 1 \<noteq> 0 then result * base else result)
          in exp_loop result (base * base) (drop_bit 1 exponent)
     else result)"
  by auto

termination
proof (relation "measure (\<lambda>(r, b, e). unat e)")
  fix e :: uint256 assume "e \<noteq> 0"
  then have "unat e \<noteq> 0" by (simp add: unat_eq_0)
  then have "unat e div 2 < unat e" by simp
  then show "((r', b', drop_bit 1 e), r, b, e) \<in> measure (\<lambda>(r, b, e). unat e)" for r' b' r b :: uint256
    by (simp add: drop_bit_eq_div unat_div)
qed simp

declare exp_loop.simps [simp del]

definition uint_exp :: "uint256 \<Rightarrow> uint256 \<Rightarrow> uint256" where
  "uint_exp base exponent = (if base = 2 then shift_left 1 exponent else exp_loop 1 base exponent)"

text \<open>
  The count of significant bytes recurses on the halves of the number: \<open>k\<close> is the binary
  logarithm of the number of bytes.
\<close>

fun count_significant :: "nat \<Rightarrow> nat \<Rightarrow> nat" where
  "count_significant 0 x = (if x \<noteq> 0 then 1 else 0)"
| "count_significant (Suc k) x =
    (let half = 2 ^ k;
       h = count_significant k (x div 2 ^ (8 * half));
       l = count_significant k (x mod 2 ^ (8 * half))
     in if h \<noteq> 0 then h + half else l)"

definition count_significant_bytes :: "uint256 \<Rightarrow> nat" where
  "count_significant_bytes x = count_significant 5 (unat x)"

section \<open>Arithmetic\<close>

definition evm_add :: "evm_stack \<Rightarrow> evm_stack option" where
  "evm_add s = do {
    (x, s) \<leftarrow> stack_pop s;
    y \<leftarrow> stack_at s 0;
    stack_put s 0 (y + x) }"

definition evm_mul :: "evm_stack \<Rightarrow> evm_stack option" where
  "evm_mul s = do {
    (x, s) \<leftarrow> stack_pop s;
    y \<leftarrow> stack_at s 0;
    stack_put s 0 (y * x) }"

definition evm_sub :: "evm_stack \<Rightarrow> evm_stack option" where
  "evm_sub s = do {
    x \<leftarrow> stack_at s 0;
    y \<leftarrow> stack_at s 1;
    s \<leftarrow> stack_put s 1 (x - y);
    (_, s) \<leftarrow> stack_pop s;
    Some s }"

definition evm_div :: "evm_stack \<Rightarrow> evm_stack option" where
  "evm_div s = do {
    v \<leftarrow> stack_at s 1;
    x \<leftarrow> stack_at s 0;
    s \<leftarrow> stack_put s 1 (if v \<noteq> 0 then x div v else 0);
    (_, s) \<leftarrow> stack_pop s;
    Some s }"

definition evm_sdiv :: "evm_stack \<Rightarrow> evm_stack option" where
  "evm_sdiv s = do {
    v \<leftarrow> stack_at s 1;
    x \<leftarrow> stack_at s 0;
    s \<leftarrow> stack_put s 1 (if v \<noteq> 0 then fst (sdivrem x v) else 0);
    (_, s) \<leftarrow> stack_pop s;
    Some s }"

definition evm_mod :: "evm_stack \<Rightarrow> evm_stack option" where
  "evm_mod s = do {
    v \<leftarrow> stack_at s 1;
    x \<leftarrow> stack_at s 0;
    s \<leftarrow> stack_put s 1 (if v \<noteq> 0 then x mod v else 0);
    (_, s) \<leftarrow> stack_pop s;
    Some s }"

definition evm_smod :: "evm_stack \<Rightarrow> evm_stack option" where
  "evm_smod s = do {
    v \<leftarrow> stack_at s 1;
    x \<leftarrow> stack_at s 0;
    s \<leftarrow> stack_put s 1 (if v \<noteq> 0 then snd (sdivrem x v) else 0);
    (_, s) \<leftarrow> stack_pop s;
    Some s }"

definition evm_addmod :: "evm_stack \<Rightarrow> evm_stack option" where
  "evm_addmod s = do {
    (x, s) \<leftarrow> stack_pop s;
    (y, s) \<leftarrow> stack_pop s;
    m \<leftarrow> stack_at s 0;
    stack_put s 0 (if m \<noteq> 0 then uint_addmod x y m else 0) }"

definition evm_mulmod :: "evm_stack \<Rightarrow> evm_stack option" where
  "evm_mulmod s = do {
    (x, s) \<leftarrow> stack_pop s;
    (y, s) \<leftarrow> stack_pop s;
    m \<leftarrow> stack_at s 0;
    stack_put s 0 (if m \<noteq> 0 then uint_mulmod x y m else 0) }"

definition evm_signextend :: "evm_stack \<Rightarrow> evm_stack option" where
  "evm_signextend s = do {
    (ext, s) \<leftarrow> stack_pop s;
    x \<leftarrow> stack_at s 0;
    if ext < 31
    then let sign_bit = unat ext * 8 + 7;
           sign_mask = push_bit sign_bit 1;
           value_mask = sign_mask - 1;
           is_neg = x AND sign_mask \<noteq> 0
         in stack_put s 0 (if is_neg then x OR NOT value_mask else x AND value_mask)
    else Some s }"

section \<open>Comparisons and bits\<close>

definition evm_lt :: "evm_stack \<Rightarrow> evm_stack option" where
  "evm_lt s = do {
    (x, s) \<leftarrow> stack_pop s;
    y \<leftarrow> stack_at s 0;
    stack_put s 0 (of_bool (x < y)) }"

definition evm_gt :: "evm_stack \<Rightarrow> evm_stack option" where
  "evm_gt s = do {
    (x, s) \<leftarrow> stack_pop s;
    y \<leftarrow> stack_at s 0;
    stack_put s 0 (of_bool (y < x)) }"

definition evm_slt :: "evm_stack \<Rightarrow> evm_stack option" where
  "evm_slt s = do {
    (x, s) \<leftarrow> stack_pop s;
    y \<leftarrow> stack_at s 0;
    let x_neg = drop_bit 255 x;
    let y_neg = drop_bit 255 y;
    stack_put s 0 (if x_neg XOR y_neg \<noteq> 0 then x_neg else of_bool (x < y)) }"

definition evm_sgt :: "evm_stack \<Rightarrow> evm_stack option" where
  "evm_sgt s = do {
    (x, s) \<leftarrow> stack_pop s;
    y \<leftarrow> stack_at s 0;
    let x_neg = drop_bit 255 x;
    let y_neg = drop_bit 255 y;
    stack_put s 0 (if x_neg XOR y_neg \<noteq> 0 then y_neg else of_bool (y < x)) }"

definition evm_eq :: "evm_stack \<Rightarrow> evm_stack option" where
  "evm_eq s = do {
    x \<leftarrow> stack_at s 0;
    y \<leftarrow> stack_at s 1;
    s \<leftarrow> stack_put s 1 (of_bool (x = y));
    (_, s) \<leftarrow> stack_pop s;
    Some s }"

definition evm_iszero :: "evm_stack \<Rightarrow> evm_stack option" where
  "evm_iszero s = do {
    x \<leftarrow> stack_at s 0;
    stack_put s 0 (of_bool (x = 0)) }"

definition evm_and :: "evm_stack \<Rightarrow> evm_stack option" where
  "evm_and s = do {
    (x, s) \<leftarrow> stack_pop s;
    y \<leftarrow> stack_at s 0;
    stack_put s 0 (y AND x) }"

definition evm_or :: "evm_stack \<Rightarrow> evm_stack option" where
  "evm_or s = do {
    (x, s) \<leftarrow> stack_pop s;
    y \<leftarrow> stack_at s 0;
    stack_put s 0 (y OR x) }"

definition evm_xor :: "evm_stack \<Rightarrow> evm_stack option" where
  "evm_xor s = do {
    (x, s) \<leftarrow> stack_pop s;
    y \<leftarrow> stack_at s 0;
    stack_put s 0 (y XOR x) }"

definition evm_not :: "evm_stack \<Rightarrow> evm_stack option" where
  "evm_not s = do {
    x \<leftarrow> stack_at s 0;
    stack_put s 0 (NOT x) }"

definition evm_byte :: "evm_stack \<Rightarrow> evm_stack option" where
  "evm_byte s = do {
    (n, s) \<leftarrow> stack_pop s;
    x \<leftarrow> stack_at s 0;
    if 31 < n then stack_put s 0 0
    else let sh = (31 - unat n) * 8; y = drop_bit sh x
         in stack_put s 0 (y AND 0xff) }"

definition evm_shl :: "evm_stack \<Rightarrow> evm_stack option" where
  "evm_shl s = do {
    (x, s) \<leftarrow> stack_pop s;
    y \<leftarrow> stack_at s 0;
    stack_put s 0 (shift_left y x) }"

definition evm_shr :: "evm_stack \<Rightarrow> evm_stack option" where
  "evm_shr s = do {
    (x, s) \<leftarrow> stack_pop s;
    y \<leftarrow> stack_at s 0;
    stack_put s 0 (shift_right y x) }"

definition evm_sar :: "evm_stack \<Rightarrow> evm_stack option" where
  "evm_sar s = do {
    y \<leftarrow> stack_at s 1;
    if y AND push_bit 255 1 = 0 then evm_shr s
    else do {
      let allones = NOT 0;
      x \<leftarrow> stack_at s 0;
      s \<leftarrow> (if 256 \<le> x then stack_put s 1 allones
           else let shift = unat x in stack_put s 1 (drop_bit shift y OR push_bit (256 - shift) allones));
      (_, s) \<leftarrow> stack_pop s;
      Some s } }"

section \<open>Moving items\<close>

definition evm_pop :: "evm_stack \<Rightarrow> evm_stack option" where
  "evm_pop s = do {
    (_, s) \<leftarrow> stack_pop s;
    Some s }"

text \<open>The template parameter of \<^verbatim>\<open>dup\<close> and \<^verbatim>\<open>swap\<close> is passed as the index it determines.\<close>

definition evm_dup :: "nat \<Rightarrow> evm_stack \<Rightarrow> evm_stack option" where
  "evm_dup index s = do {
    x \<leftarrow> stack_at s index;
    stack_push s x }"

definition evm_swap :: "nat \<Rightarrow> evm_stack \<Rightarrow> evm_stack option" where
  "evm_swap index s = do {
    x \<leftarrow> stack_at s 0;
    y \<leftarrow> stack_at s index;
    s \<leftarrow> stack_put s 0 y;
    stack_put s index x }"

section \<open>On stacks with enough items\<close>

lemma stack_access [simp]:
  "stack_at (x # s) 0 = Some x" "stack_at (x # s) (Suc i) = stack_at s i" "stack_at [] i = None"
  "stack_put (x # s) 0 y = Some (y # s)" "stack_put [] i y = None"
  by (simp_all add: stack_at_def stack_put_def)

lemma stack_put_Suc [simp]: "stack_put (x # s) (Suc i) y = map_option ((#) x) (stack_put s i y)"
  by (simp add: stack_put_def)

lemma stack_at_1 [simp]: "stack_at (x # s) 1 = stack_at s 0"
  by (simp add: stack_at_def)

lemma stack_put_1 [simp]: "stack_put (x # s) 1 y = map_option ((#) x) (stack_put s 0 y)"
  by (simp add: stack_put_def)

lemma arith_eval:
  "evm_add (x # y # s) = Some ((y + x) # s)"
  "evm_mul (x # y # s) = Some ((y * x) # s)"
  "evm_sub (x # y # s) = Some ((x - y) # s)"
  "evm_div (x # y # s) = Some ((if y \<noteq> 0 then x div y else 0) # s)"
  "evm_sdiv (x # y # s) = Some ((if y \<noteq> 0 then fst (sdivrem x y) else 0) # s)"
  "evm_mod (x # y # s) = Some ((if y \<noteq> 0 then x mod y else 0) # s)"
  "evm_smod (x # y # s) = Some ((if y \<noteq> 0 then snd (sdivrem x y) else 0) # s)"
  "evm_addmod (x # y # m # s) = Some ((if m \<noteq> 0 then uint_addmod x y m else 0) # s)"
  "evm_mulmod (x # y # m # s) = Some ((if m \<noteq> 0 then uint_mulmod x y m else 0) # s)"
  by (simp_all add: evm_add_def evm_mul_def evm_sub_def evm_div_def evm_sdiv_def evm_mod_def evm_smod_def
      evm_addmod_def evm_mulmod_def)

definition sign_extension :: "uint256 \<Rightarrow> uint256 \<Rightarrow> uint256" where
  "sign_extension ext x =
    (if ext < 31
     then if bit x (unat ext * 8 + 7) then x OR NOT (mask (unat ext * 8 + 7)) else x AND mask (unat ext * 8 + 7)
     else x)"

lemma and_bit_zero: "x AND 2 ^ n = 0 \<longleftrightarrow> \<not> bit x n" for x :: "'a::len word"
  by (simp add: bit_iff_and_push_bit_not_eq_0 flip: push_bit_of_1)

lemma signextend_eval: "evm_signextend (ext # x # s) = Some (sign_extension ext x # s)"
proof -
  have "2 ^ n - 1 = (mask n :: uint256)" for n
    by (simp add: mask_eq_exp_minus_1)
  then show ?thesis
    by (simp add: evm_signextend_def sign_extension_def Let_def and_bit_zero)
qed

definition arithmetic_shift :: "uint256 \<Rightarrow> uint256 \<Rightarrow> uint256" where
  "arithmetic_shift y x =
    (if \<not> bit y 255 then shift_right y x
     else if 256 \<le> x then NOT 0 else drop_bit (unat x) y OR push_bit (256 - unat x) (NOT 0))"

lemma compare_eval:
  "evm_lt (x # y # s) = Some (of_bool (x < y) # s)"
  "evm_gt (x # y # s) = Some (of_bool (y < x) # s)"
  "evm_slt (x # y # s) = Some ((if drop_bit 255 x XOR drop_bit 255 y \<noteq> 0 then drop_bit 255 x else of_bool (x < y)) # s)"
  "evm_sgt (x # y # s) = Some ((if drop_bit 255 x XOR drop_bit 255 y \<noteq> 0 then drop_bit 255 y else of_bool (y < x)) # s)"
  "evm_eq (x # y # s) = Some (of_bool (x = y) # s)"
  "evm_iszero (x # s) = Some (of_bool (x = 0) # s)"
  "evm_and (x # y # s) = Some ((y AND x) # s)"
  "evm_or (x # y # s) = Some ((y OR x) # s)"
  "evm_xor (x # y # s) = Some ((y XOR x) # s)"
  "evm_not (x # s) = Some (NOT x # s)"
  "evm_byte (n # x # s) = Some ((if 31 < n then 0 else drop_bit ((31 - unat n) * 8) x AND 0xff) # s)"
  "evm_shl (x # y # s) = Some (shift_left y x # s)"
  "evm_shr (x # y # s) = Some (shift_right y x # s)"
  "evm_pop (x # s) = Some s"
  by (simp_all add: evm_lt_def evm_gt_def evm_slt_def evm_sgt_def evm_eq_def evm_iszero_def evm_and_def evm_or_def
      evm_xor_def evm_not_def evm_byte_def evm_shl_def evm_shr_def evm_pop_def Let_def)

lemma sar_eval: "evm_sar (x # y # s) = Some (arithmetic_shift y x # s)"
  by (simp add: evm_sar_def arithmetic_shift_def compare_eval and_bit_zero [of y 255, simplified] Let_def)

lemma dup_eval: "evm_dup i s = (if i < length s \<and> length s < stack_limit then Some (s ! i # s) else None)"
  by (simp add: evm_dup_def stack_at_def stack_push_def)

lemma swap_eval:
  "evm_swap i s = (if i < length s then Some (s[0 := s ! i, i := s ! 0]) else None)"
  by (cases s) (auto simp: evm_swap_def stack_at_def stack_put_def)

text \<open>A stack that is too short.\<close>

lemma arith_short:
  "length s < 2 \<Longrightarrow> evm_add s = None" "length s < 2 \<Longrightarrow> evm_mul s = None"
  "length s < 2 \<Longrightarrow> evm_sub s = None" "length s < 2 \<Longrightarrow> evm_div s = None"
  "length s < 2 \<Longrightarrow> evm_sdiv s = None" "length s < 2 \<Longrightarrow> evm_mod s = None"
  "length s < 2 \<Longrightarrow> evm_smod s = None" "length s < 3 \<Longrightarrow> evm_addmod s = None"
  "length s < 3 \<Longrightarrow> evm_mulmod s = None" "length s < 2 \<Longrightarrow> evm_signextend s = None"
  by (auto simp: evm_add_def evm_mul_def evm_sub_def evm_div_def evm_sdiv_def evm_mod_def evm_smod_def
      evm_addmod_def evm_mulmod_def evm_signextend_def less_Suc_eq numeral_eq_Suc length_Suc_conv)

lemma compare_short:
  "length s < 2 \<Longrightarrow> evm_lt s = None" "length s < 2 \<Longrightarrow> evm_gt s = None"
  "length s < 2 \<Longrightarrow> evm_slt s = None" "length s < 2 \<Longrightarrow> evm_sgt s = None"
  "length s < 2 \<Longrightarrow> evm_eq s = None" "length s < 1 \<Longrightarrow> evm_iszero s = None"
  "length s < 2 \<Longrightarrow> evm_and s = None" "length s < 2 \<Longrightarrow> evm_or s = None"
  "length s < 2 \<Longrightarrow> evm_xor s = None" "length s < 1 \<Longrightarrow> evm_not s = None"
  "length s < 2 \<Longrightarrow> evm_byte s = None" "length s < 2 \<Longrightarrow> evm_shl s = None"
  "length s < 2 \<Longrightarrow> evm_shr s = None" "length s < 2 \<Longrightarrow> evm_sar s = None"
  "length s < 1 \<Longrightarrow> evm_pop s = None"
  by (auto simp: evm_lt_def evm_gt_def evm_slt_def evm_sgt_def evm_eq_def evm_iszero_def evm_and_def evm_or_def
      evm_xor_def evm_not_def evm_byte_def evm_shl_def evm_shr_def evm_sar_def evm_pop_def
      less_Suc_eq numeral_eq_Suc length_Suc_conv)

end
