(* ===== verification/EvmInstructions.thy ===== *)
theory EvmInstructions
  imports EvmArith
begin

text \<open>
  The instructions of \<^verbatim>\<open>instructions.hpp\<close> that use the execution state: gas and memory
  expansion, hashing, the environment of the call, memory, storage, logs and
  \<^verbatim>\<open>SELFDESTRUCT\<close>. An instruction with a status code returns it with the state; \<^term>\<open>None\<close> is an
  access outside the stack or the memory. The state is a record that
  \<^verbatim>\<open>execution_state\<close> extends, so the functions are polymorphic in its further fields.
\<close>

section \<open>Memory expansion\<close>

definition max_buffer_size :: uint256 where
  "max_buffer_size = 0xffffffff"

definition word_size :: int where
  "word_size = 32"

definition num_words :: "nat \<Rightarrow> int" where
  "num_words size_in_bytes = (int size_in_bytes + (word_size - 1)) div word_size"

text \<open>The cast of a 256-bit number to an index keeps its low 64 bits.\<close>

definition to_size :: "uint256 \<Rightarrow> nat" where
  "to_size x = unat (ucast x :: u64)"

definition check_memory64 ::
  "('h, 'z) ExecutionState_scheme \<Rightarrow> uint256 \<Rightarrow> nat \<Rightarrow> bool \<times> ('h, 'z) ExecutionState_scheme" where
  "check_memory64 st offset sz =
    (if max_buffer_size < offset then (False, st)
     else
       let new_size = to_size offset + sz; current_size = length (memory st)
       in if current_size < new_size
          then
            let new_words = num_words new_size;
              current_words = int (current_size div 32);
              new_cost = 3 * new_words + new_words * new_words div 512;
              current_cost = 3 * current_words + current_words * current_words div 512;
              cost = new_cost - current_cost;
              st = st\<lparr>gas_left := gas_left st - cost\<rparr>
            in if gas_left st < 0 then (False, st)
               else (True, st\<lparr>memory := memory_resize (memory st) (nat (new_words * word_size))\<rparr>)
          else (True, st))"

definition check_memory ::
  "('h, 'z) ExecutionState_scheme \<Rightarrow> uint256 \<Rightarrow> uint256 \<Rightarrow> bool \<times> ('h, 'z) ExecutionState_scheme" where
  "check_memory st offset sz =
    (if sz = 0 then (True, st)
     else if max_buffer_size < sz then (False, st)
     else check_memory64 st offset (to_size sz))"

text \<open>
  Instructions that move the stack of the state: the popped item, or nothing, with the new state.
\<close>

definition st_pop :: "('h, 'z) ExecutionState_scheme \<Rightarrow> (uint256 \<times> ('h, 'z) ExecutionState_scheme) option" where
  "st_pop st = do {
    (x, s) \<leftarrow> stack_pop (stack st);
    Some (x, st\<lparr>stack := s\<rparr>) }"

definition st_push :: "('h, 'z) ExecutionState_scheme \<Rightarrow> uint256 \<Rightarrow> ('h, 'z) ExecutionState_scheme option" where
  "st_push st x = do {
    s \<leftarrow> stack_push (stack st) x;
    Some (st\<lparr>stack := s\<rparr>) }"

definition st_top :: "('h, 'z) ExecutionState_scheme \<Rightarrow> uint256 option" where
  "st_top st = stack_at (stack st) 0"

definition st_set_top :: "('h, 'z) ExecutionState_scheme \<Rightarrow> uint256 \<Rightarrow> ('h, 'z) ExecutionState_scheme option" where
  "st_set_top st x = do {
    s \<leftarrow> stack_put (stack st) 0 x;
    Some (st\<lparr>stack := s\<rparr>) }"

definition st_write :: "('h, 'z) ExecutionState_scheme \<Rightarrow> nat \<Rightarrow> bytes \<Rightarrow> ('h, 'z) ExecutionState_scheme option" where
  "st_write st i bs = do {
    m \<leftarrow> memory_write (memory st) i bs;
    Some (st\<lparr>memory := m\<rparr>) }"

text \<open>\<^verbatim>\<open>if ((state.gas_left -= cost) < 0)\<close>: the gas is taken before the test.\<close>

definition charge :: "('h, 'z) ExecutionState_scheme \<Rightarrow> int \<Rightarrow> bool \<times> ('h, 'z) ExecutionState_scheme" where
  "charge st cost = (let st = st\<lparr>gas_left := gas_left st - cost\<rparr> in (0 \<le> gas_left st, st))"

section \<open>Powers and hashes\<close>

definition evm_exp ::
  "('h, 'z) ExecutionState_scheme \<Rightarrow> (evmc_status_code \<times> ('h, 'z) ExecutionState_scheme) option" where
  "evm_exp st = do {
    (base, st) \<leftarrow> st_pop st;
    exponent \<leftarrow> st_top st;
    let exponent_significant_bytes = int (count_significant_bytes exponent);
    let exponent_cost = (if EVMC_SPURIOUS_DRAGON \<le> revision st then 50 else 10);
    let additional_cost = exponent_significant_bytes * exponent_cost;
    let (paid, st) = charge st additional_cost;
    if \<not> paid then Some (EVMC_OUT_OF_GAS, st)
    else do {
      st \<leftarrow> st_set_top st (uint_exp base exponent);
      Some (EVMC_SUCCESS, st) } }"

definition evm_sha3 ::
  "('h, 'z) ExecutionState_scheme \<Rightarrow> (evmc_status_code \<times> ('h, 'z) ExecutionState_scheme) option" where
  "evm_sha3 st = do {
    (index, st) \<leftarrow> st_pop st;
    size \<leftarrow> st_top st;
    let (fits, st) = check_memory st index size;
    if \<not> fits then Some (EVMC_OUT_OF_GAS, st)
    else do {
      let i = to_size index;
      let s = to_size size;
      let w = num_words s;
      let cost = w * 6;
      let (paid, st) = charge st cost;
      if \<not> paid then Some (EVMC_OUT_OF_GAS, st)
      else do {
        data \<leftarrow> memory_read (memory st) i s;
        st \<leftarrow> st_set_top st (be_load (calc_hash (host st) data));
        Some (EVMC_SUCCESS, st) } } }"

section \<open>The environment of the call\<close>

definition evm_address :: "('h, 'z) ExecutionState_scheme \<Rightarrow> ('h, 'z) ExecutionState_scheme option" where
  "evm_address st = st_push st (be_load (destination (msg st)))"

definition evm_balance :: "('h, 'z) ExecutionState_scheme \<Rightarrow> ('h, 'z) ExecutionState_scheme option" where
  "evm_balance st = do {
    x \<leftarrow> st_top st;
    st_set_top st (be_load (get_balance (host st) (be_trunc x))) }"

text \<open>A use of the transaction context: its value, with the cache updated.\<close>

definition with_tx_context ::
  "('h, 'z) ExecutionState_scheme \<Rightarrow> evmc_tx_context \<times> ('h, 'z) ExecutionState_scheme" where
  "with_tx_context st = (let (tx, hc) = get_tx_context (host st) in (tx, st\<lparr>host := hc\<rparr>))"

definition evm_origin :: "('h, 'z) ExecutionState_scheme \<Rightarrow> ('h, 'z) ExecutionState_scheme option" where
  "evm_origin st = (let (tx, st) = with_tx_context st in st_push st (be_load (tx_origin tx)))"

definition evm_caller :: "('h, 'z) ExecutionState_scheme \<Rightarrow> ('h, 'z) ExecutionState_scheme option" where
  "evm_caller st = st_push st (be_load (sender (msg st)))"

definition evm_callvalue :: "('h, 'z) ExecutionState_scheme \<Rightarrow> ('h, 'z) ExecutionState_scheme option" where
  "evm_callvalue st = st_push st (be_load (msg_value (msg st)))"

definition evm_calldataload :: "('h, 'z) ExecutionState_scheme \<Rightarrow> ('h, 'z) ExecutionState_scheme option" where
  "evm_calldataload st = do {
    index \<leftarrow> st_top st;
    let input_size = length (input_data (msg st));
    if word_of_nat input_size < index then st_set_top st 0
    else
      let begin = to_size index;
        end = min (begin + 32) input_size;
        data = take (end - begin) (drop begin (input_data (msg st))) @ replicate (32 - (end - begin)) 0
      in st_set_top st (be_load data) }"

definition evm_calldatasize :: "('h, 'z) ExecutionState_scheme \<Rightarrow> ('h, 'z) ExecutionState_scheme option" where
  "evm_calldatasize st = st_push st (word_of_nat (length (input_data (msg st))))"

text \<open>
  \<^verbatim>\<open>calldatacopy\<close> and \<^verbatim>\<open>codecopy\<close> have the same body, written twice in the source: \<open>source\<close> is
  the call data or the code.
\<close>

definition copy_padded ::
  "bytes \<Rightarrow> ('h, 'z) ExecutionState_scheme \<Rightarrow> (evmc_status_code \<times> ('h, 'z) ExecutionState_scheme) option" where
  "copy_padded source st = do {
    (mem_index, st) \<leftarrow> st_pop st;
    (input_index, st) \<leftarrow> st_pop st;
    (size, st) \<leftarrow> st_pop st;
    let (fits, st) = check_memory st mem_index size;
    if \<not> fits then Some (EVMC_OUT_OF_GAS, st)
    else do {
      let dst = to_size mem_index;
      let src = (if word_of_nat (length source) < input_index then length source else to_size input_index);
      let s = to_size size;
      let copy_size = min s (length source - src);
      let copy_cost = num_words s * 3;
      let (paid, st) = charge st copy_cost;
      if \<not> paid then Some (EVMC_OUT_OF_GAS, st)
      else do {
        st \<leftarrow> (if 0 < copy_size then st_write st dst (take copy_size (drop src source)) else Some st);
        st \<leftarrow> (if 0 < s - copy_size then st_write st (dst + copy_size) (replicate (s - copy_size) 0) else Some st);
        Some (EVMC_SUCCESS, st) } } }"

definition evm_calldatacopy ::
  "('h, 'z) ExecutionState_scheme \<Rightarrow> (evmc_status_code \<times> ('h, 'z) ExecutionState_scheme) option" where
  "evm_calldatacopy st = copy_padded (input_data (msg st)) st"

definition evm_codesize :: "('h, 'z) ExecutionState_scheme \<Rightarrow> ('h, 'z) ExecutionState_scheme option" where
  "evm_codesize st = st_push st (word_of_nat (length (code st)))"

definition evm_codecopy ::
  "('h, 'z) ExecutionState_scheme \<Rightarrow> (evmc_status_code \<times> ('h, 'z) ExecutionState_scheme) option" where
  "evm_codecopy st = copy_padded (code st) st"

definition evm_gasprice :: "('h, 'z) ExecutionState_scheme \<Rightarrow> ('h, 'z) ExecutionState_scheme option" where
  "evm_gasprice st = (let (tx, st) = with_tx_context st in st_push st (be_load (tx_gas_price tx)))"

definition evm_extcodesize :: "('h, 'z) ExecutionState_scheme \<Rightarrow> ('h, 'z) ExecutionState_scheme option" where
  "evm_extcodesize st = do {
    x \<leftarrow> st_top st;
    st_set_top st (word_of_nat (get_code_size (host st) (be_trunc x))) }"

text \<open>
  The host returns the bytes it copies; a host that writes more than the buffer holds leaves
  the memory.
\<close>

definition evm_extcodecopy ::
  "('h, 'z) ExecutionState_scheme \<Rightarrow> (evmc_status_code \<times> ('h, 'z) ExecutionState_scheme) option" where
  "evm_extcodecopy st = do {
    (addr_word, st) \<leftarrow> st_pop st;
    let addr = be_trunc addr_word;
    (mem_index, st) \<leftarrow> st_pop st;
    (input_index, st) \<leftarrow> st_pop st;
    (size, st) \<leftarrow> st_pop st;
    let (fits, st) = check_memory st mem_index size;
    if \<not> fits then Some (EVMC_OUT_OF_GAS, st)
    else do {
      let dst = to_size mem_index;
      let src = (if max_buffer_size < input_index then to_size max_buffer_size else to_size input_index);
      let s = to_size size;
      let copy_cost = num_words s * 3;
      let (paid, st) = charge st copy_cost;
      if \<not> paid then Some (EVMC_OUT_OF_GAS, st)
      else do {
        let copied = copy_code (host st) addr src s;
        let num_bytes_copied = length copied;
        if s < num_bytes_copied then None
        else do {
          st \<leftarrow> st_write st dst copied;
          st \<leftarrow> (if 0 < s - num_bytes_copied
                then st_write st (dst + num_bytes_copied) (replicate (s - num_bytes_copied) 0) else Some st);
          Some (EVMC_SUCCESS, st) } } } }"

definition evm_returndatasize :: "('h, 'z) ExecutionState_scheme \<Rightarrow> ('h, 'z) ExecutionState_scheme option" where
  "evm_returndatasize st = st_push st (word_of_nat (length (return_data st)))"

definition evm_returndatacopy ::
  "('h, 'z) ExecutionState_scheme \<Rightarrow> (evmc_status_code \<times> ('h, 'z) ExecutionState_scheme) option" where
  "evm_returndatacopy st = do {
    (mem_index, st) \<leftarrow> st_pop st;
    (input_index, st) \<leftarrow> st_pop st;
    (size, st) \<leftarrow> st_pop st;
    let (fits, st) = check_memory st mem_index size;
    if \<not> fits then Some (EVMC_OUT_OF_GAS, st)
    else do {
      let dst = to_size mem_index;
      let s = to_size size;
      if word_of_nat (length (return_data st)) < input_index then Some (EVMC_INVALID_MEMORY_ACCESS, st)
      else do {
        let src = to_size input_index;
        if length (return_data st) < src + s then Some (EVMC_INVALID_MEMORY_ACCESS, st)
        else do {
          let copy_cost = num_words s * 3;
          let (paid, st) = charge st copy_cost;
          if \<not> paid then Some (EVMC_OUT_OF_GAS, st)
          else do {
            st \<leftarrow> (if 0 < s then st_write st dst (take s (drop src (return_data st))) else Some st);
            Some (EVMC_SUCCESS, st) } } } } }"

definition evm_extcodehash :: "('h, 'z) ExecutionState_scheme \<Rightarrow> ('h, 'z) ExecutionState_scheme option" where
  "evm_extcodehash st = do {
    x \<leftarrow> st_top st;
    st_set_top st (be_load (get_code_hash (host st) (be_trunc x))) }"

section \<open>The block\<close>

definition evm_blockhash :: "('h, 'z) ExecutionState_scheme \<Rightarrow> ('h, 'z) ExecutionState_scheme option" where
  "evm_blockhash st = do {
    number \<leftarrow> st_top st;
    let (tx, st) = with_tx_context st;
    let upper_bound = block_number tx;
    let lower_bound = max (upper_bound - 256) 0;
    let n = sint (ucast number :: u64);
    let header = (if number < ucast (word_of_int upper_bound :: u64) \<and> lower_bound \<le> n
                  then get_block_hash (host st) n else replicate 32 0);
    st_set_top st (be_load header) }"

definition evm_coinbase :: "('h, 'z) ExecutionState_scheme \<Rightarrow> ('h, 'z) ExecutionState_scheme option" where
  "evm_coinbase st = (let (tx, st) = with_tx_context st in st_push st (be_load (block_coinbase tx)))"

definition evm_timestamp :: "('h, 'z) ExecutionState_scheme \<Rightarrow> ('h, 'z) ExecutionState_scheme option" where
  "evm_timestamp st =
    (let (tx, st) = with_tx_context st in st_push st (ucast (word_of_int (block_timestamp tx) :: u64)))"

definition evm_number :: "('h, 'z) ExecutionState_scheme \<Rightarrow> ('h, 'z) ExecutionState_scheme option" where
  "evm_number st =
    (let (tx, st) = with_tx_context st in st_push st (ucast (word_of_int (block_number tx) :: u64)))"

definition evm_difficulty :: "('h, 'z) ExecutionState_scheme \<Rightarrow> ('h, 'z) ExecutionState_scheme option" where
  "evm_difficulty st = (let (tx, st) = with_tx_context st in st_push st (be_load (block_difficulty tx)))"

definition evm_gaslimit :: "('h, 'z) ExecutionState_scheme \<Rightarrow> ('h, 'z) ExecutionState_scheme option" where
  "evm_gaslimit st =
    (let (tx, st) = with_tx_context st in st_push st (ucast (word_of_int (block_gas_limit tx) :: u64)))"

definition evm_chainid :: "('h, 'z) ExecutionState_scheme \<Rightarrow> ('h, 'z) ExecutionState_scheme option" where
  "evm_chainid st = (let (tx, st) = with_tx_context st in st_push st (be_load (chain_id tx)))"

definition evm_selfbalance :: "('h, 'z) ExecutionState_scheme \<Rightarrow> ('h, 'z) ExecutionState_scheme option" where
  "evm_selfbalance st = st_push st (be_load (get_balance (host st) (destination (msg st))))"

section \<open>Memory and storage\<close>

definition evm_mload ::
  "('h, 'z) ExecutionState_scheme \<Rightarrow> (evmc_status_code \<times> ('h, 'z) ExecutionState_scheme) option" where
  "evm_mload st = do {
    index \<leftarrow> st_top st;
    let (fits, st) = check_memory64 st index 32;
    if \<not> fits then Some (EVMC_OUT_OF_GAS, st)
    else do {
      data \<leftarrow> memory_read (memory st) (to_size index) 32;
      st \<leftarrow> st_set_top st (be_load data);
      Some (EVMC_SUCCESS, st) } }"

definition evm_mstore ::
  "('h, 'z) ExecutionState_scheme \<Rightarrow> (evmc_status_code \<times> ('h, 'z) ExecutionState_scheme) option" where
  "evm_mstore st = do {
    (index, st) \<leftarrow> st_pop st;
    (val, st) \<leftarrow> st_pop st;
    let (fits, st) = check_memory64 st index 32;
    if \<not> fits then Some (EVMC_OUT_OF_GAS, st)
    else do {
      st \<leftarrow> st_write st (to_size index) (be_store val);
      Some (EVMC_SUCCESS, st) } }"

definition evm_mstore8 ::
  "('h, 'z) ExecutionState_scheme \<Rightarrow> (evmc_status_code \<times> ('h, 'z) ExecutionState_scheme) option" where
  "evm_mstore8 st = do {
    (index, st) \<leftarrow> st_pop st;
    (val, st) \<leftarrow> st_pop st;
    let (fits, st) = check_memory64 st index 1;
    if \<not> fits then Some (EVMC_OUT_OF_GAS, st)
    else do {
      st \<leftarrow> st_write st (to_size index) [ucast val];
      Some (EVMC_SUCCESS, st) } }"

definition evm_sload :: "('h, 'z) ExecutionState_scheme \<Rightarrow> ('h, 'z) ExecutionState_scheme option" where
  "evm_sload st = do {
    x \<leftarrow> st_top st;
    st_set_top st (be_load (get_storage (host st) (destination (msg st)) (be_store x))) }"

definition sstore_cost :: "evmc_revision \<Rightarrow> evmc_storage_status \<Rightarrow> int" where
  "sstore_cost r s =
    (case s of
       EVMC_STORAGE_UNCHANGED \<Rightarrow>
         (if EVMC_ISTANBUL \<le> r then 800 else if r = EVMC_CONSTANTINOPLE then 200 else 5000)
     | EVMC_STORAGE_MODIFIED \<Rightarrow> 5000
     | EVMC_STORAGE_MODIFIED_AGAIN \<Rightarrow>
         (if EVMC_ISTANBUL \<le> r then 800 else if r = EVMC_CONSTANTINOPLE then 200 else 5000)
     | EVMC_STORAGE_ADDED \<Rightarrow> 20000
     | EVMC_STORAGE_DELETED \<Rightarrow> 5000)"

definition is_static :: "('h, 'z) ExecutionState_scheme \<Rightarrow> bool" where
  "is_static st \<longleftrightarrow> flags (msg st) AND EVMC_STATIC \<noteq> 0"

definition evm_sstore ::
  "('h, 'z) ExecutionState_scheme \<Rightarrow> (evmc_status_code \<times> ('h, 'z) ExecutionState_scheme) option" where
  "evm_sstore st =
    (if is_static st then Some (EVMC_STATIC_MODE_VIOLATION, st)
     else if EVMC_ISTANBUL \<le> revision st \<and> gas_left st \<le> 2300 then Some (EVMC_OUT_OF_GAS, st)
     else do {
       (key, st) \<leftarrow> st_pop st;
       (val, st) \<leftarrow> st_pop st;
       let (storage_status, hc) = set_storage (host st) (destination (msg st)) (be_store key) (be_store val);
       let st = st\<lparr>host := hc\<rparr>;
       let (paid, st) = charge st (sstore_cost (revision st) storage_status);
       if \<not> paid then Some (EVMC_OUT_OF_GAS, st) else Some (EVMC_SUCCESS, st) })"

definition evm_msize :: "('h, 'z) ExecutionState_scheme \<Rightarrow> ('h, 'z) ExecutionState_scheme option" where
  "evm_msize st = st_push st (word_of_nat (length (memory st)))"

section \<open>Logs and self-destruction\<close>

fun pop_topics ::
  "nat \<Rightarrow> ('h, 'z) ExecutionState_scheme \<Rightarrow> (evmc_bytes32 list \<times> ('h, 'z) ExecutionState_scheme) option" where
  "pop_topics 0 st = Some ([], st)"
| "pop_topics (Suc n) st = do {
    (x, st) \<leftarrow> st_pop st;
    (topics, st) \<leftarrow> pop_topics n st;
    Some (be_store x # topics, st) }"

definition evm_log ::
  "nat \<Rightarrow> ('h, 'z) ExecutionState_scheme \<Rightarrow> (evmc_status_code \<times> ('h, 'z) ExecutionState_scheme) option" where
  "evm_log num_topics st =
    (if is_static st then Some (EVMC_STATIC_MODE_VIOLATION, st)
     else do {
       (offset, st) \<leftarrow> st_pop st;
       (size, st) \<leftarrow> st_pop st;
       let (fits, st) = check_memory st offset size;
       if \<not> fits then Some (EVMC_OUT_OF_GAS, st)
       else do {
         let i = to_size offset;
         let s = to_size size;
         let cost = int s * 8;
         let (paid, st) = charge st cost;
         if \<not> paid then Some (EVMC_OUT_OF_GAS, st)
         else do {
           (topics, st) \<leftarrow> pop_topics num_topics st;
           data \<leftarrow> memory_read (memory st) i s;
           Some (EVMC_SUCCESS, st\<lparr>host := emit_log (host st) (destination (msg st)) data topics\<rparr>) } } })"

definition evm_selfdestruct ::
  "('h, 'z) ExecutionState_scheme \<Rightarrow> (evmc_status_code \<times> ('h, 'z) ExecutionState_scheme) option" where
  "evm_selfdestruct st =
    (if is_static st then Some (EVMC_STATIC_MODE_VIOLATION, st)
     else do {
       x \<leftarrow> stack_at (stack st) 0;
       let beneficiary = be_trunc x;
       let (paid, st) =
         (if EVMC_TANGERINE_WHISTLE \<le> revision st \<and>
             (revision st = EVMC_TANGERINE_WHISTLE \<or> list_ex (\<lambda>b. b \<noteq> 0) (get_balance (host st) (destination (msg st)))) \<and>
             \<not> account_exists (host st) beneficiary
          then charge st 25000 else (True, st));
       if \<not> paid then Some (EVMC_OUT_OF_GAS, st)
       else Some (EVMC_SUCCESS,
         st\<lparr>host := host_ctx_selfdestruct (host st) (destination (msg st)) beneficiary\<rparr>) })"

end
