(* ===== verification/EvmCalls.thy ===== *)
theory EvmCalls
  imports EvmInstructions
begin

text \<open>
  The call and create instructions (\<^verbatim>\<open>instructions_calls.cpp\<close>). The template parameters are
  arguments. A fresh \<^verbatim>\<open>evmc_message\<close> has all its fields zero.
\<close>

definition int64_max :: int where
  "int64_max = 2 ^ 63 - 1"

definition empty_message :: evmc_message where
  "empty_message = \<lparr>kind = EVMC_CALL, flags = 0, depth = 0, gas = 0, destination = replicate 20 0,
    sender = replicate 20 0, input_data = [], msg_value = replicate 32 0, create2_salt = replicate 32 0\<rparr>"

text \<open>The gas a call may use; \<^term>\<open>None\<close> when too little is left.\<close>

definition call_gas :: "evmc_revision \<Rightarrow> uint256 \<Rightarrow> int \<Rightarrow> int option" where
  "call_gas r g left =
    (let limit = (if g < word_of_int int64_max then sint (ucast g :: u64) else int64_max)
     in if EVMC_TANGERINE_WHISTLE \<le> r then Some (min limit (left - left div 64))
        else if left < limit then None else Some limit)"

text \<open>\<^verbatim>\<open>state.host.call\<close> and what follows it.\<close>

definition call_host ::
  "evmc_message \<Rightarrow> uint256 \<Rightarrow> uint256 \<Rightarrow> ('h, 'z) ExecutionState_scheme
    \<Rightarrow> (evmc_status_code \<times> ('h, 'z) ExecutionState_scheme) option" where
  "call_host m out_offset out_size st = do {
    let (result, hc) = host_ctx_call (host st) m;
    let st = st\<lparr>host := hc, return_data := output_data result\<rparr>;
    st \<leftarrow> st_set_top st (of_bool (status_code result = EVMC_SUCCESS));
    let copy_size = min (to_size out_size) (length (output_data result));
    st \<leftarrow> (if 0 < copy_size then st_write st (to_size out_offset) (take copy_size (output_data result)) else Some st);
    let gas_used = gas m - result_gas_left result;
    Some (EVMC_SUCCESS, st\<lparr>gas_left := gas_left st - gas_used\<rparr>) }"

text \<open>The part of \<^verbatim>\<open>call\<close> after the message is built: cost, gas limit, stipend and the checks before the call.\<close>

definition call_with ::
  "evmc_call_kind \<Rightarrow> evmc_message \<Rightarrow> uint256 \<Rightarrow> uint256 \<Rightarrow> uint256 \<Rightarrow> uint256 \<Rightarrow> ('h, 'z) ExecutionState_scheme
    \<Rightarrow> (evmc_status_code \<times> ('h, 'z) ExecutionState_scheme) option" where
  "call_with knd m gas_limit val out_offset out_size st =
    (let has_value = (val \<noteq> 0);
       cost = (if has_value then 9000 else 0)
     in if knd = EVMC_CALL \<and> has_value \<and> is_static st then Some (EVMC_STATIC_MODE_VIOLATION, st)
        else
          let cost = (if knd = EVMC_CALL \<and> (has_value \<or> revision st < EVMC_SPURIOUS_DRAGON)
                        \<and> \<not> account_exists (host st) (destination m) then cost + 25000 else cost);
            (paid, st) = charge st cost
          in if \<not> paid then Some (EVMC_OUT_OF_GAS, st)
             else (case call_gas (revision st) gas_limit (gas_left st) of
                 None \<Rightarrow> Some (EVMC_OUT_OF_GAS, st)
               | Some g \<Rightarrow>
                   let m = m\<lparr>gas := (if has_value then g + 2300 else g)\<rparr>;
                     st = (if has_value then st\<lparr>gas_left := gas_left st + 2300\<rparr> else st);
                     st = st\<lparr>return_data := []\<rparr>
                   in if 1024 \<le> depth (msg st) then Some (EVMC_SUCCESS, st)
                      else if has_value \<and> be_load (get_balance (host st) (destination (msg st))) < val
                        then Some (EVMC_SUCCESS, st)
                      else call_host m out_offset out_size st))"

definition evm_call ::
  "evmc_call_kind \<Rightarrow> bool \<Rightarrow> ('h, 'z) ExecutionState_scheme
    \<Rightarrow> (evmc_status_code \<times> ('h, 'z) ExecutionState_scheme) option" where
  "evm_call knd static st = do {
    (gas_limit, st) \<leftarrow> st_pop st;
    (dst_word, st) \<leftarrow> st_pop st;
    let dst = be_trunc dst_word;
    (val, st) \<leftarrow> (if static \<or> knd = EVMC_DELEGATECALL then Some (0, st) else st_pop st);
    (input_offset, st) \<leftarrow> st_pop st;
    (input_size, st) \<leftarrow> st_pop st;
    (out_offset, st) \<leftarrow> st_pop st;
    (out_size, st) \<leftarrow> st_pop st;
    st \<leftarrow> st_push st 0;
    let (fits, st) = check_memory st input_offset input_size;
    if \<not> fits then Some (EVMC_OUT_OF_GAS, st)
    else do {
      let (fits, st) = check_memory st out_offset out_size;
      if \<not> fits then Some (EVMC_OUT_OF_GAS, st)
      else do {
        input \<leftarrow> memory_read (memory st) (to_size input_offset) (to_size input_size);
        let m = empty_message\<lparr>kind := knd, flags := (if static then EVMC_STATIC else flags (msg st)),
                  depth := depth (msg st) + 1, destination := dst,
                  sender := (if knd = EVMC_DELEGATECALL then sender (msg st) else destination (msg st)),
                  msg_value := (if knd = EVMC_DELEGATECALL then msg_value (msg st) else be_store val),
                  input_data := input\<rparr>;
        call_with knd m gas_limit val out_offset out_size st } } }"

definition create_host ::
  "evmc_message \<Rightarrow> ('h, 'z) ExecutionState_scheme
    \<Rightarrow> (evmc_status_code \<times> ('h, 'z) ExecutionState_scheme) option" where
  "create_host m st = do {
    let (result, hc) = host_ctx_call (host st) m;
    let st = st\<lparr>host := hc, gas_left := gas_left st - (gas m - result_gas_left result),
                return_data := output_data result\<rparr>;
    st \<leftarrow> (if status_code result = EVMC_SUCCESS then st_set_top st (be_load (create_address result)) else Some st);
    Some (EVMC_SUCCESS, st) }"

definition evm_create ::
  "evmc_call_kind \<Rightarrow> ('h, 'z) ExecutionState_scheme
    \<Rightarrow> (evmc_status_code \<times> ('h, 'z) ExecutionState_scheme) option" where
  "evm_create knd st =
    (if is_static st then Some (EVMC_STATIC_MODE_VIOLATION, st)
     else do {
       (endowment, st) \<leftarrow> st_pop st;
       (init_code_offset, st) \<leftarrow> st_pop st;
       (init_code_size, st) \<leftarrow> st_pop st;
       let (fits, st) = check_memory st init_code_offset init_code_size;
       if \<not> fits then Some (EVMC_OUT_OF_GAS, st)
       else do {
         (salt, paid, st) \<leftarrow>
           (if knd = EVMC_CREATE2 then do {
              (salt, st) \<leftarrow> st_pop st;
              let salt_cost = num_words (to_size init_code_size) * 6;
              Some (salt, charge st salt_cost) }
            else Some (0, True, st));
         if \<not> paid then Some (EVMC_OUT_OF_GAS, st)
         else do {
           st \<leftarrow> st_push st 0;
           let st = st\<lparr>return_data := []\<rparr>;
           if 1024 \<le> depth (msg st) then Some (EVMC_SUCCESS, st)
           else if endowment \<noteq> 0 \<and> be_load (get_balance (host st) (destination (msg st))) < endowment
             then Some (EVMC_SUCCESS, st)
           else do {
             let g = gas_left st;
             let g = (if EVMC_TANGERINE_WHISTLE \<le> revision st then g - g div 64 else g);
             input \<leftarrow> memory_read (memory st) (to_size init_code_offset) (to_size init_code_size);
             let m = empty_message\<lparr>gas := g, kind := knd, input_data := input,
                       sender := destination (msg st), depth := depth (msg st) + 1,
                       create2_salt := be_store salt, msg_value := be_store endowment\<rparr>;
             create_host m st } } } })"

end
