(* ===== verification/EvmTable.thy ===== *)
theory EvmTable
  imports EvmCalls
begin

text \<open>
  The tables of instructions (\<^verbatim>\<open>analysis.hpp\<close> and the tables of \<^verbatim>\<open>instructions.cpp\<close>). A
  function pointer is the name of its function: the three templates \<^verbatim>\<open>op<InstrFn>\<close> are
  \<open>op_stack\<close>, \<open>op_state\<close> and \<open>op_status\<close> with the instruction as their argument, and every other
  instruction function is a constructor of its own. The theory \<^verbatim>\<open>EvmExecution\<close> gives the
  functions that the names stand for.

  \<open>fn_req\<close> and \<open>fn_change\<close> state the items a function needs and by how much it changes the
  height of the stack; the theory \<^verbatim>\<open>EvmBlocks\<close> shows that every entry of every table has these
  numbers.
\<close>

section \<open>Instructions\<close>

datatype stack_fn =
    fn_add | fn_mul | fn_sub | fn_div | fn_sdiv | fn_mod | fn_smod | fn_addmod
  | fn_mulmod | fn_signextend | fn_lt | fn_gt | fn_slt | fn_sgt | fn_eq | fn_iszero
  | fn_and | fn_or | fn_xor | fn_not | fn_byte | fn_shl | fn_shr | fn_sar
  | fn_pop | fn_dup nat | fn_swap nat

datatype state_fn =
    fn_address | fn_balance | fn_origin | fn_caller | fn_callvalue | fn_calldataload | fn_calldatasize | fn_codesize
  | fn_gasprice | fn_extcodesize | fn_returndatasize | fn_extcodehash | fn_blockhash | fn_coinbase | fn_timestamp | fn_number
  | fn_difficulty | fn_gaslimit | fn_chainid | fn_selfbalance | fn_sload | fn_msize

datatype status_fn =
    fn_exp | fn_sha3 | fn_calldatacopy | fn_codecopy | fn_extcodecopy | fn_returndatacopy | fn_mload | fn_mstore
  | fn_mstore8

datatype exec_fn =
    op_stack stack_fn | op_state state_fn | op_status status_fn | op_stop | op_sstore | op_jump | op_jumpi
  | op_pc | op_gas | op_push_small | op_push_full | op_log nat | op_invalid | op_return evmc_status_code
  | op_call evmc_call_kind bool | op_create evmc_call_kind | op_undefined | op_selfdestruct | opx_beginblock

record op_table_entry =
  op_fn :: exec_fn
  op_gas_cost :: int
  op_stack_req :: int
  op_stack_change :: int

type_synonym op_table = "u8 \<Rightarrow> op_table_entry"

abbreviation op_entry :: "exec_fn \<Rightarrow> int \<Rightarrow> int \<Rightarrow> int \<Rightarrow> op_table_entry" where
  "op_entry f g r c \<equiv> \<lparr>op_fn = f, op_gas_cost = g, op_stack_req = r, op_stack_change = c\<rparr>"

section \<open>Opcodes\<close>

abbreviation (input) OP_STOP :: u8 where "OP_STOP \<equiv> 0x00"
abbreviation (input) OP_ADD :: u8 where "OP_ADD \<equiv> 0x01"
abbreviation (input) OP_MUL :: u8 where "OP_MUL \<equiv> 0x02"
abbreviation (input) OP_SUB :: u8 where "OP_SUB \<equiv> 0x03"
abbreviation (input) OP_DIV :: u8 where "OP_DIV \<equiv> 0x04"
abbreviation (input) OP_SDIV :: u8 where "OP_SDIV \<equiv> 0x05"
abbreviation (input) OP_MOD :: u8 where "OP_MOD \<equiv> 0x06"
abbreviation (input) OP_SMOD :: u8 where "OP_SMOD \<equiv> 0x07"
abbreviation (input) OP_ADDMOD :: u8 where "OP_ADDMOD \<equiv> 0x08"
abbreviation (input) OP_MULMOD :: u8 where "OP_MULMOD \<equiv> 0x09"
abbreviation (input) OP_EXP :: u8 where "OP_EXP \<equiv> 0x0a"
abbreviation (input) OP_SIGNEXTEND :: u8 where "OP_SIGNEXTEND \<equiv> 0x0b"
abbreviation (input) OP_LT :: u8 where "OP_LT \<equiv> 0x10"
abbreviation (input) OP_GT :: u8 where "OP_GT \<equiv> 0x11"
abbreviation (input) OP_SLT :: u8 where "OP_SLT \<equiv> 0x12"
abbreviation (input) OP_SGT :: u8 where "OP_SGT \<equiv> 0x13"
abbreviation (input) OP_EQ :: u8 where "OP_EQ \<equiv> 0x14"
abbreviation (input) OP_ISZERO :: u8 where "OP_ISZERO \<equiv> 0x15"
abbreviation (input) OP_AND :: u8 where "OP_AND \<equiv> 0x16"
abbreviation (input) OP_OR :: u8 where "OP_OR \<equiv> 0x17"
abbreviation (input) OP_XOR :: u8 where "OP_XOR \<equiv> 0x18"
abbreviation (input) OP_NOT :: u8 where "OP_NOT \<equiv> 0x19"
abbreviation (input) OP_BYTE :: u8 where "OP_BYTE \<equiv> 0x1a"
abbreviation (input) OP_SHL :: u8 where "OP_SHL \<equiv> 0x1b"
abbreviation (input) OP_SHR :: u8 where "OP_SHR \<equiv> 0x1c"
abbreviation (input) OP_SAR :: u8 where "OP_SAR \<equiv> 0x1d"
abbreviation (input) OP_SHA3 :: u8 where "OP_SHA3 \<equiv> 0x20"
abbreviation (input) OP_ADDRESS :: u8 where "OP_ADDRESS \<equiv> 0x30"
abbreviation (input) OP_BALANCE :: u8 where "OP_BALANCE \<equiv> 0x31"
abbreviation (input) OP_ORIGIN :: u8 where "OP_ORIGIN \<equiv> 0x32"
abbreviation (input) OP_CALLER :: u8 where "OP_CALLER \<equiv> 0x33"
abbreviation (input) OP_CALLVALUE :: u8 where "OP_CALLVALUE \<equiv> 0x34"
abbreviation (input) OP_CALLDATALOAD :: u8 where "OP_CALLDATALOAD \<equiv> 0x35"
abbreviation (input) OP_CALLDATASIZE :: u8 where "OP_CALLDATASIZE \<equiv> 0x36"
abbreviation (input) OP_CALLDATACOPY :: u8 where "OP_CALLDATACOPY \<equiv> 0x37"
abbreviation (input) OP_CODESIZE :: u8 where "OP_CODESIZE \<equiv> 0x38"
abbreviation (input) OP_CODECOPY :: u8 where "OP_CODECOPY \<equiv> 0x39"
abbreviation (input) OP_GASPRICE :: u8 where "OP_GASPRICE \<equiv> 0x3a"
abbreviation (input) OP_EXTCODESIZE :: u8 where "OP_EXTCODESIZE \<equiv> 0x3b"
abbreviation (input) OP_EXTCODECOPY :: u8 where "OP_EXTCODECOPY \<equiv> 0x3c"
abbreviation (input) OP_RETURNDATASIZE :: u8 where "OP_RETURNDATASIZE \<equiv> 0x3d"
abbreviation (input) OP_RETURNDATACOPY :: u8 where "OP_RETURNDATACOPY \<equiv> 0x3e"
abbreviation (input) OP_EXTCODEHASH :: u8 where "OP_EXTCODEHASH \<equiv> 0x3f"
abbreviation (input) OP_BLOCKHASH :: u8 where "OP_BLOCKHASH \<equiv> 0x40"
abbreviation (input) OP_COINBASE :: u8 where "OP_COINBASE \<equiv> 0x41"
abbreviation (input) OP_TIMESTAMP :: u8 where "OP_TIMESTAMP \<equiv> 0x42"
abbreviation (input) OP_NUMBER :: u8 where "OP_NUMBER \<equiv> 0x43"
abbreviation (input) OP_DIFFICULTY :: u8 where "OP_DIFFICULTY \<equiv> 0x44"
abbreviation (input) OP_GASLIMIT :: u8 where "OP_GASLIMIT \<equiv> 0x45"
abbreviation (input) OP_CHAINID :: u8 where "OP_CHAINID \<equiv> 0x46"
abbreviation (input) OP_SELFBALANCE :: u8 where "OP_SELFBALANCE \<equiv> 0x47"
abbreviation (input) OP_POP :: u8 where "OP_POP \<equiv> 0x50"
abbreviation (input) OP_MLOAD :: u8 where "OP_MLOAD \<equiv> 0x51"
abbreviation (input) OP_MSTORE :: u8 where "OP_MSTORE \<equiv> 0x52"
abbreviation (input) OP_MSTORE8 :: u8 where "OP_MSTORE8 \<equiv> 0x53"
abbreviation (input) OP_SLOAD :: u8 where "OP_SLOAD \<equiv> 0x54"
abbreviation (input) OP_SSTORE :: u8 where "OP_SSTORE \<equiv> 0x55"
abbreviation (input) OP_JUMP :: u8 where "OP_JUMP \<equiv> 0x56"
abbreviation (input) OP_JUMPI :: u8 where "OP_JUMPI \<equiv> 0x57"
abbreviation (input) OP_PC :: u8 where "OP_PC \<equiv> 0x58"
abbreviation (input) OP_MSIZE :: u8 where "OP_MSIZE \<equiv> 0x59"
abbreviation (input) OP_GAS :: u8 where "OP_GAS \<equiv> 0x5a"
abbreviation (input) OP_JUMPDEST :: u8 where "OP_JUMPDEST \<equiv> 0x5b"
abbreviation (input) OP_PUSH1 :: u8 where "OP_PUSH1 \<equiv> 0x60"
abbreviation (input) OP_PUSH8 :: u8 where "OP_PUSH8 \<equiv> 0x67"
abbreviation (input) OP_PUSH9 :: u8 where "OP_PUSH9 \<equiv> 0x68"
abbreviation (input) OP_PUSH32 :: u8 where "OP_PUSH32 \<equiv> 0x7f"
abbreviation (input) OP_DUP1 :: u8 where "OP_DUP1 \<equiv> 0x80"
abbreviation (input) OP_SWAP1 :: u8 where "OP_SWAP1 \<equiv> 0x90"
abbreviation (input) OP_LOG0 :: u8 where "OP_LOG0 \<equiv> 0xa0"
abbreviation (input) OP_CREATE :: u8 where "OP_CREATE \<equiv> 0xf0"
abbreviation (input) OP_CALL :: u8 where "OP_CALL \<equiv> 0xf1"
abbreviation (input) OP_CALLCODE :: u8 where "OP_CALLCODE \<equiv> 0xf2"
abbreviation (input) OP_RETURN :: u8 where "OP_RETURN \<equiv> 0xf3"
abbreviation (input) OP_DELEGATECALL :: u8 where "OP_DELEGATECALL \<equiv> 0xf4"
abbreviation (input) OP_CREATE2 :: u8 where "OP_CREATE2 \<equiv> 0xf5"
abbreviation (input) OP_STATICCALL :: u8 where "OP_STATICCALL \<equiv> 0xfa"
abbreviation (input) OP_REVERT :: u8 where "OP_REVERT \<equiv> 0xfd"
abbreviation (input) OP_INVALID :: u8 where "OP_INVALID \<equiv> 0xfe"
abbreviation (input) OP_SELFDESTRUCT :: u8 where "OP_SELFDESTRUCT \<equiv> 0xff"

section \<open>The tables\<close>

text \<open>Assignments to the entries of a table, in their order.\<close>

definition assign :: "(u8 \<times> op_table_entry) list \<Rightarrow> op_table \<Rightarrow> op_table" where
  "assign as t = foldl (\<lambda>t (op, e). t(op := e)) t as"

definition set_gas :: "u8 \<Rightarrow> int \<Rightarrow> op_table \<Rightarrow> op_table" where
  "set_gas op g t = t(op := (t op)\<lparr>op_gas_cost := g\<rparr>)"

definition frontier_start :: "(u8 \<times> op_table_entry) list" where
  "frontier_start = [
    (OP_STOP, op_entry op_stop 0 0 0),
    (OP_ADD, op_entry (op_stack fn_add) 3 2 (-1)),
    (OP_MUL, op_entry (op_stack fn_mul) 5 2 (-1)),
    (OP_SUB, op_entry (op_stack fn_sub) 3 2 (-1)),
    (OP_DIV, op_entry (op_stack fn_div) 5 2 (-1)),
    (OP_SDIV, op_entry (op_stack fn_sdiv) 5 2 (-1)),
    (OP_MOD, op_entry (op_stack fn_mod) 5 2 (-1)),
    (OP_SMOD, op_entry (op_stack fn_smod) 5 2 (-1)),
    (OP_ADDMOD, op_entry (op_stack fn_addmod) 8 3 (-2)),
    (OP_MULMOD, op_entry (op_stack fn_mulmod) 8 3 (-2)),
    (OP_EXP, op_entry (op_status fn_exp) 10 2 (-1)),
    (OP_SIGNEXTEND, op_entry (op_stack fn_signextend) 5 2 (-1)),
    (OP_LT, op_entry (op_stack fn_lt) 3 2 (-1)),
    (OP_GT, op_entry (op_stack fn_gt) 3 2 (-1)),
    (OP_SLT, op_entry (op_stack fn_slt) 3 2 (-1)),
    (OP_SGT, op_entry (op_stack fn_sgt) 3 2 (-1)),
    (OP_EQ, op_entry (op_stack fn_eq) 3 2 (-1)),
    (OP_ISZERO, op_entry (op_stack fn_iszero) 3 1 0),
    (OP_AND, op_entry (op_stack fn_and) 3 2 (-1)),
    (OP_OR, op_entry (op_stack fn_or) 3 2 (-1)),
    (OP_XOR, op_entry (op_stack fn_xor) 3 2 (-1)),
    (OP_NOT, op_entry (op_stack fn_not) 3 1 0),
    (OP_BYTE, op_entry (op_stack fn_byte) 3 2 (-1)),
    (OP_SHA3, op_entry (op_status fn_sha3) 30 2 (-1)),
    (OP_ADDRESS, op_entry (op_state fn_address) 2 0 1),
    (OP_BALANCE, op_entry (op_state fn_balance) 20 1 0),
    (OP_ORIGIN, op_entry (op_state fn_origin) 2 0 1),
    (OP_CALLER, op_entry (op_state fn_caller) 2 0 1),
    (OP_CALLVALUE, op_entry (op_state fn_callvalue) 2 0 1),
    (OP_CALLDATALOAD, op_entry (op_state fn_calldataload) 3 1 0),
    (OP_CALLDATASIZE, op_entry (op_state fn_calldatasize) 2 0 1),
    (OP_CALLDATACOPY, op_entry (op_status fn_calldatacopy) 3 3 (-3)),
    (OP_CODESIZE, op_entry (op_state fn_codesize) 2 0 1),
    (OP_CODECOPY, op_entry (op_status fn_codecopy) 3 3 (-3)),
    (OP_GASPRICE, op_entry (op_state fn_gasprice) 2 0 1),
    (OP_EXTCODESIZE, op_entry (op_state fn_extcodesize) 20 1 0),
    (OP_EXTCODECOPY, op_entry (op_status fn_extcodecopy) 20 4 (-4)),
    (OP_BLOCKHASH, op_entry (op_state fn_blockhash) 20 1 0),
    (OP_COINBASE, op_entry (op_state fn_coinbase) 2 0 1),
    (OP_TIMESTAMP, op_entry (op_state fn_timestamp) 2 0 1),
    (OP_NUMBER, op_entry (op_state fn_number) 2 0 1),
    (OP_DIFFICULTY, op_entry (op_state fn_difficulty) 2 0 1),
    (OP_GASLIMIT, op_entry (op_state fn_gaslimit) 2 0 1),
    (OP_POP, op_entry (op_stack fn_pop) 2 1 (-1)),
    (OP_MLOAD, op_entry (op_status fn_mload) 3 1 0),
    (OP_MSTORE, op_entry (op_status fn_mstore) 3 2 (-2)),
    (OP_MSTORE8, op_entry (op_status fn_mstore8) 3 2 (-2)),
    (OP_SLOAD, op_entry (op_state fn_sload) 50 1 0),
    (OP_SSTORE, op_entry op_sstore 0 2 (-2)),
    (OP_JUMP, op_entry op_jump 8 1 (-1)),
    (OP_JUMPI, op_entry op_jumpi 10 2 (-2)),
    (OP_PC, op_entry op_pc 2 0 1),
    (OP_MSIZE, op_entry (op_state fn_msize) 2 0 1),
    (OP_GAS, op_entry op_gas 2 0 1),
    (OP_JUMPDEST, op_entry opx_beginblock 1 0 0)]"

text \<open>The loops over the pushes, and the lines for \<^verbatim>\<open>DUP\<close>, \<^verbatim>\<open>SWAP\<close> and \<^verbatim>\<open>LOG\<close>.\<close>

definition frontier_runs :: "(u8 \<times> op_table_entry) list" where
  "frontier_runs =
    map (\<lambda>n. (OP_PUSH1 + word_of_nat n, op_entry op_push_small 3 0 1)) [0..<8] @
    map (\<lambda>n. (OP_PUSH9 + word_of_nat n, op_entry op_push_full 3 0 1)) [0..<24] @
    map (\<lambda>n. (OP_DUP1 + word_of_nat n, op_entry (op_stack (fn_dup n)) 3 (int n + 1) 1)) [0..<16] @
    map (\<lambda>n. (OP_SWAP1 + word_of_nat n, op_entry (op_stack (fn_swap (n + 1))) 3 (int n + 2) 0)) [0..<16] @
    map (\<lambda>n. (OP_LOG0 + word_of_nat n, op_entry (op_log n) ((int n + 1) * 375) (int n + 2) (- (int n + 2)))) [0..<5]"

definition frontier_end :: "(u8 \<times> op_table_entry) list" where
  "frontier_end = [
    (OP_CREATE, op_entry (op_create EVMC_CREATE) 32000 3 (-2)),
    (OP_CALL, op_entry (op_call EVMC_CALL False) 40 7 (-6)),
    (OP_CALLCODE, op_entry (op_call EVMC_CALLCODE False) 40 7 (-6)),
    (OP_RETURN, op_entry (op_return EVMC_SUCCESS) 0 2 (-2)),
    (OP_INVALID, op_entry op_invalid 0 0 0),
    (OP_SELFDESTRUCT, op_entry op_selfdestruct 0 1 (-1))]"

definition create_op_table_frontier :: op_table where
  "create_op_table_frontier =
    assign (frontier_start @ frontier_runs @ frontier_end) (\<lambda>_. op_entry op_undefined 0 0 0)"

definition create_op_table_homestead :: op_table where
  "create_op_table_homestead = assign [
    (OP_DELEGATECALL, op_entry (op_call EVMC_DELEGATECALL False) 40 6 (-5))] create_op_table_frontier"

definition create_op_table_tangerine_whistle :: op_table where
  "create_op_table_tangerine_whistle =
     (set_gas OP_SELFDESTRUCT 5000
     (set_gas OP_DELEGATECALL 700
     (set_gas OP_CALLCODE 700
     (set_gas OP_CALL 700
     (set_gas OP_SLOAD 200
     (set_gas OP_EXTCODECOPY 700
     (set_gas OP_EXTCODESIZE 700
     (set_gas OP_BALANCE 400 create_op_table_homestead))))))))"

definition create_op_table_byzantium :: op_table where
  "create_op_table_byzantium = assign [
    (OP_RETURNDATASIZE, op_entry (op_state fn_returndatasize) 2 0 1),
    (OP_RETURNDATACOPY, op_entry (op_status fn_returndatacopy) 3 3 (-3)),
    (OP_STATICCALL, op_entry (op_call EVMC_CALL True) 700 6 (-5)),
    (OP_REVERT, op_entry (op_return EVMC_REVERT) 0 2 (-2))] create_op_table_tangerine_whistle"

definition create_op_table_constantinople :: op_table where
  "create_op_table_constantinople = assign [
    (OP_SHL, op_entry (op_stack fn_shl) 3 2 (-1)),
    (OP_SHR, op_entry (op_stack fn_shr) 3 2 (-1)),
    (OP_SAR, op_entry (op_stack fn_sar) 3 2 (-1)),
    (OP_EXTCODEHASH, op_entry (op_state fn_extcodehash) 400 1 0),
    (OP_CREATE2, op_entry (op_create EVMC_CREATE2) 32000 4 (-3))] create_op_table_byzantium"

definition create_op_table_istanbul :: op_table where
  "create_op_table_istanbul = assign [
    (OP_BALANCE, op_entry (op_state fn_balance) 700 1 0),
    (OP_CHAINID, op_entry (op_state fn_chainid) 2 0 1),
    (OP_EXTCODEHASH, op_entry (op_state fn_extcodehash) 700 1 0),
    (OP_SELFBALANCE, op_entry (op_state fn_selfbalance) 5 0 1),
    (OP_SLOAD, op_entry (op_state fn_sload) 800 1 0)] create_op_table_constantinople"

fun get_op_table :: "evmc_revision \<Rightarrow> op_table" where
  "get_op_table EVMC_FRONTIER = create_op_table_frontier"
| "get_op_table EVMC_HOMESTEAD = create_op_table_homestead"
| "get_op_table EVMC_TANGERINE_WHISTLE = create_op_table_tangerine_whistle"
| "get_op_table EVMC_SPURIOUS_DRAGON = create_op_table_tangerine_whistle"
| "get_op_table EVMC_BYZANTIUM = create_op_table_byzantium"
| "get_op_table EVMC_CONSTANTINOPLE = create_op_table_constantinople"
| "get_op_table EVMC_PETERSBURG = create_op_table_constantinople"
| "get_op_table EVMC_ISTANBUL = create_op_table_istanbul"
| "get_op_table EVMC_BERLIN = create_op_table_istanbul"

section \<open>What the functions need\<close>

fun stack_fn_req :: "stack_fn \<Rightarrow> nat" where
  "stack_fn_req fn_addmod = 3"
| "stack_fn_req fn_mulmod = 3"
| "stack_fn_req fn_iszero = 1"
| "stack_fn_req fn_not = 1"
| "stack_fn_req fn_pop = 1"
| "stack_fn_req (fn_dup n) = n + 1"
| "stack_fn_req (fn_swap n) = n + 1"
| "stack_fn_req _ = 2"

fun stack_fn_change :: "stack_fn \<Rightarrow> int" where
  "stack_fn_change fn_addmod = - 2"
| "stack_fn_change fn_mulmod = - 2"
| "stack_fn_change fn_iszero = 0"
| "stack_fn_change fn_not = 0"
| "stack_fn_change (fn_dup n) = 1"
| "stack_fn_change (fn_swap n) = 0"
| "stack_fn_change _ = - 1"

definition replaces_top :: "state_fn \<Rightarrow> bool" where
  "replaces_top f \<longleftrightarrow> f \<in> {fn_balance, fn_calldataload, fn_extcodesize, fn_extcodehash, fn_blockhash, fn_sload}"

fun status_fn_req :: "status_fn \<Rightarrow> nat" where
  "status_fn_req fn_calldatacopy = 3"
| "status_fn_req fn_codecopy = 3"
| "status_fn_req fn_extcodecopy = 4"
| "status_fn_req fn_returndatacopy = 3"
| "status_fn_req fn_mload = 1"
| "status_fn_req _ = 2"

fun status_fn_change :: "status_fn \<Rightarrow> int" where
  "status_fn_change fn_exp = - 1"
| "status_fn_change fn_sha3 = - 1"
| "status_fn_change fn_mload = 0"
| "status_fn_change f = - int (status_fn_req f)"

fun fn_req :: "exec_fn \<Rightarrow> nat" where
  "fn_req (op_stack f) = stack_fn_req f"
| "fn_req (op_state f) = (if replaces_top f then 1 else 0)"
| "fn_req (op_status f) = status_fn_req f"
| "fn_req op_sstore = 2"
| "fn_req op_jump = 1"
| "fn_req op_jumpi = 2"
| "fn_req (op_log n) = n + 2"
| "fn_req (op_return _) = 2"
| "fn_req (op_call k static) = (if static \<or> k = EVMC_DELEGATECALL then 6 else 7)"
| "fn_req (op_create k) = (if k = EVMC_CREATE2 then 4 else 3)"
| "fn_req op_selfdestruct = 1"
| "fn_req _ = 0"

fun fn_change :: "exec_fn \<Rightarrow> int" where
  "fn_change (op_stack f) = stack_fn_change f"
| "fn_change (op_state f) = (if replaces_top f then 0 else 1)"
| "fn_change (op_status f) = status_fn_change f"
| "fn_change op_sstore = - 2"
| "fn_change op_jump = - 1"
| "fn_change op_jumpi = - 2"
| "fn_change op_pc = 1"
| "fn_change op_gas = 1"
| "fn_change op_push_small = 1"
| "fn_change op_push_full = 1"
| "fn_change (op_log n) = - int (n + 2)"
| "fn_change (op_return _) = - 2"
| "fn_change (op_call k static) = 1 - int (fn_req (op_call k static))"
| "fn_change (op_create k) = 1 - int (fn_req (op_create k))"
| "fn_change op_selfdestruct = - 1"
| "fn_change _ = 0"

end
