(* ===== verification/EvmAnalysis.thy ===== *)
theory EvmAnalysis
  imports EvmTable
begin

text \<open>
  The analysis of the code (\<^verbatim>\<open>analysis.hpp\<close>, \<^verbatim>\<open>analysis.cpp\<close>). It translates the bytes into
  a list of instructions, divided into basic blocks by \<open>opx_beginblock\<close> instructions. Each of
  these holds what its block needs: the gas of all its instructions, the stack height it
  requires and by how much the stack grows at most. The positions of the \<^verbatim>\<open>JUMPDEST\<close>s are listed
  with the instructions they became.

  A pointer into the code is the list of the bytes that remain, with its offset. The argument
  of an instruction is a union; its member is a constructor, and a pointer to a pushed value is
  an index.
\<close>

section \<open>Data\<close>

record block_info =
  info_gas_cost :: int
  info_stack_req :: int
  info_stack_max_growth :: int

datatype instruction_argument =
    arg_number int
  | arg_push_value nat
  | arg_small_push u64
  | arg_block block_info

record instruction =
  instr_fn :: exec_fn
  instr_arg :: instruction_argument

record code_analysis =
  instrs :: "instruction list"
  push_values :: "uint256 list"
  jumpdest_offsets :: "int list"
  jumpdest_targets :: "int list"

definition new_instruction :: "exec_fn \<Rightarrow> instruction" where
  "new_instruction f =
    \<lparr>instr_fn = f, instr_arg = arg_block \<lparr>info_gas_cost = 0, info_stack_req = 0, info_stack_max_growth = 0\<rparr>\<rparr>"

text \<open>
  \<^verbatim>\<open>std::lower_bound\<close> on the sorted offsets is the first position that does not hold a smaller
  offset.
\<close>

definition lower_bound :: "int list \<Rightarrow> int \<Rightarrow> nat" where
  "lower_bound xs x = length (takeWhile (\<lambda>y. y < x) xs)"

definition find_jumpdest :: "code_analysis \<Rightarrow> int \<Rightarrow> int" where
  "find_jumpdest an offset =
    (let it = lower_bound (jumpdest_offsets an) offset
     in if it < length (jumpdest_offsets an) \<and> jumpdest_offsets an ! it = offset
        then jumpdest_targets an ! it else - 1)"

section \<open>Blocks\<close>

definition clamp :: "int \<Rightarrow> int \<Rightarrow> int" where
  "clamp max_value x = (if x \<le> max_value then x else max_value)"

record block_analysis =
  block_gas_cost :: int
  block_stack_req :: int
  block_stack_max_growth :: int
  block_stack_change :: int
  begin_block_index :: nat

definition new_block :: "nat \<Rightarrow> block_analysis" where
  "new_block index = \<lparr>block_gas_cost = 0, block_stack_req = 0, block_stack_max_growth = 0,
    block_stack_change = 0, begin_block_index = index\<rparr>"

definition block_close :: "block_analysis \<Rightarrow> block_info" where
  "block_close b = \<lparr>info_gas_cost = clamp (2 ^ 32 - 1) (block_gas_cost b),
    info_stack_req = clamp (2 ^ 15 - 1) (block_stack_req b),
    info_stack_max_growth = clamp (2 ^ 15 - 1) (block_stack_max_growth b)\<rparr>"

definition count_opcode :: "op_table_entry \<Rightarrow> block_analysis \<Rightarrow> block_analysis" where
  "count_opcode e b =
    (let b = b\<lparr>block_stack_req := max (block_stack_req b) (op_stack_req e - block_stack_change b)\<rparr>;
       b = b\<lparr>block_stack_change := block_stack_change b + op_stack_change e\<rparr>;
       b = b\<lparr>block_stack_max_growth := max (block_stack_max_growth b) (block_stack_change b)\<rparr>
     in b\<lparr>block_gas_cost := block_gas_cost b + op_gas_cost e\<rparr>)"

section \<open>The translation\<close>

text \<open>\<^verbatim>\<open>static_cast<int32_t>\<close> of a size.\<close>

definition int32 :: "nat \<Rightarrow> int" where
  "int32 n = sint (word_of_nat n :: u32)"

definition add_instr :: "instruction \<Rightarrow> code_analysis \<Rightarrow> code_analysis" where
  "add_instr i an = an\<lparr>instrs := instrs an @ [i]\<rparr>"

definition add_jumpdest :: "nat \<Rightarrow> code_analysis \<Rightarrow> code_analysis" where
  "add_jumpdest offset an = an\<lparr>jumpdest_offsets := jumpdest_offsets an @ [int32 offset],
    jumpdest_targets := jumpdest_targets an @ [int32 (length (instrs an) - 1)]\<rparr>"

definition set_arg :: "nat \<Rightarrow> instruction_argument \<Rightarrow> code_analysis \<Rightarrow> code_analysis" where
  "set_arg k a an = an\<lparr>instrs := (instrs an)[k := (instrs an ! k)\<lparr>instr_arg := a\<rparr>]\<rparr>"

definition set_last_arg :: "instruction_argument \<Rightarrow> code_analysis \<Rightarrow> code_analysis" where
  "set_last_arg a an = set_arg (length (instrs an) - 1) a an"

text \<open>The loops that collect the bytes of a push; each byte is put below the one before it.\<close>

fun small_push_loop :: "nat \<Rightarrow> u64 \<Rightarrow> bytes \<Rightarrow> u64" where
  "small_push_loop insert_bit_pos val [] = val"
| "small_push_loop insert_bit_pos val (b # bs) =
    small_push_loop (insert_bit_pos - 8) (val OR push_bit insert_bit_pos (ucast b)) bs"

fun large_push_loop :: "nat \<Rightarrow> bytes \<Rightarrow> bytes \<Rightarrow> bytes" where
  "large_push_loop insert_pos push_value_bytes [] = push_value_bytes"
| "large_push_loop insert_pos push_value_bytes (b # bs) =
    large_push_loop (insert_pos - 1) (push_value_bytes[insert_pos := b]) bs"

definition is_small_push :: "u8 \<Rightarrow> bool" where
  "is_small_push op \<longleftrightarrow> OP_PUSH1 \<le> op \<and> op \<le> OP_PUSH8"

definition is_large_push :: "u8 \<Rightarrow> bool" where
  "is_large_push op \<longleftrightarrow> OP_PUSH9 \<le> op \<and> op \<le> OP_PUSH32"

definition push_size :: "u8 \<Rightarrow> nat" where
  "push_size op = unat (op - OP_PUSH1) + 1"

definition is_terminator :: "u8 \<Rightarrow> bool" where
  "is_terminator op \<longleftrightarrow> op \<in> {OP_JUMP, OP_JUMPI, OP_STOP, OP_RETURN, OP_REVERT, OP_SELFDESTRUCT}"

definition has_gas_arg :: "u8 \<Rightarrow> bool" where
  "has_gas_arg op \<longleftrightarrow>
    op \<in> {OP_GAS, OP_CALL, OP_CALLCODE, OP_DELEGATECALL, OP_STATICCALL, OP_CREATE, OP_CREATE2, OP_SSTORE}"

text \<open>
  The switch over the opcode: the number of code bytes it takes and the analysis with the
  argument of the last instruction set. \<open>pos\<close> is the offset after the opcode, \<open>rest\<close> the code
  from there.
\<close>

definition translate_arg ::
  "u8 \<Rightarrow> nat \<Rightarrow> bytes \<Rightarrow> block_analysis \<Rightarrow> code_analysis \<Rightarrow> nat \<times> code_analysis" where
  "translate_arg opcode pos rest block an =
    (if is_small_push opcode then
       let data = take (push_size opcode) rest;
         val = small_push_loop ((push_size opcode - 1) * 8) 0 data
       in (length data, set_last_arg (arg_small_push val) an)
     else if is_large_push opcode then
       let data = take (push_size opcode) rest;
         val = le_word (large_push_loop (push_size opcode - 1) (replicate 32 0) data);
         an = an\<lparr>push_values := push_values an @ [val]\<rparr>
       in (length data, set_last_arg (arg_push_value (length (push_values an) - 1)) an)
     else if has_gas_arg opcode then (0, set_last_arg (arg_number (block_gas_cost block)) an)
     else if opcode = OP_PC then (0, set_last_arg (arg_number (int pos - 1)) an)
     else (0, an))"

definition close_block :: "block_analysis \<Rightarrow> code_analysis \<Rightarrow> code_analysis" where
  "close_block block an = set_arg (begin_block_index block) (arg_block (block_close block)) an"

definition analyze_opcode ::
  "op_table \<Rightarrow> u8 \<Rightarrow> nat \<Rightarrow> bytes \<Rightarrow> block_analysis \<Rightarrow> code_analysis \<Rightarrow> nat \<times> block_analysis \<times> code_analysis" where
  "analyze_opcode tbl opcode pos rest block an =
    (let block = count_opcode (tbl opcode) block;
       an = (if opcode = OP_JUMPDEST then add_jumpdest (pos - 1) an
             else add_instr (new_instruction (op_fn (tbl opcode))) an);
       (used, an) = translate_arg opcode pos rest block an
     in if is_terminator opcode \<or> (drop used rest \<noteq> [] \<and> hd (drop used rest) = OP_JUMPDEST)
        then let an = add_instr (new_instruction (op_fn (tbl OP_JUMPDEST))) (close_block block an)
             in (used, new_block (length (instrs an) - 1), an)
        else (used, block, an))"

function analyze_loop ::
  "op_table \<Rightarrow> nat \<Rightarrow> bytes \<Rightarrow> block_analysis \<Rightarrow> code_analysis \<Rightarrow> block_analysis \<times> code_analysis" where
  "analyze_loop tbl pos [] block an = (block, an)"
| "analyze_loop tbl pos (opcode # rest) block an =
    (let (used, block, an) = analyze_opcode tbl opcode (pos + 1) rest block an
     in analyze_loop tbl (pos + 1 + used) (drop used rest) block an)"
  by pat_completeness auto

termination
  by (relation "measure (\<lambda>(tbl, pos, rest, block, an). length rest)") auto

definition analyze :: "evmc_revision \<Rightarrow> bytes \<Rightarrow> code_analysis" where
  "analyze r code_bytes =
    (let tbl = get_op_table r;
       an = \<lparr>instrs = [new_instruction (op_fn (tbl OP_JUMPDEST))], push_values = [],
             jumpdest_offsets = [], jumpdest_targets = []\<rparr>;
       (block, an) = analyze_loop tbl 0 code_bytes (new_block 0) an
     in add_instr (new_instruction (op_fn (tbl OP_STOP))) (close_block block an))"

end
