(* ===== verification/EvmExecution.thy ===== *)
theory EvmExecution
  imports EvmAnalysis
begin

text \<open>
  The instruction functions (\<^verbatim>\<open>instructions.cpp\<close>) and the execution loop (\<^verbatim>\<open>execution.cpp\<close>). A
  pointer to an instruction is its index, the null pointer \<^term>\<open>None\<close>. A function returns the
  next pointer with the new state; the outer \<^term>\<open>None\<close> is an access outside the stack, the memory
  or the instructions, or the read of a union member that is not set. The loop runs on fuel.
\<close>

section \<open>Instruction functions\<close>

record 'h execution_state = "'h ExecutionState" +
  current_block_cost :: int
  analysis :: code_analysis

type_synonym 'h step_result = "nat option \<times> 'h execution_state"

definition exit_with :: "evmc_status_code \<Rightarrow> 'h execution_state \<Rightarrow> 'h step_result" where
  "exit_with s st = (None, st\<lparr>status := s\<rparr>)"

fun exec_stack_fn :: "stack_fn \<Rightarrow> evm_stack \<Rightarrow> evm_stack option" where
  "exec_stack_fn fn_add = evm_add"
| "exec_stack_fn fn_mul = evm_mul"
| "exec_stack_fn fn_sub = evm_sub"
| "exec_stack_fn fn_div = evm_div"
| "exec_stack_fn fn_sdiv = evm_sdiv"
| "exec_stack_fn fn_mod = evm_mod"
| "exec_stack_fn fn_smod = evm_smod"
| "exec_stack_fn fn_addmod = evm_addmod"
| "exec_stack_fn fn_mulmod = evm_mulmod"
| "exec_stack_fn fn_signextend = evm_signextend"
| "exec_stack_fn fn_lt = evm_lt"
| "exec_stack_fn fn_gt = evm_gt"
| "exec_stack_fn fn_slt = evm_slt"
| "exec_stack_fn fn_sgt = evm_sgt"
| "exec_stack_fn fn_eq = evm_eq"
| "exec_stack_fn fn_iszero = evm_iszero"
| "exec_stack_fn fn_and = evm_and"
| "exec_stack_fn fn_or = evm_or"
| "exec_stack_fn fn_xor = evm_xor"
| "exec_stack_fn fn_not = evm_not"
| "exec_stack_fn fn_byte = evm_byte"
| "exec_stack_fn fn_shl = evm_shl"
| "exec_stack_fn fn_shr = evm_shr"
| "exec_stack_fn fn_sar = evm_sar"
| "exec_stack_fn fn_pop = evm_pop"
| "exec_stack_fn (fn_dup n) = evm_dup n"
| "exec_stack_fn (fn_swap n) = evm_swap n"

fun exec_state_fn :: "state_fn \<Rightarrow> ('h, 'z) ExecutionState_scheme \<Rightarrow> ('h, 'z) ExecutionState_scheme option" where
  "exec_state_fn fn_address = evm_address"
| "exec_state_fn fn_balance = evm_balance"
| "exec_state_fn fn_origin = evm_origin"
| "exec_state_fn fn_caller = evm_caller"
| "exec_state_fn fn_callvalue = evm_callvalue"
| "exec_state_fn fn_calldataload = evm_calldataload"
| "exec_state_fn fn_calldatasize = evm_calldatasize"
| "exec_state_fn fn_codesize = evm_codesize"
| "exec_state_fn fn_gasprice = evm_gasprice"
| "exec_state_fn fn_extcodesize = evm_extcodesize"
| "exec_state_fn fn_returndatasize = evm_returndatasize"
| "exec_state_fn fn_extcodehash = evm_extcodehash"
| "exec_state_fn fn_blockhash = evm_blockhash"
| "exec_state_fn fn_coinbase = evm_coinbase"
| "exec_state_fn fn_timestamp = evm_timestamp"
| "exec_state_fn fn_number = evm_number"
| "exec_state_fn fn_difficulty = evm_difficulty"
| "exec_state_fn fn_gaslimit = evm_gaslimit"
| "exec_state_fn fn_chainid = evm_chainid"
| "exec_state_fn fn_selfbalance = evm_selfbalance"
| "exec_state_fn fn_sload = evm_sload"
| "exec_state_fn fn_msize = evm_msize"

fun exec_status_fn ::
  "status_fn \<Rightarrow> ('h, 'z) ExecutionState_scheme \<Rightarrow> (evmc_status_code \<times> ('h, 'z) ExecutionState_scheme) option" where
  "exec_status_fn fn_exp = evm_exp"
| "exec_status_fn fn_sha3 = evm_sha3"
| "exec_status_fn fn_calldatacopy = evm_calldatacopy"
| "exec_status_fn fn_codecopy = evm_codecopy"
| "exec_status_fn fn_extcodecopy = evm_extcodecopy"
| "exec_status_fn fn_returndatacopy = evm_returndatacopy"
| "exec_status_fn fn_mload = evm_mload"
| "exec_status_fn fn_mstore = evm_mstore"
| "exec_status_fn fn_mstore8 = evm_mstore8"

text \<open>Success goes on with the following instruction, any other code leaves the loop.\<close>

definition go_on :: "nat \<Rightarrow> evmc_status_code \<times> 'h execution_state \<Rightarrow> 'h step_result" where
  "go_on i = (\<lambda>(s, st). if s \<noteq> EVMC_SUCCESS then exit_with s st else (Some (i + 1), st))"

definition number_arg :: "nat \<Rightarrow> 'h execution_state \<Rightarrow> int option" where
  "number_arg i st = (case instr_arg (instrs (analysis st) ! i) of arg_number n \<Rightarrow> Some n | _ \<Rightarrow> None)"

text \<open>
  The instructions that need the exact gas: the gas of the rest of the block, which was charged
  in advance, is given back for the instruction and taken again after it. \<^verbatim>\<open>op_sstore\<close>,
  \<^verbatim>\<open>op_call\<close> and \<^verbatim>\<open>op_create\<close> have this body.
\<close>

definition with_exact_gas ::
  "('h execution_state \<Rightarrow> (evmc_status_code \<times> 'h execution_state) option) \<Rightarrow> nat \<Rightarrow> 'h execution_state \<Rightarrow> 'h step_result option" where
  "with_exact_gas f i st = do {
    n \<leftarrow> number_arg i st;
    let gas_left_correction = current_block_cost st - n;
    let st = st\<lparr>gas_left := gas_left st + gas_left_correction\<rparr>;
    (s, st) \<leftarrow> f st;
    if s \<noteq> EVMC_SUCCESS then Some (exit_with s st)
    else do {
      let (paid, st) = charge st gas_left_correction;
      if \<not> paid then Some (exit_with EVMC_OUT_OF_GAS st) else Some (Some (i + 1), st) } }"

definition exec_jump :: "'h execution_state \<Rightarrow> 'h step_result option" where
  "exec_jump st = do {
    (dst, st) \<leftarrow> st_pop st;
    let pc = (if 0x7fffffff < dst then - 1 else find_jumpdest (analysis st) (sint (ucast dst :: u32)));
    if pc < 0 then Some (exit_with EVMC_BAD_JUMP_DESTINATION st)
    else Some (Some (nat pc), st) }"

definition exec_jumpi :: "nat \<Rightarrow> 'h execution_state \<Rightarrow> 'h step_result option" where
  "exec_jumpi i st = do {
    condition \<leftarrow> stack_at (stack st) 1;
    (p, st) \<leftarrow> (if condition \<noteq> 0 then exec_jump st
              else do { (_, st) \<leftarrow> st_pop st; Some (Some (i + 1), st) });
    (_, st) \<leftarrow> st_pop st;
    Some (p, st) }"

definition exec_pc :: "nat \<Rightarrow> 'h execution_state \<Rightarrow> 'h step_result option" where
  "exec_pc i st = do {
    n \<leftarrow> number_arg i st;
    st \<leftarrow> st_push st (ucast (word_of_int n :: u64));
    Some (Some (i + 1), st) }"

definition exec_gas :: "nat \<Rightarrow> 'h execution_state \<Rightarrow> 'h step_result option" where
  "exec_gas i st = do {
    n \<leftarrow> number_arg i st;
    let correction = current_block_cost st - n;
    let g = (word_of_int (gas_left st + correction) :: u64);
    st \<leftarrow> st_push st (ucast g);
    Some (Some (i + 1), st) }"

definition exec_push_small :: "nat \<Rightarrow> 'h execution_state \<Rightarrow> 'h step_result option" where
  "exec_push_small i st =
    (case instr_arg (instrs (analysis st) ! i) of
       arg_small_push v \<Rightarrow> do { st \<leftarrow> st_push st (ucast v); Some (Some (i + 1), st) }
     | _ \<Rightarrow> None)"

definition exec_push_full :: "nat \<Rightarrow> 'h execution_state \<Rightarrow> 'h step_result option" where
  "exec_push_full i st =
    (case instr_arg (instrs (analysis st) ! i) of
       arg_push_value k \<Rightarrow>
         if k < length (push_values (analysis st))
         then do { st \<leftarrow> st_push st (push_values (analysis st) ! k); Some (Some (i + 1), st) }
         else None
     | _ \<Rightarrow> None)"

definition exec_return :: "evmc_status_code \<Rightarrow> 'h execution_state \<Rightarrow> 'h step_result option" where
  "exec_return code_to_return st = do {
    offset \<leftarrow> stack_at (stack st) 0;
    size \<leftarrow> stack_at (stack st) 1;
    let (fits, st) = check_memory st offset size;
    if \<not> fits then Some (exit_with EVMC_OUT_OF_GAS st)
    else do {
      let st = st\<lparr>output_size := to_size size\<rparr>;
      let st = (if output_size st \<noteq> 0 then st\<lparr>output_offset := to_size offset\<rparr> else st);
      Some (exit_with code_to_return st) } }"

definition exec_beginblock :: "nat \<Rightarrow> 'h execution_state \<Rightarrow> 'h step_result option" where
  "exec_beginblock i st =
    (case instr_arg (instrs (analysis st) ! i) of
       arg_block block \<Rightarrow>
         (let (paid, st) = charge st (info_gas_cost block)
          in if \<not> paid then Some (exit_with EVMC_OUT_OF_GAS st)
             else if int (length (stack st)) < info_stack_req block then Some (exit_with EVMC_STACK_UNDERFLOW st)
             else if int (length (stack st)) + info_stack_max_growth block > int stack_limit
               then Some (exit_with EVMC_STACK_OVERFLOW st)
             else Some (Some (i + 1), st\<lparr>current_block_cost := info_gas_cost block\<rparr>))
     | _ \<Rightarrow> None)"

fun exec_fn_call :: "exec_fn \<Rightarrow> nat \<Rightarrow> 'h execution_state \<Rightarrow> 'h step_result option" where
  "exec_fn_call (op_stack f) i st = do {
    s \<leftarrow> exec_stack_fn f (stack st);
    Some (Some (i + 1), st\<lparr>stack := s\<rparr>) }"
| "exec_fn_call (op_state f) i st = do {
    st \<leftarrow> exec_state_fn f st;
    Some (Some (i + 1), st) }"
| "exec_fn_call (op_status f) i st = map_option (go_on i) (exec_status_fn f st)"
| "exec_fn_call op_stop i st = Some (exit_with EVMC_SUCCESS st)"
| "exec_fn_call op_sstore i st = with_exact_gas evm_sstore i st"
| "exec_fn_call op_jump i st = exec_jump st"
| "exec_fn_call op_jumpi i st = exec_jumpi i st"
| "exec_fn_call op_pc i st = exec_pc i st"
| "exec_fn_call op_gas i st = exec_gas i st"
| "exec_fn_call op_push_small i st = exec_push_small i st"
| "exec_fn_call op_push_full i st = exec_push_full i st"
| "exec_fn_call (op_log n) i st = map_option (go_on i) (evm_log n st)"
| "exec_fn_call op_invalid i st = Some (exit_with EVMC_INVALID_INSTRUCTION st)"
| "exec_fn_call (op_return s) i st = exec_return s st"
| "exec_fn_call (op_call k static) i st = with_exact_gas (evm_call k static) i st"
| "exec_fn_call (op_create k) i st = with_exact_gas (evm_create k) i st"
| "exec_fn_call op_undefined i st = Some (exit_with EVMC_UNDEFINED_INSTRUCTION st)"
| "exec_fn_call op_selfdestruct i st = map_option (\<lambda>(s, st). exit_with s st) (evm_selfdestruct st)"
| "exec_fn_call opx_beginblock i st = exec_beginblock i st"

section \<open>The loop\<close>

text \<open>\<^verbatim>\<open>instr = instr->fn(instr, *state)\<close>\<close>

definition exec_instr :: "nat \<Rightarrow> 'h execution_state \<Rightarrow> 'h step_result option" where
  "exec_instr i st =
    (if i < length (instrs (analysis st)) then exec_fn_call (instr_fn (instrs (analysis st) ! i)) i st else None)"

datatype 'a outcome = Out_of_fuel | Fault | Finished 'a

fun run :: "nat \<Rightarrow> nat option \<Rightarrow> 'h execution_state \<Rightarrow> 'h execution_state outcome" where
  "run fuel None st = Finished st"
| "run 0 (Some i) st = Out_of_fuel"
| "run (Suc fuel) (Some i) st =
    (case exec_instr i st of None \<Rightarrow> Fault | Some (p, st) \<Rightarrow> run fuel p st)"

definition empty_tx_context :: evmc_tx_context where
  "empty_tx_context = \<lparr>tx_gas_price = replicate 32 0, tx_origin = replicate 20 0, block_coinbase = replicate 20 0,
    block_number = 0, block_timestamp = 0, block_gas_limit = 0, block_difficulty = replicate 32 0,
    chain_id = replicate 32 0\<rparr>"

definition initial_state ::
  "'h evmc_host_interface \<Rightarrow> 'h \<Rightarrow> evmc_revision \<Rightarrow> evmc_message \<Rightarrow> bytes \<Rightarrow> 'h execution_state" where
  "initial_state hi ctx r m code_bytes =
    \<lparr>gas_left = gas m, stack = [], memory = [], msg = m,
     host = \<lparr>interface = hi, context_state = ctx, tx_context = empty_tx_context\<rparr>,
     revision = r, return_data = [], code = code_bytes, status = EVMC_SUCCESS,
     output_offset = 0, output_size = 0, current_block_cost = 0, analysis = analyze r code_bytes\<rparr>"

definition make_result :: "'h execution_state \<Rightarrow> evmc_result option" where
  "make_result st = do {
    output \<leftarrow> memory_read (memory st) (output_offset st) (output_size st);
    Some \<lparr>status_code = status st,
      result_gas_left = (if status st = EVMC_SUCCESS \<or> status st = EVMC_REVERT then gas_left st else 0),
      output_data = output, create_address = replicate 20 0\<rparr> }"

text \<open>The result and the state of the host after the execution.\<close>

definition execute ::
  "nat \<Rightarrow> 'h evmc_host_interface \<Rightarrow> 'h \<Rightarrow> evmc_revision \<Rightarrow> evmc_message \<Rightarrow> bytes \<Rightarrow> (evmc_result \<times> 'h) outcome" where
  "execute fuel hi ctx r m code_bytes =
    (case run fuel (Some 0) (initial_state hi ctx r m code_bytes) of
       Out_of_fuel \<Rightarrow> Out_of_fuel
     | Fault \<Rightarrow> Fault
     | Finished st \<Rightarrow>
         (case make_result st of
            None \<Rightarrow> Fault
          | Some res \<Rightarrow> Finished (res, context_state (host st))))"

end
