(* ===== verification/EvmEffects.thy ===== *)
theory EvmEffects
  imports EvmExecution
begin

text \<open>
  What one instruction does to the machine, whatever its operands: when the stack holds the
  items the instruction needs and has room for what it pushes, nothing outside the stack or the
  memory is touched; the height changes by the number in the table; the memory keeps a whole
  number of words and never shrinks; and gas is only spent. Gas and memory are weighed
  together: the potential is the gas that is left plus the price of the memory.
\<close>

section \<open>Results that exist\<close>

definition ok :: "('a \<Rightarrow> bool) \<Rightarrow> 'a option \<Rightarrow> bool" where
  "ok Q r = (case r of None \<Rightarrow> False | Some x \<Rightarrow> Q x)"

lemma ok_simps [simp]:
  "ok Q (Some x) = Q x" "\<not> ok Q None" "ok Q (r \<bind> f) = ok (\<lambda>x. ok Q (f x)) r"
  "ok Q (map_option g r) = ok (\<lambda>x. Q (g x)) r"
  by (simp_all add: ok_def split: option.splits Option.bind_splits)

lemma ok_mono: "ok P r \<Longrightarrow> (\<And>x. P x \<Longrightarrow> Q x) \<Longrightarrow> ok Q r"
  by (auto simp: ok_def split: option.splits)

lemma ok_some: "ok Q r \<Longrightarrow> \<exists>x. r = Some x \<and> Q x"
  by (auto simp: ok_def split: option.splits)

lemma at_least:
  "Suc n \<le> length xs \<longleftrightarrow> (\<exists>x ys. xs = x # ys \<and> n \<le> length ys)"
  by (cases xs) auto

lemma at_least_num:
  "2 \<le> length xs \<longleftrightarrow> (\<exists>a b ys. xs = a # b # ys)"
  "3 \<le> length xs \<longleftrightarrow> (\<exists>a b c ys. xs = a # b # c # ys)"
  "4 \<le> length xs \<longleftrightarrow> (\<exists>a b c d ys. xs = a # b # c # d # ys)"
  "5 \<le> length xs \<longleftrightarrow> (\<exists>a b c d e ys. xs = a # b # c # d # e # ys)"
  "6 \<le> length xs \<longleftrightarrow> (\<exists>a b c d e f ys. xs = a # b # c # d # e # f # ys)"
  "7 \<le> length xs \<longleftrightarrow> (\<exists>a b c d e f g ys. xs = a # b # c # d # e # f # g # ys)"
  by (auto simp: numeral_eq_Suc at_least)

section \<open>Stack instructions\<close>

lemma stack_fn_effect:
  assumes "stack_fn_req f \<le> length s" "int (length s) + stack_fn_change f \<le> int stack_limit"
  shows "ok (\<lambda>s'. int (length s') = int (length s) + stack_fn_change f) (exec_stack_fn f s)"
  using assms
  by (cases f)
    (auto simp: at_least at_least_num arith_eval compare_eval signextend_eval sar_eval dup_eval swap_eval
      simp del: length_greater_0_conv)

lemma stack_fn_short: "length s < stack_fn_req f \<Longrightarrow> exec_stack_fn f s = None"
  by (cases f) (auto simp: arith_short compare_short dup_eval swap_eval)

section \<open>Gas and memory\<close>

definition memory_price :: "nat \<Rightarrow> int" where
  "memory_price n = (let w = int (n div 32) in 3 * w + w * w div 512)"

definition whole_words :: "bytes \<Rightarrow> bool" where
  "whole_words m \<longleftrightarrow> 32 dvd length m"

definition expand_memory :: "int \<Rightarrow> bytes \<Rightarrow> uint256 \<Rightarrow> nat \<Rightarrow> bool \<times> int \<times> bytes" where
  "expand_memory g m offset sz =
    (if max_buffer_size < offset then (False, g, m)
     else
       let new_size = to_size offset + sz
       in if length m < new_size
          then
            let new_length = (new_size + 31) div 32 * 32;
              g = g - (memory_price new_length - memory_price (length m))
            in if g < 0 then (False, g, m) else (True, g, memory_resize m new_length)
          else (True, g, m))"

lemma length_memory_resize [simp]: "length (memory_resize m n) = n"
  by (simp add: memory_resize_def)

lemma update_same [simp]: "st\<lparr>gas_left := gas_left st, memory := memory st\<rparr> = st"
  by (cases st) simp

lemma check_memory64_eq:
  "check_memory64 st offset sz =
    (let (b, g, m) = expand_memory (gas_left st) (memory st) offset sz
     in (b, st\<lparr>gas_left := g, memory := m\<rparr>))"
proof -
  have w: "num_words n = int ((n + 31) div 32)" for n by (simp add: num_words_def word_size_def zdiv_int)
  have r: "nat (int k * 32) = k * 32" for k by (simp add: nat_mult_distrib)
  show ?thesis
    by (simp add: check_memory64_def expand_memory_def memory_price_def Let_def w r word_size_def)
qed

lemma memory_price_mono: "m \<le> n \<Longrightarrow> memory_price m \<le> memory_price n"
proof -
  assume "m \<le> n"
  then have "int (m div 32) \<le> int (n div 32)" by (simp add: div_le_mono)
  then show ?thesis unfolding memory_price_def Let_def
    by (intro add_mono zdiv_mono1 mult_mono) simp_all
qed

lemma memory_price_nonneg: "0 \<le> memory_price n"
  using memory_price_mono [of 0 n] by (simp add: memory_price_def)

lemma round_up: "n \<le> (n + 31) div 32 * 32" for n :: nat
  by linarith

lemma expand_memory_facts:
  assumes "expand_memory g m offset sz = (b, g', m')" "whole_words m"
  shows "whole_words m'" "length m \<le> length m'" "g' + memory_price (length m') \<le> g + memory_price (length m)"
    "b \<Longrightarrow> 0 \<le> g \<Longrightarrow> 0 \<le> g'" "b \<Longrightarrow> to_size offset + sz \<le> length m'"
proof -
  define n where "n = (to_size offset + sz + 31) div 32 * 32"
  have n: "to_size offset + sz \<le> n" unfolding n_def by (rule round_up)
  have "32 dvd n" unfolding n_def by simp
  then show "whole_words m'" "length m \<le> length m'" "b \<Longrightarrow> to_size offset + sz \<le> length m'"
    "g' + memory_price (length m') \<le> g + memory_price (length m)" "b \<Longrightarrow> 0 \<le> g \<Longrightarrow> 0 \<le> g'"
    using assms n memory_price_mono [of "length m" n]
    unfolding expand_memory_def whole_words_def Let_def n_def [symmetric]
    by (auto split: if_splits)
qed

definition expand_range :: "int \<Rightarrow> bytes \<Rightarrow> uint256 \<Rightarrow> uint256 \<Rightarrow> bool \<times> int \<times> bytes" where
  "expand_range g m offset sz =
    (if sz = 0 then (True, g, m)
     else if max_buffer_size < sz then (False, g, m)
     else expand_memory g m offset (to_size sz))"

lemma check_memory_eq:
  "check_memory st offset sz =
    (let (b, g, m) = expand_range (gas_left st) (memory st) offset sz
     in (b, st\<lparr>gas_left := g, memory := m\<rparr>))"
  by (simp add: check_memory_def expand_range_def check_memory64_eq)

lemma to_size_0 [simp]: "to_size 0 = 0"
  by (simp add: to_size_def)

lemma expand_range_facts:
  assumes "expand_range g m offset sz = (b, g', m')" "whole_words m"
  shows "whole_words m'" "length m \<le> length m'" "g' + memory_price (length m') \<le> g + memory_price (length m)"
    "b \<Longrightarrow> 0 \<le> g \<Longrightarrow> 0 \<le> g'" "b \<Longrightarrow> to_size sz = 0 \<or> to_size offset + to_size sz \<le> length m'"
  using assms expand_memory_facts [of g m offset "to_size sz" b g' m']
  by (auto simp: expand_range_def split: if_splits)

lemma ok_memory_read [simp]:
  "ok Q (memory_read m i n) \<longleftrightarrow>
    (if n = 0 then Q [] else i + n \<le> length m \<and> Q (take n (drop i m)))"
  by (simp add: memory_read_def)

lemma ok_memory_write [simp]:
  "ok Q (memory_write m i bs) \<longleftrightarrow>
    (if bs = [] then Q m else i + length bs \<le> length m \<and> Q (take i m @ bs @ drop (i + length bs) m))"
  by (simp add: memory_write_def)

text \<open>The number of words as a natural number, for the linear arithmetic.\<close>

definition word_count :: "nat \<Rightarrow> nat" where
  "word_count n = (n + 31) div 32"

lemma num_words_count: "num_words n = int (word_count n)"
  by (simp add: num_words_def word_size_def word_count_def zdiv_int)

text \<open>Both expansions at once, as one fact for the automation.\<close>

lemma expanded:
  "expand_memory g m offset n = (b, g', m') \<Longrightarrow> whole_words m \<Longrightarrow>
    whole_words m' \<and> length m \<le> length m' \<and> g' + memory_price (length m') \<le> g + memory_price (length m) \<and>
    (b \<and> 0 \<le> g \<longrightarrow> 0 \<le> g') \<and> (b \<longrightarrow> to_size offset + n \<le> length m')"
  "expand_range g m offset sz = (b, g', m') \<Longrightarrow> whole_words m \<Longrightarrow>
    whole_words m' \<and> length m \<le> length m' \<and> g' + memory_price (length m') \<le> g + memory_price (length m) \<and>
    (b \<and> 0 \<le> g \<longrightarrow> 0 \<le> g') \<and> (b \<longrightarrow> to_size sz = 0 \<or> to_size offset + to_size sz \<le> length m')"
  using expand_memory_facts [of g m offset n b g' m'] expand_range_facts [of g m offset sz b g' m'] by simp_all

section \<open>The contract of an instruction\<close>

text \<open>What the host promises: it returns no more gas than it was given, and fills no more than the buffer.\<close>

definition fair_host :: "'h evmc_host_interface \<Rightarrow> bool" where
  "fair_host hi \<longleftrightarrow>
    (\<forall>h m. 0 \<le> gas m \<longrightarrow> 0 \<le> result_gas_left (fst (host_call hi h m)) \<and> result_gas_left (fst (host_call hi h m)) \<le> gas m) \<and>
    (\<forall>h a off sz. length (host_copy_code hi h a off sz) \<le> sz)"

text \<open>A host that leaves its state alone in a static call.\<close>

definition static_host :: "'h evmc_host_interface \<Rightarrow> bool" where
  "static_host hi \<longleftrightarrow> (\<forall>h m. flags m AND EVMC_STATIC \<noteq> 0 \<longrightarrow> snd (host_call hi h m) = h)"

definition potential :: "('h, 'z) ExecutionState_scheme \<Rightarrow> int" where
  "potential st = gas_left st + memory_price (length (memory st))"

definition same_call :: "('h, 'z) ExecutionState_scheme \<Rightarrow> ('h, 'z) ExecutionState_scheme \<Rightarrow> bool" where
  "same_call st st' \<longleftrightarrow>
    msg st' = msg st \<and> revision st' = revision st \<and> code st' = code st \<and> interface (host st') = interface (host st) \<and>
    status st' = status st \<and> output_offset st' = output_offset st \<and> output_size st' = output_size st \<and>
    ExecutionState.more st' = ExecutionState.more st \<and>
    (static_host (interface (host st)) \<and> is_static st \<longrightarrow> context_state (host st') = context_state (host st))"

definition effect ::
  "int \<Rightarrow> ('h, 'z) ExecutionState_scheme \<Rightarrow> evmc_status_code \<times> ('h, 'z) ExecutionState_scheme \<Rightarrow> bool" where
  "effect d st r \<longleftrightarrow>
    (let (s, st') = r in
      same_call st st' \<and> whole_words (memory st') \<and> length (memory st) \<le> length (memory st') \<and>
      potential st' \<le> potential st \<and> s \<noteq> EVMC_REVERT \<and>
      (s = EVMC_SUCCESS \<longrightarrow> 0 \<le> gas_left st' \<and> int (length (stack st')) = int (length (stack st)) + d))"

definition runnable :: "nat \<Rightarrow> int \<Rightarrow> ('h, 'z) ExecutionState_scheme \<Rightarrow> bool" where
  "runnable req d st \<longleftrightarrow>
    req \<le> length (stack st) \<and> int (length (stack st)) + d \<le> int stack_limit \<and> 0 \<le> gas_left st \<and>
    whole_words (memory st) \<and> fair_host (interface (host st))"

lemma st_access [simp]:
  "stack st = x # s \<Longrightarrow> st_pop st = Some (x, st\<lparr>stack := s\<rparr>)"
  "stack st = x # s \<Longrightarrow> st_top st = Some x"
  "stack st = x # s \<Longrightarrow> st_set_top st y = Some (st\<lparr>stack := y # s\<rparr>)"
  "length (stack st) < stack_limit \<Longrightarrow> st_push st y = Some (st\<lparr>stack := y # stack st\<rparr>)"
  by (simp_all add: st_pop_def st_top_def st_set_top_def st_push_def stack_push_def)

lemma ok_st_write:
  assumes "bs \<noteq> [] \<Longrightarrow> i + length bs \<le> length (memory st)"
    and "\<And>m. length m = length (memory st) \<Longrightarrow> Q (st\<lparr>memory := m\<rparr>)"
  shows "ok Q (st_write st i bs)"
proof (cases "bs = []")
  case True
  then show ?thesis using assms(2) [of "memory st"] by (simp add: st_write_def memory_write_def)
next
  case False
  then show ?thesis using assms(1) assms(2) [of "take i (memory st) @ bs @ drop (i + length bs) (memory st)"]
    by (simp add: st_write_def memory_write_def)
qed

lemmas contract_defs = runnable_def effect_def same_call_def potential_def charge_def is_static_def Let_def

lemma update_memory_same [simp]: "st\<lparr>memory := memory st\<rparr> = st"
  by (cases st) simp

section \<open>Instructions on the state\<close>

lemma with_tx_context_eq:
  "\<exists>tx. with_tx_context st = (tx, st\<lparr>host := (host st)\<lparr>tx_context := tx\<rparr>\<rparr>)"
proof -
  have "(host st)\<lparr>tx_context := tx_context (host st)\<rparr> = host st" by simp
  then show ?thesis by (auto simp: with_tx_context_def get_tx_context_def Let_def)
qed

lemmas state_fn_defs =
  evm_address_def evm_balance_def evm_origin_def evm_caller_def evm_callvalue_def evm_calldataload_def
  evm_calldatasize_def evm_codesize_def evm_gasprice_def evm_extcodesize_def evm_returndatasize_def
  evm_extcodehash_def evm_blockhash_def evm_coinbase_def evm_timestamp_def evm_number_def evm_difficulty_def
  evm_gaslimit_def evm_chainid_def evm_selfbalance_def evm_sload_def evm_msize_def

lemma state_fn_effect:
  assumes "runnable (fn_req (op_state f)) (fn_change (op_state f)) st"
  shows "ok (\<lambda>st'. effect (fn_change (op_state f)) st (EVMC_SUCCESS, st')) (exec_state_fn f st)"
proof -
  obtain tx where tx: "with_tx_context st = (tx, st\<lparr>host := (host st)\<lparr>tx_context := tx\<rparr>\<rparr>)"
    using with_tx_context_eq by blast
  show ?thesis
    using assms
    by (cases f) (auto simp: contract_defs replaces_top_def state_fn_defs at_least tx split: if_splits)
qed

section \<open>Instructions with a status\<close>

lemmas expand_eqs = check_memory_eq check_memory64_eq

lemma exp_effect:
  assumes "runnable 2 (- 1) st"
  shows "ok (effect (- 1) st) (evm_exp st)"
  using assms
  by (auto simp: contract_defs evm_exp_def at_least_num split: if_splits)

lemma sha3_effect:
  assumes "runnable 2 (- 1) st"
  shows "ok (effect (- 1) st) (evm_sha3 st)"
  using assms
  by (auto simp: contract_defs evm_sha3_def at_least_num expand_eqs num_words_count split: prod.splits if_splits
      dest!: expanded)

lemma whole_words_length: "length m = length m' \<Longrightarrow> whole_words m \<longleftrightarrow> whole_words m'"
  by (simp add: whole_words_def)

text \<open>Two adjacent writes that fill a checked range.\<close>

lemma ok_fill:
  assumes "length d = n" "n \<le> k" "k = 0 \<or> dst + k \<le> length (memory st)"
    and Q: "\<And>m. length m = length (memory st) \<Longrightarrow> Q (st\<lparr>memory := m\<rparr>)"
  shows "ok (\<lambda>st. ok Q (if 0 < k - n then st_write st (dst + n) (replicate (k - n) 0) else Some st))
    (if 0 < n then st_write st dst d else Some st)"
proof -
  have Q0: "Q st" using Q [of "memory st"] by simp
  show ?thesis
    using assms(1-3) by (auto intro!: ok_st_write Q simp: Q0)
qed

lemma copy_effect:
  assumes "runnable 3 (- 3) st"
  shows "ok (effect (- 3) st) (copy_padded source st)"
proof -
  obtain x y z s where st: "stack st = x # y # z # s"
    using assms by (auto simp: runnable_def at_least_num)
  obtain b g m where e: "expand_range (gas_left st) (memory st) x z = (b, g, m)" by (metis prod_cases3)
  have w: "whole_words (memory st)" using assms by (simp add: runnable_def)
  show ?thesis
    using assms expanded(2) [OF e w]
    by (auto simp: copy_padded_def contract_defs st e expand_eqs num_words_count split: if_split
       intro!: ok_fill ok_st_write dest: whole_words_length)
qed

lemma extcodecopy_effect:
  assumes "runnable 4 (- 4) st"
  shows "ok (effect (- 4) st) (evm_extcodecopy st)"
proof -
  obtain a x y z s where st: "stack st = a # x # y # z # s"
    using assms by (auto simp: runnable_def at_least_num)
  obtain b g m where e: "expand_range (gas_left st) (memory st) x z = (b, g, m)" by (metis prod_cases3)
  have w: "whole_words (memory st)" using assms by (simp add: runnable_def)
  define d where "d = copy_code (host st) (be_trunc a) (if max_buffer_size < y then to_size max_buffer_size else to_size y) (to_size z)"
  have d: "length d \<le> to_size z" using assms by (simp add: d_def runnable_def fair_host_def copy_code_def)
  then show ?thesis
    using assms expanded(2) [OF e w]
    by (auto simp: evm_extcodecopy_def contract_defs st e expand_eqs num_words_count d_def [symmetric] split: if_split
       intro!: ok_st_write dest: whole_words_length)
qed

lemma returndatacopy_effect:
  assumes "runnable 3 (- 3) st"
  shows "ok (effect (- 3) st) (evm_returndatacopy st)"
proof -
  obtain x y z s where st: "stack st = x # y # z # s"
    using assms by (auto simp: runnable_def at_least_num)
  obtain b g m where e: "expand_range (gas_left st) (memory st) x z = (b, g, m)" by (metis prod_cases3)
  have w: "whole_words (memory st)" using assms by (simp add: runnable_def)
  show ?thesis
    using assms expanded(2) [OF e w]
    by (auto simp: evm_returndatacopy_def contract_defs st e expand_eqs num_words_count split: if_split
       intro!: ok_st_write dest: whole_words_length)
qed

lemma mload_effect:
  assumes "runnable 1 0 st"
  shows "ok (effect 0 st) (evm_mload st)"
  using assms
  by (auto simp: evm_mload_def contract_defs at_least expand_eqs split: prod.splits dest!: expanded)

lemma mstore_effect:
  assumes "runnable 2 (- 2) st"
  shows "ok (effect (- 2) st) (evm_mstore st)"
proof -
  obtain x y s where st: "stack st = x # y # s"
    using assms by (auto simp: runnable_def at_least_num)
  obtain b g m where e: "expand_memory (gas_left st) (memory st) x 32 = (b, g, m)" by (metis prod_cases3)
  have w: "whole_words (memory st)" using assms by (simp add: runnable_def)
  show ?thesis
    using assms expanded(1) [OF e w]
    by (auto simp: evm_mstore_def contract_defs st e expand_eqs be_store_def
       intro!: ok_st_write dest: whole_words_length)
qed

lemma mstore8_effect:
  assumes "runnable 2 (- 2) st"
  shows "ok (effect (- 2) st) (evm_mstore8 st)"
proof -
  obtain x y s where st: "stack st = x # y # s"
    using assms by (auto simp: runnable_def at_least_num)
  obtain b g m where e: "expand_memory (gas_left st) (memory st) x 1 = (b, g, m)" by (metis prod_cases3)
  have w: "whole_words (memory st)" using assms by (simp add: runnable_def)
  show ?thesis
    using assms expanded(1) [OF e w]
    by (auto simp: evm_mstore8_def contract_defs st e [simplified] expand_eqs
       intro!: ok_st_write dest: whole_words_length)
qed

lemma status_fn_effect:
  assumes "runnable (fn_req (op_status f)) (fn_change (op_status f)) st"
  shows "ok (effect (fn_change (op_status f)) st) (exec_status_fn f st)"
  using assms
  by (cases f) (simp_all add: exp_effect sha3_effect copy_effect extcodecopy_effect returndatacopy_effect
      mload_effect mstore_effect mstore8_effect evm_calldatacopy_def evm_codecopy_def)

lemma sstore_cost_nonneg: "0 \<le> sstore_cost r s"
  by (cases s) (simp_all add: sstore_cost_def)

lemma sstore_effect:
  assumes "runnable 2 (- 2) st"
  shows "ok (effect (- 2) st) (evm_sstore st)"
  using assms sstore_cost_nonneg
  by (auto simp: evm_sstore_def contract_defs at_least_num set_storage_def map_prod_def split: prod.splits
      intro: add_increasing)

lemma pop_topics_eval:
  "n \<le> length (stack st) \<Longrightarrow>
    pop_topics n st = Some (map be_store (take n (stack st)), st\<lparr>stack := drop n (stack st)\<rparr>)"
proof (induction n arbitrary: st)
  case (Suc n)
  then obtain x s where "stack st = x # s" "n \<le> length s" by (auto simp: at_least)
  then show ?case using Suc.IH [of "st\<lparr>stack := s\<rparr>"] by simp
qed simp

lemma log_effect:
  assumes "runnable (n + 2) (- int (n + 2)) st"
  shows "ok (effect (- int (n + 2)) st) (evm_log n st)"
proof -
  obtain x y s where st: "stack st = x # y # s" and n: "n \<le> length s"
    using assms by (auto simp: runnable_def at_least)
  obtain b g m where e: "expand_range (gas_left st) (memory st) x y = (b, g, m)" by (metis prod_cases3)
  have w: "whole_words (memory st)" using assms by (simp add: runnable_def)
  show ?thesis
    using assms n expanded(2) [OF e w]
    by (auto simp: evm_log_def contract_defs st e expand_eqs pop_topics_eval emit_log_def)
qed

lemma selfdestruct_effect:
  assumes "runnable 1 0 st"
  shows "ok (effect 0 st) (evm_selfdestruct st)"
  using assms
  by (auto simp: evm_selfdestruct_def contract_defs at_least host_ctx_selfdestruct_def)

section \<open>Calls\<close>

lemma host_ctx_call_eq:
  "host_ctx_call hc m =
    (fst (host_call (interface hc) (context_state hc) m), hc\<lparr>context_state := snd (host_call (interface hc) (context_state hc) m)\<rparr>)"
  by (simp add: host_ctx_call_def map_prod_def split: prod.split)

lemma fair_call:
  "fair_host hi \<Longrightarrow> 0 \<le> gas m \<Longrightarrow> fst (host_call hi h m) = r \<Longrightarrow> 0 \<le> result_gas_left r \<and> result_gas_left r \<le> gas m"
  by (auto simp: fair_host_def)

lemma ok_call_host:
  assumes st: "stack st = x # s" and w: "whole_words (memory st)" and f: "fair_host (interface (host st))"
    and g: "0 \<le> gas m" "gas m \<le> gas_left st"
    and r: "to_size out_size = 0 \<or> to_size out_offset + to_size out_size \<le> length (memory st)"
    and static: "is_static st \<Longrightarrow> flags m AND EVMC_STATIC \<noteq> 0"
    and Q: "\<And>st'. same_call st st' \<Longrightarrow> length (memory st') = length (memory st) \<Longrightarrow> gas_left st' \<le> gas_left st \<Longrightarrow>
      0 \<le> gas_left st' \<Longrightarrow> length (stack st') = length (stack st) \<Longrightarrow> Q (EVMC_SUCCESS, st')"
  shows "ok Q (call_host m out_offset out_size st)"
proof -
  define res where "res = fst (host_call (interface (host st)) (context_state (host st)) m)"
  have fair: "0 \<le> result_gas_left res" "result_gas_left res \<le> gas m" using fair_call [OF f g(1)] unfolding res_def by blast+
  have "is_static st \<and> static_host (interface (host st)) \<longrightarrow>
      snd (host_call (interface (host st)) (context_state (host st)) m) = context_state (host st)"
    using static by (auto simp: static_host_def)
  then show ?thesis
    using g r fair
    by (auto simp: call_host_def host_ctx_call_eq st res_def [symmetric] Let_def same_call_def is_static_def
        intro!: ok_st_write Q)
qed

lemma gas_limit_value:
  assumes "g < word_of_int int64_max"
  shows "0 \<le> sint (ucast (g :: uint256) :: u64)"
proof -
  have "uint g < 2 ^ 63" using assms by (simp add: word_less_def int64_max_def)
  moreover have "sint (ucast g :: u64) = signed_take_bit 63 (uint g)"
    by (simp add: sint_uint unsigned_ucast_eq signed_take_bit_take_bit)
  ultimately show ?thesis using signed_take_bit_int_eq_self [of 63 "uint g"] uint_nonnegative [of g] by linarith
qed

lemma call_gas_bound:
  "call_gas r g left = Some k \<Longrightarrow> 0 \<le> left \<Longrightarrow> 0 \<le> k \<and> k \<le> left"
  using gas_limit_value [of g]
  by (auto simp: call_gas_def Let_def min_def pos_imp_zdiv_nonneg_iff int64_max_def split: if_splits)

definition call_cost :: "evmc_call_kind \<Rightarrow> uint256 \<Rightarrow> evmc_address \<Rightarrow> ('h, 'z) ExecutionState_scheme \<Rightarrow> int" where
  "call_cost k val dst st =
    (if val \<noteq> 0 then 9000 else 0) +
    (if k = EVMC_CALL \<and> (val \<noteq> 0 \<or> revision st < EVMC_SPURIOUS_DRAGON) \<and> \<not> account_exists (host st) dst then 25000 else 0)"

definition stipend :: "uint256 \<Rightarrow> int" where
  "stipend val = (if val \<noteq> 0 then 2300 else 0)"

text \<open>The state and the message of the call once the gas is settled.\<close>

definition call_ready :: "int \<Rightarrow> ('h, 'z) ExecutionState_scheme \<Rightarrow> ('h, 'z) ExecutionState_scheme" where
  "call_ready c st = st\<lparr>gas_left := gas_left st - c, return_data := []\<rparr>"

lemma call_with_eq:
  "call_with k m gas_limit val out_offset out_size st =
    (let cost = call_cost k val (destination m) st
     in if k = EVMC_CALL \<and> val \<noteq> 0 \<and> is_static st then Some (EVMC_STATIC_MODE_VIOLATION, st)
        else if gas_left st < cost then Some (EVMC_OUT_OF_GAS, st\<lparr>gas_left := gas_left st - cost\<rparr>)
        else (case call_gas (revision st) gas_limit (gas_left st - cost) of
            None \<Rightarrow> Some (EVMC_OUT_OF_GAS, st\<lparr>gas_left := gas_left st - cost\<rparr>)
          | Some g \<Rightarrow>
              let st' = call_ready (cost - stipend val) st
              in if 1024 \<le> depth (msg st) then Some (EVMC_SUCCESS, st')
                 else if val \<noteq> 0 \<and> be_load (get_balance (host st) (destination (msg st))) < val
                   then Some (EVMC_SUCCESS, st')
                 else call_host (m\<lparr>gas := g + stipend val\<rparr>) out_offset out_size st'))"
proof -
  have z: "m\<lparr>gas := g + stipend val\<rparr> = m\<lparr>gas := (if val \<noteq> 0 then g + 2300 else g)\<rparr>" for g
    by (simp add: stipend_def)
  have c: "(if k = EVMC_CALL \<and> (val \<noteq> 0 \<or> revision st < EVMC_SPURIOUS_DRAGON) \<and> \<not> account_exists (host st) (destination m)
      then (if val \<noteq> 0 then 9000 else 0) + 25000 else if val \<noteq> 0 then 9000 else 0) = call_cost k val (destination m) st"
    by (simp add: call_cost_def)
  show ?thesis unfolding z call_with_def Let_def c charge_def
    by (cases "val = 0") (auto simp: call_ready_def stipend_def algebra_simps split: option.split)
qed

lemma call_cost_stipend: "0 \<le> stipend val" "stipend val \<le> call_cost k val dst st"
  by (simp_all add: stipend_def call_cost_def)

lemma effect_within:
  assumes "effect 0 st1 r" "same_call st st1" "length (memory st) \<le> length (memory st1)"
    "potential st1 \<le> potential st" "int (length (stack st1)) = int (length (stack st)) + d"
  shows "effect d st r"
  using assms by (auto simp: effect_def same_call_def is_static_def Let_def split: prod.splits)

lemma call_ready_effect:
  assumes "0 \<le> c" "c \<le> gas_left st" "whole_words (memory st)"
  shows "effect 0 st (EVMC_SUCCESS, call_ready c st)"
  using assms by (simp add: contract_defs call_ready_def)

lemma call_with_effect:
  assumes st: "stack st = x # s" and w: "whole_words (memory st)" and f: "fair_host (interface (host st))"
    and g: "0 \<le> gas_left st"
    and r: "to_size out_size = 0 \<or> to_size out_offset + to_size out_size \<le> length (memory st)"
    and static: "is_static st \<Longrightarrow> flags m AND EVMC_STATIC \<noteq> 0"
  shows "ok (effect 0 st) (call_with k m gas_limit val out_offset out_size st)"
proof -
  define cost where "cost = call_cost k val (destination m) st"
  have cost: "0 \<le> stipend val" "stipend val \<le> cost" using call_cost_stipend unfolding cost_def by blast+
  define st' where "st' = call_ready (cost - stipend val) st"
  have fail: "effect 0 st (EVMC_STATIC_MODE_VIOLATION, st)" "effect 0 st (EVMC_OUT_OF_GAS, st\<lparr>gas_left := gas_left st - cost\<rparr>)"
    using w cost by (simp_all add: contract_defs)
  have host: "ok (effect 0 st) (call_host (m\<lparr>gas := l + stipend val\<rparr>) out_offset out_size st')"
    if "cost \<le> gas_left st" "0 \<le> l" "l \<le> gas_left st - cost" for l
  proof (rule ok_call_host)
    show "stack st' = x # s" "whole_words (memory st')" "fair_host (interface (host st'))"
      "0 \<le> gas (m\<lparr>gas := l + stipend val\<rparr>)" "gas (m\<lparr>gas := l + stipend val\<rparr>) \<le> gas_left st'"
      "to_size out_size = 0 \<or> to_size out_offset + to_size out_size \<le> length (memory st')"
      using st w f r that cost by (simp_all add: st'_def call_ready_def)
    show "flags (m\<lparr>gas := l + stipend val\<rparr>) AND EVMC_STATIC \<noteq> 0" if "is_static st'"
      using static that by (simp add: st'_def call_ready_def is_static_def)
    fix st2 assume "same_call st' st2" "length (memory st2) = length (memory st')" "gas_left st2 \<le> gas_left st'"
      "0 \<le> gas_left st2" "length (stack st2) = length (stack st')"
    then show "effect 0 st (EVMC_SUCCESS, st2)"
      using w cost by (auto simp: st'_def call_ready_def contract_defs dest: whole_words_length)
  qed
  have "effect 0 st (EVMC_SUCCESS, st')" if "cost \<le> gas_left st"
    unfolding st'_def using cost that w by (intro call_ready_effect) auto
  then show ?thesis
    using fail host call_gas_bound [of "revision st" gas_limit "gas_left st - cost"]
    unfolding call_with_eq cost_def [symmetric] st'_def [symmetric] Let_def
    by (auto split: option.split)
qed

lemma call_effect:
  assumes "runnable (fn_req (op_call k static)) (fn_change (op_call k static)) st"
  shows "ok (effect (fn_change (op_call k static)) st) (evm_call k static st)"
proof -
  define v where "v = (static \<or> k = EVMC_DELEGATECALL)"
  obtain a b c x y z u s where st: "stack st = (if v then a # b # x # y # z # u # s else a # b # c # x # y # z # u # s)"
    using assms by (auto simp: runnable_def at_least_num v_def split: if_splits)
  obtain b1 g1 m1 where e1: "expand_range (gas_left st) (memory st) x y = (b1, g1, m1)" by (metis prod_cases3)
  obtain b2 g2 m2 where e2: "expand_range g1 m1 z u = (b2, g2, m2)" by (metis prod_cases3)
  have w: "whole_words (memory st)" using assms by (simp add: runnable_def)
  note f1 = expanded(2) [OF e1 w]
  note f2 = expanded(2) [OF e2 conjunct1 [OF f1]]
  have len: "length s < stack_limit" using assms by (auto simp: runnable_def st v_def split: if_splits)
  have d: "int (Suc (length s)) = int (length (stack st)) + fn_change (op_call k static)"
    by (simp add: st v_def)
  define st1 where "st1 = st\<lparr>stack := 0 # s, gas_left := g1, memory := m1\<rparr>"
  define st2 where "st2 = st\<lparr>stack := 0 # s, gas_left := g2, memory := m2\<rparr>"
  have "evm_call k static st =
    (if \<not> b1 then Some (EVMC_OUT_OF_GAS, st1) else if \<not> b2 then Some (EVMC_OUT_OF_GAS, st2)
     else memory_read m2 (to_size x) (to_size y) \<bind> (\<lambda>input.
       call_with k (empty_message\<lparr>kind := k, flags := (if static then EVMC_STATIC else flags (msg st)),
          depth := depth (msg st) + 1, destination := be_trunc b,
          sender := (if k = EVMC_DELEGATECALL then sender (msg st) else destination (msg st)),
          msg_value := (if k = EVMC_DELEGATECALL then msg_value (msg st) else be_store (if v then 0 else c)),
          input_data := input\<rparr>) a (if v then 0 else c) z u st2))"
    using len by (simp add: evm_call_def st v_def [symmetric] e1 e2 expand_eqs st1_def st2_def)
  moreover have "effect (fn_change (op_call k static)) st (EVMC_OUT_OF_GAS, st1)"
    "effect (fn_change (op_call k static)) st (EVMC_OUT_OF_GAS, st2)"
    using f1 f2 by (auto simp: st1_def st2_def contract_defs)
  moreover have "ok (effect (fn_change (op_call k static)) st) (call_with k m a val z u st2)"
    if "b1" "b2" "flags m = (if static then EVMC_STATIC else flags (msg st))" for m val
  proof (rule ok_mono [OF call_with_effect])
    show "stack st2 = 0 # s" "whole_words (memory st2)" "fair_host (interface (host st2))" "0 \<le> gas_left st2"
      "to_size u = 0 \<or> to_size z + to_size u \<le> length (memory st2)"
      using f1 f2 assms that by (auto simp: st2_def runnable_def)
    show "flags m AND EVMC_STATIC \<noteq> 0" if "is_static st2"
      using that \<open>flags m = _\<close> by (simp add: st2_def is_static_def EVMC_STATIC_def)
    show "effect (fn_change (op_call k static)) st r" if "effect 0 st2 r" for r
      using that by (rule effect_within) (use f1 f2 d in \<open>simp_all add: st2_def same_call_def potential_def\<close>)
  qed
  ultimately show ?thesis using f1 f2 by auto
qed

lemma ok_create_host:
  assumes st: "stack st = x # s" and w: "whole_words (memory st)" and f: "fair_host (interface (host st))"
    and g: "0 \<le> gas m" "gas m \<le> gas_left st"
    and static: "\<not> is_static st"
  shows "ok (effect 0 st) (create_host m st)"
proof -
  define res where "res = fst (host_call (interface (host st)) (context_state (host st)) m)"
  have fair: "0 \<le> result_gas_left res" "result_gas_left res \<le> gas m" using fair_call [OF f g(1)] unfolding res_def by blast+
  show ?thesis
    using g w fair static
    by (auto simp: create_host_def host_ctx_call_eq st res_def [symmetric] contract_defs)
qed

lemma update_order: "st\<lparr>gas_left := g, memory := m\<rparr> = st\<lparr>memory := m, gas_left := g\<rparr>"
  by simp

lemma create_effect:
  assumes "runnable (fn_req (op_create k)) (fn_change (op_create k)) st"
  shows "ok (effect (fn_change (op_create k)) st) (evm_create k st)"
proof (cases "is_static st")
  case True
  then show ?thesis using assms by (simp add: evm_create_def contract_defs)
next
  case False
  let ?two = "k = EVMC_CREATE2"
  obtain a x y c s where st: "stack st = (if ?two then a # x # y # c # s else a # x # y # s)"
    using assms by (auto simp: runnable_def at_least_num split: if_splits)
  obtain b g m where e: "expand_range (gas_left st) (memory st) x y = (b, g, m)" by (metis prod_cases3)
  have w: "whole_words (memory st)" using assms by (simp add: runnable_def)
  note f = expanded(2) [OF e w]
  have len: "length s < stack_limit" using assms by (auto simp: runnable_def st split: if_splits)
  have d: "int (Suc (length s)) = int (length (stack st)) + fn_change (op_create k)" by (simp add: st)
  define cost where "cost = (if ?two then num_words (to_size y) * 6 else 0)"
  have cost: "0 \<le> cost" by (simp add: cost_def num_words_count)
  define st1 where "st1 = st\<lparr>stack := if ?two then c # s else s, gas_left := g, memory := m\<rparr>"
  define st2 where "st2 = st\<lparr>stack := s, gas_left := g - cost, memory := m\<rparr>"
  define st3 where "st3 = st\<lparr>memory := m, gas_left := g - cost, stack := 0 # s, return_data := []\<rparr>"
  define l where "l = (if EVMC_TANGERINE_WHISTLE \<le> revision st then g - cost - (g - cost) div 64 else g - cost)"
  have eq: "evm_create k st =
    (if \<not> b then Some (EVMC_OUT_OF_GAS, st1)
     else if ?two \<and> g < cost then Some (EVMC_OUT_OF_GAS, st2)
     else if 1024 \<le> depth (msg st) then Some (EVMC_SUCCESS, st3)
     else if a \<noteq> 0 \<and> be_load (get_balance (host st) (destination (msg st))) < a then Some (EVMC_SUCCESS, st3)
     else memory_read m (to_size x) (to_size y) \<bind> (\<lambda>input.
       create_host (empty_message\<lparr>gas := l, kind := k, input_data := input,
         sender := destination (msg st), depth := depth (msg st) + 1,
         create2_salt := be_store (if ?two then c else 0), msg_value := be_store a\<rparr>) st3))"
    using len False
    by (cases ?two) (simp_all add: evm_create_def st e expand_eqs st1_def st2_def st3_def l_def cost_def charge_def Let_def update_order)
  have out: "effect (fn_change (op_create k)) st (EVMC_OUT_OF_GAS, st1)"
      "effect (fn_change (op_create k)) st (EVMC_OUT_OF_GAS, st2)"
    using f cost by (auto simp: st1_def st2_def contract_defs)
  have ended: "effect (fn_change (op_create k)) st (EVMC_SUCCESS, st3)" if "b" "?two \<Longrightarrow> cost \<le> g"
  proof -
    have "0 \<le> g - cost" using that f assms by (cases ?two) (auto simp: cost_def runnable_def)
    then show ?thesis using f cost d by (simp add: st3_def contract_defs)
  qed
  have host: "ok (effect (fn_change (op_create k)) st) (create_host msg' st3)"
    if "b" "?two \<Longrightarrow> cost \<le> g" "gas msg' = l" for msg'
  proof (rule ok_mono [OF ok_create_host])
    have "0 \<le> g - cost" using that f assms by (cases ?two) (auto simp: cost_def runnable_def)
    then show "0 \<le> gas msg'" "gas msg' \<le> gas_left st3"
      using that(3) zdiv_mono2 [of "g - cost" 1 64] by (simp_all add: st3_def l_def pos_imp_zdiv_nonneg_iff)
    show "stack st3 = 0 # s" "whole_words (memory st3)" "fair_host (interface (host st3))" "\<not> is_static st3"
      using f assms False by (simp_all add: st3_def runnable_def is_static_def)
    show "effect (fn_change (op_create k)) st r" if "effect 0 st3 r" for r
      using that by (rule effect_within) (use f d cost in \<open>simp_all add: st3_def same_call_def potential_def\<close>)
  qed
  show ?thesis unfolding eq using out ended host f by auto
qed

end
