(* ===== verification/EvmBlocks.thy ===== *)
theory EvmBlocks
  imports EvmEffects
begin

text \<open>
  What the tables and the analysis establish. Every entry of every table agrees with its
  function and its opcode. In the list of instructions that the analysis produces, the numbers
  of each \<open>opx_beginblock\<close> are enough for its block: a stack of a height that passes the check
  serves every instruction of the block, and never grows past the limit. Every argument is of
  the kind its function reads, and every jump target is the start of a block.
\<close>

section \<open>The tables\<close>

definition needs_gas_arg :: "exec_fn \<Rightarrow> bool" where
  "needs_gas_arg f \<longleftrightarrow> f = op_gas \<or> f = op_sstore \<or> (\<exists>k static. f = op_call k static) \<or> (\<exists>k. f = op_create k)"

fun return_ok :: "exec_fn \<Rightarrow> bool" where
  "return_ok (op_return c) \<longleftrightarrow> c = EVMC_SUCCESS \<or> c = EVMC_REVERT"
| "return_ok _ \<longleftrightarrow> True"

definition entry_ok :: "u8 \<Rightarrow> op_table_entry \<Rightarrow> bool" where
  "entry_ok op e \<longleftrightarrow>
    op_stack_req e = int (fn_req (op_fn e)) \<and> op_stack_change e = fn_change (op_fn e) \<and>
    0 \<le> op_gas_cost e \<and> op_gas_cost e \<le> 32000 \<and>
    (op_fn e = op_push_small \<longrightarrow> is_small_push op) \<and> (op_fn e = op_push_full \<longrightarrow> is_large_push op) \<and>
    (needs_gas_arg (op_fn e) \<longrightarrow> has_gas_arg op) \<and> (op_fn e = op_pc \<longrightarrow> op = OP_PC) \<and>
    (op_fn e = opx_beginblock \<longrightarrow> op = OP_JUMPDEST) \<and> return_ok (op_fn e)"

lemma needs_gas_arg_simps [simp]:
  "needs_gas_arg (op_call k static)" "needs_gas_arg (op_create k)" "needs_gas_arg op_gas" "needs_gas_arg op_sstore"
  "\<not> needs_gas_arg (op_stack f1)" "\<not> needs_gas_arg (op_state f2)" "\<not> needs_gas_arg (op_status f3)"
  "\<not> needs_gas_arg op_stop" "\<not> needs_gas_arg op_jump" "\<not> needs_gas_arg op_jumpi" "\<not> needs_gas_arg op_pc"
  "\<not> needs_gas_arg op_push_small" "\<not> needs_gas_arg op_push_full" "\<not> needs_gas_arg (op_log n)"
  "\<not> needs_gas_arg op_invalid" "\<not> needs_gas_arg (op_return s)" "\<not> needs_gas_arg op_undefined"
  "\<not> needs_gas_arg op_selfdestruct" "\<not> needs_gas_arg opx_beginblock"
  by (auto simp: needs_gas_arg_def)

lemma assign_all:
  "(\<And>op. entry_ok op (t op)) \<Longrightarrow> list_all (\<lambda>(op, e). entry_ok op e) as \<Longrightarrow> entry_ok op (assign as t op)"
  unfolding assign_def
proof (induction as arbitrary: t)
  case (Cons a as)
  obtain o' e where a: "a = (o', e)" by fastforce
  show ?case using Cons.prems Cons.IH [of "t(o' := e)"] by (simp add: a)
qed simp

lemma set_gas_ok:
  "(\<And>op. entry_ok op (t op)) \<Longrightarrow> 1 \<le> g \<Longrightarrow> g \<le> 32000 \<Longrightarrow> entry_ok op (set_gas o' g t op)"
  by (auto simp: set_gas_def entry_ok_def)

lemmas opcode_class_defs = is_small_push_def is_large_push_def has_gas_arg_def

lemma frontier_start_ok: "list_all (\<lambda>(op, e). entry_ok op e) frontier_start"
  by (simp add: frontier_start_def entry_ok_def opcode_class_defs replaces_top_def)

lemma frontier_end_ok: "list_all (\<lambda>(op, e). entry_ok op e) frontier_end"
  by (simp add: frontier_end_def entry_ok_def opcode_class_defs)

lemma frontier_runs_ok: "list_all (\<lambda>(op, e). entry_ok op e) frontier_runs"
  by (simp add: frontier_runs_def entry_ok_def opcode_class_defs upt_rec)

lemma frontier_ok: "entry_ok op (create_op_table_frontier op)"
  unfolding create_op_table_frontier_def
  by (rule assign_all) (simp_all add: frontier_start_ok frontier_runs_ok frontier_end_ok, simp add: entry_ok_def)

lemma homestead_ok: "entry_ok op (create_op_table_homestead op)"
  unfolding create_op_table_homestead_def
  by (rule assign_all [OF frontier_ok]) (simp add: entry_ok_def opcode_class_defs)

lemma tangerine_whistle_ok: "entry_ok op (create_op_table_tangerine_whistle op)"
  unfolding create_op_table_tangerine_whistle_def
  by (intro set_gas_ok homestead_ok) simp_all

lemma byzantium_ok: "entry_ok op (create_op_table_byzantium op)"
  unfolding create_op_table_byzantium_def
  by (rule assign_all [OF tangerine_whistle_ok]) (simp add: entry_ok_def opcode_class_defs replaces_top_def)

lemma constantinople_ok: "entry_ok op (create_op_table_constantinople op)"
  unfolding create_op_table_constantinople_def
  by (rule assign_all [OF byzantium_ok]) (simp add: entry_ok_def opcode_class_defs replaces_top_def)

lemma istanbul_ok: "entry_ok op (create_op_table_istanbul op)"
  unfolding create_op_table_istanbul_def
  by (rule assign_all [OF constantinople_ok]) (simp add: entry_ok_def opcode_class_defs replaces_top_def)

lemma op_table_ok: "entry_ok op (get_op_table r op)"
  by (cases r) (simp_all add: frontier_ok homestead_ok tangerine_whistle_ok byzantium_ok constantinople_ok istanbul_ok)

text \<open>The two entries the analysis itself uses are the same in every table.\<close>

lemma assign_append: "assign (xs @ ys) t = assign ys (assign xs t)"
  by (simp add: assign_def)

lemma assign_other: "op \<notin> fst ` set as \<Longrightarrow> assign as t op = t op"
  unfolding assign_def by (induction as arbitrary: t) auto

lemma frontier_fixed:
  "create_op_table_frontier OP_JUMPDEST = op_entry opx_beginblock 1 0 0"
  "create_op_table_frontier OP_STOP = op_entry op_stop 0 0 0"
proof -
  have "OP_JUMPDEST \<notin> fst ` set frontier_runs" "OP_STOP \<notin> fst ` set frontier_runs"
    "OP_JUMPDEST \<notin> fst ` set frontier_end" "OP_STOP \<notin> fst ` set frontier_end"
    by (simp_all add: frontier_runs_def frontier_end_def upt_rec image_Un)
  then show "create_op_table_frontier OP_JUMPDEST = op_entry opx_beginblock 1 0 0"
    "create_op_table_frontier OP_STOP = op_entry op_stop 0 0 0"
    unfolding create_op_table_frontier_def
    by (simp_all add: assign_append assign_other) (simp_all add: assign_def frontier_start_def)
qed

lemma op_table_fixed:
  "get_op_table r OP_JUMPDEST = op_entry opx_beginblock 1 0 0"
  "get_op_table r OP_STOP = op_entry op_stop 0 0 0"
  by (cases r; simp add: create_op_table_homestead_def create_op_table_tangerine_whistle_def
      create_op_table_byzantium_def create_op_table_constantinople_def create_op_table_istanbul_def
      assign_other set_gas_def frontier_fixed)+

section \<open>Heights within a block\<close>

lemma fn_change_req: "0 \<le> int (fn_req f) + fn_change f"
proof (cases f)
  case (op_stack g)
  then show ?thesis by (cases g) simp_all
next
  case (op_status g)
  then show ?thesis by (cases g) simp_all
qed simp_all

text \<open>A stack of height \<open>n\<close> serves the functions one after the other.\<close>

fun serves :: "int \<Rightarrow> exec_fn list \<Rightarrow> bool" where
  "serves n [] \<longleftrightarrow> True"
| "serves n (f # fs) \<longleftrightarrow>
    int (fn_req f) \<le> n \<and> n + fn_change f \<le> int stack_limit \<and> serves (n + fn_change f) fs"

lemma serves_append:
  "serves n (fs @ gs) \<longleftrightarrow> serves n fs \<and> serves (n + sum_list (map fn_change fs)) gs"
  by (induction fs arbitrary: n) (simp_all add: add.assoc)

text \<open>What the counters of an open block say about the functions counted so far.\<close>

definition counts :: "block_analysis \<Rightarrow> exec_fn list \<Rightarrow> bool" where
  "counts b fs \<longleftrightarrow>
    block_stack_change b = sum_list (map fn_change fs) \<and>
    0 \<le> block_stack_req b \<and> 0 \<le> block_stack_req b + block_stack_change b \<and>
    0 \<le> block_stack_max_growth b \<and> block_stack_change b \<le> block_stack_max_growth b \<and>
    (\<forall>n. block_stack_req b \<le> n \<and> n + block_stack_max_growth b \<le> int stack_limit \<longrightarrow> serves n fs)"

lemma counts_new [simp]: "counts (new_block k) []"
  by (simp add: counts_def new_block_def)

lemma counts_opcode:
  assumes "counts b fs" "op_stack_req e = int (fn_req (op_fn e))" "op_stack_change e = fn_change (op_fn e)"
  shows "counts (count_opcode e b) (fs @ [op_fn e])"
  using assms fn_change_req [of "op_fn e"] by (auto simp: counts_def count_opcode_def Let_def serves_append)

lemma counts_skip:
  assumes "counts b fs" "op_stack_req e = 0" "op_stack_change e = 0"
  shows "counts (count_opcode e b) fs"
  using assms by (auto simp: counts_def count_opcode_def Let_def)

lemma counts_stop: "counts b fs \<Longrightarrow> counts b (fs @ [op_stop])"
  by (auto simp: counts_def serves_append)

lemma count_opcode_simps [simp]:
  "block_gas_cost (count_opcode e b) = block_gas_cost b + op_gas_cost e"
  "begin_block_index (count_opcode e b) = begin_block_index b"
  by (simp_all add: count_opcode_def Let_def)

lemma new_block_simps [simp]: "block_gas_cost (new_block k) = 0" "begin_block_index (new_block k) = k"
  by (simp_all add: new_block_def)

text \<open>The clamped numbers lose nothing that matters: the limit of the stack is far below them.\<close>

lemma counts_close:
  assumes "counts b fs" "info_stack_req (block_close b) \<le> n" "n + info_stack_max_growth (block_close b) \<le> int stack_limit"
  shows "serves n fs"
proof -
  have "n \<le> 1024" using assms by (auto simp: block_close_def clamp_def counts_def stack_limit_def split: if_splits)
  then have "block_stack_req b \<le> n" "n + block_stack_max_growth b \<le> int stack_limit"
    using assms by (auto simp: block_close_def clamp_def counts_def stack_limit_def split: if_splits)
  then show ?thesis using assms(1) by (simp add: counts_def)
qed

section \<open>Lists of instructions\<close>

definition is_begin :: "instruction \<Rightarrow> bool" where
  "is_begin i \<longleftrightarrow> instr_fn i = opx_beginblock"

text \<open>The rest of the block from an index on.\<close>

definition block_from :: "nat \<Rightarrow> instruction list \<Rightarrow> instruction list" where
  "block_from k xs = takeWhile (\<lambda>i. \<not> is_begin i) (drop k xs)"

text \<open>
  The argument of an instruction in a block with gas \<open>g\<close>, with \<open>p\<close> values in the table of
  pushed values.
\<close>

definition arg_ok :: "int \<Rightarrow> nat \<Rightarrow> instruction \<Rightarrow> bool" where
  "arg_ok g p i \<longleftrightarrow> return_ok (instr_fn i) \<and>
    (instr_fn i = op_push_small \<longrightarrow> (\<exists>v. instr_arg i = arg_small_push v)) \<and>
    (instr_fn i = op_push_full \<longrightarrow> (\<exists>k<p. instr_arg i = arg_push_value k)) \<and>
    (instr_fn i = op_pc \<longrightarrow> (\<exists>n. instr_arg i = arg_number n)) \<and>
    (needs_gas_arg (instr_fn i) \<longrightarrow> (\<exists>n. 0 \<le> n \<and> n \<le> g \<and> instr_arg i = arg_number n))"

lemma arg_ok_mono: "arg_ok g p i \<Longrightarrow> g \<le> g' \<Longrightarrow> p \<le> p' \<Longrightarrow> arg_ok g' p' i"
  by (fastforce simp: arg_ok_def)

definition info_ok :: "nat \<Rightarrow> block_info \<Rightarrow> instruction list \<Rightarrow> bool" where
  "info_ok p info body \<longleftrightarrow>
    0 \<le> info_gas_cost info \<and> list_all (arg_ok (info_gas_cost info) p) body \<and>
    (\<forall>n. info_stack_req info \<le> n \<and> n + info_stack_max_growth info \<le> int stack_limit \<longrightarrow>
      serves n (map instr_fn body))"

definition closed :: "nat \<Rightarrow> instruction list \<Rightarrow> bool" where
  "closed p xs \<longleftrightarrow>
    (\<forall>k<length xs. is_begin (xs ! k) \<longrightarrow>
      (\<exists>info. instr_arg (xs ! k) = arg_block info \<and> info_ok p info (block_from (Suc k) xs)))"

lemma info_ok_mono: "info_ok p info body \<Longrightarrow> p \<le> p' \<Longrightarrow> info_ok p' info body"
  by (auto simp: info_ok_def list_all_iff intro: arg_ok_mono)

lemma closed_mono: "closed p xs \<Longrightarrow> p \<le> p' \<Longrightarrow> closed p' xs"
  unfolding closed_def by (blast intro: info_ok_mono)

lemma takeWhile_stop: "\<not> P y \<Longrightarrow> takeWhile P (xs @ y # ys) = takeWhile P xs"
  by (induction xs) simp_all

lemma takeWhile_all: "list_all P xs \<Longrightarrow> takeWhile P xs = xs"
  by (simp add: list_all_iff takeWhile_eq_all_conv)

lemma closed_append:
  assumes "closed p xs" "is_begin b" "instr_arg b = arg_block info" "list_all (\<lambda>i. \<not> is_begin i) body" "info_ok p info body"
  shows "closed p (xs @ b # body)"
  unfolding closed_def
proof (intro allI impI)
  fix k assume k: "k < length (xs @ b # body)" and b: "is_begin ((xs @ b # body) ! k)"
  consider "k < length xs" | "k = length xs" | "length xs < k" by linarith
  then show "\<exists>info. instr_arg ((xs @ b # body) ! k) = arg_block info \<and> info_ok p info (block_from (Suc k) (xs @ b # body))"
  proof cases
    case 1
    then have "block_from (Suc k) (xs @ b # body) = block_from (Suc k) xs"
      using assms(2) by (simp add: block_from_def takeWhile_stop)
    then show ?thesis using 1 assms(1) b by (simp add: closed_def nth_append)
  next
    case 2
    then show ?thesis using assms(3-5) by (simp add: block_from_def takeWhile_all)
  next
    case 3
    then obtain j where j: "k = Suc (length xs + j)" using less_imp_Suc_add by blast
    then have "(xs @ b # body) ! k = body ! j" "j < length body" using k by (simp_all add: nth_append)
    then show ?thesis using assms(4) b by (simp add: list_all_length)
  qed
qed

end
