(* ===== verification/EvmAnalysisInv.thy ===== *)
theory EvmAnalysisInv
  imports EvmBlocks
begin

text \<open>
  The invariant of the analysis loop, and what the finished analysis satisfies: every
  \<open>opx_beginblock\<close> carries numbers that are enough for its block, every argument is of the kind
  its function reads, and the jump table lists exactly the \<^verbatim>\<open>JUMPDEST\<close> bytes that are
  instructions, each with the start of a block that costs gas. The bound on the length of the
  code, \<open>0x20000\<close>, keeps the gas of a block within its 32-bit field; contracts are limited to
  \<open>0x6000\<close> bytes by the protocol.
\<close>

section \<open>The open block\<close>

definition open_block :: "block_analysis \<Rightarrow> code_analysis \<Rightarrow> bool" where
  "open_block b an \<longleftrightarrow>
    (\<exists>pre beg body. instrs an = pre @ beg # body \<and> length pre = begin_block_index b \<and>
      is_begin (hd (pre @ [beg])) \<and> is_begin beg \<and> list_all (\<lambda>i. \<not> is_begin i) body \<and> closed (length (push_values an)) pre \<and>
      counts b (map instr_fn body) \<and> list_all (arg_ok (block_gas_cost b) (length (push_values an))) body) \<and>
    0 \<le> block_gas_cost b"

lemma open_blockE:
  assumes "open_block b an"
  obtains pre beg body where "instrs an = pre @ beg # body" "length pre = begin_block_index b" "is_begin beg"
    "list_all (\<lambda>i. \<not> is_begin i) body" "closed (length (push_values an)) pre" "counts b (map instr_fn body)"
    "list_all (arg_ok (block_gas_cost b) (length (push_values an))) body" "0 \<le> block_gas_cost b"
    "is_begin (hd (pre @ [beg]))"
  using assms by (auto simp: open_block_def)

text \<open>A jump target is the start of a block that costs gas.\<close>

definition target_ok :: "block_analysis \<Rightarrow> code_analysis \<Rightarrow> int \<Rightarrow> bool" where
  "target_ok b an t \<longleftrightarrow>
    (\<exists>k. t = int k \<and> k < length (instrs an) \<and> is_begin (instrs an ! k) \<and>
      (if k = begin_block_index b then 1 \<le> block_gas_cost b
       else \<exists>info. instr_arg (instrs an ! k) = arg_block info \<and> 1 \<le> info_gas_cost info))"

definition targets_ok :: "block_analysis \<Rightarrow> code_analysis \<Rightarrow> bool" where
  "targets_ok b an \<longleftrightarrow>
    list_all (target_ok b an) (jumpdest_targets an) \<and> length (jumpdest_offsets an) = length (jumpdest_targets an)"

section \<open>One opcode\<close>

lemma set_last_add [simp]:
  "set_last_arg a (add_instr i an) = add_instr (i\<lparr>instr_arg := a\<rparr>) an"
  by (simp add: set_last_arg_def set_arg_def add_instr_def)

lemma set_last_push [simp]:
  "set_last_arg a ((add_instr i an)\<lparr>push_values := vs\<rparr>) = (add_instr (i\<lparr>instr_arg := a\<rparr>) an)\<lparr>push_values := vs\<rparr>"
  by (simp add: set_last_arg_def set_arg_def add_instr_def)

lemma class_disjoint:
  "has_gas_arg op \<Longrightarrow> \<not> is_small_push op \<and> \<not> is_large_push op"
  "is_large_push op \<Longrightarrow> \<not> is_small_push op"
  "\<not> is_small_push OP_PC" "\<not> is_large_push OP_PC" "\<not> has_gas_arg OP_PC"
  "\<not> is_small_push OP_JUMPDEST" "\<not> is_large_push OP_JUMPDEST" "\<not> has_gas_arg OP_JUMPDEST"
  by (auto simp: opcode_class_defs word_le_nat_alt)

lemma same_push_values [simp]: "(add_instr i an)\<lparr>push_values := push_values an\<rparr> = add_instr i an"
  by (simp add: add_instr_def)

lemma add_instr_simps [simp]:
  "instrs (add_instr i an) = instrs an @ [i]" "push_values (add_instr i an) = push_values an"
  "jumpdest_offsets (add_instr i an) = jumpdest_offsets an" "jumpdest_targets (add_instr i an) = jumpdest_targets an"
  by (simp_all add: add_instr_def)

lemma translate_new:
  assumes "entry_ok op e" "translate_arg op pos rest b (add_instr (new_instruction (op_fn e)) an) = (used, an')"
    and b: "0 \<le> block_gas_cost b"
  shows "\<exists>a vs. an' = (add_instr \<lparr>instr_fn = op_fn e, instr_arg = a\<rparr> an)\<lparr>push_values := push_values an @ vs\<rparr> \<and>
    arg_ok (block_gas_cost b) (length (push_values an @ vs)) \<lparr>instr_fn = op_fn e, instr_arg = a\<rparr>"
    (is "\<exists>a vs. ?P a vs")
proof -
  have e: "op_fn e = op_push_small \<Longrightarrow> is_small_push op" "op_fn e = op_push_full \<Longrightarrow> is_large_push op"
    "needs_gas_arg (op_fn e) \<Longrightarrow> has_gas_arg op" "op_fn e = op_pc \<Longrightarrow> op = OP_PC"
    "return_ok (op_fn e)"
    using assms(1) by (auto simp: entry_ok_def)
  note t = assms(2) [unfolded translate_arg_def Let_def new_instruction_def]
  show ?thesis
  proof (cases "is_small_push op")
    case True
    obtain v where "an' = add_instr \<lparr>instr_fn = op_fn e, instr_arg = arg_small_push v\<rparr> an"
      using t True by auto
    then have "?P (arg_small_push v) []" using True e class_disjoint by (auto simp: arg_ok_def)
    then show ?thesis by blast
  next
    case small: False
    show ?thesis
    proof (cases "is_large_push op")
      case True
      obtain v where "an' = (add_instr \<lparr>instr_fn = op_fn e, instr_arg = arg_push_value (length (push_values an))\<rparr> an)
          \<lparr>push_values := push_values an @ [v]\<rparr>"
        using t small True by auto
      then have "?P (arg_push_value (length (push_values an))) [v]"
        using small True e class_disjoint by (auto simp: arg_ok_def)
      then show ?thesis by blast
    next
      case large: False
      define a where "a = (if has_gas_arg op then arg_number (block_gas_cost b)
        else if op = OP_PC then arg_number (int pos - 1)
        else arg_block \<lparr>info_gas_cost = 0, info_stack_req = 0, info_stack_max_growth = 0\<rparr>)"
      have "an' = add_instr \<lparr>instr_fn = op_fn e, instr_arg = a\<rparr> an"
        using t small large by (auto simp: a_def split: if_splits)
      moreover have "arg_ok (block_gas_cost b) (length (push_values an)) \<lparr>instr_fn = op_fn e, instr_arg = a\<rparr>"
        using small large e b by (auto simp: a_def arg_ok_def)
      ultimately have "?P a []" by simp
      then show ?thesis by blast
    qed
  qed
qed


lemma translate_jumpdests:
  "translate_arg op pos rest b an = (used, an') \<Longrightarrow>
    jumpdest_offsets an' = jumpdest_offsets an \<and> jumpdest_targets an' = jumpdest_targets an"
  by (auto simp: translate_arg_def Let_def set_last_arg_def set_arg_def split: if_splits)

lemma target_ok_grows:
  assumes "target_ok b an t" "begin_block_index b' = begin_block_index b" "block_gas_cost b \<le> block_gas_cost b'"
    "instrs an' = instrs an @ xs"
  shows "target_ok b' an' t"
proof -
  obtain k where "t = int k" "k < length (instrs an)" "is_begin (instrs an ! k)"
    "if k = begin_block_index b then 1 \<le> block_gas_cost b
       else \<exists>info. instr_arg (instrs an ! k) = arg_block info \<and> 1 \<le> info_gas_cost info"
    using assms(1) by (auto simp: target_ok_def)
  then show ?thesis using assms(2-) by (auto simp: target_ok_def nth_append split: if_splits)
qed

lemma ordinary_step:
  assumes inv: "open_block b an" "targets_ok b an" and e: "entry_ok op e" "op \<noteq> OP_JUMPDEST"
    and t: "translate_arg op pos rest (count_opcode e b) (add_instr (new_instruction (op_fn e)) an) = (used, an')"
  shows "open_block (count_opcode e b) an' \<and> targets_ok (count_opcode e b) an' \<and>
    length (instrs an') = Suc (length (instrs an))"
proof -
  from inv(1) obtain pre beg body where ob: "instrs an = pre @ beg # body" "length pre = begin_block_index b" "is_begin beg"
    "list_all (\<lambda>i. \<not> is_begin i) body" "closed (length (push_values an)) pre" "counts b (map instr_fn body)"
    "list_all (arg_ok (block_gas_cost b) (length (push_values an))) body" "0 \<le> block_gas_cost b"
    "is_begin (hd (pre @ [beg]))"
    by (rule open_blockE)
  have c: "0 \<le> op_gas_cost e" "op_stack_req e = int (fn_req (op_fn e))" "op_stack_change e = fn_change (op_fn e)"
    "op_fn e \<noteq> opx_beginblock"
    using e by (auto simp: entry_ok_def)
  obtain a vs where an': "an' = (add_instr \<lparr>instr_fn = op_fn e, instr_arg = a\<rparr> an)\<lparr>push_values := push_values an @ vs\<rparr>"
    and arg: "arg_ok (block_gas_cost (count_opcode e b)) (length (push_values an @ vs)) \<lparr>instr_fn = op_fn e, instr_arg = a\<rparr>"
    using translate_new [OF e(1) t] c(1) ob(8) by auto
  have "counts (count_opcode e b) (map instr_fn body @ [op_fn e])"
    using counts_opcode ob(6) c(2,3) by blast
  moreover have "list_all (arg_ok (block_gas_cost (count_opcode e b)) (length (push_values an @ vs))) body"
    using ob(7) c(1) by (auto simp: list_all_iff intro: arg_ok_mono)
  moreover have "closed (length (push_values an @ vs)) pre" using ob(5) by (rule closed_mono) simp
  ultimately have "open_block (count_opcode e b) an'"
    unfolding open_block_def using ob(1-4,8,9) c(1,4) arg
    by (intro conjI exI [of _ pre] exI [of _ beg] exI [of _ "body @ [\<lparr>instr_fn = op_fn e, instr_arg = a\<rparr>]"])
      (simp_all add: an' add_instr_def is_begin_def)
  moreover have "targets_ok (count_opcode e b) an'"
    using inv(2) c(1) unfolding targets_ok_def
    by (auto simp: an' add_instr_def list_all_iff intro: target_ok_grows)
  ultimately show ?thesis by (simp add: an' add_instr_def)
qed

lemma int32_id: "n < 2 ^ 31 \<Longrightarrow> int32 n = int n"
  unfolding int32_def by transfer (simp add: signed_take_bit_int_eq_self)

lemma jumpdest_step:
  assumes inv: "open_block b an" "targets_ok b an" and e: "e = op_entry opx_beginblock 1 0 0"
    and start: "length (instrs an) = Suc (begin_block_index b)" and small: "length (instrs an) \<le> 0xfffff"
  shows "open_block (count_opcode e b) (add_jumpdest pos an) \<and> targets_ok (count_opcode e b) (add_jumpdest pos an)"
proof -
  from inv(1) obtain pre beg body where ob: "instrs an = pre @ beg # body" "length pre = begin_block_index b" "is_begin beg"
    "list_all (\<lambda>i. \<not> is_begin i) body" "closed (length (push_values an)) pre" "counts b (map instr_fn body)"
    "list_all (arg_ok (block_gas_cost b) (length (push_values an))) body" "0 \<le> block_gas_cost b"
    "is_begin (hd (pre @ [beg]))"
    by (rule open_blockE)
  have body: "body = []" using ob(1,2) start by simp
  have c: "op_gas_cost e = 1" "op_stack_req e = 0" "op_stack_change e = 0" by (simp_all add: e)
  have "open_block (count_opcode e b) (add_jumpdest pos an)"
    unfolding open_block_def using ob c counts_skip [OF ob(6) c(2,3)]
    by (intro conjI exI [of _ pre] exI [of _ beg] exI [of _ "[]"]) (simp_all add: add_jumpdest_def body)
  moreover have "int32 (begin_block_index b) = int (begin_block_index b)"
    using small start by (simp add: int32_id)
  then have "target_ok (count_opcode e b) (add_jumpdest pos an) (int32 (length (instrs an) - 1))"
    using ob c start by (auto simp: target_ok_def add_jumpdest_def nth_append)
  moreover have "target_ok (count_opcode e b) (add_jumpdest pos an) t" if "target_ok b an t" for t
    by (rule target_ok_grows [OF that, where xs = "[]"]) (simp_all add: add_jumpdest_def c(1))
  ultimately show ?thesis using inv(2)
    by (auto simp: targets_ok_def list_all_iff) (auto simp: add_jumpdest_def)
qed

text \<open>Closing a block; the gas of a block fits its field.\<close>

lemma info_close:
  assumes "counts b (map instr_fn body)" "list_all (arg_ok (block_gas_cost b) p) body" "0 \<le> block_gas_cost b"
    "block_gas_cost b \<le> 2 ^ 32 - 1"
  shows "info_ok p (block_close b) body"
proof -
  have "info_gas_cost (block_close b) = block_gas_cost b" using assms(4) by (simp add: block_close_def clamp_def)
  then show ?thesis using assms counts_close [OF assms(1)] by (simp add: info_ok_def)
qed

lemma close_closed:
  assumes inv: "open_block b an" and small: "block_gas_cost b \<le> 2 ^ 32 - 1"
  shows "closed (length (push_values an)) (instrs (close_block b an))" (is ?closed)
    "is_begin (hd (instrs (close_block b an)))" (is ?hd) "instrs (close_block b an) \<noteq> []" (is ?nonempty)
proof -
  from inv obtain pre beg body where ob: "instrs an = pre @ beg # body" "length pre = begin_block_index b" "is_begin beg"
    "list_all (\<lambda>i. \<not> is_begin i) body" "closed (length (push_values an)) pre" "counts b (map instr_fn body)"
    "list_all (arg_ok (block_gas_cost b) (length (push_values an))) body" "0 \<le> block_gas_cost b"
    "is_begin (hd (pre @ [beg]))"
    by (rule open_blockE)
  have eq: "instrs (close_block b an) = pre @ beg\<lparr>instr_arg := arg_block (block_close b)\<rparr> # body"
    using ob(1) by (simp add: close_block_def set_arg_def ob(2) [symmetric])
  have "closed (length (push_values an)) (pre @ beg\<lparr>instr_arg := arg_block (block_close b)\<rparr> # body)"
    using ob(3-7) info_close [OF ob(6,7,8) small]
    by (intro closed_append [where info = "block_close b"]) (simp_all add: is_begin_def)
  then show ?closed ?hd ?nonempty using ob(3,9) by (auto simp: eq hd_append is_begin_def split: if_splits)
qed

lemma close_block_simps [simp]:
  "push_values (close_block b an) = push_values an" "jumpdest_offsets (close_block b an) = jumpdest_offsets an"
  "jumpdest_targets (close_block b an) = jumpdest_targets an" "length (instrs (close_block b an)) = length (instrs an)"
  by (simp_all add: close_block_def set_arg_def)

definition is_target :: "code_analysis \<Rightarrow> int \<Rightarrow> bool" where
  "is_target an t \<longleftrightarrow>
    (\<exists>k info. t = int k \<and> k < length (instrs an) \<and> is_begin (instrs an ! k) \<and>
      instr_arg (instrs an ! k) = arg_block info \<and> 1 \<le> info_gas_cost info)"

lemma close_target:
  assumes "target_ok b an t" "block_gas_cost b \<le> 2 ^ 32 - 1"
  shows "is_target (close_block b an) t"
  using assms
  by (auto simp: is_target_def target_ok_def close_block_def set_arg_def nth_list_update is_begin_def block_close_def clamp_def
      split: if_splits)

lemma close_step:
  assumes inv: "open_block b an" "targets_ok b an" and small: "block_gas_cost b \<le> 2 ^ 32 - 1"
    and beg: "instr_fn i = opx_beginblock" and an': "an' = add_instr i (close_block b an)"
  shows "open_block (new_block (length (instrs an))) an' \<and> targets_ok (new_block (length (instrs an))) an' \<and>
    length (instrs an') = Suc (length (instrs an))"
proof -
  have "open_block (new_block (length (instrs an))) an'"
    unfolding open_block_def using close_closed [OF inv(1) small] beg
    by (intro conjI exI [where x = "instrs (close_block b an)"] exI [where x = i] exI [where x = "[]"])
      (simp_all add: an' add_instr_def is_begin_def)
  moreover have "target_ok (new_block (length (instrs an))) an' t" if t: "target_ok b an t" for t
    using close_target [OF t small] by (auto simp: target_ok_def is_target_def an' nth_append)
  ultimately show ?thesis using inv(2) by (auto simp: targets_ok_def list_all_iff an' add_instr_def)
qed


section \<open>The loop\<close>

definition analysis_inv :: "nat \<Rightarrow> bytes \<Rightarrow> block_analysis \<Rightarrow> code_analysis \<Rightarrow> bool" where
  "analysis_inv pos rest b an \<longleftrightarrow>
    open_block b an \<and> targets_ok b an \<and> block_gas_cost b \<le> 32000 * int pos \<and> length (instrs an) \<le> 2 * pos + 1 \<and>
    (rest \<noteq> [] \<and> hd rest = OP_JUMPDEST \<longrightarrow> length (instrs an) = Suc (begin_block_index b))"

lemma analysis_inv_later:
  "analysis_inv pos rest b an \<Longrightarrow> pos \<le> pos' \<Longrightarrow>
    rest' \<noteq> [] \<and> hd rest' = OP_JUMPDEST \<longrightarrow> length (instrs an) = Suc (begin_block_index b) \<Longrightarrow>
    analysis_inv pos' rest' b an"
  by (auto simp: analysis_inv_def)

text \<open>The first half of a turn: the opcode is counted and translated.\<close>

lemma count_and_translate:
  fixes r op b
  defines "e \<equiv> get_op_table r op"
  assumes inv: "analysis_inv pos (op # rest) b an" and pos: "pos < 0x20000"
    and t: "translate_arg op (pos + 1) rest (count_opcode e b)
      (if op = OP_JUMPDEST then add_jumpdest pos an else add_instr (new_instruction (op_fn e)) an) = (used, an')"
  shows "open_block (count_opcode e b) an' \<and> targets_ok (count_opcode e b) an' \<and>
    block_gas_cost (count_opcode e b) \<le> 32000 * (int pos + 1) \<and> length (instrs an') \<le> 2 * pos + 2"
proof -
  have e: "entry_ok op e" unfolding e_def by (rule op_table_ok)
  have cost: "block_gas_cost (count_opcode e b) \<le> 32000 * (int pos + 1)"
    using inv e by (simp add: analysis_inv_def entry_ok_def)
  show ?thesis
  proof (cases "op = OP_JUMPDEST")
    case True
    then have an': "an' = add_jumpdest pos an" using t class_disjoint by (simp add: translate_arg_def)
    have "e = op_entry opx_beginblock 1 0 0" using True op_table_fixed by (simp add: e_def)
    then show ?thesis
      using jumpdest_step [of b an e pos] inv pos True cost by (simp add: analysis_inv_def an') (simp add: add_jumpdest_def)
  next
    case False
    then show ?thesis using ordinary_step [of b an op e "pos + 1" rest used an'] inv t e cost by (simp add: analysis_inv_def)
  qed
qed

lemma analyze_opcode_inv:
  assumes inv: "analysis_inv pos (op # rest) b an" and pos: "pos < 0x20000"
    and step: "analyze_opcode (get_op_table r) op (pos + 1) rest b an = (used, b', an')"
  shows "analysis_inv (pos + 1 + used) (drop used rest) b' an'"
proof -
  define e where "e = get_op_table r op"
  define an1 where "an1 = (if op = OP_JUMPDEST then add_jumpdest pos an else add_instr (new_instruction (op_fn e)) an)"
  obtain u an2 where t: "translate_arg op (pos + 1) rest (count_opcode e b) an1 = (u, an2)" by fastforce
  have inv2: "open_block (count_opcode e b) an2" "targets_ok (count_opcode e b) an2"
    "block_gas_cost (count_opcode e b) \<le> 32000 * (int pos + 1)" "length (instrs an2) \<le> 2 * pos + 2"
    using count_and_translate [of pos op rest b an r u an2, OF inv pos, folded e_def, OF t [unfolded an1_def]] by blast+
  define ends where "ends \<longleftrightarrow> is_terminator op \<or> (drop u rest \<noteq> [] \<and> hd (drop u rest) = OP_JUMPDEST)"
  define an3 where "an3 = add_instr (new_instruction opx_beginblock) (close_block (count_opcode e b) an2)"
  have "analyze_opcode (get_op_table r) op (pos + 1) rest b an =
    (if ends then (u, new_block (length (instrs an3) - 1), an3) else (u, count_opcode e b, an2))"
    unfolding analyze_opcode_def Let_def e_def [symmetric] diff_add_inverse2 an1_def [symmetric] t prod.case
      ends_def [symmetric] by (simp add: an3_def op_table_fixed)
  then have r: "used = u" "ends \<Longrightarrow> b' = new_block (length (instrs an3) - 1) \<and> an' = an3"
    "\<not> ends \<Longrightarrow> b' = count_opcode e b \<and> an' = an2"
    using step by (auto split: if_splits)
  show ?thesis
  proof (cases ends)
    case True
    have "open_block (new_block (length (instrs an2))) an3 \<and> targets_ok (new_block (length (instrs an2))) an3 \<and>
      length (instrs an3) = Suc (length (instrs an2))"
      using inv2(1-3) pos by (intro close_step [where b = "count_opcode e b"]) (simp_all add: an3_def new_instruction_def)
    then show ?thesis using inv2(4) r(1,2) True by (simp add: analysis_inv_def)
  next
    case False
    then show ?thesis using inv2 r by (auto simp: analysis_inv_def ends_def)
  qed
qed

lemma used_le: "translate_arg op pos rest b an = (used, an') \<Longrightarrow> used \<le> length rest"
  by (auto simp: translate_arg_def Let_def split: if_splits)

lemma analyze_opcode_used:
  "analyze_opcode tbl op pos rest b an = (used, b', an') \<Longrightarrow> used \<le> length rest"
  by (auto simp: analyze_opcode_def Let_def split: prod.splits if_splits dest: used_le)

lemma analyze_loop_inv:
  assumes "analysis_inv pos rest b an" "pos + length rest \<le> 0x20000"
    "analyze_loop (get_op_table r) pos rest b an = (b', an')"
  shows "analysis_inv (pos + length rest) [] b' an'"
  using assms
proof (induction "get_op_table r" pos rest b an rule: analyze_loop.induct)
  case (2 pos op rest b an)
  obtain used b1 an1 where s: "analyze_opcode (get_op_table r) op (pos + 1) rest b an = (used, b1, an1)"
    by (metis prod_cases3)
  note u = analyze_opcode_used [OF s]
  have "analysis_inv (pos + 1 + used) (drop used rest) b1 an1"
    using 2 by (intro analyze_opcode_inv [OF _ _ s]) simp_all
  then show ?case using 2 s u by simp
qed simp

section \<open>The finished analysis\<close>

definition analysis_ok :: "code_analysis \<Rightarrow> bool" where
  "analysis_ok an \<longleftrightarrow>
    instrs an \<noteq> [] \<and> is_begin (hd (instrs an)) \<and> instr_fn (last (instrs an)) = op_stop \<and>
    closed (length (push_values an)) (instrs an) \<and>
    length (jumpdest_offsets an) = length (jumpdest_targets an) \<and>
    list_all (is_target an) (jumpdest_targets an)"


lemma add_stop:
  assumes "open_block b an"
  shows "open_block b (add_instr (new_instruction op_stop) an)"
    "close_block b (add_instr (new_instruction op_stop) an) = add_instr (new_instruction op_stop) (close_block b an)"
proof -
  from assms obtain pre beg body where ob: "instrs an = pre @ beg # body" "length pre = begin_block_index b" "is_begin beg"
    "list_all (\<lambda>i. \<not> is_begin i) body" "closed (length (push_values an)) pre" "counts b (map instr_fn body)"
    "list_all (arg_ok (block_gas_cost b) (length (push_values an))) body" "0 \<le> block_gas_cost b"
    "is_begin (hd (pre @ [beg]))"
    by (rule open_blockE)
  show "open_block b (add_instr (new_instruction op_stop) an)"
    unfolding open_block_def using ob counts_stop [OF ob(6)]
    by (intro conjI exI [of _ pre] exI [of _ beg] exI [of _ "body @ [new_instruction op_stop]"])
      (simp_all add: add_instr_def new_instruction_def is_begin_def arg_ok_def)
  show "close_block b (add_instr (new_instruction op_stop) an) = add_instr (new_instruction op_stop) (close_block b an)"
    using ob(1,2) by (simp add: close_block_def set_arg_def add_instr_def nth_append list_update_append)
qed

lemma analysis_inv_start:
  "analysis_inv 0 rest (new_block 0) \<lparr>instrs = [new_instruction opx_beginblock], push_values = [],
    jumpdest_offsets = [], jumpdest_targets = []\<rparr>"
  by (simp add: analysis_inv_def open_block_def targets_ok_def closed_def is_begin_def new_instruction_def
      Cons_eq_append_conv)

lemma analyze_length:
  assumes "length bs \<le> 0x20000"
  shows "length (instrs (analyze r bs)) \<le> 2 * length bs + 2"
proof -
  let ?an0 = "\<lparr>instrs = [new_instruction opx_beginblock], push_values = [], jumpdest_offsets = [], jumpdest_targets = []\<rparr>"
  obtain b an where l: "analyze_loop (get_op_table r) 0 bs (new_block 0) ?an0 = (b, an)" by fastforce
  have "length (instrs an) \<le> 2 * length bs + 1"
    using analyze_loop_inv [OF analysis_inv_start _ l] assms by (simp add: analysis_inv_def)
  then show ?thesis using l by (simp add: analyze_def op_table_fixed)
qed

lemma analyze_ok:
  assumes "length bs \<le> 0x20000"
  shows "analysis_ok (analyze r bs)"
proof -
  let ?an0 = "\<lparr>instrs = [new_instruction opx_beginblock], push_values = [], jumpdest_offsets = [], jumpdest_targets = []\<rparr>"
  obtain b an where l: "analyze_loop (get_op_table r) 0 bs (new_block 0) ?an0 = (b, an)" by fastforce
  have inv: "analysis_inv (length bs) [] b an"
    using analyze_loop_inv [OF analysis_inv_start _ l] assms by simp
  then have ob: "open_block b an" "targets_ok b an" and small: "block_gas_cost b \<le> 2 ^ 32 - 1"
    using assms by (auto simp: analysis_inv_def)
  have eq: "analyze r bs = close_block b (add_instr (new_instruction op_stop) an)"
    using l by (simp add: analyze_def op_table_fixed add_stop(2) [OF ob(1)])
  have "target_ok b (add_instr (new_instruction op_stop) an) t" if "target_ok b an t" for t
    by (rule target_ok_grows [OF that]) simp_all
  then have "targets_ok b (add_instr (new_instruction op_stop) an)"
    using ob(2) by (simp add: targets_ok_def list_all_iff)
  then have "list_all (is_target (analyze r bs)) (jumpdest_targets (analyze r bs))"
    unfolding eq using close_target [OF _ small] by (simp add: targets_ok_def list_all_iff)
  moreover have "instr_fn (last (instrs (analyze r bs))) = op_stop"
    unfolding eq add_stop(2) [OF ob(1)] by (simp add: add_instr_def new_instruction_def)
  ultimately show ?thesis
    unfolding analysis_ok_def using close_closed [OF add_stop(1) [OF ob(1)] small] ob(2)
    by (simp add: eq targets_ok_def)
qed


section \<open>The jump destinations\<close>

text \<open>
  The positions of the \<^verbatim>\<open>JUMPDEST\<close>s that are instructions, as the EVM defines them: the bytes
  that a push takes from the code are skipped.
\<close>

definition push_bytes :: "u8 \<Rightarrow> nat" where
  "push_bytes op = (if 0x60 \<le> unat op \<and> unat op \<le> 0x7f then unat op - 0x5f else 0)"

function valid_jumpdests :: "nat \<Rightarrow> bytes \<Rightarrow> nat list" where
  "valid_jumpdests pos [] = []"
| "valid_jumpdests pos (op # rest) =
    (if op = OP_JUMPDEST then [pos] else []) @ valid_jumpdests (pos + 1 + push_bytes op) (drop (push_bytes op) rest)"
  by pat_completeness auto

termination
  by (relation "measure (\<lambda>(pos, rest). length rest)") auto

lemma push_size_bytes: "is_small_push op \<or> is_large_push op \<Longrightarrow> push_size op = push_bytes op"
  by (auto simp: push_size_def push_bytes_def is_small_push_def is_large_push_def word_le_nat_alt unat_sub)

lemma no_push_bytes: "\<not> is_small_push op \<Longrightarrow> \<not> is_large_push op \<Longrightarrow> push_bytes op = 0"
  by (auto simp: push_bytes_def is_small_push_def is_large_push_def word_le_nat_alt)

lemma translate_used: "translate_arg op pos rest b an = (used, an') \<Longrightarrow> drop used rest = drop (push_bytes op) rest \<and> (used = push_bytes op \<or> drop used rest = [])"
  by (auto simp: translate_arg_def Let_def min_def push_size_bytes no_push_bytes split: if_splits)

lemma analyze_opcode_jumpdests:
  assumes "analyze_opcode tbl op (pos + 1) rest b an = (used, b', an')"
  shows "jumpdest_offsets an' = jumpdest_offsets an @ (if op = OP_JUMPDEST then [int32 pos] else [])"
    "drop used rest = drop (push_bytes op) rest \<and> (used = push_bytes op \<or> drop used rest = [])"
proof -
  define an1 where "an1 = (if op = OP_JUMPDEST then add_jumpdest pos an else add_instr (new_instruction (op_fn (tbl op))) an)"
  obtain u an2 where t: "translate_arg op (pos + 1) rest (count_opcode (tbl op) b) an1 = (u, an2)" by fastforce
  have "used = u \<and> jumpdest_offsets an' = jumpdest_offsets an2"
    using assms unfolding analyze_opcode_def Let_def diff_add_inverse2 an1_def [symmetric] t prod.case
    by (auto split: if_splits)
  then show "jumpdest_offsets an' = jumpdest_offsets an @ (if op = OP_JUMPDEST then [int32 pos] else [])"
    "drop used rest = drop (push_bytes op) rest \<and> (used = push_bytes op \<or> drop used rest = [])"
    using translate_jumpdests [OF t] translate_used [OF t] by (auto simp: an1_def add_jumpdest_def)
qed

lemma valid_jumpdests_ge: "p \<in> set (valid_jumpdests pos bs) \<Longrightarrow> pos \<le> p \<and> p < pos + length bs"
  by (induction pos bs rule: valid_jumpdests.induct) (fastforce split: if_splits)+

lemma analyze_loop_jumpdests:
  "analyze_loop tbl pos bs b an = (b', an') \<Longrightarrow>
    jumpdest_offsets an' = jumpdest_offsets an @ map int32 (valid_jumpdests pos bs)"
proof (induction tbl pos bs b an rule: analyze_loop.induct)
  case (2 tbl pos op rest b an)
  obtain used b1 an1 where s: "analyze_opcode tbl op (pos + 1) rest b an = (used, b1, an1)"
    by (metis prod_cases3)
  have "valid_jumpdests (pos + 1 + used) (drop used rest) = valid_jumpdests (pos + 1 + push_bytes op) (drop (push_bytes op) rest)"
    using analyze_opcode_jumpdests(2) [OF s] by auto
  then show ?case using 2 s analyze_opcode_jumpdests(1) [OF s] by simp
qed simp

lemma analyze_jumpdests:
  assumes "length bs < 2 ^ 31"
  shows "jumpdest_offsets (analyze r bs) = map int (valid_jumpdests 0 bs)"
proof -
  let ?an0 = "\<lparr>instrs = [new_instruction opx_beginblock], push_values = [], jumpdest_offsets = [], jumpdest_targets = []\<rparr>"
  obtain b an where l: "analyze_loop (get_op_table r) 0 bs (new_block 0) ?an0 = (b, an)" by fastforce
  have "int32 p = int p" if "p \<in> set (valid_jumpdests 0 bs)" for p
    using valid_jumpdests_ge [OF that] assms by (intro int32_id) simp
  then show ?thesis
    using analyze_loop_jumpdests [OF l] l by (simp add: analyze_def op_table_fixed)
qed

lemma valid_jumpdests_sorted: "sorted_wrt (<) (valid_jumpdests pos bs)"
  by (induction pos bs rule: valid_jumpdests.induct) (fastforce simp: sorted_wrt_append dest: valid_jumpdests_ge)+

section \<open>The search\<close>

lemma lower_bound_strict:
  "sorted_wrt (<) xs \<Longrightarrow> k < length xs \<Longrightarrow> lower_bound xs (xs ! k) = k"
  unfolding lower_bound_def
proof (induction xs arbitrary: k)
  case (Cons x xs)
  then show ?case by (cases k) auto
qed simp

lemma lower_bound_found:
  "x \<notin> set xs \<Longrightarrow> lower_bound xs x < length xs \<Longrightarrow> xs ! lower_bound xs x \<noteq> x"
  by (metis nth_mem)

lemma find_jumpdest_hit:
  assumes "sorted_wrt (<) (jumpdest_offsets an)" "k < length (jumpdest_offsets an)"
  shows "find_jumpdest an (jumpdest_offsets an ! k) = jumpdest_targets an ! k"
  using lower_bound_strict [OF assms] assms by (simp add: find_jumpdest_def)

lemma find_jumpdest_miss: "x \<notin> set (jumpdest_offsets an) \<Longrightarrow> find_jumpdest an x = - 1"
  using lower_bound_found [of x "jumpdest_offsets an"] unfolding find_jumpdest_def Let_def by argo

lemma find_jumpdest_result:
  assumes "length (jumpdest_offsets an) = length (jumpdest_targets an)"
  shows "find_jumpdest an x = - 1 \<or> find_jumpdest an x \<in> set (jumpdest_targets an)"
  using assms by (auto simp: find_jumpdest_def Let_def)

end
