(* ===== verification/EvmRun.thy ===== *)
theory EvmRun
  imports EvmAnalysisInv
begin

text \<open>
  The execution as a whole. Between two instructions the machine satisfies an invariant; every
  instruction keeps it, and none of them faults. The gas weighs every turn of the loop: each
  turn lowers a measure of the gas and of the instructions that remain, so that the fuel needed
  is bounded by the gas of the message and the length of the code.
\<close>

section \<open>The invariant of the loop\<close>

definition frame :: "'h execution_state \<Rightarrow> 'h execution_state \<Rightarrow> bool" where
  "frame st st' \<longleftrightarrow>
    msg st' = msg st \<and> revision st' = revision st \<and> code st' = code st \<and> interface (host st') = interface (host st) \<and>
    analysis st' = analysis st \<and>
    (static_host (interface (host st)) \<and> is_static st \<longrightarrow> context_state (host st') = context_state (host st))"

text \<open>\<open>g\<close> bounds the gas and the price of the memory, with the gas that the current block has paid in advance.\<close>

definition live :: "int \<Rightarrow> nat \<Rightarrow> 'h execution_state \<Rightarrow> bool" where
  "live g i st \<longleftrightarrow>
    i < length (instrs (analysis st)) \<and> 0 \<le> gas_left st \<and> 0 \<le> current_block_cost st \<and>
    potential st + current_block_cost st \<le> g \<and>
    whole_words (memory st) \<and> length (stack st) \<le> stack_limit \<and> output_size st = 0 \<and> status st = EVMC_SUCCESS \<and>
    serves (int (length (stack st))) (map instr_fn (block_from i (instrs (analysis st)))) \<and>
    list_all (arg_ok (current_block_cost st) (length (push_values (analysis st)))) (block_from i (instrs (analysis st)))"

definition ended :: "int \<Rightarrow> 'h execution_state \<Rightarrow> bool" where
  "ended g st \<longleftrightarrow>
    potential st \<le> g \<and>
    (if status st = EVMC_SUCCESS \<or> status st = EVMC_REVERT then 0 \<le> gas_left st else output_size st = 0) \<and>
    (output_size st = 0 \<or> output_offset st + output_size st \<le> length (memory st))"

text \<open>What the jumps may rely on: the gas of the block at a target.\<close>

definition block_cost_at :: "nat \<Rightarrow> code_analysis \<Rightarrow> int" where
  "block_cost_at i an = (case instr_arg (instrs an ! i) of arg_block info \<Rightarrow>
    if is_begin (instrs an ! i) then info_gas_cost info else 0 | _ \<Rightarrow> 0)"

definition measure_at :: "nat \<Rightarrow> 'h execution_state \<Rightarrow> nat" where
  "measure_at i st =
    nat (gas_left st - block_cost_at i (analysis st) + 1) * length (instrs (analysis st)) + (length (instrs (analysis st)) - i)"

definition step_ok :: "int \<Rightarrow> nat \<Rightarrow> 'h execution_state \<Rightarrow> 'h step_result \<Rightarrow> bool" where
  "step_ok g i st r \<longleftrightarrow>
    (let (p, st') = r in
      frame st st' \<and>
      (case p of None \<Rightarrow> ended g st'
       | Some j \<Rightarrow> live g j st' \<and> measure_at j st' < measure_at i st))"

section \<open>The block of an instruction\<close>

lemma block_from_cons:
  assumes "i < length xs" "\<not> is_begin (xs ! i)"
  shows "block_from i xs = xs ! i # block_from (Suc i) xs"
  using assms by (simp add: block_from_def Cons_nth_drop_Suc [symmetric])

lemma block_from_begin:
  assumes "i < length xs" "is_begin (xs ! i)"
  shows "block_from i xs = []"
  using assms by (simp add: block_from_def Cons_nth_drop_Suc [symmetric])


lemma next_instr:
  assumes "analysis_ok an" "i < length (instrs an)" "instr_fn (instrs an ! i) \<noteq> op_stop"
  shows "Suc i < length (instrs an)"
proof (rule ccontr)
  assume "\<not> Suc i < length (instrs an)"
  then have "i = length (instrs an) - 1" using assms(2) by simp
  then have "instrs an ! i = last (instrs an)" using assms(1) by (simp add: last_conv_nth analysis_ok_def)
  then show False using assms(1,3) by (simp add: analysis_ok_def)
qed

lemma closed_at:
  assumes "analysis_ok an" "i < length (instrs an)" "is_begin (instrs an ! i)"
  obtains info where "instr_arg (instrs an ! i) = arg_block info" "info_ok (length (push_values an)) info (block_from (Suc i) (instrs an))"
  using assms by (auto simp: analysis_ok_def closed_def)

lemma block_cost_nonneg:
  assumes "analysis_ok an" "i < length (instrs an)"
  shows "0 \<le> block_cost_at i an"
proof (cases "is_begin (instrs an ! i)")
  case True
  then show ?thesis using closed_at [OF assms] by (fastforce simp: block_cost_at_def info_ok_def)
qed (simp add: block_cost_at_def split: instruction_argument.split)

lemma more_same:
  fixes st :: "'h execution_state"
  assumes "ExecutionState.more st' = ExecutionState.more st"
  shows "current_block_cost st' = current_block_cost st" "analysis st' = analysis st"
  using assms by (cases st; cases st'; simp)+

lemma same_call_frame: "same_call st st' \<Longrightarrow> frame st st'"
  by (auto simp: same_call_def frame_def dest: more_same)

section \<open>Going on\<close>

text \<open>The successor of an instruction within a block.\<close>

lemma advance:
  assumes l: "live g i st" and a: "analysis_ok (analysis st)" and fn: "instr_fn (instrs (analysis st) ! i) = f"
    and f: "f \<noteq> op_stop" "f \<noteq> opx_beginblock"
    and st': "analysis st' = analysis st" "0 \<le> gas_left st'" "gas_left st' \<le> gas_left st" "potential st' \<le> potential st"
      "whole_words (memory st')" "int (length (stack st')) = int (length (stack st)) + fn_change f"
      "current_block_cost st' = current_block_cost st" "output_size st' = output_size st" "status st' = status st"
  shows "live g (i + 1) st'" "measure_at (i + 1) st' < measure_at i st"
proof -
  let ?xs = "instrs (analysis st)"
  have i: "i < length ?xs" using l by (simp add: live_def)
  have i1: "Suc i < length ?xs" using next_instr [OF a i] fn f by simp
  have nb: "\<not> is_begin (?xs ! i)" using fn f by (simp add: is_begin_def)
  note b = block_from_cons [OF i nb]
  show "live g (i + 1) st'"
    using l st' i1 fn by (auto simp: live_def b)
  have "block_cost_at i (analysis st) = 0" using nb by (simp add: block_cost_at_def split: instruction_argument.split)
  moreover have "0 \<le> block_cost_at (Suc i) (analysis st)" by (rule block_cost_nonneg [OF a i1])
  ultimately have "nat (gas_left st' - block_cost_at (Suc i) (analysis st) + 1) \<le> nat (gas_left st - block_cost_at i (analysis st) + 1)"
    using st'(3) by simp
  then have "nat (gas_left st' - block_cost_at (Suc i) (analysis st) + 1) * length ?xs
      \<le> nat (gas_left st - block_cost_at i (analysis st) + 1) * length ?xs"
    by (rule mult_le_mono1)
  then show "measure_at (i + 1) st' < measure_at i st"
    using i1 unfolding measure_at_def st'(1) Suc_eq_plus1 [symmetric] by linarith
qed

lemma potential_gas: "potential st' \<le> potential st \<Longrightarrow> length (memory st) \<le> length (memory st') \<Longrightarrow> gas_left st' \<le> gas_left st"
  using memory_price_mono [of "length (memory st)" "length (memory st')"] by (simp add: potential_def)

lemma live_runnable:
  assumes "live g i st" "fair_host (interface (host st))" "instr_fn (instrs (analysis st) ! i) = f" "f \<noteq> opx_beginblock"
  shows "runnable (fn_req f) (fn_change f) st"
proof -
  have "block_from i (instrs (analysis st)) = instrs (analysis st) ! i # block_from (Suc i) (instrs (analysis st))"
    using assms(1,3,4) by (intro block_from_cons) (simp_all add: live_def is_begin_def)
  then show ?thesis using assms by (simp add: live_def runnable_def)
qed

lemma effect_next:
  assumes l: "live g i st" and a: "analysis_ok (analysis st)" and fn: "instr_fn (instrs (analysis st) ! i) = f"
    and f: "f \<noteq> op_stop" "f \<noteq> opx_beginblock" and e: "effect (fn_change f) st (EVMC_SUCCESS, st')"
  shows "step_ok g i st (Some (i + 1), st')"
proof -
  have s: "same_call st st'" "length (memory st) \<le> length (memory st')" "potential st' \<le> potential st"
    using e by (simp_all add: effect_def)
  have "ExecutionState.more st' = ExecutionState.more st" using s(1) by (simp add: same_call_def)
  note m = more_same [OF this]
  have "live g (i + 1) st'" "measure_at (i + 1) st' < measure_at i st"
    using advance [OF l a fn f, of st'] e s potential_gas [OF s(3,2)] m by (simp_all add: effect_def same_call_def)
  then show ?thesis using same_call_frame [OF s(1)] by (simp add: step_ok_def)
qed

lemma frame_trans: "frame st1 st2 \<Longrightarrow> frame st2 st3 \<Longrightarrow> frame st1 st3"
  by (auto simp: frame_def is_static_def)

lemma effect_exit_from:
  assumes "effect d st1 (s, st2)" "frame st st1" "potential st1 \<le> g" "output_size st1 = 0"
  shows "step_ok g i st (exit_with s st2)"
proof -
  have "frame st1 (st2\<lparr>status := s\<rparr>)"
    using assms(1) same_call_frame [of st1 st2] by (simp add: effect_def frame_def)
  then show ?thesis
    using assms frame_trans [OF assms(2)]
    by (auto simp: step_ok_def exit_with_def ended_def effect_def same_call_def potential_def)
qed

lemma live_frame: "live g i st \<Longrightarrow> frame st st \<and> potential st \<le> g \<and> output_size st = 0"
  by (simp add: live_def frame_def)

lemma effect_exit:
  assumes "live g i st" "effect d st (s, st')"
  shows "step_ok g i st (exit_with s st')"
  using assms effect_exit_from live_frame by blast

lemma effect_go_on:
  assumes "live g i st" "analysis_ok (analysis st)" "instr_fn (instrs (analysis st) ! i) = f"
    "f \<noteq> op_stop" "f \<noteq> opx_beginblock" "effect (fn_change f) st r"
  shows "step_ok g i st (go_on i r)"
proof -
  obtain s st' where r: "r = (s, st')" by fastforce
  show ?thesis
  proof (cases "s = EVMC_SUCCESS")
    case True
    then show ?thesis using assms effect_next [of g i st f st'] by (simp add: r go_on_def)
  next
    case False
    then show ?thesis using assms(6) effect_exit [OF assms(1)] by (simp add: r go_on_def)
  qed
qed

section \<open>Every instruction\<close>

text \<open>The assumptions of a turn of the loop.\<close>

definition turn :: "int \<Rightarrow> nat \<Rightarrow> 'h execution_state \<Rightarrow> exec_fn \<Rightarrow> bool" where
  "turn g i st f \<longleftrightarrow>
    live g i st \<and> analysis_ok (analysis st) \<and> fair_host (interface (host st)) \<and> instr_fn (instrs (analysis st) ! i) = f"

lemma turn_runnable: "turn g i st f \<Longrightarrow> f \<noteq> opx_beginblock \<Longrightarrow> runnable (fn_req f) (fn_change f) st"
  by (auto simp: turn_def intro: live_runnable)

lemma turn_arg:
  assumes "turn g i st f" "f \<noteq> opx_beginblock"
  shows "arg_ok (current_block_cost st) (length (push_values (analysis st))) (instrs (analysis st) ! i)"
proof -
  have "block_from i (instrs (analysis st)) = instrs (analysis st) ! i # block_from (Suc i) (instrs (analysis st))"
    using assms by (intro block_from_cons) (auto simp: turn_def live_def is_begin_def)
  then show ?thesis using assms by (simp add: turn_def live_def)
qed

lemma turn_number:
  assumes "turn g i st f" "needs_gas_arg f \<or> f = op_pc"
  obtains n where "number_arg i st = Some n" "f \<noteq> op_pc \<Longrightarrow> 0 \<le> n \<and> n \<le> current_block_cost st"
proof -
  have "f \<noteq> opx_beginblock" using assms(2) by auto
  then show ?thesis using turn_arg [OF assms(1)] assms that by (auto simp: turn_def arg_ok_def number_arg_def)
qed

lemma stack_step:
  assumes t: "turn g i st (op_stack f)"
  shows "ok (step_ok g i st) (exec_fn_call (op_stack f) i st)"
proof -
  have r: "runnable (stack_fn_req f) (stack_fn_change f) st" using turn_runnable [OF t] by simp
  have "effect (stack_fn_change f) st (EVMC_SUCCESS, st\<lparr>stack := s\<rparr>)"
    if "int (length s) = int (length (stack st)) + stack_fn_change f" for s
    using r that by (simp add: contract_defs)
  then have "step_ok g i st (Some (i + 1), st\<lparr>stack := s\<rparr>)"
    if "int (length s) = int (length (stack st)) + stack_fn_change f" for s
    using t that effect_next [of g i st "op_stack f"] by (simp add: turn_def)
  then show ?thesis
    using r ok_mono [OF stack_fn_effect] by (simp add: runnable_def)
qed

lemma state_step:
  assumes t: "turn g i st (op_state f)"
  shows "ok (step_ok g i st) (exec_fn_call (op_state f) i st)"
  using ok_mono [OF state_fn_effect [OF turn_runnable [OF t]]] t effect_next [of g i st "op_state f"]
  by (simp add: turn_def)

lemma status_step:
  assumes t: "turn g i st (op_status f)"
  shows "ok (step_ok g i st) (exec_fn_call (op_status f) i st)"
  using ok_mono [OF status_fn_effect [OF turn_runnable [OF t]]] t effect_go_on [of g i st "op_status f"]
  by (simp add: turn_def)

lemma log_step:
  assumes t: "turn g i st (op_log n)"
  shows "ok (step_ok g i st) (exec_fn_call (op_log n) i st)"
  using ok_mono [OF log_effect [of n st]] turn_runnable [OF t] t effect_go_on [of g i st "op_log n"]
  by (simp add: turn_def)

lemma selfdestruct_step:
  assumes t: "turn g i st op_selfdestruct"
  shows "ok (step_ok g i st) (exec_fn_call op_selfdestruct i st)"
proof -
  have "runnable 1 0 st" using turn_runnable [OF t] t by (simp add: runnable_def turn_def live_def)
  from ok_mono [OF selfdestruct_effect [OF this]] show ?thesis
    using t effect_exit [of g i st 0] by (auto simp: turn_def)
qed

lemma exit_step:
  assumes "turn g i st f"
  shows "step_ok g i st (exit_with s st)"
  using assms by (auto simp: turn_def live_def step_ok_def exit_with_def frame_def ended_def potential_def is_static_def)


lemma exact_step:
  assumes t: "turn g i st f" and f: "needs_gas_arg f" "f \<noteq> op_gas"
    and F: "\<And>st'. runnable (fn_req f) (fn_change f) st' \<Longrightarrow> ok (effect (fn_change f) st') (F st')"
  shows "ok (step_ok g i st) (with_exact_gas F i st)"
proof -
  have neq: "f \<noteq> op_pc" "f \<noteq> op_stop" "f \<noteq> opx_beginblock" using f by auto
  obtain n where n: "number_arg i st = Some n" "0 \<le> n" "n \<le> current_block_cost st"
    using turn_number [OF t] f neq by metis
  have l: "live g i st" and a: "analysis_ok (analysis st)" and fn: "instr_fn (instrs (analysis st) ! i) = f"
    using t by (simp_all add: turn_def)
  define c where "c = current_block_cost st - n"
  have c: "0 \<le> c" "c \<le> current_block_cost st" using n by (simp_all add: c_def)
  define st1 where "st1 = st\<lparr>gas_left := gas_left st + c\<rparr>"
  have st1: "frame st st1" "potential st1 = potential st + c" "output_size st1 = output_size st" "status st1 = status st"
    "length (memory st1) = length (memory st)" "length (stack st1) = length (stack st)"
    "ExecutionState.more st1 = ExecutionState.more st" "gas_left st1 = gas_left st + c"
    by (simp_all add: st1_def frame_def potential_def)
  have "runnable (fn_req f) (fn_change f) st1"
    using turn_runnable [OF t neq(3)] c by (simp add: runnable_def st1_def)
  note e = F [OF this]
  have failed: "step_ok g i st (exit_with s st2)" if "effect (fn_change f) st1 (s, st2)" for s st2
    using that st1(1) by (rule effect_exit_from) (use l c st1 in \<open>simp_all add: live_def\<close>)
  have finished: "step_ok g i st (if gas_left st2 - c < 0 then exit_with EVMC_OUT_OF_GAS (st2\<lparr>gas_left := gas_left st2 - c\<rparr>)
      else (Some (i + 1), st2\<lparr>gas_left := gas_left st2 - c\<rparr>))"
    if e2: "effect (fn_change f) st1 (EVMC_SUCCESS, st2)" for st2
  proof -
    define st3 where "st3 = st2\<lparr>gas_left := gas_left st2 - c\<rparr>"
    have s: "same_call st1 st2" "length (memory st1) \<le> length (memory st2)" "potential st2 \<le> potential st1"
      using e2 by (simp_all add: effect_def)
    have "ExecutionState.more st2 = ExecutionState.more st1" using s(1) by (simp add: same_call_def)
    note m = more_same [OF this] more_same [OF st1(7)]
    have e3: "effect (fn_change f) st1 (EVMC_OUT_OF_GAS, st3)"
      using e2 c by (simp add: st3_def contract_defs)
    have p: "potential st3 \<le> potential st" using s(3) st1(2) by (simp add: st3_def potential_def)
    have "live g (i + 1) st3" "measure_at (i + 1) st3 < measure_at i st" if "0 \<le> gas_left st3"
      using advance [OF l a fn neq(2,3), of st3] e2 s m st1 p that potential_gas [OF p]
      by (simp_all add: st3_def effect_def same_call_def)
    moreover have "frame st st3"
      using frame_trans [OF st1(1) same_call_frame [OF s(1)]] by (simp add: st3_def frame_def)
    ultimately show ?thesis
      using failed [OF e3] by (simp add: st3_def [symmetric]) (simp add: st3_def step_ok_def)
  qed
  obtain s st2 where r: "F st1 = Some (s, st2)" "effect (fn_change f) st1 (s, st2)" using ok_some [OF e] by auto
  show ?thesis
  proof (cases "s = EVMC_SUCCESS")
    case True
    then show ?thesis using r finished [of st2]
      by (simp add: with_exact_gas_def n c_def [symmetric] st1_def [symmetric] charge_def Let_def not_le split: if_splits)
  next
    case False
    then show ?thesis using r failed
      by (simp add: with_exact_gas_def n c_def [symmetric] st1_def [symmetric])
  qed
qed

lemma push_step:
  assumes t: "turn g i st f" and f: "f \<noteq> op_stop" "f \<noteq> opx_beginblock" "fn_change f = 1"
  shows "ok (\<lambda>st'. step_ok g i st (Some (Suc i), st')) (st_push st x)"
proof -
  have r: "runnable (fn_req f) 1 st" using turn_runnable [OF t f(2)] f(3) by simp
  then have "effect 1 st (EVMC_SUCCESS, st\<lparr>stack := x # stack st\<rparr>)" by (simp add: contract_defs)
  then show ?thesis using r t f effect_next [of g i st f] by (simp add: turn_def runnable_def)
qed

lemma push_steps:
  "turn g i st op_pc \<Longrightarrow> ok (step_ok g i st) (exec_fn_call op_pc i st)"
  "turn g i st op_gas \<Longrightarrow> ok (step_ok g i st) (exec_fn_call op_gas i st)"
  "turn g i st op_push_small \<Longrightarrow> ok (step_ok g i st) (exec_fn_call op_push_small i st)"
  "turn g i st op_push_full \<Longrightarrow> ok (step_ok g i st) (exec_fn_call op_push_full i st)"
  using push_step [of g i st] turn_arg [of g i st] turn_number [of g i st]
  by (auto simp: exec_pc_def exec_gas_def exec_push_small_def exec_push_full_def turn_def arg_ok_def number_arg_def)


section \<open>Jumps, returns and blocks\<close>

lemma target_step:
  assumes t: "turn g i st f" and f: "f = op_jump \<or> f = op_jumpi" and k: "is_target (analysis st) (int k)"
    and s: "length s \<le> stack_limit"
  shows "step_ok g i st (Some k, st\<lparr>stack := s\<rparr>)"
proof -
  let ?an = "analysis st"
  obtain info where k: "k < length (instrs ?an)" "is_begin (instrs ?an ! k)" "instr_arg (instrs ?an ! k) = arg_block info"
    "1 \<le> info_gas_cost info"
    using k by (auto simp: is_target_def)
  have i: "i < length (instrs ?an)" using t by (simp add: turn_def live_def)
  have "live g k (st\<lparr>stack := s\<rparr>)"
    using t k s by (simp add: turn_def live_def potential_def block_from_begin)
  moreover have "block_cost_at i ?an = 0"
    using t f by (auto simp: block_cost_at_def turn_def is_begin_def split: instruction_argument.split)
  moreover have "block_cost_at k ?an = info_gas_cost info" using k by (simp add: block_cost_at_def)
  moreover have "nat (x - c + 1) + 1 \<le> nat (x - 0 + 1)" if "1 \<le> c" "0 \<le> x" for x c :: int
    using that by arith
  ultimately have "nat (gas_left st - block_cost_at k ?an + 1) + 1 \<le> nat (gas_left st - block_cost_at i ?an + 1)"
    using k(4) t unfolding turn_def live_def by metis
  from mult_le_mono1 [OF this, of "length (instrs ?an)"]
  have "measure_at k (st\<lparr>stack := s\<rparr>) < measure_at i st"
    using i unfolding measure_at_def by (simp add: algebra_simps)
  then show ?thesis using \<open>live g k _\<close> by (simp add: step_ok_def frame_def)
qed

lemma exec_jump_eq:
  assumes "stack st = d # s" "analysis_ok (analysis st)"
  shows "exec_jump st = Some (exit_with EVMC_BAD_JUMP_DESTINATION (st\<lparr>stack := s\<rparr>)) \<or>
    (\<exists>k. is_target (analysis st) (int k) \<and> exec_jump st = Some (Some k, st\<lparr>stack := s\<rparr>))"
proof -
  define pc where "pc = (if 0x7fffffff < d then - 1 else find_jumpdest (analysis st) (sint (ucast d :: u32)))"
  have eq: "exec_jump st = (if pc < 0 then Some (exit_with EVMC_BAD_JUMP_DESTINATION (st\<lparr>stack := s\<rparr>))
      else Some (Some (nat pc), st\<lparr>stack := s\<rparr>))"
    using assms(1) by (simp add: exec_jump_def pc_def Let_def)
  have "pc = - 1 \<or> is_target (analysis st) pc"
    using assms(2) find_jumpdest_result [of "analysis st"] by (auto simp: pc_def analysis_ok_def list_all_iff)
  then show ?thesis by (auto simp: eq)
qed

lemma stack_exit_step:
  "turn g i st f \<Longrightarrow> step_ok g i st (exit_with s (st\<lparr>stack := xs\<rparr>))"
  by (auto simp: turn_def live_def step_ok_def exit_with_def frame_def ended_def potential_def is_static_def)

lemma jump_step:
  assumes t: "turn g i st op_jump"
  shows "ok (step_ok g i st) (exec_fn_call op_jump i st)"
proof -
  obtain d s where st: "stack st = d # s" using turn_runnable [OF t] by (auto simp: runnable_def at_least)
  have "length s \<le> stack_limit" using t st by (simp add: turn_def live_def)
  then show ?thesis
    using exec_jump_eq [OF st] t target_step [OF t] stack_exit_step [OF t] by (auto simp: turn_def)
qed

lemma jumpi_step:
  assumes t: "turn g i st op_jumpi"
  shows "ok (step_ok g i st) (exec_fn_call op_jumpi i st)"
proof -
  obtain d c s where st: "stack st = d # c # s" using turn_runnable [OF t] by (auto simp: runnable_def at_least_num)
  have s: "length s \<le> stack_limit" using t st by (simp add: turn_def live_def)
  have order: "st\<lparr>status := x, stack := s\<rparr> = st\<lparr>stack := s, status := x\<rparr>" for x by simp
  have "effect (- 2) st (EVMC_SUCCESS, st\<lparr>stack := s\<rparr>)"
    using t st by (simp add: turn_def live_def contract_defs)
  then have "step_ok g i st (Some (Suc i), st\<lparr>stack := s\<rparr>)"
    using t effect_next [of g i st op_jumpi] by (simp add: turn_def)
  then show ?thesis
    using exec_jump_eq [OF st] t target_step [OF t _ _ s] stack_exit_step [OF t, of EVMC_BAD_JUMP_DESTINATION s]
    by (auto simp: turn_def exec_jumpi_def st stack_at_def exit_with_def order)
qed

lemma return_step:
  assumes t: "turn g i st (op_return c)"
  shows "ok (step_ok g i st) (exec_fn_call (op_return c) i st)"
proof -
  obtain x y s where st: "stack st = x # y # s" using turn_runnable [OF t] by (auto simp: runnable_def at_least_num)
  obtain b g' m where e: "expand_range (gas_left st) (memory st) x y = (b, g', m)" by (metis prod_cases3)
  have w: "whole_words (memory st)" using t by (simp add: turn_def live_def)
  have "c = EVMC_SUCCESS \<or> c = EVMC_REVERT" using turn_arg [OF t] t by (simp add: arg_ok_def turn_def)
  then show ?thesis
    using t expanded(2) [OF e w]
    by (auto simp: exec_return_def st stack_at_def expand_eqs e turn_def live_def step_ok_def exit_with_def frame_def
        ended_def potential_def is_static_def Let_def)
qed

lemma begin_step:
  assumes t: "turn g i st opx_beginblock"
  shows "ok (step_ok g i st) (exec_fn_call opx_beginblock i st)"
proof -
  let ?an = "analysis st"
  have i: "i < length (instrs ?an)" and b: "is_begin (instrs ?an ! i)" and a: "analysis_ok ?an" and l: "live g i st"
    using t by (simp_all add: turn_def live_def is_begin_def)
  have i1: "Suc i < length (instrs ?an)" using next_instr [OF a i] b by (simp add: is_begin_def)
  obtain info where info: "instr_arg (instrs ?an ! i) = arg_block info"
    "info_ok (length (push_values ?an)) info (block_from (Suc i) (instrs ?an))"
    using closed_at [OF a i b] by blast
  define st1 where "st1 = st\<lparr>gas_left := gas_left st - info_gas_cost info\<rparr>"
  have fail: "step_ok g i st (exit_with s st1)" if "s \<noteq> EVMC_SUCCESS" "s \<noteq> EVMC_REVERT" for s
    using l that info(2)
    by (auto simp: st1_def live_def step_ok_def exit_with_def frame_def ended_def potential_def is_static_def info_ok_def)
  have go: "step_ok g i st (Some (Suc i), st1\<lparr>current_block_cost := info_gas_cost info\<rparr>)"
    if paid: "0 \<le> gas_left st1" "info_stack_req info \<le> int (length (stack st))"
      "int (length (stack st)) + info_stack_max_growth info \<le> int stack_limit"
  proof -
    have l1: "live g (Suc i) (st1\<lparr>current_block_cost := info_gas_cost info\<rparr>)"
      using l paid i1 info(2) by (simp add: st1_def live_def potential_def info_ok_def)
    have "nat (gas_left st1 - block_cost_at (Suc i) ?an + 1) \<le> nat (gas_left st - block_cost_at i ?an + 1)"
      using block_cost_nonneg [OF a i1] b info(1) by (simp add: st1_def block_cost_at_def)
    from mult_le_mono1 [OF this, of "length (instrs ?an)"]
    moreover have "measure_at (Suc i) (st1\<lparr>current_block_cost := info_gas_cost info\<rparr>) =
        nat (gas_left st1 - block_cost_at (Suc i) ?an + 1) * length (instrs ?an) + (length (instrs ?an) - Suc i)"
      by (simp add: measure_at_def st1_def)
    ultimately have "measure_at (Suc i) (st1\<lparr>current_block_cost := info_gas_cost info\<rparr>) < measure_at i st"
      using i1 unfolding measure_at_def [of i st] by linarith
    then show ?thesis using l1 by (simp add: step_ok_def frame_def st1_def)
  qed
  show ?thesis using fail go
    by (auto simp: exec_beginblock_def info(1) charge_def Let_def st1_def [symmetric]) (simp_all add: st1_def)
qed


section \<open>The loop\<close>

lemma exec_instr_ok:
  assumes "live g i st" "analysis_ok (analysis st)" "fair_host (interface (host st))"
  shows "ok (step_ok g i st) (exec_instr i st)"
proof -
  define f where "f = instr_fn (instrs (analysis st) ! i)"
  have t: "turn g i st f" using assms by (simp add: turn_def f_def)
  have "ok (step_ok g i st) (exec_fn_call f i st)"
  proof (cases f)
    case (op_call k static)
    have "ok (step_ok g i st) (with_exact_gas (evm_call k static) i st)"
      by (rule exact_step [OF t]) (simp_all only: op_call call_effect needs_gas_arg_simps exec_fn.distinct not_False_eq_True)
    then show ?thesis by (simp add: op_call)
  next
    case (op_create k)
    have "ok (step_ok g i st) (with_exact_gas (evm_create k) i st)"
      by (rule exact_step [OF t]) (simp_all only: op_create create_effect needs_gas_arg_simps exec_fn.distinct not_False_eq_True)
    then show ?thesis by (simp add: op_create)
  next
    case op_sstore
    have "ok (step_ok g i st) (with_exact_gas evm_sstore i st)"
      by (rule exact_step [OF t]) (simp_all add: op_sstore sstore_effect)
    then show ?thesis by (simp add: op_sstore)
  qed (use t stack_step state_step status_step log_step selfdestruct_step exit_step push_steps jump_step jumpi_step
      return_step begin_step in \<open>fastforce+\<close>)
  then show ?thesis using assms(1) by (simp add: exec_instr_def f_def live_def)
qed

lemma run_ok:
  assumes "live g i st" "analysis_ok (analysis st)" "fair_host (interface (host st))" "measure_at i st \<le> fuel"
  shows "\<exists>st'. run fuel (Some i) st = Finished st' \<and> ended g st' \<and> frame st st'"
  using assms
proof (induction fuel arbitrary: i st)
  case 0
  then show ?case by (simp add: measure_at_def live_def)
next
  case (Suc fuel)
  obtain p st1 where e: "exec_instr i st = Some (p, st1)" and s: "step_ok g i st (p, st1)"
    using ok_some [OF exec_instr_ok [OF Suc.prems(1-3)]] by auto
  show ?case
  proof (cases p)
    case None
    then show ?thesis using e s by (simp add: step_ok_def)
  next
    case (Some j)
    then have "frame st st1" "live g j st1" "measure_at j st1 \<le> fuel"
      using s Suc.prems(4) by (simp_all add: step_ok_def)
    moreover from this have "\<exists>st'. run fuel (Some j) st1 = Finished st' \<and> ended g st' \<and> frame st1 st'"
      using Suc.prems(2,3) by (intro Suc.IH) (simp_all add: frame_def)
    ultimately show ?thesis using e Some frame_trans by fastforce
  qed
qed


lemma run_never_faults:
  assumes "live g i st" "analysis_ok (analysis st)" "fair_host (interface (host st))"
  shows "run fuel (Some i) st = Out_of_fuel \<or> (\<exists>st'. run fuel (Some i) st = Finished st' \<and> ended g st' \<and> frame st st')"
  using assms
proof (induction fuel arbitrary: i st)
  case (Suc fuel)
  obtain p st1 where e: "exec_instr i st = Some (p, st1)" and s: "step_ok g i st (p, st1)"
    using ok_some [OF exec_instr_ok [OF Suc.prems]] by auto
  show ?case
  proof (cases p)
    case None
    then show ?thesis using e s by (simp add: step_ok_def)
  next
    case (Some j)
    then have f: "frame st st1" "live g j st1" using s by (simp_all add: step_ok_def)
    then have "run fuel (Some j) st1 = Out_of_fuel \<or>
        (\<exists>st'. run fuel (Some j) st1 = Finished st' \<and> ended g st' \<and> frame st1 st')"
      using Suc.prems(2,3) by (intro Suc.IH) (simp_all add: frame_def)
    then show ?thesis using e Some frame_trans [OF f(1)] by auto
  qed
qed simp

section \<open>The whole execution\<close>

lemma initial_live:
  assumes "length bs \<le> 0x20000" "0 \<le> gas m"
  shows "live (gas m) 0 (initial_state hi ctx r m bs)"
proof -
  have ok: "analysis_ok (analyze r bs)" using assms(1) by (rule analyze_ok)
  then have "block_from 0 (instrs (analyze r bs)) = []"
    by (intro block_from_begin) (auto simp: analysis_ok_def hd_conv_nth)
  then show ?thesis using ok assms(2)
    by (simp add: live_def initial_state_def analysis_ok_def potential_def memory_price_def whole_words_def)
qed

definition enough_fuel :: "evmc_message \<Rightarrow> bytes \<Rightarrow> nat" where
  "enough_fuel m bs = nat (gas m + 2) * (2 * length bs + 2)"

lemma initial_measure:
  assumes "length bs \<le> 0x20000" "0 \<le> gas m"
  shows "measure_at 0 (initial_state hi ctx r m bs) \<le> enough_fuel m bs"
proof -
  let ?an = "analyze r bs"
  have ok: "analysis_ok ?an" using assms(1) by (rule analyze_ok)
  have "0 \<le> block_cost_at 0 ?an" using ok by (intro block_cost_nonneg) (simp_all add: analysis_ok_def)
  then have "nat (gas m - block_cost_at 0 ?an + 1) * length (instrs ?an) \<le> nat (gas m + 1) * length (instrs ?an)"
    by (intro mult_le_mono1) simp
  moreover have "nat (gas m + 2) * length (instrs ?an) = nat (gas m + 1) * length (instrs ?an) + length (instrs ?an)"
    using assms(2) by (simp add: nat_add_distrib)
  moreover have "nat (gas m + 2) * length (instrs ?an) \<le> nat (gas m + 2) * (2 * length bs + 2)"
    by (intro mult_le_mono2 analyze_length assms(1))
  ultimately have "nat (gas m - block_cost_at 0 ?an + 1) * length (instrs ?an) + length (instrs ?an) \<le> enough_fuel m bs"
    unfolding enough_fuel_def by linarith
  then show ?thesis by (simp add: measure_at_def initial_state_def)
qed

text \<open>What a result promises: the gas and the price of the output stay within the gas of the message.\<close>

definition result_ok :: "evmc_message \<Rightarrow> evmc_result \<Rightarrow> bool" where
  "result_ok m res \<longleftrightarrow>
    0 \<le> result_gas_left res \<and> result_gas_left res + memory_price (length (output_data res)) \<le> gas m \<and>
    (status_code res \<noteq> EVMC_SUCCESS \<and> status_code res \<noteq> EVMC_REVERT \<longrightarrow> result_gas_left res = 0 \<and> output_data res = [])"

lemma make_result_ok:
  assumes "ended (gas m) st" "0 \<le> gas m"
  shows "ok (result_ok m) (make_result st)"
proof (cases "output_size st = 0")
  case True
  have "memory_price (length ([] :: bytes)) = 0" by (simp add: memory_price_def)
  then show ?thesis using assms True memory_price_nonneg [of "length (memory st)"]
    by (auto simp: make_result_def result_ok_def ended_def potential_def)
next
  case False
  then have "memory_price (output_size st) \<le> memory_price (length (memory st))"
    using assms(1) by (intro memory_price_mono) (auto simp: ended_def)
  moreover have "length (take (output_size st) (drop (output_offset st) (memory st))) = output_size st"
    using assms(1) False by (simp add: ended_def) linarith
  ultimately show ?thesis using assms False
    by (auto simp: make_result_def result_ok_def ended_def potential_def simp del: length_take split: if_splits)
qed

lemma execute_cases:
  assumes "fair_host hi" "length bs \<le> 0x20000" "0 \<le> gas m"
  shows "execute fuel hi ctx r m bs = Out_of_fuel \<or>
    (\<exists>res ctx'. execute fuel hi ctx r m bs = Finished (res, ctx') \<and> result_ok m res \<and>
      (static_host hi \<and> flags m AND EVMC_STATIC \<noteq> 0 \<longrightarrow> ctx' = ctx))"
    and "enough_fuel m bs \<le> fuel \<Longrightarrow> execute fuel hi ctx r m bs \<noteq> Out_of_fuel"
proof -
  let ?st = "initial_state hi ctx r m bs"
  have st: "live (gas m) 0 ?st" "analysis_ok (analysis ?st)" "fair_host (interface (host ?st))"
    using assms initial_live analyze_ok by (simp_all add: initial_state_def)
  have fin: "\<exists>res. execute fuel hi ctx r m bs = Finished (res, context_state (host st')) \<and> result_ok m res"
    "static_host hi \<and> flags m AND EVMC_STATIC \<noteq> 0 \<longrightarrow> context_state (host st') = ctx"
    if "run fuel (Some 0) ?st = Finished st'" "ended (gas m) st'" "frame ?st st'" for st'
    using ok_some [OF make_result_ok [OF that(2) assms(3)]] that(1,3)
    by (auto simp: execute_def frame_def is_static_def) (auto simp: initial_state_def)
  show "execute fuel hi ctx r m bs = Out_of_fuel \<or>
    (\<exists>res ctx'. execute fuel hi ctx r m bs = Finished (res, ctx') \<and> result_ok m res \<and>
      (static_host hi \<and> flags m AND EVMC_STATIC \<noteq> 0 \<longrightarrow> ctx' = ctx))"
    using run_never_faults [OF st, of fuel]
  proof
    assume "run fuel (Some 0) ?st = Out_of_fuel"
    then show ?thesis by (simp add: execute_def)
  next
    assume "\<exists>st'. run fuel (Some 0) ?st = Finished st' \<and> ended (gas m) st' \<and> frame ?st st'"
    then obtain st' where st': "run fuel (Some 0) ?st = Finished st'" "ended (gas m) st'" "frame ?st st'" by blast
    from fin(1) [OF this] fin(2) [OF this] show ?thesis by blast
  qed
  show "execute fuel hi ctx r m bs \<noteq> Out_of_fuel" if "enough_fuel m bs \<le> fuel"
    using run_ok [OF st le_trans [OF initial_measure [OF assms(2,3)] that]] fin by fastforce
qed

end
