(* ===== verification/EvmExact.thy ===== *)
theory EvmExact
  imports EvmRun
begin

text \<open>
  The heights of the stack that an instruction insists on. Whatever the machine and the host do, an
  instruction after which the loop goes on found the items its table entry names, and changed
  the height by exactly the number of the entry. Conversely, where these numbers leave room, the
  instruction does not fault.
\<close>

section \<open>Heights after the elementary steps\<close>

lemma st_pop_some: "st_pop st = Some (x, st') \<longleftrightarrow> (\<exists>s. stack st = x # s \<and> st' = st\<lparr>stack := s\<rparr>)"
  by (cases "stack st") (auto simp: st_pop_def)

lemma st_top_some: "st_top st = Some x \<longleftrightarrow> (\<exists>s. stack st = x # s)"
  by (cases "stack st") (auto simp: st_top_def)

lemma st_set_top_some: "st_set_top st y = Some st' \<longleftrightarrow> (\<exists>x s. stack st = x # s \<and> st' = st\<lparr>stack := y # s\<rparr>)"
  by (cases "stack st") (auto simp: st_set_top_def)

lemma st_push_some: "st_push st y = Some st' \<longleftrightarrow> length (stack st) < stack_limit \<and> st' = st\<lparr>stack := y # stack st\<rparr>"
  by (auto simp: st_push_def stack_push_def)

lemma st_write_some: "st_write st i bs = Some st' \<longleftrightarrow> (\<exists>m. memory_write (memory st) i bs = Some m \<and> st' = st\<lparr>memory := m\<rparr>)"
  by (cases "memory_write (memory st) i bs") (auto simp: st_write_def)

lemma stack_at_some: "stack_at s i = Some x \<longleftrightarrow> i < length s \<and> x = s ! i"
  by (auto simp: stack_at_def)

text \<open>What only touches the gas, the memory or the host leaves the stack.\<close>

lemma kept_stack [simp]:
  "stack (snd (check_memory st i n)) = stack st" "stack (snd (check_memory64 st i k)) = stack st"
  "stack (snd (charge st c)) = stack st" "stack (snd (with_tx_context st)) = stack st"
  by (auto simp: expand_eqs charge_def with_tx_context_def Let_def split: prod.splits)

lemmas step_some = Option.bind_eq_Some_conv st_pop_some st_top_some st_set_top_some st_push_some st_write_some stack_at_some

text \<open>What holds of the result if there is one.\<close>

definition after :: "('a \<Rightarrow> bool) \<Rightarrow> 'a option \<Rightarrow> bool" where
  "after Q r = (case r of None \<Rightarrow> True | Some x \<Rightarrow> Q x)"

lemma after_simps [simp]:
  "after Q (Some x) = Q x" "after Q None" "after Q (r \<bind> f) = after (\<lambda>x. after Q (f x)) r"
  "after Q (map_option g r) = after (\<lambda>x. Q (g x)) r"
  by (simp_all add: after_def split: option.splits Option.bind_splits)

lemma after_mono: "after P r \<Longrightarrow> (\<And>x. P x \<Longrightarrow> Q x) \<Longrightarrow> after Q r"
  by (auto simp: after_def split: option.splits)

lemma after_read: "(\<And>bs. Q bs) \<Longrightarrow> after Q (memory_read m i n)"
  by (simp add: after_def split: option.splits)

lemma after_write: "(\<And>m. Q (st\<lparr>memory := m\<rparr>)) \<Longrightarrow> after Q (st_write st i bs)"
  by (cases "memory_write (memory st) i bs") (simp_all add: st_write_def)

lemma st_empty [simp]:
  "stack st = [] \<Longrightarrow> st_pop st = None" "stack st = [] \<Longrightarrow> st_top st = None" "stack st = [] \<Longrightarrow> st_set_top st y = None"
  by (simp_all add: st_pop_def st_top_def st_set_top_def)

lemma after_push: "(length (stack st) < stack_limit \<Longrightarrow> Q (st\<lparr>stack := y # stack st\<rparr>)) \<Longrightarrow> after Q (st_push st y)"
  by (simp add: st_push_def stack_push_def)

lemma list_cases_4:
  obtains "xs = []" | a where "xs = [a]" | a b where "xs = [a, b]" | a b c where "xs = [a, b, c]"
    | a b c d ys where "xs = a # b # c # d # ys"
  by (metis list.exhaust)

lemma list_cases_2:
  obtains "xs = []" | a where "xs = [a]" | a b ys where "xs = a # b # ys"
  by (metis list.exhaust)

section \<open>Going on\<close>

text \<open>\<open>shifts n d st st'\<close>: the stack of \<open>st\<close> has at least \<open>n\<close> items and the stack of \<open>st'\<close> has \<open>d\<close> more than it.\<close>

definition shifts ::
  "nat \<Rightarrow> int \<Rightarrow> ('h, 'z) ExecutionState_scheme \<Rightarrow> ('h, 'z) ExecutionState_scheme \<Rightarrow> bool" where
  "shifts n d st st' \<longleftrightarrow> n \<le> length (stack st) \<and> int (length (stack st')) = int (length (stack st)) + d \<and>
    (length (stack st) \<le> stack_limit \<longrightarrow> length (stack st') \<le> stack_limit)"


abbreviation done_shifts ::
  "nat \<Rightarrow> int \<Rightarrow> ('h, 'z) ExecutionState_scheme \<Rightarrow> evmc_status_code \<times> ('h, 'z) ExecutionState_scheme \<Rightarrow> bool" where
  "done_shifts n d st r \<equiv> fst r = EVMC_SUCCESS \<longrightarrow> shifts n d st (snd r)"

lemma state_fn_shifts:
  assumes "exec_state_fn f st = Some st'"
  shows "shifts (fn_req (op_state f)) (fn_change (op_state f)) st st'"
  using assms
  by (cases f) (auto simp: shifts_def replaces_top_def state_fn_defs step_some case_prod_unfold Let_def split: if_splits)

lemmas status_fn_defs =
  evm_exp_def evm_sha3_def evm_mload_def evm_mstore_def evm_mstore8_def evm_calldatacopy_def evm_codecopy_def
  copy_padded_def evm_extcodecopy_def evm_returndatacopy_def

lemma status_fn_shifts:
  "after (done_shifts (status_fn_req f) (status_fn_change f) st) (exec_status_fn f st)"
  by (cases f; cases "stack st" rule: list_cases_4)
    (auto simp: shifts_def status_fn_defs case_prod_unfold Let_def intro!: after_write after_read)

lemma sstore_shifts: "after (done_shifts 2 (- 2) st) (evm_sstore st)"
  by (cases "stack st" rule: list_cases_4)
    (auto simp: shifts_def evm_sstore_def case_prod_unfold Let_def)

lemma pop_topics_stack:
  "after (\<lambda>r. n \<le> length (stack st) \<and> length (stack (snd r)) = length (stack st) - n) (pop_topics n st)"
proof (induction n arbitrary: st)
  case (Suc n)
  show ?case
  proof (cases "stack st")
    case (Cons x s)
    then show ?thesis using Suc [of "st\<lparr>stack := s\<rparr>"] by (simp add: case_prod_unfold)
  qed simp
qed simp

lemma log_shifts: "after (done_shifts (n + 2) (- int (n + 2)) st) (evm_log n st)"
proof (cases "stack st" rule: list_cases_2)
  case (3 x y s)
  then show ?thesis
    by (auto simp: evm_log_def case_prod_unfold Let_def shifts_def intro!: after_mono [OF pop_topics_stack] after_read)
qed (auto simp: evm_log_def)

text \<open>A host call leaves the height alone once the stack has an item for its result.\<close>

definition same_height :: "nat \<Rightarrow> evmc_status_code \<times> ('h, 'z) ExecutionState_scheme \<Rightarrow> bool" where
  "same_height n r \<longleftrightarrow> fst r = EVMC_SUCCESS \<longrightarrow> length (stack (snd r)) = n"

lemma call_host_height:
  assumes "stack st = x # s"
  shows "after (same_height (Suc (length s))) (call_host m out_offset out_size st)"
  using assms by (auto simp: same_height_def call_host_def case_prod_unfold Let_def intro!: after_write)

lemma call_with_height:
  assumes "stack st = x # s"
  shows "after (same_height (Suc (length s))) (call_with k m g val out_offset out_size st)"
proof -
  have "stack (call_ready c st) = x # s" for c using assms by (simp add: call_ready_def)
  then show ?thesis using assms
    by (auto simp: call_with_eq same_height_def [of _ "(_, _)"] Let_def intro!: call_host_height split: option.split)
qed

lemma create_host_height:
  assumes "stack st = x # s"
  shows "after (same_height (Suc (length s))) (create_host m st)"
  using assms by (auto simp: same_height_def create_host_def case_prod_unfold Let_def)

lemma after_pop: "(\<And>x s. stack st = x # s \<Longrightarrow> Q (x, st\<lparr>stack := s\<rparr>)) \<Longrightarrow> after Q (st_pop st)"
  by (cases "stack st") auto

lemma call_shifts: "after (done_shifts (fn_req (op_call k static)) (fn_change (op_call k static)) st) (evm_call k static st)"
  by (auto simp: shifts_def evm_call_def case_prod_unfold Let_def same_height_def
      intro!: after_pop after_read after_push after_mono [OF call_with_height])

lemma create_shifts: "after (done_shifts (fn_req (op_create k)) (fn_change (op_create k)) st) (evm_create k st)"
  by (cases "stack st" rule: list_cases_4)
    (auto simp: shifts_def evm_create_def case_prod_unfold Let_def same_height_def
      intro!: after_read after_push after_mono [OF create_host_height])

section \<open>Every instruction\<close>

text \<open>An instruction function after which the loop goes on.\<close>

definition goes_on :: "nat \<Rightarrow> int \<Rightarrow> 'h execution_state \<Rightarrow> 'h step_result option \<Rightarrow> bool" where
  "goes_on n d st r \<longleftrightarrow> after (\<lambda>(p, st'). p \<noteq> None \<longrightarrow> shifts n d st st') r"

lemma goes_on_simps [simp]:
  "goes_on n d st (Some (exit_with s st'))" "goes_on n d st None"
  "goes_on n d st (Some (Some j, st')) \<longleftrightarrow> shifts n d st st'"
  by (simp_all add: goes_on_def exit_with_def)

lemma after_done: "after (done_shifts n d st) r \<Longrightarrow> goes_on n d st (map_option (go_on i) r)"
  by (cases r) (auto simp: goes_on_def go_on_def exit_with_def split: prod.splits)

lemma after_exact:
  fixes st :: "'h execution_state"
  assumes "\<And>st'. after (done_shifts n d st') (F st')"
  shows "goes_on n d st (with_exact_gas F i st)"
proof (cases "number_arg i st")
  case (Some k)
  define c where "c = current_block_cost st - k"
  have s: "shifts n d (st\<lparr>gas_left := gas_left st + c\<rparr>) st' \<Longrightarrow> shifts n d st (snd (charge st' c))" for st' :: "'h execution_state"
    by (simp add: shifts_def)
  show ?thesis
    using assms [of "st\<lparr>gas_left := gas_left st + c\<rparr>"] s
    by (cases "F (st\<lparr>gas_left := gas_left st + c\<rparr>)")
      (auto simp: with_exact_gas_def Some c_def [symmetric] Let_def case_prod_unfold)
qed (simp add: with_exact_gas_def)

lemma stack_fn_height:
  assumes "exec_stack_fn f s = Some s'"
  shows "stack_fn_req f \<le> length s" "int (length s') = int (length s) + stack_fn_change f"
    "length s \<le> stack_limit \<Longrightarrow> length s' \<le> stack_limit"
proof -
  show r: "stack_fn_req f \<le> length s" using assms stack_fn_short [of s f] by (cases "length s < stack_fn_req f") auto
  have "int (length s') = int (length s) + stack_fn_change f \<and> (length s \<le> stack_limit \<longrightarrow> length s' \<le> stack_limit)"
  proof (cases f)
    case (fn_dup n)
    then show ?thesis using assms by (auto simp: dup_eval split: if_splits)
  next
    case (fn_swap n)
    then show ?thesis using assms by (auto simp: swap_eval split: if_splits)
  qed (use assms r in \<open>auto simp: at_least at_least_num arith_eval compare_eval signextend_eval sar_eval
      simp del: length_greater_0_conv\<close>)
  then show "int (length s') = int (length s) + stack_fn_change f" "length s \<le> stack_limit \<Longrightarrow> length s' \<le> stack_limit"
    by simp_all
qed

lemma stack_fn_exact:
  assumes "length s \<le> stack_limit"
  shows "exec_stack_fn f s \<noteq> None \<longleftrightarrow> stack_fn_req f \<le> length s \<and> int (length s) + stack_fn_change f \<le> int stack_limit"
  using stack_fn_height [of f s] ok_some [OF stack_fn_effect [of f s]] assms by fastforce

lemma stack_fn_goes: "goes_on (stack_fn_req f) (stack_fn_change f) st (exec_fn_call (op_stack f) i st)"
  by (cases "exec_stack_fn f (stack st)") (simp_all add: shifts_def stack_fn_height)

lemma jump_goes:
  "goes_on 1 (- 1) st (exec_jump st)" "goes_on 2 (- 2) st (exec_jumpi i st)"
proof -
  show "goes_on 1 (- 1) st (exec_jump st)"
    by (cases "stack st") (auto simp: exec_jump_def shifts_def Let_def)
  show "goes_on 2 (- 2) st (exec_jumpi i st)"
    by (cases "stack st" rule: list_cases_2)
      (auto simp: exec_jumpi_def exec_jump_def shifts_def Let_def exit_with_def goes_on_def)
qed

lemma push_goes: "goes_on 0 1 st (st_push st x \<bind> (\<lambda>st. Some (Some j, st)))"
  by (auto simp: goes_on_def shifts_def intro!: after_push)

lemma pushes_go:
  "goes_on 0 1 st (exec_pc i st)" "goes_on 0 1 st (exec_gas i st)"
  "goes_on 0 1 st (exec_push_small i st)" "goes_on 0 1 st (exec_push_full i st)"
  by (auto simp: exec_pc_def exec_gas_def exec_push_small_def exec_push_full_def push_goes Let_def
      split: Option.bind_split instruction_argument.split)

lemma ends_go:
  "goes_on n d st (exec_return c st)" "goes_on n d st (map_option (\<lambda>(s, st). exit_with s st) r)"
  "goes_on 0 0 st (exec_beginblock i st)"
proof -
  show "goes_on n d st (exec_return c st)"
    by (cases "stack st" rule: list_cases_2) (simp_all add: exec_return_def stack_at_def Let_def case_prod_unfold)
  show "goes_on n d st (map_option (\<lambda>(s, st). exit_with s st) r)" by (cases r) (simp_all add: case_prod_unfold)
  show "goes_on 0 0 st (exec_beginblock i st)"
    by (simp add: exec_beginblock_def Let_def case_prod_unfold shifts_def split: instruction_argument.split)
qed

lemma instruction_goes_on: "goes_on (fn_req f) (fn_change f) st (exec_fn_call f i st)"
proof (cases f)
  case (op_state g)
  then show ?thesis using state_fn_shifts [of g st]
    by (cases "exec_state_fn g st") simp_all
next
  case (op_stack g)
  then show ?thesis using stack_fn_goes [of g st i] by simp
next
  case (op_log n)
  then show ?thesis using after_done [OF log_shifts] by simp
next
  case (op_call k static)
  show ?thesis unfolding op_call exec_fn_call.simps by (rule after_exact [OF call_shifts])
next
  case (op_create k)
  show ?thesis unfolding op_create exec_fn_call.simps by (rule after_exact [OF create_shifts])
qed (use after_done [OF status_fn_shifts] jump_goes in \<open>simp_all add: pushes_go ends_go after_exact [OF sstore_shifts]\<close>)

section \<open>Instructions that can run\<close>

text \<open>
  What an instruction relies on beside the stack: the argument the analysis wrote is of its kind, the gas is
  not negative, the memory holds whole words, and the host keeps its promises.
\<close>

definition ready :: "exec_fn \<Rightarrow> nat \<Rightarrow> 'h execution_state \<Rightarrow> bool" where
  "ready f i st \<longleftrightarrow>
    instr_fn (instrs (analysis st) ! i) = f \<and>
    arg_ok (current_block_cost st) (length (push_values (analysis st))) (instrs (analysis st) ! i) \<and>
    (f = opx_beginblock \<longrightarrow> (\<exists>info. instr_arg (instrs (analysis st) ! i) = arg_block info)) \<and>
    0 \<le> gas_left st \<and> whole_words (memory st) \<and> fair_host (interface (host st))"

lemma exact_runs:
  assumes r: "ready f i st" "needs_gas_arg f" "runnable n d st"
    and F: "\<And>st'. runnable n d st' \<Longrightarrow> ok (Q st') (F st')"
  shows "with_exact_gas F i st \<noteq> None"
proof -
  obtain k where k: "number_arg i st = Some k" "k \<le> current_block_cost st"
    using r(1,2) by (auto simp: ready_def arg_ok_def number_arg_def)
  have "runnable n d (st\<lparr>gas_left := gas_left st + (current_block_cost st - k)\<rparr>)"
    using r(3) k(2) by (simp add: runnable_def)
  from ok_some [OF F [OF this]] show ?thesis
    by (auto simp: with_exact_gas_def k(1) case_prod_unfold Let_def)
qed

lemma instruction_runs:
  assumes "ready f i st" "fn_req f \<le> length (stack st)" "int (length (stack st)) + fn_change f \<le> int stack_limit"
    "length (stack st) \<le> stack_limit"
  shows "exec_fn_call f i st \<noteq> None"
proof -
  have r: "runnable (fn_req f) (fn_change f) st" using assms by (simp add: runnable_def ready_def)
  show ?thesis
  proof (cases f)
    case (op_stack g)
    then show ?thesis using ok_some [OF stack_fn_effect [of g "stack st"]] r by (auto simp: runnable_def)
  next
    case (op_state g)
    then show ?thesis using ok_some [OF state_fn_effect] r by fastforce
  next
    case (op_status g)
    then show ?thesis using ok_some [OF status_fn_effect] r by fastforce
  next
    case op_sstore
    have "runnable 2 (- 2) st" using r by (simp add: op_sstore)
    then show ?thesis using exact_runs [OF assms(1) _ _ sstore_effect] by (simp add: op_sstore)
  next
    case (op_log n)
    then show ?thesis using ok_some [OF log_effect [of n st]] r by auto
  next
    case (op_call k static)
    show ?thesis unfolding op_call exec_fn_call.simps
      by (rule exact_runs [OF assms(1) _ r [unfolded op_call] call_effect]) (simp_all add: op_call)
  next
    case (op_create k)
    show ?thesis unfolding op_create exec_fn_call.simps
      by (rule exact_runs [OF assms(1) _ r [unfolded op_create] create_effect]) (simp_all add: op_create)
  next
    case op_selfdestruct
    have "runnable 1 0 st" using op_selfdestruct assms by (simp add: runnable_def ready_def)
    then show ?thesis using ok_some [OF selfdestruct_effect] op_selfdestruct by fastforce
  next
    case op_jump
    then show ?thesis using assms by (cases "stack st") (auto simp: exec_jump_def Let_def)
  next
    case op_jumpi
    then show ?thesis using assms
      by (cases "stack st" rule: list_cases_2) (auto simp: exec_jumpi_def exec_jump_def Let_def exit_with_def)
  next
    case (op_return c)
    then show ?thesis using assms
      by (cases "stack st" rule: list_cases_2) (auto simp: exec_return_def stack_at_def Let_def case_prod_unfold)
  qed (use assms in \<open>auto simp: ready_def arg_ok_def exec_pc_def exec_gas_def exec_push_small_def exec_push_full_def
      exec_beginblock_def number_arg_def st_push_def stack_push_def Let_def case_prod_unfold\<close>)
qed

end
