(* ===== verification/EvmStack.thy ===== *)
theory EvmStack
  imports EvmState
begin

text \<open>
  The stack as the code has it (\<^verbatim>\<open>evm_stack\<close> of \<^verbatim>\<open>execution_state.hpp\<close>): an array of 1024 words and
  a pointer to the top item, one below the array when the stack is empty. The other theories
  use the list of the items, the top first. A locale states what they rely on; its client runs
  any sequence of stack operations, and the array meets the contract.

  A pointer is its offset in the array. Reading or writing outside of it is \<^term>\<open>None\<close>.
\<close>

section \<open>The contract\<close>

datatype stack_op = Size | At nat | Put nat uint256 | Push uint256 | Pop

text \<open>The operations one after the other, with the values they return.\<close>

fun run_op ::
  "('s \<Rightarrow> int) \<Rightarrow> ('s \<Rightarrow> nat \<Rightarrow> uint256 option) \<Rightarrow> ('s \<Rightarrow> nat \<Rightarrow> uint256 \<Rightarrow> 's option) \<Rightarrow>
    ('s \<Rightarrow> uint256 \<Rightarrow> 's option) \<Rightarrow> ('s \<Rightarrow> (uint256 \<times> 's) option) \<Rightarrow> stack_op \<Rightarrow> 's \<Rightarrow> (int list \<times> 's) option" where
  "run_op size_of at_of put_of push_of pop_of Size s = Some ([size_of s], s)"
| "run_op size_of at_of put_of push_of pop_of (At k) s = map_option (\<lambda>x. ([uint x], s)) (at_of s k)"
| "run_op size_of at_of put_of push_of pop_of (Put k x) s = map_option (\<lambda>s. ([], s)) (put_of s k x)"
| "run_op size_of at_of put_of push_of pop_of (Push x) s = map_option (\<lambda>s. ([], s)) (push_of s x)"
| "run_op size_of at_of put_of push_of pop_of Pop s = map_option (\<lambda>(x, s). ([uint x], s)) (pop_of s)"

fun run_ops :: "(stack_op \<Rightarrow> 's \<Rightarrow> (int list \<times> 's) option) \<Rightarrow> stack_op list \<Rightarrow> 's \<Rightarrow> (int list \<times> 's) option" where
  "run_ops f [] s = Some ([], s)"
| "run_ops f (op # ops) s = do { (o1, s) \<leftarrow> f op s; (o2, s) \<leftarrow> run_ops f ops s; Some (o1 @ o2, s) }"

definition list_op :: "stack_op \<Rightarrow> evm_stack \<Rightarrow> (int list \<times> evm_stack) option" where
  "list_op = run_op (\<lambda>s. int (length s)) stack_at stack_put stack_push stack_pop"

locale stack_contract =
  fixes abs :: "'s \<Rightarrow> evm_stack" and inv :: "'s \<Rightarrow> bool"
    and size_of :: "'s \<Rightarrow> int" and at_of :: "'s \<Rightarrow> nat \<Rightarrow> uint256 option"
    and put_of :: "'s \<Rightarrow> nat \<Rightarrow> uint256 \<Rightarrow> 's option" and push_of :: "'s \<Rightarrow> uint256 \<Rightarrow> 's option"
    and pop_of :: "'s \<Rightarrow> (uint256 \<times> 's) option"
  assumes size_law: "inv s \<Longrightarrow> size_of s = int (length (abs s))"
    and at_law: "inv s \<Longrightarrow> at_of s k = stack_at (abs s) k"
    and put_law: "inv s \<Longrightarrow> map_option abs (put_of s k x) = stack_put (abs s) k x"
    and push_law: "inv s \<Longrightarrow> map_option abs (push_of s x) = stack_push (abs s) x"
    and pop_law: "inv s \<Longrightarrow> map_option (map_prod id abs) (pop_of s) = stack_pop (abs s)"
    and inv_laws: "inv s \<Longrightarrow> put_of s k x = Some s' \<Longrightarrow> inv s'" "inv s \<Longrightarrow> push_of s x = Some s' \<Longrightarrow> inv s'"
      "inv s \<Longrightarrow> pop_of s = Some (y, s') \<Longrightarrow> inv s'"
begin

abbreviation op_of :: "stack_op \<Rightarrow> 's \<Rightarrow> (int list \<times> 's) option" where
  "op_of \<equiv> run_op size_of at_of put_of push_of pop_of"

lemma op_refines: "inv s \<Longrightarrow> map_option (map_prod id abs) (op_of op s) = list_op op (abs s)"
  using size_law at_law put_law push_law pop_law
  by (cases op)
    (simp_all add: list_op_def option.map_comp comp_def case_prod_unfold map_prod_def flip: put_law push_law pop_law)

lemma op_inv: "inv s \<Longrightarrow> op_of op s = Some (os, s') \<Longrightarrow> inv s'"
  by (cases op) (auto dest: inv_laws)

lemma ops_refine: "inv s \<Longrightarrow> map_option (map_prod id abs) (run_ops op_of ops s) = run_ops list_op ops (abs s)"
proof (induction ops arbitrary: s)
  case (Cons op ops)
  show ?case
  proof (cases "op_of op s")
    case None
    then show ?thesis using op_refines [OF Cons.prems, of op, symmetric] by simp
  next
    case (Some r)
    obtain os s1 where r: "r = (os, s1)" by fastforce
    have "inv s1" using Cons.prems op_inv Some r by blast
    moreover have "list_op op (abs s) = Some (os, abs s1)"
      using op_refines [OF Cons.prems, of op, symmetric] by (simp add: Some r)
    ultimately show ?thesis
      using Cons.IH [of s1, symmetric] by (cases "run_ops op_of ops s1") (auto simp: Some r)
  qed
qed simp

lemma ops_inv: "inv s \<Longrightarrow> run_ops op_of ops s = Some (os, s') \<Longrightarrow> inv s'"
  by (induction ops arbitrary: s os) (auto split: Option.bind_splits, metis op_inv)

end

section \<open>The array\<close>

record array_stack =
  top_item :: int
  storage :: "uint256 list"

definition in_storage :: "array_stack \<Rightarrow> int \<Rightarrow> bool" where
  "in_storage s p \<longleftrightarrow> 0 \<le> p \<and> p < int (length (storage s))"

definition array_new :: array_stack where
  "array_new = \<lparr>top_item = - 1, storage = replicate stack_limit 0\<rparr>"

definition array_size :: "array_stack \<Rightarrow> int" where
  "array_size s = top_item s + 1"

definition array_at :: "array_stack \<Rightarrow> nat \<Rightarrow> uint256 option" where
  "array_at s index =
    (let p = top_item s - int index in if in_storage s p then Some (storage s ! nat p) else None)"

definition array_put :: "array_stack \<Rightarrow> nat \<Rightarrow> uint256 \<Rightarrow> array_stack option" where
  "array_put s index x =
    (let p = top_item s - int index
     in if in_storage s p then Some (s\<lparr>storage := (storage s)[nat p := x]\<rparr>) else None)"

definition array_top :: "array_stack \<Rightarrow> uint256 option" where
  "array_top s = (if in_storage s (top_item s) then Some (storage s ! nat (top_item s)) else None)"

definition array_push :: "array_stack \<Rightarrow> uint256 \<Rightarrow> array_stack option" where
  "array_push s item =
    (let s = s\<lparr>top_item := top_item s + 1\<rparr>
     in if in_storage s (top_item s) then Some (s\<lparr>storage := (storage s)[nat (top_item s) := item]\<rparr>) else None)"

definition array_pop :: "array_stack \<Rightarrow> (uint256 \<times> array_stack) option" where
  "array_pop s =
    (if in_storage s (top_item s) then Some (storage s ! nat (top_item s), s\<lparr>top_item := top_item s - 1\<rparr>) else None)"

definition array_inv :: "array_stack \<Rightarrow> bool" where
  "array_inv s \<longleftrightarrow> length (storage s) = stack_limit \<and> - 1 \<le> top_item s \<and> top_item s < int stack_limit"

definition array_items :: "array_stack \<Rightarrow> evm_stack" where
  "array_items s = rev (take (nat (top_item s + 1)) (storage s))"

lemma array_new: "array_inv array_new" "array_items array_new = []"
  by (simp_all add: array_inv_def array_new_def array_items_def stack_limit_def)

text \<open>The height as a natural number.\<close>

lemma array_cases:
  assumes "array_inv s"
  obtains n xs where "s = \<lparr>top_item = int n - 1, storage = xs\<rparr>" "length xs = stack_limit" "n \<le> stack_limit"
    "array_items s = rev (take n xs)"
proof -
  obtain t xs where s: "s = \<lparr>top_item = t, storage = xs\<rparr>" by (cases s)
  have "t = int (nat (t + 1)) - 1" using assms by (simp add: s array_inv_def)
  then show ?thesis
    using assms by (intro that [of "nat (t + 1)" xs]) (auto simp: s array_inv_def array_items_def)
qed

lemma rev_take_nth: "k < n \<Longrightarrow> n \<le> length xs \<Longrightarrow> rev (take n xs) ! k = xs ! (n - 1 - k)"
  by (simp add: rev_nth)

lemma rev_take_update:
  "k < n \<Longrightarrow> n \<le> length xs \<Longrightarrow> (rev (take n xs))[k := x] = rev (take n (xs[n - 1 - k := x]))"
  by (simp add: rev_update take_update_swap)

lemma rev_take_Suc: "n < length xs \<Longrightarrow> rev (take (Suc n) xs) = xs ! n # rev (take n xs)"
  by (simp add: take_Suc_conv_app_nth)

interpretation ar: stack_contract array_items array_inv array_size array_at array_put array_push array_pop
proof
  fix s k x assume inv: "array_inv s"
  then obtain n xs where s: "s = \<lparr>top_item = int n - 1, storage = xs\<rparr>" "length xs = stack_limit" "n \<le> stack_limit"
    and items: "array_items s = rev (take n xs)"
    by (rule array_cases)
  have p: "nat (int n - 1 - int k) = n - 1 - k" by simp
  show "array_size s = int (length (array_items s))" using s(2,3) by (simp add: items) (simp add: s(1) array_size_def)
  show "array_at s k = stack_at (array_items s) k"
    using s(2,3) unfolding items stack_at_def array_at_def Let_def
    by (auto simp: s(1) in_storage_def rev_take_nth p)
  show "map_option array_items (array_put s k x) = stack_put (array_items s) k x"
    using s(2,3) unfolding items stack_put_def array_put_def Let_def
    by (auto simp: s(1) in_storage_def rev_take_update p array_items_def)
  show "map_option array_items (array_push s x) = stack_push (array_items s) x"
    using s(2,3) unfolding items stack_push_def array_push_def Let_def
    by (auto simp: s(1) in_storage_def array_items_def rev_take_Suc nat_add_distrib)
  show "map_option (map_prod id array_items) (array_pop s) = stack_pop (array_items s)"
    using s(2,3) unfolding items array_pop_def
    by (cases n) (auto simp: s(1) in_storage_def array_items_def rev_take_Suc)
next
  fix s k x s' y assume "array_inv s"
  then show "array_put s k x = Some s' \<Longrightarrow> array_inv s'" "array_push s x = Some s' \<Longrightarrow> array_inv s'"
    "array_pop s = Some (y, s') \<Longrightarrow> array_inv s'"
    by (auto simp: array_inv_def array_put_def array_push_def array_pop_def in_storage_def Let_def split: if_splits)
qed

lemma array_top: "array_inv s \<Longrightarrow> array_top s = stack_at (array_items s) 0"
  using ar.at_law [of s 0] by (simp add: array_at_def array_top_def Let_def)

end
