(* ===== verification/EvmArithSpec.thy ===== *)
theory EvmArithSpec
  imports EvmArith
begin

text \<open>
  What the stack instructions compute, in terms of integers: two's-complement numbers, exact
  sums and products before a reduction, powers, and the bytes of a number.
\<close>

section \<open>Signed division\<close>

lemma uint_less_256: "uint (x :: uint256) < 2 ^ 256"
  using uint_bounded [of x] by simp

lemma sint_cases: "sint x = (if bit x 255 then uint x - 2 ^ 256 else uint x)" for x :: uint256
proof -
  have "sint x = signed_take_bit 255 (uint x)" by (simp add: sint_uint)
  also have "\<dots> = take_bit 256 (uint x) - 2 ^ 256 * of_bool (bit x 255)"
    by (simp add: signed_take_bit_eq_take_bit_minus bit_unsigned_iff numeral_eq_Suc)
  also have "take_bit 256 (uint x) = uint x"
    using uint_less_256 by (simp add: take_bit_int_eq_self)
  finally show ?thesis by simp
qed

lemma uint_minus: "x \<noteq> 0 \<Longrightarrow> uint (- x) = 2 ^ 256 - uint x" for x :: uint256
  using uint_less_256 [of x] uint_0_iff [of x] uint_nonnegative [of x]
  by (simp add: uint_word_ariths zmod_zminus1_eq_if)

lemma negative_sign: "x AND push_bit 255 1 \<noteq> 0 \<longleftrightarrow> sint x < 0" for x :: uint256
  using uint_less_256 [of x] by (simp add: sint_cases and_bit_zero [of x 255, simplified])

text \<open>The absolute value, as an unsigned number.\<close>

lemma uint_abs: "uint (if sint x < 0 then - x else x) = \<bar>sint x\<bar>" for x :: uint256
  using uint_minus [of x] uint_less_256 [of x] by (cases "x = 0") (auto simp: sint_cases)

lemma sdivrem_value:
  "fst (sdivrem u v) = word_of_int (sint u sdiv sint v)"
  "snd (sdivrem u v) = word_of_int (sint u smod sint v)"
proof -
  let ?ua = "if sint u < 0 then - u else u" and ?va = "if sint v < 0 then - v else v"
  have q: "?ua div ?va = word_of_int (\<bar>sint u\<bar> div \<bar>sint v\<bar>)"
    by (simp only: word_div_def uint_abs)
  have r: "?ua mod ?va = word_of_int (\<bar>sint u\<bar> mod \<bar>sint v\<bar>)"
    by (simp only: word_mod_def uint_abs)
  show "fst (sdivrem u v) = word_of_int (sint u sdiv sint v)"
    unfolding sdivrem_def Let_def fst_conv negative_sign q
    by (cases "sint u" "0 :: int" rule: linorder_cases; cases "sint v" "0 :: int" rule: linorder_cases)
      (simp_all add: signed_divide_int_def)
  show "snd (sdivrem u v) = word_of_int (sint u smod sint v)"
    unfolding sdivrem_def Let_def snd_conv negative_sign r
    by (cases "sint u" "0 :: int" rule: linorder_cases) (simp_all add: signed_modulo_int_def)
qed

section \<open>Modular sums and products, powers\<close>

lemma uint_ucast_512: "uint (ucast (x :: uint256) :: 512 word) = uint x"
  by (simp add: unsigned_ucast_eq take_bit_int_eq_self uint_less_256 order_less_trans [OF uint_less_256])

lemma ucast_mod_512:
  assumes "m \<noteq> 0"
  shows "uint (ucast (s mod ucast m :: 512 word) :: uint256) = uint s mod uint (m :: uint256)"
proof -
  have m: "0 < uint m" using assms uint_0_iff [of m] uint_nonnegative [of m] by linarith
  have "uint (s mod ucast m :: 512 word) = uint s mod uint m"
    by (simp add: uint_mod uint_ucast_512)
  moreover have "0 \<le> uint s mod uint m" "uint s mod uint m < 2 ^ 256"
    using m pos_mod_sign [OF m] less_trans [OF pos_mod_bound [OF m] uint_less_256] by blast+
  ultimately show ?thesis by (simp add: unsigned_ucast_eq take_bit_int_eq_self)
qed

lemma addmod_value:
  assumes "m \<noteq> 0"
  shows "uint (uint_addmod x y m) = (uint x + uint y) mod uint m"
proof -
  let ?v = "x + y"
  have c: "?v < x \<longleftrightarrow> 2 ^ 256 \<le> uint x + uint y"
    using uint_less_256 [of x] uint_less_256 [of y] uint_plus_if' [of x y]
    by (auto simp: word_less_def split: if_splits)
  have "uint ?v = uint x + uint y - 2 ^ 256 * of_bool (?v < x)"
    using uint_plus_if' [of x y] c by (auto split: if_splits)
  moreover have "uint (push_bit 256 (of_bool (?v < x)) OR ucast ?v :: 512 word) = 2 ^ 256 * of_bool (?v < x) + uint ?v"
  proof -
    have "push_bit 256 (of_bool (?v < x)) AND (ucast ?v :: 512 word) = 0"
      by (rule bit_word_eqI) (auto simp: bit_simps dest: bit_imp_le_length)
    then have "push_bit 256 (of_bool (?v < x)) OR ucast ?v = (push_bit 256 (of_bool (?v < x)) + ucast ?v :: 512 word)"
      by (simp only: disjunctive_add_eq_or)
    moreover have "uint (push_bit 256 (of_bool (?v < x)) + ucast ?v :: 512 word) = 2 ^ 256 * of_bool (?v < x) + uint ?v"
      using uint_less_256 [of ?v] by (cases "?v < x") (simp_all add: uint_word_ariths uint_ucast_512)
    ultimately show ?thesis by simp
  qed
  ultimately have "uint (push_bit 256 (of_bool (?v < x)) OR ucast ?v :: 512 word) = uint x + uint y" by simp
  then show ?thesis unfolding uint_addmod_def Let_def ucast_mod_512 [OF assms] by simp
qed

lemma mulmod_value:
  assumes "m \<noteq> 0"
  shows "uint (uint_mulmod x y m) = uint x * uint y mod uint m"
proof -
  have "uint x * uint y < 2 ^ 256 * 2 ^ 256"
    using uint_less_256 uint_nonnegative by (intro mult_strict_mono') simp_all
  then have "uint (ucast x * ucast y :: 512 word) = uint x * uint y"
    by (simp add: uint_word_ariths uint_ucast_512)
  then show ?thesis unfolding uint_mulmod_def ucast_mod_512 [OF assms] by simp
qed

lemma exp_loop_value: "exp_loop r b e = r * b ^ unat e"
proof (induction r b e rule: exp_loop.induct)
  case (1 r b e)
  show ?case
  proof (cases "e = 0")
    case False
    have h: "unat (drop_bit 1 e) = unat e div 2" by (simp add: drop_bit_eq_div unat_div)
    have o: "e AND 1 \<noteq> 0 \<longleftrightarrow> odd (unat e)"
      using and_bit_zero [of e 0] bit_unsigned_iff [of e 0, where ?'a = nat] by (simp add: bit_0)
    have "b ^ unat e = (if odd (unat e) then b else 1) * (b * b) ^ (unat e div 2)"
      by (cases "odd (unat e)") (auto simp: power_mult_distrib elim!: oddE evenE simp flip: power_add mult_2)
    then show ?thesis using False 1 [OF False refl] by (subst exp_loop.simps) (simp add: h [simplified] o mult.assoc)
  qed (simp add: exp_loop.simps)
qed

lemma exp_value: "uint_exp b e = b ^ unat e"
proof (cases "b = 2")
  case True
  show ?thesis
  proof (cases "e < 256")
    case False
    then have "256 \<le> unat e" by (simp add: word_less_nat_alt not_less)
    then have "(2 :: uint256) ^ unat e = 0" by simp
    then show ?thesis using True False by (simp add: uint_exp_def shift_left_def)
  qed (use True in \<open>simp add: uint_exp_def shift_left_def\<close>)
qed (simp add: uint_exp_def exp_loop_value)

section \<open>Signs, shifts and bytes\<close>

lemma sign_extension_value:
  "ext < 31 \<Longrightarrow> sign_extension ext x = signed_take_bit (8 * unat ext + 7) x"
  by (auto simp: sign_extension_def mult.commute bit_eq_iff bit_simps min_def)

lemma arithmetic_shift_value: "sint (arithmetic_shift y x) = sint y div 2 ^ unat x"
proof -
  have "arithmetic_shift y x = signed_drop_bit (unat x) y"
  proof (cases "x < 256")
    case True
    then have "unat x < 256" by (simp add: word_less_nat_alt)
    then show ?thesis using True
      by (intro bit_word_eqI) (auto simp: arithmetic_shift_def shift_right_def bit_simps not_le dest: bit_imp_le_length)
  next
    case False
    then have "256 \<le> unat x" by (simp add: word_less_nat_alt not_less)
    then show ?thesis using False
      by (intro bit_word_eqI) (auto simp: arithmetic_shift_def shift_right_def bit_simps dest: bit_imp_le_length)
  qed
  then show ?thesis by (simp add: sint_signed_drop_bit_eq drop_bit_eq_div)
qed

lemma shift_value:
  "shift_left x n = push_bit (unat n) x" "shift_right x n = drop_bit (unat n) x"
proof -
  have "256 \<le> unat n" if "\<not> n < 256" using that by (simp add: word_less_nat_alt not_less)
  then show "shift_left x n = push_bit (unat n) x" "shift_right x n = drop_bit (unat n) x"
    by (auto simp: shift_left_def shift_right_def bit_eq_iff bit_simps dest: bit_imp_le_length)
qed

lemma top_bit: "drop_bit 255 x = of_bool (sint x < 0)" for x :: uint256
proof -
  have "bit x (255 + n) \<longleftrightarrow> bit x 255 \<and> n = 0" for n
    by (cases n) (auto dest: bit_imp_le_length)
  then have "drop_bit 255 x = of_bool (bit x 255)"
    by (intro bit_word_eqI) (auto simp: bit_simps bit_1_iff)
  moreover have "bit x 255 \<longleftrightarrow> sint x < 0" using uint_less_256 [of x] by (simp add: sint_cases)
  ultimately show ?thesis by simp
qed

lemma signed_compare:
  "(if drop_bit 255 x XOR drop_bit 255 y \<noteq> 0 then drop_bit 255 x else of_bool (x < y)) = of_bool (sint x < sint y)"
  "(if drop_bit 255 x XOR drop_bit 255 y \<noteq> 0 then drop_bit 255 y else of_bool (y < x)) = of_bool (sint y < sint x)"
  for x y :: uint256
proof -
  have "sint v < sint w \<longleftrightarrow> (if bit v 255 = bit w 255 then uint v < uint w else bit v 255)" for v w :: uint256
    unfolding sint_cases using uint_less_256 [of v] uint_less_256 [of w] uint_nonnegative [of v] uint_nonnegative [of w]
    by (cases "bit v 255"; cases "bit w 255"; simp only: if_True if_False simp_thms; linarith)
  moreover have "sint v < 0 \<longleftrightarrow> bit v 255" for v :: uint256
    using uint_less_256 [of v] by (simp add: sint_cases)
  ultimately show
    "(if drop_bit 255 x XOR drop_bit 255 y \<noteq> 0 then drop_bit 255 x else of_bool (x < y)) = of_bool (sint x < sint y)"
    "(if drop_bit 255 x XOR drop_bit 255 y \<noteq> 0 then drop_bit 255 y else of_bool (y < x)) = of_bool (sint y < sint x)"
    by (auto simp: top_bit word_less_def)
qed

lemma nth_le_bytes: "i < n \<Longrightarrow> le_bytes n w ! i = ucast (drop_bit (8 * i) w)"
  by (simp add: le_bytes_def)

lemma byte_value: "n \<le> 31 \<Longrightarrow> drop_bit ((31 - unat n) * 8) x AND 0xff = ucast (be_store x ! unat n)" for n x :: uint256
proof -
  assume "n \<le> 31"
  then have n: "unat n < 32" by (simp add: word_le_nat_alt)
  then have b: "be_store x ! unat n = ucast (drop_bit (8 * (31 - unat n)) x)"
    by (simp add: be_store_def nth_le_bytes rev_nth)
  have m: "(0xff :: uint256) = mask 8" by (simp add: mask_eq_exp_minus_1)
  show ?thesis unfolding b m
    by (intro bit_word_eqI) (auto simp: bit_simps mult.commute)
qed

lemma count_significant_value:
  "x < 2 ^ (8 * 2 ^ k) \<Longrightarrow>
    count_significant k x \<le> 2 ^ k \<and> x < 256 ^ count_significant k x \<and>
    (count_significant k x \<noteq> 0 \<longrightarrow> 256 ^ (count_significant k x - 1) \<le> x)"
proof (induction k arbitrary: x)
  case (Suc k)
  define b :: nat where "b = 2 ^ (8 * 2 ^ k)"
  have b: "b = 256 ^ 2 ^ k" unfolding b_def by (simp add: power_mult)
  have "(2 :: nat) ^ (8 * 2 ^ Suc k) = b * b" unfolding b_def by (simp add: power_add [symmetric])
  then have "x div b < b" using Suc.prems by (simp add: less_mult_imp_div_less)
  moreover have "x mod b < b" unfolding b_def by simp
  ultimately have IH: "count_significant k (x div b) \<le> 2 ^ k" "x div b < 256 ^ count_significant k (x div b)"
      "count_significant k (x div b) \<noteq> 0 \<Longrightarrow> 256 ^ (count_significant k (x div b) - 1) \<le> x div b"
      "count_significant k (x mod b) \<le> 2 ^ k" "x mod b < 256 ^ count_significant k (x mod b)"
      "count_significant k (x mod b) \<noteq> 0 \<Longrightarrow> 256 ^ (count_significant k (x mod b) - 1) \<le> x mod b"
    using Suc.IH unfolding b_def by blast+
  define h where "h = count_significant k (x div b)"
  show ?case
  proof (cases "h = 0")
    case True
    then have "x div b = 0" using IH(2) unfolding h_def by simp
    then have "x mod b = x" unfolding b_def by (simp add: div_eq_0_iff)
    then have "count_significant (Suc k) x = count_significant k x" using True unfolding h_def b_def by (simp add: Let_def)
    then show ?thesis using IH(4-6) unfolding \<open>x mod b = x\<close> by simp
  next
    case False
    then have c: "count_significant (Suc k) x = h + 2 ^ k" unfolding h_def b_def by (simp add: Let_def)
    have "x < (x div b + 1) * b" using \<open>x mod b < b\<close> div_mult_mod_eq [of x b] by (simp only: add_mult_distrib mult_1)
    also have "\<dots> \<le> 256 ^ h * b" using IH(2) unfolding h_def by (intro mult_right_mono) simp_all
    finally have u: "x < 256 ^ (h + 2 ^ k)" unfolding b by (simp add: power_add)
    have "256 ^ (h + 2 ^ k - 1) = 256 ^ (h - 1) * b" using False unfolding b by (simp flip: power_add)
    also have "\<dots> \<le> x div b * b" using IH(3) False unfolding h_def by (intro mult_right_mono) simp_all
    also have "\<dots> \<le> x" by simp
    finally show ?thesis unfolding c using u IH(1) unfolding h_def by simp
  qed
qed auto

lemma count_significant_bytes_value:
  "unat x < 256 ^ count_significant_bytes x"
  "count_significant_bytes x \<noteq> 0 \<Longrightarrow> 256 ^ (count_significant_bytes x - 1) \<le> unat x"
  "count_significant_bytes x \<le> 32"
proof -
  have "unat x < 2 ^ (8 * 2 ^ 5)" using unsigned_less [of x, where ?'a = nat] by simp
  from count_significant_value [OF this]
  show "unat x < 256 ^ count_significant_bytes x"
    "count_significant_bytes x \<noteq> 0 \<Longrightarrow> 256 ^ (count_significant_bytes x - 1) \<le> unat x"
    "count_significant_bytes x \<le> 32"
    unfolding count_significant_bytes_def by simp_all
qed

end
