(* ===== verification/EvmTranslation.thy ===== *)
theory EvmTranslation
  imports EvmAnalysisInv
begin

text \<open>
  What the analysis produces, stated from the code alone: the instructions in the order of the
  code, the instructions a jump destination leads to, and the value a push instruction pushes.
\<close>

section \<open>The instructions\<close>

definition ends_block :: "u8 \<Rightarrow> bytes \<Rightarrow> bool" where
  "ends_block op rest \<longleftrightarrow> is_terminator op \<or> (rest \<noteq> [] \<and> hd rest = OP_JUMPDEST)"

text \<open>
  The functions for the code from a position on, when the block there is already begun. A
  \<^verbatim>\<open>JUMPDEST\<close> has no function of its own: it is the beginning of its block.
\<close>

function translation :: "op_table \<Rightarrow> bytes \<Rightarrow> exec_fn list" where
  "translation tbl [] = [op_stop]"
| "translation tbl (op # rest) =
    (let rest = drop (push_bytes op) rest
     in (if op = OP_JUMPDEST then [] else [op_fn (tbl op)]) @ (if ends_block op rest then [opx_beginblock] else []) @
        translation tbl rest)"
  by pat_completeness auto

termination
  by (relation "measure (\<lambda>(tbl, rest). length rest)") auto

abbreviation instr_fns :: "code_analysis \<Rightarrow> exec_fn list" where
  "instr_fns an \<equiv> map instr_fn (instrs an)"

lemma set_arg_fns [simp]: "instr_fns (set_arg k a an) = instr_fns an"
proof (cases "k < length (instrs an)")
  case True
  then show ?thesis by (simp add: set_arg_def map_update) (metis list_update_id nth_map)
qed (simp add: set_arg_def list_update_beyond)

lemma set_arg_more_fns [simp]: "instr_fns (set_last_arg a an) = instr_fns an" "instr_fns (close_block b an) = instr_fns an"
  by (simp_all add: set_last_arg_def close_block_def)

lemma translate_fns: "translate_arg op pos rest b an = (used, an') \<Longrightarrow> instr_fns an' = instr_fns an"
  by (auto simp: translate_arg_def Let_def split: if_splits)

lemma add_jumpdest_fns [simp]: "instr_fns (add_jumpdest pos an) = instr_fns an"
  by (simp add: add_jumpdest_def)

lemma analyze_opcode_fns:
  assumes "analyze_opcode tbl op (pos + 1) rest b an = (used, b', an')"
  shows "instr_fns an' = instr_fns an @ (if op = OP_JUMPDEST then [] else [op_fn (tbl op)]) @
    (if ends_block op (drop (push_bytes op) rest) then [op_fn (tbl OP_JUMPDEST)] else [])"
    "jumpdest_targets an' = jumpdest_targets an @ (if op = OP_JUMPDEST then [int32 (length (instrs an) - 1)] else [])"
proof -
  define an1 where "an1 = (if op = OP_JUMPDEST then add_jumpdest pos an else add_instr (new_instruction (op_fn (tbl op))) an)"
  obtain u an2 where t: "translate_arg op (pos + 1) rest (count_opcode (tbl op) b) an1 = (u, an2)" by fastforce
  have fns: "instr_fns an2 = instr_fns an @ (if op = OP_JUMPDEST then [] else [op_fn (tbl op)])"
    using translate_fns [OF t] by (simp add: an1_def new_instruction_def)
  have targets: "jumpdest_targets an2 =
      jumpdest_targets an @ (if op = OP_JUMPDEST then [int32 (length (instrs an) - 1)] else [])"
    using translate_jumpdests [OF t] by (simp add: an1_def add_jumpdest_def)
  have rest: "drop u rest = drop (push_bytes op) rest" using translate_used [OF t] by blast
  have eq: "analyze_opcode tbl op (pos + 1) rest b an =
    (if ends_block op (drop (push_bytes op) rest) then
       let an3 = add_instr (new_instruction (op_fn (tbl OP_JUMPDEST))) (close_block (count_opcode (tbl op) b) an2)
       in (u, new_block (length (instrs an3) - 1), an3) else (u, count_opcode (tbl op) b, an2))"
    unfolding analyze_opcode_def Let_def diff_add_inverse2 an1_def [symmetric] t prod.case rest ends_block_def ..
  show "instr_fns an' = instr_fns an @ (if op = OP_JUMPDEST then [] else [op_fn (tbl op)]) @
    (if ends_block op (drop (push_bytes op) rest) then [op_fn (tbl OP_JUMPDEST)] else [])"
    using assms fns unfolding eq by (auto simp: Let_def new_instruction_def split: if_splits)
  show "jumpdest_targets an' = jumpdest_targets an @ (if op = OP_JUMPDEST then [int32 (length (instrs an) - 1)] else [])"
    using assms targets unfolding eq by (auto simp: Let_def split: if_splits)
qed

text \<open>A target leads to the beginning of a block followed by the code from its offset on.\<close>

definition leads_to :: "op_table \<Rightarrow> exec_fn list \<Rightarrow> bytes \<Rightarrow> int \<Rightarrow> bool" where
  "leads_to tbl fns rest t \<longleftrightarrow> 0 \<le> t \<and> drop (nat t) fns = opx_beginblock # translation tbl rest"

text \<open>The code at each jump destination, in the order of the destinations.\<close>

function jumpdest_rests :: "bytes \<Rightarrow> bytes list" where
  "jumpdest_rests [] = []"
| "jumpdest_rests (op # rest) =
    (if op = OP_JUMPDEST then [op # rest] else []) @ jumpdest_rests (drop (push_bytes op) rest)"
  by pat_completeness auto

termination
  by (relation "measure length") auto

lemma jumpdest_rests_drop: "jumpdest_rests bs = map (\<lambda>p. drop (p - pos) bs) (valid_jumpdests pos bs)"
proof (induction pos bs rule: valid_jumpdests.induct)
  case (2 pos op rest)
  have "drop (p - (pos + 1 + push_bytes op)) (drop (push_bytes op) rest) = drop (p - pos) (op # rest)"
    if "p \<in> set (valid_jumpdests (pos + 1 + push_bytes op) (drop (push_bytes op) rest))" for p
  proof -
    have "pos + 1 + push_bytes op \<le> p" using valid_jumpdests_ge [OF that] by simp
    then have "p - pos = Suc (p - (pos + 1 + push_bytes op) + push_bytes op)" by simp
    then show ?thesis by simp
  qed
  then show ?case using 2 by simp
qed simp

lemma analyze_loop_translation:
  assumes "analysis_inv pos rest b an" "pos + length rest \<le> 0x20000"
    "analyze_loop (get_op_table r) pos rest b an = (b', an')"
  shows "instr_fns an' @ [op_stop] = instr_fns an @ translation (get_op_table r) rest \<and>
    (\<exists>ts. jumpdest_targets an' = jumpdest_targets an @ ts \<and>
      list_all2 (leads_to (get_op_table r) (instr_fns an' @ [op_stop])) (jumpdest_rests rest) ts)"
  using assms
proof (induction "get_op_table r" pos rest b an rule: analyze_loop.induct)
  case (2 pos op rest b an)
  let ?tbl = "get_op_table r"
  obtain used b1 an1 where s: "analyze_opcode ?tbl op (pos + 1) rest b an = (used, b1, an1)"
    by (metis prod_cases3)
  note fns = analyze_opcode_fns [OF s, unfolded op_table_fixed op_table_entry.simps]
  have rest: "drop used rest = drop (push_bytes op) rest" using analyze_opcode_jumpdests(2) [OF s] by blast
  have inv1: "analysis_inv (pos + 1 + used) (drop used rest) b1 an1"
    using 2 by (intro analyze_opcode_inv [OF _ _ s]) simp_all
  have "instr_fns an' @ [op_stop] = instr_fns an1 @ translation ?tbl (drop used rest) \<and>
      (\<exists>ts. jumpdest_targets an' = jumpdest_targets an1 @ ts \<and>
        list_all2 (leads_to ?tbl (instr_fns an' @ [op_stop])) (jumpdest_rests (drop used rest)) ts)"
  proof (rule 2(1) [OF refl s [symmetric] refl inv1])
    show "pos + 1 + used + length (drop used rest) \<le> 0x20000" using 2(3) analyze_opcode_used [OF s] by simp
    show "analyze_loop ?tbl (pos + 1 + used) (drop used rest) b1 an1 = (b', an')" using 2(4) s by simp
  qed
  then obtain ts where ih: "instr_fns an' @ [op_stop] = instr_fns an1 @ translation ?tbl (drop (push_bytes op) rest)"
    "jumpdest_targets an' = jumpdest_targets an1 @ ts"
    "list_all2 (leads_to ?tbl (instr_fns an' @ [op_stop])) (jumpdest_rests (drop (push_bytes op) rest)) ts"
    unfolding rest by blast
  have all: "instr_fns an' @ [op_stop] = instr_fns an @ translation ?tbl (op # rest)"
    unfolding ih(1) fns(1) by (simp add: Let_def)
  moreover have "leads_to ?tbl (instr_fns an' @ [op_stop]) (op # rest) (int32 (length (instrs an) - 1))"
    if "op = OP_JUMPDEST"
  proof -
    have inv: "open_block b an" "length (instrs an) = Suc (begin_block_index b)" "length (instrs an) \<le> 2 * pos + 1"
      using 2(2) that by (simp_all add: analysis_inv_def)
    then have "int32 (begin_block_index b) = int (begin_block_index b)" using 2(3) by (simp add: int32_id)
    moreover from inv(1) obtain pre beg body where "instrs an = pre @ beg # body" "length pre = begin_block_index b"
      "is_begin beg"
      by (rule open_blockE)
    then have "instr_fns an = map instr_fn pre @ [opx_beginblock]" "length pre = begin_block_index b"
      using inv(2) by (simp_all add: is_begin_def)
    ultimately show ?thesis unfolding all leads_to_def inv(2) by simp
  qed
  moreover define F where "F = instr_fns an' @ [op_stop]"
  ultimately have F: "F = instr_fns an @ translation ?tbl (op # rest)"
    "op = OP_JUMPDEST \<Longrightarrow> leads_to ?tbl F (op # rest) (int32 (length (instrs an) - 1))"
    "list_all2 (leads_to ?tbl F) (jumpdest_rests (drop (push_bytes op) rest)) ts"
    using ih(3) by simp_all
  define t where "t = (if op = OP_JUMPDEST then [int32 (length (instrs an) - 1)] else [])"
  have "jumpdest_targets an' = jumpdest_targets an @ t @ ts" using ih(2) fns(2) by (simp add: t_def)
  moreover have "list_all2 (leads_to ?tbl F) (jumpdest_rests (op # rest)) (t @ ts)" using F(2,3) by (auto simp: t_def)
  ultimately show ?case unfolding F_def [symmetric] using F(1) by blast
qed simp

lemma analyze_translation:
  assumes "length bs \<le> 0x20000"
  shows "instr_fns (analyze r bs) = opx_beginblock # translation (get_op_table r) bs"
    "list_all2 (leads_to (get_op_table r) (instr_fns (analyze r bs))) (jumpdest_rests bs) (jumpdest_targets (analyze r bs))"
proof -
  let ?an0 = "\<lparr>instrs = [new_instruction opx_beginblock], push_values = [], jumpdest_offsets = [], jumpdest_targets = []\<rparr>"
  obtain b an where l: "analyze_loop (get_op_table r) 0 bs (new_block 0) ?an0 = (b, an)" by fastforce
  have "instr_fns (analyze r bs) = instr_fns an @ [op_stop]" "jumpdest_targets (analyze r bs) = jumpdest_targets an"
    using l by (simp_all add: analyze_def op_table_fixed new_instruction_def)
  then show "instr_fns (analyze r bs) = opx_beginblock # translation (get_op_table r) bs"
    "list_all2 (leads_to (get_op_table r) (instr_fns (analyze r bs))) (jumpdest_rests bs) (jumpdest_targets (analyze r bs))"
    using analyze_loop_translation [OF analysis_inv_start _ l] assms by (auto simp: new_instruction_def)
qed

text \<open>The lookup of a jump destination.\<close>

lemma sorted_offsets: "length bs \<le> 0x20000 \<Longrightarrow> sorted_wrt (<) (jumpdest_offsets (analyze r bs))"
  using valid_jumpdests_sorted [of 0 bs] by (simp add: analyze_jumpdests sorted_wrt_map)

lemma find_jumpdest_leads:
  assumes "length bs \<le> 0x20000" "p \<in> set (valid_jumpdests 0 bs)"
  shows "leads_to (get_op_table r) (instr_fns (analyze r bs)) (drop p bs) (find_jumpdest (analyze r bs) (int p))"
proof -
  obtain k where k: "k < length (valid_jumpdests 0 bs)" "valid_jumpdests 0 bs ! k = p"
    using assms(2) by (auto simp: in_set_conv_nth)
  have off: "jumpdest_offsets (analyze r bs) = map int (valid_jumpdests 0 bs)"
    using assms(1) by (intro analyze_jumpdests) simp
  have "find_jumpdest (analyze r bs) (int p) = jumpdest_targets (analyze r bs) ! k"
    using find_jumpdest_hit [OF sorted_offsets [OF assms(1)], of k r] k by (simp add: off)
  moreover have "jumpdest_rests bs = map (\<lambda>p. drop p bs) (valid_jumpdests 0 bs)"
    using jumpdest_rests_drop [of bs 0] by simp
  then have "k < length (jumpdest_rests bs)" "jumpdest_rests bs ! k = drop p bs" using k by simp_all
  ultimately show ?thesis
    using list_all2_nthD [OF analyze_translation(2) [OF assms(1), of r], of k] by simp
qed

section \<open>The pushed values\<close>

lemma le_word_append:
  "le_word (xs @ ys) = le_word xs OR push_bit (8 * length xs) (le_word ys)"
proof (induction xs)
  case (Cons x xs)
  then show ?case by (simp add: push_bit_or or.assoc add.commute)
qed simp

lemma le_word_zeros [simp]: "le_word (replicate n 0) = 0"
  by (induction n) simp_all

text \<open>The bytes come from the most significant end; those beyond the end of the code are zero.\<close>

lemma small_push_loop_value:
  "length bs \<le> Suc k \<Longrightarrow>
    small_push_loop (8 * k) v bs = v OR push_bit (8 * (Suc k - length bs)) (le_word (rev bs))"
proof (induction bs arbitrary: k v)
  case (Cons b bs)
  show ?case
  proof (cases k)
    case 0
    then show ?thesis using Cons.prems by simp
  next
    case (Suc j)
    have "Suc k - length (b # bs) = Suc j - length bs" using Suc by simp
    moreover have "8 * (Suc j - length bs) + 8 * length bs = 8 * k" using Cons.prems Suc by simp
    ultimately show ?thesis
      using Cons.IH [of j] Cons.prems Suc by (simp add: le_word_append push_bit_or or.assoc or.commute or.left_commute)
  qed
qed simp

lemma large_push_loop_value:
  "length bs \<le> Suc k \<Longrightarrow> k < length xs \<Longrightarrow>
    large_push_loop k xs bs = take (Suc k - length bs) xs @ rev bs @ drop (Suc k) xs"
proof (induction bs arbitrary: k xs)
  case (Cons b bs)
  show ?case
  proof (cases k)
    case 0
    then show ?thesis using Cons.prems by (cases xs) simp_all
  next
    case (Suc j)
    have "drop k (xs[k := b]) = b # drop (Suc k) xs" using Cons.prems by (simp add: drop_update_swap Cons_nth_drop_Suc [symmetric])
    then show ?thesis using Cons.IH [of j "xs[k := b]"] Cons.prems Suc by simp
  qed
qed (simp add: min_def)

text \<open>The operand of a push of \<open>n\<close> bytes at the front of \<open>rest\<close>.\<close>

definition push_operand :: "nat \<Rightarrow> bytes \<Rightarrow> uint256" where
  "push_operand n rest = be_load (replicate (32 - n) 0 @ take n (rest @ replicate n 0))"

lemma push_operand_value:
  "n \<le> 32 \<Longrightarrow> push_operand n rest = push_bit (8 * (n - length (take n rest))) (le_word (rev (take n rest)))"
  by (simp add: push_operand_def be_load_def le_word_append min_def)

definition pushed :: "code_analysis \<Rightarrow> instruction \<Rightarrow> uint256" where
  "pushed an i = (case instr_arg i of arg_small_push v \<Rightarrow> ucast v | arg_push_value k \<Rightarrow> push_values an ! k | _ \<Rightarrow> 0)"

lemma last_set_last: "instrs an \<noteq> [] \<Longrightarrow> last (instrs (set_last_arg a an)) = (last (instrs an))\<lparr>instr_arg := a\<rparr>"
  by (simp add: set_last_arg_def set_arg_def last_conv_nth)

lemma ucast_push_bit_le_word:
  "m + 8 * length bs \<le> 64 \<Longrightarrow> (ucast (push_bit m (le_word bs) :: u64) :: uint256) = push_bit m (le_word bs)"
  by (rule bit_word_eqI) (auto simp: bit_simps bit_le_word)

lemma push_translated:
  assumes "is_small_push op \<or> is_large_push op" "instrs an \<noteq> []" "translate_arg op pos rest b an = (used, an')"
  shows "pushed an' (last (instrs an')) = push_operand (push_bytes op) rest" "used = min (push_bytes op) (length rest)"
proof -
  let ?n = "push_bytes op" and ?d = "take (push_bytes op) rest"
  have n: "push_size op = ?n" using push_size_bytes [OF assms(1)] .
  have n32: "?n \<le> 32" by (auto simp: push_bytes_def)
  have n0: "0 < ?n" using n by (simp add: push_size_def)
  show "used = min (push_bytes op) (length rest)"
    using assms(1,3) by (auto simp: translate_arg_def Let_def n min_def split: if_splits)
  show "pushed an' (last (instrs an')) = push_operand (push_bytes op) rest"
  proof (cases "is_small_push op")
    case True
    then have n8: "?n \<le> 8" by (auto simp add: push_bytes_def is_small_push_def word_le_nat_alt)
    have "(ucast (small_push_loop ((?n - 1) * 8) 0 ?d) :: uint256) = push_operand ?n rest"
    proof -
      define d where "d = ?d"
      have d: "length d \<le> ?n" by (simp add: d_def)
      then have "small_push_loop ((?n - 1) * 8) 0 d = push_bit (8 * (?n - length d)) (le_word (rev d))"
        using small_push_loop_value [of d "?n - 1" 0] n0 by (simp add: mult.commute)
      then show ?thesis using d n8 by (simp add: push_operand_value [OF n32] ucast_push_bit_le_word flip: d_def)
    qed
    then show ?thesis using True assms(2,3) by (auto simp: translate_arg_def Let_def n pushed_def last_set_last)
  next
    case False
    let ?v = "le_word (large_push_loop (?n - 1) (replicate 32 0) ?d) :: uint256"
    have "?v = push_operand ?n rest"
    proof -
      define d where "d = ?d"
      have d: "length d \<le> ?n" by (simp add: d_def)
      then have "large_push_loop (?n - 1) (replicate 32 0) d =
          replicate (?n - length d) 0 @ rev d @ replicate (32 - ?n) 0"
        using large_push_loop_value [of d "?n - 1" "replicate 32 0"] n0 n32 by (simp add: min_def)
      then show ?thesis by (simp add: push_operand_value [OF n32] le_word_append flip: d_def)
    qed
    then show ?thesis using False assms
      by (auto simp: translate_arg_def Let_def n pushed_def set_last_arg_def set_arg_def last_conv_nth)
  qed
qed

end
