(* ===== verification/EvmProperties.thy ===== *)
theory EvmProperties
  imports EvmExact EvmStack EvmArithSpec EvmTranslation
begin

text \<open>
  The properties of the virtual machine: what its arithmetic computes, how its stack, its memory
  and its jump table behave, what the tables and the block analysis guarantee, and what every
  execution of every program satisfies.
\<close>

section \<open>A host for the examples\<close>

text \<open>It knows no account, keeps no storage and gives back all the gas of a call.\<close>

definition silent_host :: "unit evmc_host_interface" where
  "silent_host = \<lparr>host_account_exists = \<lambda>h a. False, host_get_storage = \<lambda>h a k. replicate 32 0,
    host_set_storage = \<lambda>h a k v. (EVMC_STORAGE_ADDED, h), host_get_balance = \<lambda>h a. replicate 32 0,
    host_get_code_size = \<lambda>h a. 0, host_get_code_hash = \<lambda>h a. replicate 32 0, host_copy_code = \<lambda>h a i n. [],
    host_selfdestruct = \<lambda>h a b. h,
    host_call = \<lambda>h m. (\<lparr>status_code = EVMC_SUCCESS, result_gas_left = max 0 (gas m), output_data = [],
      create_address = replicate 20 0\<rparr>, h),
    host_get_tx_context = \<lambda>h. empty_tx_context, host_get_block_hash = \<lambda>h n. replicate 32 0,
    host_emit_log = \<lambda>h a d t. h, host_calc_hash = \<lambda>d. replicate 32 0\<rparr>"

lemma silent_static: "static_host silent_host"
  by (simp add: static_host_def silent_host_def)

text \<open>\<^verbatim>\<open>PUSH1 2 PUSH1 3 ADD PUSH1 0 MSTORE PUSH1 32 PUSH1 0 RETURN\<close>\<close>

definition sum_program :: bytes where
  "sum_program = [0x60, 2, 0x60, 3, 0x01, 0x60, 0, 0x52, 0x60, 32, 0x60, 0, 0xf3]"

definition sum_message :: evmc_message where
  "sum_message = empty_message\<lparr>gas := 1000\<rparr>"

lemmas example_defs = sum_program_def sum_message_def


lemma silent_fair: "fair_host silent_host"
  by (simp add: fair_host_def silent_host_def)

text \<open>
  A host whose state is the number of its changes. A call counts as one unless it is static; the other answers
  are those of the silent host.
\<close>

definition counting_host :: "nat evmc_host_interface" where
  "counting_host = \<lparr>host_account_exists = \<lambda>h a. True, host_get_storage = \<lambda>h a k. replicate 32 0,
    host_set_storage = \<lambda>h a k v. (EVMC_STORAGE_ADDED, Suc h), host_get_balance = \<lambda>h a. replicate 32 0,
    host_get_code_size = \<lambda>h a. 0, host_get_code_hash = \<lambda>h a. replicate 32 0, host_copy_code = \<lambda>h a i n. [],
    host_selfdestruct = \<lambda>h a b. Suc h,
    host_call = \<lambda>h m. (\<lparr>status_code = EVMC_SUCCESS, result_gas_left = max 0 (gas m), output_data = [],
      create_address = replicate 20 0\<rparr>, if flags m AND EVMC_STATIC \<noteq> 0 then h else Suc h),
    host_get_tx_context = \<lambda>h. empty_tx_context, host_get_block_hash = \<lambda>h n. replicate 32 0,
    host_emit_log = \<lambda>h a d t. Suc h, host_calc_hash = \<lambda>d. replicate 32 0\<rparr>"

lemma counting_static: "static_host counting_host"
  by (simp add: static_host_def counting_host_def)

lemma counting_fair: "fair_host counting_host"
  by (simp add: fair_host_def counting_host_def)

text \<open>
  \<^verbatim>\<open>PUSH1 0\<close> (five times) \<^verbatim>\<open>PUSH1 1 PUSH1 100 CALL PUSH1 2 SSTORE\<close>: a call without value to account 1, then its
  result is stored.
\<close>

definition call_store_program :: bytes where
  "call_store_program = [0x60, 0, 0x60, 0, 0x60, 0, 0x60, 0, 0x60, 0, 0x60, 1, 0x60, 100, 0xf1, 0x60, 2, 0x55]"

text \<open>Two executions, evaluated.\<close>

lemma run_stop:
  "execute 3 silent_host () EVMC_FRONTIER (sum_message\<lparr>flags := EVMC_STATIC\<rparr>) [0] =
    Finished (\<lparr>status_code = EVMC_SUCCESS, result_gas_left = 1000, output_data = [], create_address = replicate 20 0\<rparr>, ())"
  by code_simp

lemma run_sum:
  "execute 20 silent_host () EVMC_ISTANBUL sum_message sum_program =
    Finished (\<lparr>status_code = EVMC_SUCCESS, result_gas_left = 976, output_data = replicate 31 0 @ [5],
      create_address = replicate 20 0\<rparr>, ())"
  by code_simp

section \<open>Every execution\<close>

text \<open>
  Property C17. Execution terminates: with a host that gives back no more gas than it was handed, a
  message with non-negative gas and code of at most 128 KiB, \<open>execute\<close> finishes with a result when it
  is given fuel for \<open>(gas + 2) * (2 * length code + 2)\<close> instructions, whatever the program does.
\<close>

theorem execution_finishes:
  assumes "fair_host hi" "length bs \<le> 0x20000" "0 \<le> gas m" "nat (gas m + 2) * (2 * length bs + 2) \<le> fuel"
  shows "\<exists>res ctx'. execute fuel hi ctx r m bs = Finished (res, ctx')"
  using execute_cases [OF assms(1-3), of fuel ctx r] assms(4) by (auto simp: enough_fuel_def)

theorem execution_finishes_witness:
  "\<exists>res ctx'. execute 28056 silent_host () EVMC_ISTANBUL sum_message sum_program = Finished (res, ctx')"
  by (rule execution_finishes [OF silent_fair]) (simp_all add: example_defs empty_message_def)

text \<open>
  Property C18. Execution is safe: no program, however long it runs, makes the loop reach past the stack,
  the memory or the instructions, or read an argument of the wrong kind.
\<close>

theorem execution_never_faults:
  assumes "fair_host hi" "length bs \<le> 0x20000" "0 \<le> gas m"
  shows "execute fuel hi ctx r m bs \<noteq> Fault"
  using execute_cases(1) [OF assms, of fuel ctx r] by auto

theorem execution_never_faults_witness:
  "execute 100 silent_host () EVMC_ISTANBUL sum_message [0x5b, 0x60, 0, 0x56] \<noteq> Fault"
  by (rule execution_never_faults [OF silent_fair]) (simp_all add: example_defs empty_message_def)

text \<open>
  Property C19. Gas accounting is sound: the gas left in a result is not negative, and together with the price of
  memory as large as the output it stays within the gas of the message; a result with any status but
  success or revert carries no gas and no output.
\<close>

theorem execution_result_bounds:
  assumes "fair_host hi" "length bs \<le> 0x20000" "0 \<le> gas m"
    "execute fuel hi ctx r m bs = Finished (res, ctx')"
  shows "0 \<le> result_gas_left res \<and> result_gas_left res + memory_price (length (output_data res)) \<le> gas m \<and>
    (status_code res \<in> {EVMC_SUCCESS, EVMC_REVERT} \<or> result_gas_left res = 0 \<and> output_data res = [])"
  using execute_cases(1) [OF assms(1-3), of fuel ctx r] assms(4) by (auto simp: result_ok_def)

theorem execution_result_bounds_witness:
  "0 \<le> (976::int) \<and> 976 + memory_price (length (replicate 31 0 @ [5 :: u8])) \<le> gas sum_message"
  using execution_result_bounds [OF silent_fair _ _ run_sum] by (simp add: example_defs empty_message_def)

text \<open>
  Property C20. A static call changes nothing: when the message is static and the host keeps its state in the
  static calls the code makes, the state of the host after the execution is the state before it.
\<close>

theorem static_execution_keeps_host:
  assumes "fair_host hi" "static_host hi" "length bs \<le> 0x20000" "0 \<le> gas m" "flags m AND EVMC_STATIC \<noteq> 0"
    "execute fuel hi ctx r m bs = Finished (res, ctx')"
  shows "ctx' = ctx"
  using execute_cases(1) [OF assms(1,3,4), of fuel ctx r] assms(2,5,6) by auto

text \<open>
  The host that counts changes. Its program calls another account and stores a word: in a static message the store
  is refused and the count remains 7, in an ordinary one the call and the store are counted.
\<close>

theorem static_execution_keeps_host_witness:
  "(\<exists>res ctx'. execute 40 counting_host 7 EVMC_ISTANBUL (sum_message\<lparr>gas := 90000, flags := EVMC_STATIC\<rparr>) call_store_program =
      Finished (res, ctx') \<and> ctx' = 7) \<and>
   map_outcome snd (execute 40 counting_host 7 EVMC_ISTANBUL (sum_message\<lparr>gas := 90000\<rparr>) call_store_program) = Finished 9"
proof
  have "(case execute 40 counting_host 7 EVMC_ISTANBUL (sum_message\<lparr>gas := 90000, flags := EVMC_STATIC\<rparr>) call_store_program of
      Finished _ \<Rightarrow> True | _ \<Rightarrow> False)" by code_simp
  then obtain res ctx' where run: "execute 40 counting_host 7 EVMC_ISTANBUL
      (sum_message\<lparr>gas := 90000, flags := EVMC_STATIC\<rparr>) call_store_program = Finished (res, ctx')"
    by (auto split: outcome.splits)
  have "ctx' = 7"
    by (rule static_execution_keeps_host [OF counting_fair counting_static _ _ _ run])
      (simp_all add: example_defs call_store_program_def empty_message_def EVMC_STATIC_def)
  then show "\<exists>res ctx'. execute 40 counting_host 7 EVMC_ISTANBUL (sum_message\<lparr>gas := 90000, flags := EVMC_STATIC\<rparr>) call_store_program =
      Finished (res, ctx') \<and> ctx' = 7" using run by blast
  show "map_outcome snd (execute 40 counting_host 7 EVMC_ISTANBUL (sum_message\<lparr>gas := 90000\<rparr>) call_store_program) = Finished 9"
    by code_simp
qed

section \<open>Stack instructions\<close>

text \<open>The numbers the instructions compute, from the yellow paper of the machine, over the integers.\<close>

definition wrap256 :: "int \<Rightarrow> uint256" where
  "wrap256 n = word_of_int n"

fun stack_spec :: "stack_fn \<Rightarrow> uint256 \<Rightarrow> uint256 \<Rightarrow> uint256 \<Rightarrow> uint256" where
  "stack_spec fn_add x y m = wrap256 (uint x + uint y)"
| "stack_spec fn_mul x y m = wrap256 (uint x * uint y)"
| "stack_spec fn_sub x y m = wrap256 (uint x - uint y)"
| "stack_spec fn_div x y m = (if y = 0 then 0 else wrap256 (uint x div uint y))"
| "stack_spec fn_mod x y m = (if y = 0 then 0 else wrap256 (uint x mod uint y))"
| "stack_spec fn_sdiv x y m = (if y = 0 then 0 else wrap256 (sint x sdiv sint y))"
| "stack_spec fn_smod x y m = (if y = 0 then 0 else wrap256 (sint x smod sint y))"
| "stack_spec fn_addmod x y m = (if m = 0 then 0 else wrap256 ((uint x + uint y) mod uint m))"
| "stack_spec fn_mulmod x y m = (if m = 0 then 0 else wrap256 (uint x * uint y mod uint m))"
| "stack_spec fn_signextend k x m = (if k < 31 then signed_take_bit (8 * unat k + 7) x else x)"
| "stack_spec fn_lt x y m = of_bool (uint x < uint y)"
| "stack_spec fn_gt x y m = of_bool (uint x > uint y)"
| "stack_spec fn_slt x y m = of_bool (sint x < sint y)"
| "stack_spec fn_sgt x y m = of_bool (sint x > sint y)"
| "stack_spec fn_eq x y m = of_bool (uint x = uint y)"
| "stack_spec fn_iszero x y m = of_bool (uint x = 0)"
| "stack_spec fn_and x y m = x AND y"
| "stack_spec fn_or x y m = x OR y"
| "stack_spec fn_xor x y m = x XOR y"
| "stack_spec fn_not x y m = wrap256 (- 1 - uint x)"
| "stack_spec fn_byte k x m = (if k < 32 then ucast (be_store x ! unat k) else 0)"
| "stack_spec fn_shl k x m = wrap256 (uint x * 2 ^ unat k)"
| "stack_spec fn_shr k x m = wrap256 (uint x div 2 ^ unat k)"
| "stack_spec fn_sar k x m = wrap256 (sint x div 2 ^ unat k)"
| "stack_spec _ x y m = 0"

fun computes :: "stack_fn \<Rightarrow> bool" where
  "computes fn_pop \<longleftrightarrow> False"
| "computes (fn_dup n) \<longleftrightarrow> False"
| "computes (fn_swap n) \<longleftrightarrow> False"
| "computes f \<longleftrightarrow> True"

lemma wrap256_uint [simp]: "wrap256 (uint x) = x"
  by (simp add: wrap256_def)

lemma wrap256_eq: "uint x = n \<Longrightarrow> wrap256 n = x"
  by (auto simp: wrap256_def)

lemma wrap256_arith:
  "wrap256 (uint x + uint y) = x + y" "wrap256 (uint x * uint y) = x * y" "wrap256 (uint x - uint y) = x - y"
  "wrap256 (uint x div uint y) = x div y" "wrap256 (uint x mod uint y) = x mod y" "wrap256 (- 1 - uint x) = NOT x"
  by (simp_all add: wrap256_def word_div_def word_mod_def not_eq_complement)

lemma wrap256_shifts:
  "wrap256 (uint x * 2 ^ n) = push_bit n x" "wrap256 (uint x div 2 ^ n) = drop_bit n x"
proof -
  show "wrap256 (uint x * 2 ^ n) = push_bit n x" by (simp add: wrap256_def push_bit_eq_mult)
  have "uint (drop_bit n x) = uint x div 2 ^ n" 
    using uint_less_256 [of x] unfolding unsigned_drop_bit_eq by (simp add: drop_bit_eq_div take_bit_int_eq_self)
  then show "wrap256 (uint x div 2 ^ n) = drop_bit n x" by (rule wrap256_eq)
qed

text \<open>The evaluations whose form differs from the specification.\<close>

lemma spec_eval:
  "evm_addmod (x # y # m # s) = Some ((if m = 0 then 0 else wrap256 ((uint x + uint y) mod uint m)) # s)"
  "evm_mulmod (x # y # m # s) = Some ((if m = 0 then 0 else wrap256 (uint x * uint y mod uint m)) # s)"
  "evm_sdiv (x # y # s) = Some ((if y = 0 then 0 else wrap256 (sint x sdiv sint y)) # s)"
  "evm_smod (x # y # s) = Some ((if y = 0 then 0 else wrap256 (sint x smod sint y)) # s)"
  "evm_signextend (k # x # s) = Some ((if k < 31 then signed_take_bit (8 * unat k + 7) x else x) # s)"
  "evm_lt (x # y # s) = Some (of_bool (uint x < uint y) # s)"
  "evm_gt (x # y # s) = Some (of_bool (uint x > uint y) # s)"
  "evm_slt (x # y # s) = Some (of_bool (sint x < sint y) # s)"
  "evm_sgt (x # y # s) = Some (of_bool (sint x > sint y) # s)"
  "evm_byte (k # x # s) = Some ((if k < 32 then ucast (be_store x ! unat k) else 0) # s)"
  "evm_sar (k # x # s) = Some (wrap256 (sint x div 2 ^ unat k) # s)"
proof -
  show "evm_addmod (x # y # m # s) = Some ((if m = 0 then 0 else wrap256 ((uint x + uint y) mod uint m)) # s)"
    using wrap256_eq [OF addmod_value [of m x y]] by (simp add: arith_eval)
  show "evm_mulmod (x # y # m # s) = Some ((if m = 0 then 0 else wrap256 (uint x * uint y mod uint m)) # s)"
    using wrap256_eq [OF mulmod_value [of m x y]] by (simp add: arith_eval)
  show "evm_sdiv (x # y # s) = Some ((if y = 0 then 0 else wrap256 (sint x sdiv sint y)) # s)"
    "evm_smod (x # y # s) = Some ((if y = 0 then 0 else wrap256 (sint x smod sint y)) # s)"
    by (simp_all add: arith_eval sdivrem_value wrap256_def)
  show "evm_signextend (k # x # s) = Some ((if k < 31 then signed_take_bit (8 * unat k + 7) x else x) # s)"
    using sign_extension_value [of k x] by (simp add: signextend_eval) (simp add: sign_extension_def)
  show "evm_lt (x # y # s) = Some (of_bool (uint x < uint y) # s)" "evm_gt (x # y # s) = Some (of_bool (uint x > uint y) # s)"
    by (simp_all add: compare_eval word_less_def)
  show "evm_slt (x # y # s) = Some (of_bool (sint x < sint y) # s)" "evm_sgt (x # y # s) = Some (of_bool (sint x > sint y) # s)"
    by (simp_all only: compare_eval signed_compare)
  show "evm_byte (k # x # s) = Some ((if k < 32 then ucast (be_store x ! unat k) else 0) # s)"
  proof -
    have "31 < k \<longleftrightarrow> \<not> k < 32" "k \<le> 31 \<longleftrightarrow> k < 32" by (auto simp: word_less_nat_alt word_le_nat_alt)
    then show ?thesis using byte_value [of k x] by (simp add: compare_eval)
  qed
  have "word_of_int (sint (arithmetic_shift x k)) = arithmetic_shift x k" by simp
  then show "evm_sar (k # x # s) = Some (wrap256 (sint x div 2 ^ unat k) # s)"
    unfolding arithmetic_shift_value by (simp add: sar_eval wrap256_def)
qed

lemma stack_instruction_eval:
  assumes "computes f" "stack_fn_req f \<le> length s"
  shows "exec_stack_fn f s = Some (stack_spec f (s ! 0) (s ! 1) (s ! 2) # drop (stack_fn_req f) s)"
proof -
  show ?thesis using assms
    by (cases f)
      (auto simp: at_least at_least_num spec_eval arith_eval(1-4,6) compare_eval(5-10,12-14) wrap256_arith wrap256_shifts
        shift_value uint_0_iff word_uint_eq_iff [symmetric] ac_simps simp del: length_greater_0_conv)
qed

text \<open>The bytes of an exponent that are paid for: the least number of bytes that hold it.\<close>

definition bytes_needed :: "uint256 \<Rightarrow> nat" where
  "bytes_needed y = (LEAST n. unat y < 256 ^ n)"

lemma count_significant_needed: "count_significant_bytes y = bytes_needed y"
proof -
  let ?n = "count_significant_bytes y"
  have "?n \<le> k" if "unat y < 256 ^ k" for k
  proof (rule ccontr)
    assume "\<not> ?n \<le> k"
    then have "(256 :: nat) ^ k \<le> 256 ^ (?n - 1)" by (intro power_increasing) simp_all
    also have "\<dots> \<le> unat y" using \<open>\<not> ?n \<le> k\<close> by (intro count_significant_bytes_value(2)) simp
    finally show False using that by simp
  qed
  then show ?thesis unfolding bytes_needed_def
    by (intro Least_equality [symmetric]) (use count_significant_bytes_value(1) in simp_all)
qed

lemma exp_eval:
  "exec_status_fn fn_exp st =
    (case stack st of
       x # y # s \<Rightarrow>
         (let cost = int (bytes_needed y) * (if EVMC_SPURIOUS_DRAGON \<le> revision st then 50 else 10);
              paid = st\<lparr>gas_left := gas_left st - cost, stack := y # s\<rparr>
          in if gas_left st < cost then Some (EVMC_OUT_OF_GAS, paid)
             else Some (EVMC_SUCCESS, paid\<lparr>stack := wrap256 (uint x ^ unat y) # s\<rparr>))
     | _ \<Rightarrow> None)"
proof -
  have "wrap256 (uint x ^ n) = x ^ n" for x n by (simp add: wrap256_def)
  then show ?thesis
    by (cases "stack st" rule: list_cases_2)
      (auto simp: evm_exp_def exp_value count_significant_needed charge_def Let_def)
qed

text \<open>
  Property C24. Every instruction that computes on the stack computes the integer function of the machine's
  specification: modular sums, products and powers of two, division and remainder with the sign of the
  dividend and zero for a zero divisor, signed and unsigned comparisons, sign extension, bytes counted from
  the most significant one, logical and arithmetic shifts. Its operands are the top items, which the result
  replaces; on a shorter stack it faults. \<^verbatim>\<open>EXP\<close> replaces the two top items by the power modulo
  2^256 and takes 50 gas (10 before Spurious Dragon) for each byte of the exponent, or ends the run when
  that gas is not there.
\<close>

theorem stack_instructions_compute:
  assumes "computes f"
  shows "exec_stack_fn f s =
      (if stack_fn_req f \<le> length s then Some (stack_spec f (s ! 0) (s ! 1) (s ! 2) # drop (stack_fn_req f) s) else None) \<and>
    exec_status_fn fn_exp st =
      (case stack st of
         x # y # s \<Rightarrow>
           (let cost = int (bytes_needed y) * (if EVMC_SPURIOUS_DRAGON \<le> revision st then 50 else 10);
                paid = st\<lparr>gas_left := gas_left st - cost, stack := y # s\<rparr>
            in if gas_left st < cost then Some (EVMC_OUT_OF_GAS, paid)
               else Some (EVMC_SUCCESS, paid\<lparr>stack := wrap256 (uint x ^ unat y) # s\<rparr>))
       | _ \<Rightarrow> None)"
  by (rule conjI [OF _ exp_eval]) (use stack_instruction_eval [OF assms] stack_fn_short [of s f] in auto)

theorem stack_instructions_compute_witness:
  "exec_stack_fn fn_sdiv [- 7, 2, 5] = Some [- 3, 5] \<and>
   map_option (\<lambda>(c, st). (c, stack st, gas_left st)) (exec_status_fn fn_exp
     ((initial_state silent_host () EVMC_ISTANBUL sum_message [0x0a])\<lparr>stack := [3, 5, 8]\<rparr>)) = Some (EVMC_SUCCESS, [243, 8], 950)"
proof -
  define st where "st = (initial_state silent_host () EVMC_ISTANBUL sum_message [0x0a])\<lparr>stack := [3, 5, 8]\<rparr>"
  have st: "stack st = [3, 5, 8]" "revision st = EVMC_ISTANBUL" "gas_left st = 1000"
    by (simp_all add: st_def initial_state_def example_defs)
  have "bytes_needed 5 = 1"
    unfolding bytes_needed_def by (rule Least_equality) (auto simp: Suc_le_eq intro: gr0I)
  moreover have "EVMC_SPURIOUS_DRAGON \<le> EVMC_ISTANBUL" by (simp add: less_eq_evmc_revision_def)
  moreover have "wrap256 (uint (3 :: uint256) ^ unat (5 :: uint256)) = 243" "wrap256 (sint (- 7 :: uint256) sdiv sint (2 :: uint256)) = - 3"
    by (simp_all add: wrap256_def signed_divide_int_def)
  moreover note stack_instructions_compute [of fn_sdiv "[- 7, 2, 5]" st]
  ultimately show ?thesis unfolding st_def [symmetric] by (simp add: st Let_def numeral_2_eq_2)
qed

section \<open>Tables and blocks\<close>

text \<open>
  Property C23. The stack columns of the operation tables are exact, for every revision and every opcode. An
  instruction after which the loop goes on found at least as many items as its entry requires, changed the
  height by exactly the number in its entry and stayed within the limit, whatever the state, the
  argument and the host. Conversely, an instruction whose entry fits the height does not fault when the analysis
  wrote its argument, the gas is not negative, the memory holds whole words and the host keeps its promises;
  one that works on the stack alone succeeds exactly on the heights that its entry allows.
  (Where the loop ends, as after \<^verbatim>\<open>RETURN\<close> or \<^verbatim>\<open>SELFDESTRUCT\<close>, the code leaves the stack as it is and nothing
  is said about the change.)
\<close>

theorem op_table_exact:
  assumes "e = get_op_table r op" "length (stack st) \<le> stack_limit"
  shows "(\<forall>j st'. exec_fn_call (op_fn e) i st = Some (Some j, st') \<longrightarrow>
      op_stack_req e \<le> int (length (stack st)) \<and>
      int (length (stack st')) = int (length (stack st)) + op_stack_change e \<and> length (stack st') \<le> stack_limit) \<and>
    (op_stack_req e \<le> int (length (stack st)) \<and> int (length (stack st)) + op_stack_change e \<le> int stack_limit \<and>
      ready (op_fn e) i st \<longrightarrow> exec_fn_call (op_fn e) i st \<noteq> None) \<and>
    (\<forall>f. op_fn e = op_stack f \<longrightarrow> (exec_stack_fn f (stack st) \<noteq> None \<longleftrightarrow>
      op_stack_req e \<le> int (length (stack st)) \<and> int (length (stack st)) + op_stack_change e \<le> int stack_limit))"
proof -
  have e: "op_stack_req e = int (fn_req (op_fn e))" "op_stack_change e = fn_change (op_fn e)"
    using op_table_ok [of op r] assms(1) by (simp_all add: entry_ok_def)
  have "shifts (fn_req (op_fn e)) (fn_change (op_fn e)) st st'" if "exec_fn_call (op_fn e) i st = Some (Some j, st')" for j st'
    using instruction_goes_on [of "op_fn e" st i] by (simp add: that)
  then show ?thesis
    using assms(2) instruction_runs [of "op_fn e" i st] stack_fn_exact [OF assms(2)] by (auto simp: e shifts_def)
qed

text \<open>The store instruction in a state with two items: it goes on, and the entry of \<^verbatim>\<open>SSTORE\<close> names the change.\<close>

theorem op_table_exact_witness:
  "let st = (initial_state silent_host () EVMC_FRONTIER (sum_message\<lparr>gas := 30000\<rparr>) [0x55])\<lparr>stack := [1, 2]\<rparr>
   in \<exists>st'. exec_fn_call op_sstore 1 st = Some (Some 2, st') \<and>
     int (length (stack st')) = 2 + op_stack_change (get_op_table EVMC_FRONTIER 0x55)"
proof -
  define st where "st = (initial_state silent_host () EVMC_FRONTIER (sum_message\<lparr>gas := 30000\<rparr>) [0x55])\<lparr>stack := [1, 2]\<rparr>"
  have fn: "op_fn (get_op_table EVMC_FRONTIER 0x55) = op_sstore" by code_simp
  have "(case exec_fn_call op_sstore 1 st of Some (Some j, st') \<Rightarrow> j = 2 | _ \<Rightarrow> False)"
    unfolding st_def by code_simp
  then obtain st' where st': "exec_fn_call op_sstore 1 st = Some (Some 2, st')"
    by (auto split: option.splits prod.splits)
  have "length (stack st) \<le> stack_limit" by (simp add: st_def stack_limit_def)
  from op_table_exact [OF refl this, of EVMC_FRONTIER "0x55" 1] st' have
    "int (length (stack st')) = int (length (stack st)) + op_stack_change (get_op_table EVMC_FRONTIER 0x55)"
    unfolding fn by blast
  then show ?thesis using st' by (simp add: Let_def flip: st_def) (simp add: st_def)
qed

text \<open>
  Property C21. The block analysis is sound: whenever the stack passes the check of an \<open>opx_beginblock\<close>
  instruction, every instruction of its block finds the items it needs and the stack never grows past 1024
  items until the block ends.
\<close>

theorem block_requirements_suffice:
  assumes "length bs \<le> 0x20000" "k < length (instrs (analyze r bs))"
    "instr_fn (instrs (analyze r bs) ! k) = opx_beginblock" "instr_arg (instrs (analyze r bs) ! k) = arg_block info"
    "info_stack_req info \<le> int n" "int n + info_stack_max_growth info \<le> 1024"
  shows "serves (int n) (map instr_fn (block_from (Suc k) (instrs (analyze r bs))))"
  using analyze_ok [OF assms(1), of r] assms(2-6)
  by (auto simp: analysis_ok_def closed_def is_begin_def info_ok_def stack_limit_def)

theorem block_requirements_suffice_witness:
  "serves (int 1) (map instr_fn (block_from (Suc 0) (instrs (analyze EVMC_ISTANBUL [0x60, 3, 0x01, 0x00]))))"
proof -
  have fn: "instr_fn (instrs (analyze EVMC_ISTANBUL [0x60, 3, 0x01, 0x00]) ! 0) = opx_beginblock" by code_simp
  have arg: "instr_arg (instrs (analyze EVMC_ISTANBUL [0x60, 3, 0x01, 0x00]) ! 0) =
      arg_block \<lparr>info_gas_cost = 6, info_stack_req = 1, info_stack_max_growth = 1\<rparr>" by code_simp
  have len: "0 < length (instrs (analyze EVMC_ISTANBUL [0x60, 3, 0x01, 0x00]))" by code_simp
  show ?thesis by (rule block_requirements_suffice [OF _ len fn arg]) simp_all
qed

section \<open>Translation\<close>

text \<open>
  Property C22. A jump goes where the code says: a position of the code is a jump destination exactly when it
  holds a \<^verbatim>\<open>JUMPDEST\<close> that is an instruction and not the data of a push; the lookup then gives the beginning
  of a block from which the instructions are the translation of the code from that position on, and
  \<open>- 1\<close> for every other offset.
\<close>

theorem jumpdest_lookup:
  assumes "length bs \<le> 0x20000"
  shows "if p \<in> set (valid_jumpdests 0 bs)
    then 0 \<le> find_jumpdest (analyze r bs) (int p) \<and>
      map instr_fn (drop (nat (find_jumpdest (analyze r bs) (int p))) (instrs (analyze r bs))) =
        opx_beginblock # translation (get_op_table r) (drop p bs)
    else find_jumpdest (analyze r bs) (int p) = - 1"
proof (cases "p \<in> set (valid_jumpdests 0 bs)")
  case True
  then show ?thesis using find_jumpdest_leads [OF assms True, of r] by (simp add: leads_to_def drop_map)
next
  case False
  have "jumpdest_offsets (analyze r bs) = map int (valid_jumpdests 0 bs)"
    using assms by (intro analyze_jumpdests) simp
  then have "int p \<notin> set (jumpdest_offsets (analyze r bs))" using False by auto
  then show ?thesis using False find_jumpdest_miss by simp
qed

theorem jumpdest_lookup_witness:
  "0 \<le> find_jumpdest (analyze EVMC_ISTANBUL [0x60, 0x5b, 0x5b, 0x00]) 2 \<and>
    map instr_fn (drop (nat (find_jumpdest (analyze EVMC_ISTANBUL [0x60, 0x5b, 0x5b, 0x00]) 2))
      (instrs (analyze EVMC_ISTANBUL [0x60, 0x5b, 0x5b, 0x00]))) =
      opx_beginblock # translation (get_op_table EVMC_ISTANBUL) [0x5b, 0x00]"
proof -
  have "2 \<in> set (valid_jumpdests 0 [0x60, 0x5b, 0x5b, 0x00])" by code_simp
  then show ?thesis using jumpdest_lookup [of "[0x60, 0x5b, 0x5b, 0x00]" 2 EVMC_ISTANBUL] by simp
qed

text \<open>
  Property C25. A push pushes its operand: the argument that the translation of a push of 1 to 32 bytes gives to
  its instruction, inline or as an entry of the table of pushed values, is the big-endian number of the
  bytes that follow, completed with zeros at the end of the code; those bytes are skipped.
\<close>

theorem push_argument:
  assumes "is_small_push op \<or> is_large_push op" "instrs an \<noteq> []" "translate_arg op pos rest b an = (used, an')"
  shows "pushed an' (last (instrs an')) =
      be_load (replicate (32 - push_bytes op) 0 @ take (push_bytes op) (rest @ replicate (push_bytes op) 0)) \<and>
    used = min (push_bytes op) (length rest)"
  using push_translated [OF assms] by (simp add: push_operand_def)

text \<open>The witness: \<^verbatim>\<open>PUSH3\<close> with two bytes left.\<close>

theorem push_argument_witness:
  "\<exists>an'. translate_arg 0x62 1 [0xab, 0xcd] (new_block 0) (analyze EVMC_ISTANBUL []) = (2, an') \<and>
    pushed an' (last (instrs an')) = 0xabcd00"
proof -
  obtain used an' where t: "translate_arg 0x62 1 [0xab, 0xcd] (new_block 0) (analyze EVMC_ISTANBUL []) = (used, an')"
    by fastforce
  have "instrs (analyze EVMC_ISTANBUL []) \<noteq> []" "is_small_push 0x62 \<or> is_large_push 0x62" by code_simp+
  note push_argument [OF this(2,1) t]
  moreover have "push_bytes 0x62 = 3" by code_simp
  moreover have "be_load (replicate (32 - 3) 0 @ take 3 ([0xab, 0xcd] @ replicate 3 0)) = 0xabcd00" by code_simp
  ultimately show ?thesis using t by simp
qed

section \<open>Stack and memory\<close>

text \<open>
  Property C27. The array stack refines the list stack: any sequence of size queries, reads, writes, pushes and
  pops on the 1024-word array with its top pointer, from the empty stack on, returns what it returns on the
  list of items and leaves its items, and it leaves the array exactly when the list operations fail.
\<close>

theorem array_stack_refines:
  "map_option (map_prod id array_items) (run_ops (run_op array_size array_at array_put array_push array_pop) ops array_new) =
    run_ops list_op ops []"
  using ar.ops_refine [OF array_new(1), of ops] by (simp add: array_new(2))

lemma be_load_store [simp]: "be_load (be_store x) = x"
  by (simp add: be_load_def be_store_def le_word_bytes)

lemma length_be_store [simp]: "length (be_store x) = 32" "be_store x \<noteq> []"
proof -
  show "length (be_store x) = 32" by (simp add: be_store_def)
  then show "be_store x \<noteq> []" by auto
qed

lemma mstore_success:
  assumes st: "stack st = off # v # s" and r: "evm_mstore st = Some (EVMC_SUCCESS, st1)"
  defines "n \<equiv> (if length (memory st) < to_size off + 32 then (to_size off + 63) div 32 * 32 else length (memory st))"
  shows "stack st1 = s" "to_size off + 32 \<le> n" "off \<le> max_buffer_size"
    "memory st1 = take (to_size off) (memory_resize (memory st) n) @ be_store v @ drop (to_size off + 32) (memory_resize (memory st) n)"
proof -
  obtain b g m where e: "expand_memory (gas_left st) (memory st) off 32 = (b, g, m)" by (metis prod_cases3)
  have b: b using r by (cases b) (auto simp: evm_mstore_def st expand_eqs e)
  have w: "st_write (st\<lparr>stack := s, gas_left := g, memory := m\<rparr>) (to_size off) (be_store v) = Some st1"
    using r b by (auto simp: evm_mstore_def st expand_eqs e split: Option.bind_splits)
  show n: "to_size off + 32 \<le> n" unfolding n_def using round_up [of "to_size off + 32"] by (auto simp: add.commute)
  have "memory_resize (memory st) (length (memory st)) = memory st" by (simp add: memory_resize_def)
  then have m: "m = memory_resize (memory st) n"
    using e b by (auto simp: expand_memory_def n_def Let_def add.commute split: if_splits)
  show "off \<le> max_buffer_size" using e b by (auto simp: expand_memory_def split: if_splits)
  show "stack st1 = s"
    "memory st1 = take (to_size off) (memory_resize (memory st) n) @ be_store v @ drop (to_size off + 32) (memory_resize (memory st) n)"
    using w n by (auto simp: st_write_def memory_write_def m split: if_splits)
qed

text \<open>
  Property C26. What is stored is loaded: after a successful \<^verbatim>\<open>MSTORE\<close> the memory is the old one, extended with
  zeros to whole words where it was too short, with the 32 big-endian bytes of the value at the offset; and
  \<^verbatim>\<open>MLOAD\<close> from the same offset then yields the value, at no gas and without touching the memory.
\<close>

theorem mload_after_mstore:
  assumes "stack st = off # v # s" "evm_mstore st = Some (EVMC_SUCCESS, st1)"
  shows "evm_mload (st1\<lparr>stack := off # s\<rparr>) = Some (EVMC_SUCCESS, st1\<lparr>stack := v # s\<rparr>) \<and>
    memory st1 =
      (let m = memory_resize (memory st)
          (if length (memory st) < to_size off + 32 then (to_size off + 63) div 32 * 32 else length (memory st))
       in take (to_size off) m @ be_store v @ drop (to_size off + 32) m)"
proof -
  note f = mstore_success [OF assms]
  have "to_size off + 32 \<le> length (memory st1)" using f(2) by (simp add: f(4))
  then have "expand_memory (gas_left st1) (memory st1) off 32 = (True, gas_left st1, memory st1)"
    using f(3) by (simp add: expand_memory_def)
  moreover have "memory_read (memory st1) (to_size off) 32 = Some (be_store v)"
    using f(2) by (simp add: f(4) memory_read_def)
  ultimately show ?thesis using f(4)
    by (simp add: evm_mload_def st_top_def expand_eqs st_set_top_def Let_def)
qed

definition memory_example :: "unit ExecutionState" where
  "memory_example =
    \<lparr>gas_left = 100, stack = [1, 7], memory = [], msg = sum_message,
     host = \<lparr>interface = silent_host, context_state = (), tx_context = empty_tx_context\<rparr>,
     revision = EVMC_ISTANBUL, return_data = [], code = [], status = EVMC_SUCCESS, output_offset = 0, output_size = 0\<rparr>"

theorem mload_after_mstore_witness:
  "\<exists>st1. evm_mstore memory_example = Some (EVMC_SUCCESS, st1) \<and>
    evm_mload (st1\<lparr>stack := [1]\<rparr>) = Some (EVMC_SUCCESS, st1\<lparr>stack := [7]\<rparr>)"
proof -
  have "map_option fst (evm_mstore memory_example) = Some EVMC_SUCCESS" by code_simp
  then obtain st1 where st1: "evm_mstore memory_example = Some (EVMC_SUCCESS, st1)" by auto
  have "stack memory_example = [1, 7]" by (simp add: memory_example_def)
  from mload_after_mstore [OF this st1] show ?thesis using st1 by blast
qed

end
