(* ===== verification/LdbCoding.thy ===== *)
theory LdbCoding
  imports Bytes
begin

text \<open>
  The encodings of leveldb (\<^verbatim>\<open>util/coding.cc\<close> and \<^verbatim>\<open>util/coding.h\<close>): little-endian integers of
  a fixed width, integers in base 128 with a continuation bit (varints), and strings behind
  their length.

  A \<^verbatim>\<open>Slice\<close> and a \<^verbatim>\<open>std::string\<close> are the lists of their bytes. A routine that writes through a
  pointer is the list of the bytes it writes; a routine that reads from \<open>p\<close> up to \<open>limit\<close>
  takes the bytes in between and answers the value and the bytes from the returned pointer on,
  \<open>None\<close> for the null pointer.
\<close>

type_synonym slice = "u8 list"

section \<open>Integers of a fixed width\<close>

definition encode_fixed32 :: "u32 \<Rightarrow> u8 list" where
  "encode_fixed32 value = le_bytes 4 value"

definition encode_fixed64 :: "u64 \<Rightarrow> u8 list" where
  "encode_fixed64 value = le_bytes 8 value"

definition put_fixed32 :: "slice \<Rightarrow> u32 \<Rightarrow> slice" where
  "put_fixed32 dst value = dst @ encode_fixed32 value"

definition put_fixed64 :: "slice \<Rightarrow> u64 \<Rightarrow> slice" where
  "put_fixed64 dst value = dst @ encode_fixed64 value"

text \<open>The callers of the two loads have checked that four or eight bytes are there.\<close>

definition decode_fixed32 :: "u8 list \<Rightarrow> u32" where
  "decode_fixed32 ptr = le_word (take 4 ptr)"

definition decode_fixed64 :: "u8 list \<Rightarrow> u64" where
  "decode_fixed64 ptr = le_word (take 8 ptr)"

section \<open>Varints\<close>

definition encode_varint32 :: "u32 \<Rightarrow> u8 list" where
  "encode_varint32 v =
    (let B = 128 in
     if v < push_bit 7 1 then [ucast v]
     else if v < push_bit 14 1 then [ucast (v OR B), ucast (drop_bit 7 v)]
     else if v < push_bit 21 1 then
       [ucast (v OR B), ucast (drop_bit 7 v OR B), ucast (drop_bit 14 v)]
     else if v < push_bit 28 1 then
       [ucast (v OR B), ucast (drop_bit 7 v OR B), ucast (drop_bit 14 v OR B), ucast (drop_bit 21 v)]
     else [ucast (v OR B), ucast (drop_bit 7 v OR B), ucast (drop_bit 14 v OR B),
       ucast (drop_bit 21 v OR B), ucast (drop_bit 28 v)])"

lemma unat_drop_bit_7: "unat (drop_bit 7 (v :: u64)) = unat v div 128"
  unfolding unat_drop_bit_eq unfolding drop_bit_eq_div by simp

lemma unat_drop_bit_less [termination_simp]: "128 \<le> (v :: u64) \<Longrightarrow> unat (drop_bit 7 v) < unat v"
  by (simp only: unat_drop_bit_7 word_le_nat_alt) simp

function encode_varint64 :: "u64 \<Rightarrow> u8 list" where
  "encode_varint64 v =
    (if 128 \<le> v then ucast (v OR 128) # encode_varint64 (drop_bit 7 v) else [ucast v])"
  by auto
termination
  by (relation "measure unat") (simp_all add: unat_drop_bit_less)

function varint_length :: "u64 \<Rightarrow> nat" where
  "varint_length v = (if 128 \<le> v then Suc (varint_length (drop_bit 7 v)) else 1)"
  by auto
termination
  by (relation "measure unat") (simp_all add: unat_drop_bit_less)

declare encode_varint64.simps [simp del] varint_length.simps [simp del]

definition put_varint32 :: "slice \<Rightarrow> u32 \<Rightarrow> slice" where
  "put_varint32 dst v = dst @ encode_varint32 v"

definition put_varint64 :: "slice \<Rightarrow> u64 \<Rightarrow> slice" where
  "put_varint64 dst v = dst @ encode_varint64 v"

definition put_length_prefixed_slice :: "slice \<Rightarrow> slice \<Rightarrow> slice" where
  "put_length_prefixed_slice dst value =
    put_varint32 dst (word_of_nat (length value)) @ value"

text \<open>
  The loop of \<^verbatim>\<open>GetVarint32PtrFallback\<close> and \<^verbatim>\<open>GetVarint64Ptr\<close>: \<open>max_shift\<close> is the bound of
  \<open>shift\<close>, and the width of the result is that of the type.
\<close>

fun varint_loop :: "nat \<Rightarrow> nat \<Rightarrow> 'a::len word \<Rightarrow> u8 list \<Rightarrow> ('a word \<times> u8 list) option" where
  "varint_loop max_shift shift result [] = None"
| "varint_loop max_shift shift result (b # p) =
    (if shift \<le> max_shift then
       let byte = ucast b in
       if byte AND 128 \<noteq> 0
       then varint_loop max_shift (shift + 7) (result OR push_bit shift (byte AND 127)) p
       else Some (result OR push_bit shift byte, p)
     else None)"

definition get_varint32_ptr_fallback :: "u8 list \<Rightarrow> (u32 \<times> u8 list) option" where
  "get_varint32_ptr_fallback p = varint_loop 28 0 0 p"

definition get_varint32_ptr :: "u8 list \<Rightarrow> (u32 \<times> u8 list) option" where
  "get_varint32_ptr p =
    (case p of
       b # q \<Rightarrow> let result = ucast b in
                if result AND 128 = 0 then Some (result, q) else get_varint32_ptr_fallback p
     | [] \<Rightarrow> get_varint32_ptr_fallback p)"

definition get_varint64_ptr :: "u8 list \<Rightarrow> (u64 \<times> u8 list) option" where
  "get_varint64_ptr p = varint_loop 63 0 0 p"

text \<open>The routines on a slice answer the value, if any, and the slice they leave behind.\<close>

definition get_varint32 :: "slice \<Rightarrow> u32 option \<times> slice" where
  "get_varint32 input =
    (case get_varint32_ptr input of None \<Rightarrow> (None, input) | Some (value, q) \<Rightarrow> (Some value, q))"

definition get_varint64 :: "slice \<Rightarrow> u64 option \<times> slice" where
  "get_varint64 input =
    (case get_varint64_ptr input of None \<Rightarrow> (None, input) | Some (value, q) \<Rightarrow> (Some value, q))"

definition get_length_prefixed_slice_ptr :: "u8 list \<Rightarrow> (slice \<times> u8 list) option" where
  "get_length_prefixed_slice_ptr p =
    (case get_varint32_ptr p of
       None \<Rightarrow> None
     | Some (len, p) \<Rightarrow>
         if length p < unat len then None else Some (take (unat len) p, drop (unat len) p))"

definition get_length_prefixed_slice :: "slice \<Rightarrow> slice option \<times> slice" where
  "get_length_prefixed_slice input =
    (case get_varint32 input of
       (None, input) \<Rightarrow> (None, input)
     | (Some len, input) \<Rightarrow>
         if unat len \<le> length input then (Some (take (unat len) input), drop (unat len) input)
         else (None, input))"

section \<open>Round trips\<close>

lemma decode_encode_fixed32 [simp]: "decode_fixed32 (encode_fixed32 v @ rest) = v"
  by (simp add: decode_fixed32_def encode_fixed32_def le_word_bytes)

lemma decode_encode_fixed64 [simp]: "decode_fixed64 (encode_fixed64 v @ rest) = v"
  by (simp add: decode_fixed64_def encode_fixed64_def le_word_bytes)

lemma length_encode_fixed [simp]:
  "length (encode_fixed32 v) = 4" "length (encode_fixed64 w) = 8"
  by (simp_all add: encode_fixed32_def encode_fixed64_def)

text \<open>What the reader's loop makes of the two kinds of bytes that the writer's loop writes.\<close>

lemma bit_group_consts:
  "bit (127 :: 'b::len word) n \<longleftrightarrow> n < 7 \<and> n < LENGTH('b)"
  "bit (128 :: 'b word) n \<longleftrightarrow> n = 7 \<and> n < LENGTH('b)"
proof -
  have "(127 :: 'b word) = mask 7" "(128 :: 'b word) = 2 ^ 7"
    by (simp_all add: mask_eq_exp_minus_1)
  then show "bit (127 :: 'b::len word) n \<longleftrightarrow> n < 7 \<and> n < LENGTH('b)"
      "bit (128 :: 'b word) n \<longleftrightarrow> n = 7 \<and> n < LENGTH('b)"
    by (auto simp only: bit_mask_iff bit_exp_iff possible_bit_word)
qed

lemma more_byte:
  fixes v :: u64
  assumes "8 \<le> LENGTH('a::len)"
  shows "(ucast (ucast (v OR 128) :: u8) :: 'a word) AND 128 \<noteq> 0"
    "(ucast (ucast (v OR 128) :: u8) :: 'a word) AND 127 = ucast v AND 127"
proof -
  have "bit ((ucast (ucast (v OR 128) :: u8) :: 'a word) AND 128) 7"
    using assms unfolding bit_and_iff bit_ucast_iff bit_or_iff bit_group_consts by simp
  then show "(ucast (ucast (v OR 128) :: u8) :: 'a word) AND 128 \<noteq> 0" by fastforce
  show "(ucast (ucast (v OR 128) :: u8) :: 'a word) AND 127 = ucast v AND 127"
    using assms by (intro bit_word_eqI)
      (unfold bit_and_iff bit_or_iff bit_ucast_iff bit_group_consts, auto)
qed

lemma small_bits: "v < 128 \<Longrightarrow> bit (v :: u64) n \<Longrightarrow> n < 7"
proof -
  assume "v < 128" "bit v n"
  then have "take_bit 7 (unat v) = unat v"
    by (intro take_bit_nat_eq_self) (simp add: word_less_nat_alt)
  moreover have "bit (unat v) n"
    using \<open>bit v n\<close> by (simp add: bit_unsigned_iff bit_imp_le_length)
  ultimately have "bit (take_bit 7 (unat v)) n" by simp
  then show ?thesis unfolding bit_take_bit_iff by simp
qed

lemma last_byte:
  fixes v :: u64
  assumes "v < 128" "8 \<le> LENGTH('a::len)"
  shows "(ucast (ucast v :: u8) :: 'a word) AND 128 = 0" "(ucast (ucast v :: u8) :: 'a word) = ucast v"
proof -
  have "\<not> bit v n" if "7 \<le> n" for n using small_bits [OF assms(1), of n] that by auto
  then show "(ucast (ucast v :: u8) :: 'a word) AND 128 = 0"
    by (intro bit_word_eqI) (unfold bit_and_iff bit_ucast_iff bit_group_consts, auto)
  show "(ucast (ucast v :: u8) :: 'a word) = ucast v"
    using small_bits [OF assms(1)] assms(2)
    by (intro bit_word_eqI) (unfold bit_ucast_iff, force)
qed

lemma merge_groups:
  fixes v :: u64
  shows "(r OR push_bit s (ucast v AND 127)) OR push_bit (s + 7) (ucast (drop_bit 7 v)) =
    r OR push_bit s (ucast v :: 'a::len word)"
proof (rule bit_word_eqI)
  fix n assume n: "n < LENGTH('a)"
  show "bit ((r OR push_bit s (ucast v AND 127)) OR push_bit (s + 7) (ucast (drop_bit 7 v))) n =
    bit (r OR push_bit s (ucast v)) n"
  proof (cases "n < s + 7")
    case True
    then show ?thesis using n
      unfolding bit_or_iff bit_push_bit_iff bit_and_iff bit_ucast_iff bit_drop_bit_eq bit_group_consts
      by auto
  next
    case False
    then have "7 + (n - (s + 7)) = n - s" by simp
    then show ?thesis using n False
      unfolding bit_or_iff bit_push_bit_iff bit_and_iff bit_ucast_iff bit_drop_bit_eq bit_group_consts comp_def
      by auto
  qed
qed

lemma encode_varint64_step:
  "128 \<le> v \<Longrightarrow> encode_varint64 v = ucast (v OR 128) # encode_varint64 (drop_bit 7 v)"
  "v < 128 \<Longrightarrow> encode_varint64 v = [ucast v]"
  by (simp_all add: encode_varint64.simps [of v] linorder_not_le [symmetric])

lemma varint_loop_encode:
  fixes v :: u64
  assumes "unat v < 2 ^ (7 * Suc j)" "s + 7 * j \<le> m" "8 \<le> LENGTH('a::len)"
  shows "varint_loop m s r (encode_varint64 v @ rest) = Some (r OR push_bit s (ucast v :: 'a word), rest)"
  using assms(1,2)
proof (induction j arbitrary: v s r)
  case 0
  then have "v < 128" by (simp add: word_less_nat_alt)
  moreover note encode_varint64_step(2) [OF this]
  ultimately show ?case using 0 last_byte [OF \<open>v < 128\<close> assms(3)] by (simp add: Let_def)
next
  case (Suc j)
  show ?case
  proof (cases "128 \<le> v")
    case True
    have "unat (drop_bit 7 v) < 2 ^ (7 * Suc j)"
      using Suc.prems(1) unfolding unat_drop_bit_7
      by (intro less_mult_imp_div_less) (simp add: power_add)
    from Suc.IH [OF this, of "s + 7"] Suc.prems(2) True show ?thesis
      by (simp add: encode_varint64_step Let_def more_byte [OF assms(3)] merge_groups [unfolded push_bit_and])
  next
    case False
    then have "v < 128" by (simp only: not_le)
    then show ?thesis using Suc.prems last_byte [OF \<open>v < 128\<close> assms(3)] encode_varint64_step(2) [of v] by (simp add: Let_def)
  qed
qed

text \<open>The unrolled writer of 32 bits is the loop of the writer of 64 bits.\<close>

lemma group_bytes:
  "ucast (drop_bit k (ucast (v :: u32) :: u64)) = (ucast (drop_bit k v) :: u8)"
  "ucast (drop_bit k (ucast v :: u64) OR 128) = (ucast (drop_bit k v OR 128) :: u8)"
  by (rule bit_word_eqI, unfold bit_or_iff bit_drop_bit_eq bit_ucast_iff bit_group_consts comp_def,
      use bit_imp_le_length in fastforce)+

lemma unat_widen: "unat (ucast (v :: u32) :: u64) = unat v"
proof -
  have "unat v < 2 ^ LENGTH(32)" by (rule unsigned_less)
  then show ?thesis by (simp add: unsigned_ucast_eq take_bit_nat_eq_self)
qed

lemma group_limit: "128 \<le> drop_bit k (ucast (v :: u32) :: u64) \<longleftrightarrow> 2 ^ (k + 7) \<le> unat v"
proof -
  have "unat (drop_bit k (ucast v :: u64)) = unat v div 2 ^ k"
    by (simp only: unat_drop_bit_eq unat_widen) (simp only: drop_bit_eq_div)
  moreover have "128 \<le> unat v div 2 ^ k \<longleftrightarrow> 2 ^ (k + 7) \<le> unat v"
    by (simp add: less_eq_div_iff_mult_less_eq power_add mult.commute)
  ultimately show ?thesis by (simp add: word_le_nat_alt)
qed

lemma encode_varint32_64: "encode_varint32 v = encode_varint64 (ucast v)"
proof -
  let ?w = "ucast v :: u64"
  have step: "encode_varint64 (drop_bit k ?w) =
     (if 2 ^ (k + 7) \<le> unat v then ucast (drop_bit k v OR 128) # encode_varint64 (drop_bit (k + 7) ?w)
      else [ucast (drop_bit k v)])" for k
    by (subst encode_varint64.simps) (simp only: group_limit group_bytes drop_bit_drop_bit add.commute)
  have limit: "v < push_bit 7 1 \<longleftrightarrow> \<not> 2 ^ 7 \<le> unat v" "v < push_bit 14 1 \<longleftrightarrow> \<not> 2 ^ 14 \<le> unat v"
      "v < push_bit 21 1 \<longleftrightarrow> \<not> 2 ^ 21 \<le> unat v" "v < push_bit 28 1 \<longleftrightarrow> \<not> 2 ^ 28 \<le> unat v"
    by (simp_all add: word_less_nat_alt not_le)
  have "unat v < 2 ^ LENGTH(32)" by (rule unsigned_less)
  then have top: "\<not> 2 ^ 35 \<le> unat v" by simp
  from step [of 0] step [of 7] step [of 14] step [of 21] step [of 28] top show ?thesis
    unfolding encode_varint32_def Let_def limit by simp
qed

lemma get_varint64_put: "get_varint64 (encode_varint64 v @ rest) = (Some v, rest)"
proof -
  have "unat v < 2 ^ LENGTH(64)" by (rule unsigned_less)
  then have "unat v < 2 ^ (7 * Suc 9)" by simp
  from varint_loop_encode [OF this, of 0 63 "0 :: u64" rest] show ?thesis
    by (simp add: get_varint64_def get_varint64_ptr_def)
qed

lemma get_varint32_ptr_fast: "get_varint32_ptr p = get_varint32_ptr_fallback p"
  by (cases p) (simp_all add: get_varint32_ptr_def get_varint32_ptr_fallback_def Let_def)

lemma get_varint32_put: "get_varint32 (encode_varint32 v @ rest) = (Some v, rest)"
proof -
  have "unat v < 2 ^ LENGTH(32)" by (rule unsigned_less)
  moreover note unat_widen [of v]
  ultimately have "unat (ucast v :: u64) < 2 ^ (7 * Suc 4)" by simp
  moreover have "ucast (ucast v :: u64) = v" by (rule bit_word_eqI) (simp add: bit_simps)
  ultimately show ?thesis using varint_loop_encode [of "ucast v" 4 0 28 "0 :: u32" rest]
    by (simp add: get_varint32_def get_varint32_ptr_fast get_varint32_ptr_fallback_def encode_varint32_64)
qed

lemma get_length_prefixed_put:
  "length d < 2 ^ 32 \<Longrightarrow>
   get_length_prefixed_slice (put_length_prefixed_slice [] d @ rest) = (Some d, rest)"
  using get_varint32_put [of "word_of_nat (length d)" "d @ rest"]
  by (simp add: get_length_prefixed_slice_def put_length_prefixed_slice_def put_varint32_def
      unat_of_nat)

lemma length_encode_varint64: "length (encode_varint64 v) = varint_length v"
  by (induction v rule: encode_varint64.induct)
    (subst encode_varint64.simps, subst varint_length.simps, simp)

text \<open>A varint takes at least a byte.\<close>

lemma varint_loop_shorter: "varint_loop m s r p = Some (v, q) \<Longrightarrow> length q < length p"
  by (induction m s r p rule: varint_loop.induct) (auto simp: Let_def split: if_splits)

text \<open>The two forms of the reader of a prefixed string agree.\<close>

lemma get_length_prefixed_agree:
  "get_length_prefixed_slice_ptr p = Some (d, q) \<longleftrightarrow> get_length_prefixed_slice p = (Some d, q)"
  by (auto simp: get_length_prefixed_slice_ptr_def get_length_prefixed_slice_def get_varint32_def
      split: option.splits prod.splits if_splits)

text \<open>An array of fixed integers, read at an index.\<close>

lemma drop_fixed32s:
  "j < length R \<Longrightarrow> drop (j * 4) (concat (map (\<lambda>r. encode_fixed32 (f r)) R) @ z) =
    encode_fixed32 (f (R ! j)) @ drop (Suc j * 4) (concat (map (\<lambda>r. encode_fixed32 (f r)) R) @ z)"
  by (induction R arbitrary: j) (auto simp: nth_Cons' less_Suc_eq_0_disj)

end
