(* ===== verification/LdbFile.thy ===== *)
theory LdbFile
  imports LdbCoding
begin

text \<open>
  What leveldb asks of a file (\<^verbatim>\<open>include/leveldb/env.h\<close>) and its in-memory file
  (\<^verbatim>\<open>helpers/memenv/memenv.cc\<close>). The routines of a file are a record of functions, as the
  virtual functions of \<^verbatim>\<open>WritableFile\<close> and \<^verbatim>\<open>SequentialFile\<close> are; two locales state what
  the callers rely on, and the in-memory file is their model.

  Sizes and offsets inside the in-memory file are natural numbers: no file reaches \<open>2 ^ 64\<close>
  bytes of memory. The reference counts and the mutexes are left out.
\<close>

section \<open>Status\<close>

datatype status =
    OK | NotFound string | Corruption string | NotSupported string | InvalidArgument string
  | IOError string

definition status_ok :: "status \<Rightarrow> bool" where
  "status_ok s \<longleftrightarrow> s = OK"

lemma status_ok_OK [simp]: "status_ok OK"
  by (simp add: status_ok_def)

section \<open>The interfaces\<close>

record 'f writable_file =
  wf_append :: "'f \<Rightarrow> slice \<Rightarrow> status \<times> 'f"
  wf_flush :: "'f \<Rightarrow> status \<times> 'f"

text \<open>A read answers the status, the bytes read and the file.\<close>

record 'f sequential_file =
  sf_read :: "'f \<Rightarrow> nat \<Rightarrow> status \<times> slice \<times> 'f"
  sf_skip :: "'f \<Rightarrow> u64 \<Rightarrow> status \<times> 'f"

locale writable =
  fixes ops :: "'f writable_file" and written :: "'f \<Rightarrow> slice" and sound :: "'f \<Rightarrow> bool"
  assumes append_law: "sound f \<Longrightarrow> \<exists>f'. wf_append ops f data = (OK, f') \<and> sound f' \<and> written f' = written f @ data"
    and flush_law: "sound f \<Longrightarrow> \<exists>f'. wf_flush ops f = (OK, f') \<and> sound f' \<and> written f' = written f"

text \<open>\<open>unread\<close> are the bytes from the position of a sequential file on.\<close>

locale sequential =
  fixes ops :: "'g sequential_file" and unread :: "'g \<Rightarrow> slice" and readable :: "'g \<Rightarrow> bool"
  assumes read_law: "readable f \<Longrightarrow> \<exists>f'. sf_read ops f n = (OK, take n (unread f), f') \<and>
      readable f' \<and> unread f' = drop n (unread f)"
    and skip_law: "readable f \<Longrightarrow> \<exists>f'. sf_skip ops f k = (OK, f') \<and> readable f' \<and>
      unread f' = drop (unat k) (unread f)"

section \<open>The in-memory file\<close>

definition mem_block_size :: nat where [layout]: "mem_block_size = 8 * 1024"

record file_state =
  file_blocks :: "u8 list list"
  file_size :: nat

definition empty_file :: file_state where
  "empty_file = \<lparr>file_blocks = [], file_size = 0\<rparr>"

definition file_truncate :: "file_state \<Rightarrow> file_state" where
  "file_truncate st = st\<lparr>file_blocks := [], file_size := 0\<rparr>"

text \<open>
  The bytes of a new block are unspecified in the code. The model has zeros; no byte at or
  behind the size of the file is ever read.
\<close>

definition new_block :: "u8 list" where
  "new_block = replicate mem_block_size 0"

definition copy_into :: "u8 list \<Rightarrow> nat \<Rightarrow> u8 list \<Rightarrow> u8 list" where
  "copy_into block offset src = take offset block @ src @ drop (offset + length src) block"

function append_loop :: "file_state \<Rightarrow> slice \<Rightarrow> file_state" where
  "append_loop st src =
    (if src = [] then st
     else let offset = file_size st mod mem_block_size;
              (blocks, avail) = (if offset \<noteq> 0 then (file_blocks st, mem_block_size - offset)
                                 else (file_blocks st @ [new_block], mem_block_size));
              avail = min avail (length src)
          in append_loop
               (st\<lparr>file_blocks := butlast blocks @ [copy_into (last blocks) offset (take avail src)],
                  file_size := file_size st + avail\<rparr>)
               (drop avail src))"
  by auto
termination
  by (relation "measure (\<lambda>(st, src). length src)") (auto simp: layout split: if_splits)

declare append_loop.simps [simp del]

definition file_append :: "file_state \<Rightarrow> slice \<Rightarrow> status \<times> file_state" where
  "file_append st data = (OK, append_loop st data)"

function copy_loop :: "u8 list list \<Rightarrow> nat \<Rightarrow> nat \<Rightarrow> nat \<Rightarrow> u8 list" where
  "copy_loop blocks block block_offset bytes_to_copy =
    (if bytes_to_copy = 0 then []
     else let avail = min (mem_block_size - block_offset) bytes_to_copy
          in take avail (drop block_offset (blocks ! block)) @
             copy_loop blocks (block + 1) 0 (bytes_to_copy - avail))"
  by auto
termination
  by (relation "measure (\<lambda>(_, _, block_offset, n). 2 * n + (if block_offset = 0 then 0 else 1))")
    (auto simp: layout)

declare copy_loop.simps [simp del]

definition file_read :: "file_state \<Rightarrow> nat \<Rightarrow> nat \<Rightarrow> status \<times> slice" where
  "file_read st offset n =
    (if file_size st < offset then (IOError ''Offset greater than file size.'', [])
     else let n = min n (file_size st - offset)
          in if n = 0 then (OK, [])
             else (OK, copy_loop (file_blocks st) (offset div mem_block_size) (offset mod mem_block_size) n))"

record sequential_state =
  seq_file :: file_state
  seq_pos :: nat

definition open_sequential :: "file_state \<Rightarrow> sequential_state" where
  "open_sequential st = \<lparr>seq_file = st, seq_pos = 0\<rparr>"

definition seq_read :: "sequential_state \<Rightarrow> nat \<Rightarrow> status \<times> slice \<times> sequential_state" where
  "seq_read f n =
    (let (s, result) = file_read (seq_file f) (seq_pos f) n
     in (s, result, if status_ok s then f\<lparr>seq_pos := seq_pos f + length result\<rparr> else f))"

definition seq_skip :: "sequential_state \<Rightarrow> u64 \<Rightarrow> status \<times> sequential_state" where
  "seq_skip f n =
    (if file_size (seq_file f) < seq_pos f then (IOError ''pos_ > file_->Size()'', f)
     else let available = file_size (seq_file f) - seq_pos f
          in (OK, f\<lparr>seq_pos := seq_pos f + min (unat n) available\<rparr>))"

definition mem_writable :: "file_state writable_file" where
  "mem_writable = \<lparr>wf_append = file_append, wf_flush = (\<lambda>st. (OK, st))\<rparr>"

definition mem_sequential :: "sequential_state sequential_file" where
  "mem_sequential = \<lparr>sf_read = seq_read, sf_skip = seq_skip\<rparr>"

section \<open>The in-memory file keeps what was appended\<close>

text \<open>All blocks are full-sized and there are just enough of them.\<close>

definition file_ok :: "file_state \<Rightarrow> bool" where
  "file_ok st \<longleftrightarrow> (\<forall>b \<in> set (file_blocks st). length b = mem_block_size) \<and>
     length (file_blocks st) = (file_size st + mem_block_size - 1) div mem_block_size"

definition file_contents :: "file_state \<Rightarrow> slice" where
  "file_contents st = take (file_size st) (concat (file_blocks st))"

lemma mem_block_size_pos [simp]: "0 < mem_block_size" "mem_block_size \<noteq> 0"
  by (simp_all add: layout)

lemma length_file_blocks:
  "(\<And>b. b \<in> set bs \<Longrightarrow> length b = mem_block_size) \<Longrightarrow> length (concat bs) = length bs * mem_block_size"
  by (induction bs) auto

lemma file_ok_empty [simp]: "file_ok empty_file" "file_contents empty_file = []"
  by (simp_all add: file_ok_def file_contents_def empty_file_def)

text \<open>The blocks with room for the next byte, as the loop finds or makes them.\<close>

definition room :: "file_state \<Rightarrow> u8 list list" where
  "room st = (if file_size st mod mem_block_size \<noteq> 0 then file_blocks st else file_blocks st @ [new_block])"

lemma ceil_div_eq: "q * k < m \<Longrightarrow> m \<le> q * k + k \<Longrightarrow> (m + k - 1) div k = Suc (q :: nat)"
  by (rule div_nat_eqI) (simp_all add: mult.commute [of k])

lemma ceil_div:
  "0 < k \<Longrightarrow> (s + k - 1) div k = (if s mod k = 0 then s div k else Suc (s div (k :: nat)))"
proof -
  assume k: "0 < k"
  have s: "s div k * k + s mod k = s" by simp
  show ?thesis
  proof (cases "s mod k = 0")
    case True
    with s k have "(s + k - 1) div k = s div k"
      by (intro div_nat_eqI) (simp_all add: mult.commute [of k])
    with True show ?thesis by simp
  next
    case False
    have "(s + k - 1) div k = Suc (s div k)"
      by (rule ceil_div_eq) (use s False mod_less_divisor [OF k, of s] in linarith)+
    with False show ?thesis by simp
  qed
qed

lemma ceil_div_ge: "0 < k \<Longrightarrow> s \<le> (s + k - 1) div k * (k :: nat)"
proof -
  assume k: "0 < k"
  have "s \<le> (if r = 0 then q else Suc q) * k" if "s = q * k + r" "r < k" for q r
    using that by (cases "r = 0") auto
  from this [of "s div k" "s mod k"] k show ?thesis unfolding ceil_div [OF k] by simp
qed

lemma room_ok:
  assumes "file_ok st"
  shows "length (room st) = Suc (file_size st div mem_block_size)"
    "\<And>b. b \<in> set (room st) \<Longrightarrow> length b = mem_block_size"
    "file_contents st = concat (butlast (room st)) @ take (file_size st mod mem_block_size) (last (room st))"
proof -
  let ?K = mem_block_size and ?s = "file_size st" and ?bs = "file_blocks st"
  have blocks: "\<And>b. b \<in> set ?bs \<Longrightarrow> length b = ?K" and len: "length ?bs = (?s + ?K - 1) div ?K"
    using assms by (auto simp: file_ok_def)
  show all: "\<And>b. b \<in> set (room st) \<Longrightarrow> length b = ?K"
    using blocks by (auto simp: room_def new_block_def split: if_splits)
  show len_room: "length (room st) = Suc (?s div ?K)"
    unfolding room_def using len unfolding ceil_div [OF mem_block_size_pos(1)] by simp
  show "file_contents st = concat (butlast (room st)) @ take (?s mod ?K) (last (room st))"
  proof (cases "?s mod ?K = 0")
    case True
    then have "length ?bs * ?K = ?s" using len_room by (auto simp: room_def)
    with True show ?thesis using length_file_blocks [OF blocks] by (simp add: file_contents_def room_def)
  next
    case False
    then have room: "room st = ?bs" "?bs \<noteq> []" using len_room by (auto simp: room_def)
    have "length (concat (butlast ?bs)) = ?s div ?K * ?K"
      using length_file_blocks [of "butlast ?bs"] blocks len_room room by (auto dest: in_set_butlastD)
    moreover have "concat ?bs = concat (butlast ?bs) @ last ?bs"
      using room(2) by (metis append_butlast_last_id concat.simps concat_append append_Nil2)
    moreover have "?s = ?s div ?K * ?K + ?s mod ?K" by simp
    ultimately show ?thesis unfolding file_contents_def room(1)
      by (metis add_diff_cancel_left' length_append take_all_iff take_append le_add1)
  qed
qed

lemma append_loop_ok:
  "file_ok st \<Longrightarrow> file_ok (append_loop st src) \<and> file_contents (append_loop st src) = file_contents st @ src"
proof (induction "length src" arbitrary: st src rule: less_induct)
  case less
  let ?K = mem_block_size and ?s = "file_size st"
  show ?case
  proof (cases "src = []")
    case True
    then show ?thesis using less.prems by (simp add: append_loop.simps)
  next
    case False
    define avail where "avail = min (?K - ?s mod ?K) (length src)"
    define block where "block = copy_into (last (room st)) (?s mod ?K) (take avail src)"
    define st' where "st' = st\<lparr>file_blocks := butlast (room st) @ [block], file_size := ?s + avail\<rparr>"
    note ok = room_ok [OF less.prems]
    have step: "append_loop st src = append_loop st' (drop avail src)"
      using False unfolding st'_def block_def avail_def room_def
      by (subst append_loop.simps) (auto simp: Let_def)
    have avail: "0 < avail" "avail \<le> ?K - ?s mod ?K" "avail \<le> length src"
      using False by (auto simp: avail_def)
    have last: "length (last (room st)) = ?K" using ok(1) by (intro ok(2) last_in_set) auto
    have len_block: "length block = ?K"
      using avail last mod_less_divisor [of ?K ?s] by (simp add: block_def copy_into_def)
    have len_concat: "length (concat (butlast (room st))) = ?s div ?K * ?K"
      using length_file_blocks [of "butlast (room st)"] ok by (auto dest: in_set_butlastD)
    have "?s + avail \<le> ?s div ?K * ?K + ?K"
      using avail(2) div_mult_mod_eq [of ?s ?K] mod_less_divisor [OF mem_block_size_pos(1), of ?s] by linarith
    then have "(?s + avail + ?K - 1) div ?K = Suc (?s div ?K)"
      using avail(1) div_mult_mod_eq [of ?s ?K] by (intro ceil_div_eq) linarith+
    then have "file_ok st'"
      using ok len_block by (auto simp: file_ok_def st'_def dest: in_set_butlastD)
    moreover have "file_contents st' = file_contents st @ take avail src"
    proof -
      define P where "P = file_contents st @ take avail src"
      have "concat (file_blocks st') = P @ drop (?s mod ?K + avail) (last (room st))"
        using avail(3) by (simp add: P_def ok(3) st'_def block_def copy_into_def)
      moreover have "file_size st' = length P"
        using len_concat last avail(3) mod_less_divisor [OF mem_block_size_pos(1), of ?s]
        by (simp add: P_def ok(3) st'_def)
      ultimately show ?thesis unfolding file_contents_def [of st'] P_def [symmetric] by simp
    qed
    ultimately show ?thesis
      using less.hyps [of "drop avail src" st'] avail(1) False unfolding step
      by (simp flip: append.assoc)
  qed
qed

text \<open>Reading: the loop copies a part of the concatenated blocks.\<close>

lemma drop_concat_blocks:
  "(\<And>b. b \<in> set bs \<Longrightarrow> length b = mem_block_size) \<Longrightarrow>
   drop (k * mem_block_size + i) (concat bs) = drop i (concat (drop k bs))"
proof (induction bs arbitrary: k)
  case (Cons b bs)
  then show ?case by (cases k) (simp_all add: add.assoc)
qed simp

lemma copy_loop_ok:
  "(\<And>b. b \<in> set blocks \<Longrightarrow> length b = mem_block_size) \<Longrightarrow> i < mem_block_size \<Longrightarrow> k * mem_block_size + i + n \<le> length blocks * mem_block_size \<Longrightarrow>
     copy_loop blocks k i n = take n (drop i (concat (drop k blocks)))"
proof (induction blocks k i n rule: copy_loop.induct)
  case (1 blocks k i n)
  show ?case
  proof (cases "n = 0")
    case True
    then show ?thesis by (simp add: copy_loop.simps)
  next
    case False
    let ?K = mem_block_size
    define avail where "avail = min (?K - i) n"
    have k: "k < length blocks"
    proof (rule ccontr)
      assume "\<not> k < length blocks"
      then have "length blocks * ?K \<le> k * ?K" by simp
      with False "1.prems"(3) show False by linarith
    qed
    then have "blocks ! k \<in> set blocks" by simp
    then have len: "length (blocks ! k) = ?K" by (rule "1.prems"(1))
    have split: "concat (drop k blocks) = blocks ! k @ concat (drop (Suc k) blocks)"
      using k by (simp flip: Cons_nth_drop_Suc)
    have rest: "copy_loop blocks (k + 1) 0 (n - avail) = take (n - avail) (concat (drop (Suc k) blocks))"
    proof (cases "n - avail = 0")
      case True
      then show ?thesis by (simp add: copy_loop.simps)
    next
      case False
      then have "avail = ?K - i" by (auto simp: avail_def)
      then show ?thesis using "1.IH" [OF \<open>n \<noteq> 0\<close> avail_def] "1.prems" False by simp
    qed
    have "copy_loop blocks k i n = take avail (drop i (blocks ! k)) @ copy_loop blocks (k + 1) 0 (n - avail)"
      using False by (subst copy_loop.simps) (simp add: Let_def avail_def)
    also have "\<dots> = take n (drop i (concat (drop k blocks)))"
      unfolding rest split using len "1.prems"(2) by (simp add: avail_def min_def)
    finally show ?thesis .
  qed
qed

lemma file_blocks_cover:
  assumes "file_ok st"
  shows "file_size st \<le> length (file_blocks st) * mem_block_size"
    "length (concat (file_blocks st)) = length (file_blocks st) * mem_block_size"
proof -
  show "file_size st \<le> length (file_blocks st) * mem_block_size"
    using assms ceil_div_ge [OF mem_block_size_pos(1), of "file_size st"] by (simp add: file_ok_def)
  show "length (concat (file_blocks st)) = length (file_blocks st) * mem_block_size"
    using assms by (intro length_file_blocks) (simp add: file_ok_def)
qed

lemma file_size_contents: "file_ok st \<Longrightarrow> length (file_contents st) = file_size st"
  using file_blocks_cover [of st] by (simp add: file_contents_def)

lemma file_read_ok:
  assumes "file_ok st" "offset \<le> file_size st"
  shows "file_read st offset n = (OK, take n (drop offset (file_contents st)))"
proof -
  let ?K = mem_block_size
  define m where "m = min n (file_size st - offset)"
  have blocks: "\<And>b. b \<in> set (file_blocks st) \<Longrightarrow> length b = ?K" using assms(1) by (simp add: file_ok_def)
  have "offset div ?K * ?K + offset mod ?K + m \<le> length (file_blocks st) * ?K"
    using file_blocks_cover(1) [OF assms(1)] assms(2) by (simp add: m_def)
  from copy_loop_ok [OF blocks _ this]
  have "copy_loop (file_blocks st) (offset div ?K) (offset mod ?K) m =
      take m (drop offset (concat (file_blocks st)))"
    using drop_concat_blocks [OF blocks, of _ "offset div ?K" "offset mod ?K"] by simp
  moreover have "take n (drop offset (file_contents st)) = take m (drop offset (concat (file_blocks st)))"
    by (simp add: file_contents_def drop_take m_def)
  ultimately show ?thesis using assms(2) by (simp add: file_read_def Let_def flip: m_def)
qed

section \<open>The in-memory file as a model of the interfaces\<close>

definition seq_ok :: "sequential_state \<Rightarrow> bool" where
  "seq_ok f \<longleftrightarrow> file_ok (seq_file f) \<and> seq_pos f \<le> file_size (seq_file f)"

definition seq_unread :: "sequential_state \<Rightarrow> slice" where
  "seq_unread f = drop (seq_pos f) (file_contents (seq_file f))"

lemma seq_read_ok:
  assumes "seq_ok f"
  shows "\<exists>f'. seq_read f n = (OK, take n (seq_unread f), f') \<and> seq_ok f' \<and> seq_unread f' = drop n (seq_unread f)"
proof -
  let ?c = "file_contents (seq_file f)" and ?p = "seq_pos f"
  let ?f = "f\<lparr>seq_pos := ?p + length (take n (drop ?p ?c))\<rparr>"
  have read: "seq_read f n = (OK, take n (drop ?p ?c), ?f)" and len: "length ?c = file_size (seq_file f)"
    using assms file_read_ok [of "seq_file f" ?p n] file_size_contents [of "seq_file f"]
    by (simp_all add: seq_read_def seq_ok_def Let_def)
  have "drop (?p + length (take n (drop ?p ?c))) ?c = drop n (drop ?p ?c)"
    by (cases "n \<le> length ?c - ?p") (simp_all add: add.commute min_def)
  then show ?thesis using assms read len by (auto simp: seq_ok_def seq_unread_def)
qed

lemma seq_skip_ok:
  assumes "seq_ok f"
  shows "\<exists>f'. seq_skip f k = (OK, f') \<and> seq_ok f' \<and> seq_unread f' = drop (unat k) (seq_unread f)"
proof -
  let ?c = "file_contents (seq_file f)" and ?p = "seq_pos f"
  have len: "length ?c = file_size (seq_file f)"
    using assms file_size_contents by (simp add: seq_ok_def)
  have "drop (?p + min (unat k) (length ?c - ?p)) ?c = drop (unat k) (drop ?p ?c)"
    by (cases "unat k \<le> length ?c - ?p") (simp_all add: add.commute min_def)
  then show ?thesis using assms len by (auto simp: seq_skip_def seq_ok_def seq_unread_def Let_def)
qed

interpretation mem_file: writable mem_writable file_contents file_ok
  by unfold_locales (auto simp: mem_writable_def file_append_def append_loop_ok)

interpretation mem_seq: sequential mem_sequential seq_unread seq_ok
  by unfold_locales (simp_all add: mem_sequential_def seq_read_ok seq_skip_ok)

lemma open_sequential_ok:
  "file_ok st \<Longrightarrow> seq_ok (open_sequential st) \<and> seq_unread (open_sequential st) = file_contents st"
  by (simp add: seq_ok_def seq_unread_def open_sequential_def)

end
