(* ===== verification/LdbLog.thy ===== *)
theory LdbLog
  imports LdbCrc LdbFile
begin

text \<open>
  The log of leveldb (\<^verbatim>\<open>db/log_format.h\<close>, \<^verbatim>\<open>db/log_writer.cc\<close>, \<^verbatim>\<open>db/log_reader.cc\<close>): records
  are cut into fragments so that no fragment crosses the end of a block of 32 KB, and every
  fragment has a header with a masked checksum, a length and a type.

  The file below is the parameter \<open>ops\<close>, whatever its representation. The 64-bit offsets of the
  reader are words, since its comparisons subtract; the offset inside a block and the lengths
  are natural numbers below \<open>2 ^ 16\<close>. The reporter of the reader is the list of the drops it
  was told, newest first, or no list for the null pointer. A checksum does not depend on the
  address it is computed at (\<^verbatim>\<open>LdbCrcSpec\<close>), so buffers are taken to start at address 0.
\<close>

section \<open>The format\<close>

datatype record_type = kZeroType | kFullType | kFirstType | kMiddleType | kLastType

definition kMaxRecordType :: nat where [layout]: "kMaxRecordType = 4"
definition kBlockSize :: nat where [layout]: "kBlockSize = 32768"
definition kHeaderSize :: nat where [layout]: "kHeaderSize = 4 + 2 + 1"

fun type_code :: "record_type \<Rightarrow> nat" where
  "type_code kZeroType = 0"
| "type_code kFullType = 1"
| "type_code kFirstType = 2"
| "type_code kMiddleType = 3"
| "type_code kLastType = 4"

section \<open>Writer\<close>

record 'f log_writer =
  dest :: 'f
  block_offset :: nat
  type_crc :: "u32 list"

definition init_type_crc :: "u32 list" where
  "init_type_crc = map (\<lambda>i. crc_value 0 [word_of_nat i]) [0..<Suc kMaxRecordType]"

definition new_writer :: "'f \<Rightarrow> 'f log_writer" where
  "new_writer f = \<lparr>dest = f, block_offset = 0, type_crc = init_type_crc\<rparr>"

definition new_writer_at :: "'f \<Rightarrow> u64 \<Rightarrow> 'f log_writer" where
  "new_writer_at f dest_length =
    \<lparr>dest = f, block_offset = unat dest_length mod kBlockSize, type_crc = init_type_crc\<rparr>"

definition physical_header :: "u32 list \<Rightarrow> record_type \<Rightarrow> u8 list \<Rightarrow> u8 list" where
  "physical_header crcs t data =
    (let crc = crc_extend 0 (crcs ! type_code t) data
     in encode_fixed32 (crc_mask crc) @
        [word_of_nat (length data), word_of_nat (length data div 256), word_of_nat (type_code t)])"

definition emit_physical_record ::
  "'f writable_file \<Rightarrow> record_type \<Rightarrow> u8 list \<Rightarrow> 'f log_writer \<Rightarrow> status \<times> 'f log_writer" where
  "emit_physical_record ops t data w =
    (let (s, f) = wf_append ops (dest w) (physical_header (type_crc w) t data);
         (s, f) = (if status_ok s
                   then let (s, f) = wf_append ops f data
                        in if status_ok s then wf_flush ops f else (s, f)
                   else (s, f))
     in (s, w\<lparr>dest := f, block_offset := block_offset w + kHeaderSize + length data\<rparr>))"

definition fragment_type :: "bool \<Rightarrow> bool \<Rightarrow> record_type" where
  "fragment_type first final =
    (if first \<and> final then kFullType else if first then kFirstType else if final then kLastType
     else kMiddleType)"

text \<open>The start of a pass of the loop: a block with less room than a header is filled up.\<close>

definition switch_block :: "'f writable_file \<Rightarrow> 'f log_writer \<Rightarrow> 'f log_writer" where
  "switch_block ops w =
    (let leftover = kBlockSize - block_offset w in
     if leftover < kHeaderSize
     then let f = (if 0 < leftover then snd (wf_append ops (dest w) (replicate leftover 0)) else dest w)
          in w\<lparr>dest := f, block_offset := 0\<rparr>
     else w)"

definition fragment_length :: "'f log_writer \<Rightarrow> u8 list \<Rightarrow> nat" where
  "fragment_length w ptr = min (length ptr) (kBlockSize - block_offset w - kHeaderSize)"

lemma emit_block_offset:
  "emit_physical_record ops t data w = (s, w') \<Longrightarrow>
   block_offset w' = block_offset w + kHeaderSize + length data \<and> type_crc w' = type_crc w"
  by (auto simp: emit_physical_record_def Let_def split: prod.splits if_splits)

lemma switch_block_offset:
  "block_offset (switch_block ops w) =
    (if kBlockSize - block_offset w < kHeaderSize then 0 else block_offset w)"
  by (simp add: switch_block_def Let_def)

function add_record_loop ::
  "'f writable_file \<Rightarrow> bool \<Rightarrow> u8 list \<Rightarrow> 'f log_writer \<Rightarrow> status \<times> 'f log_writer" where
  "add_record_loop ops first ptr w =
    (let w = switch_block ops w;
         n = fragment_length w ptr;
         (s, w) = emit_physical_record ops (fragment_type first (length ptr = n)) (take n ptr) w
     in if status_ok s \<and> drop n ptr \<noteq> [] then add_record_loop ops False (drop n ptr) w else (s, w))"
  by auto
termination
proof (relation "measure (\<lambda>(ops, b, ptr, w).
    2 * length ptr + (if kBlockSize - block_offset w = kHeaderSize then 1 else 0))")
  fix ops b ptr and w w1 w2 :: "'a log_writer" and n x s
  assume w1: "w1 = switch_block ops w" and n: "n = fragment_length w1 ptr"
    and x: "x = emit_physical_record ops (fragment_type b (length ptr = n)) (take n ptr) w1"
    and s: "(s, w2) = x" and more: "status_ok s \<and> drop n ptr \<noteq> []"
  have w2: "block_offset w2 = block_offset w1 + kHeaderSize + n"
    using emit_block_offset [of ops _ "take n ptr" w1 s w2] x s more n
    by (simp add: fragment_length_def)
  show "((ops, False, drop n ptr, w2), (ops, b, ptr, w)) \<in> measure (\<lambda>(ops, b, ptr, w).
    2 * length ptr + (if kBlockSize - block_offset w = kHeaderSize then 1 else 0))"
    using w2 more switch_block_offset [of ops w] unfolding w1 [symmetric]
    by (auto simp: n fragment_length_def layout split: if_splits)
qed simp

declare add_record_loop.simps [simp del]

definition add_record :: "'f writable_file \<Rightarrow> slice \<Rightarrow> 'f log_writer \<Rightarrow> status \<times> 'f log_writer" where
  "add_record ops data w = add_record_loop ops True data w"

section \<open>Reader\<close>

record 'g log_reader =
  infile :: 'g
  reporter :: "(nat \<times> status) list option"
  checksum :: bool
  buffer :: slice
  eof :: bool
  last_record_offset :: u64
  end_of_buffer_offset :: u64
  initial_offset :: u64
  resyncing :: bool

definition new_reader :: "'g \<Rightarrow> (nat \<times> status) list option \<Rightarrow> bool \<Rightarrow> u64 \<Rightarrow> 'g log_reader" where
  "new_reader f rep verify initial =
    \<lparr>infile = f, reporter = rep, checksum = verify, buffer = [], eof = False, last_record_offset = 0,
     end_of_buffer_offset = 0, initial_offset = initial, resyncing = 0 < initial\<rparr>"

definition report_drop :: "u64 \<Rightarrow> status \<Rightarrow> 'g log_reader \<Rightarrow> 'g log_reader" where
  "report_drop bytes reason r =
    (case reporter r of
       None \<Rightarrow> r
     | Some drops \<Rightarrow>
         if initial_offset r \<le> end_of_buffer_offset r - word_of_nat (length (buffer r)) - bytes
         then r\<lparr>reporter := Some ((unat bytes, reason) # drops)\<rparr> else r)"

definition report_corruption :: "u64 \<Rightarrow> string \<Rightarrow> 'g log_reader \<Rightarrow> 'g log_reader" where
  "report_corruption bytes reason r = report_drop bytes (Corruption reason) r"

definition skip_to_initial_block :: "'g sequential_file \<Rightarrow> 'g log_reader \<Rightarrow> bool \<times> 'g log_reader" where
  "skip_to_initial_block ops r =
    (let offset_in_block = initial_offset r mod word_of_nat kBlockSize;
         block_start_location = initial_offset r - offset_in_block;
         block_start_location = (if word_of_nat (kBlockSize - 6) < offset_in_block
                                 then block_start_location + word_of_nat kBlockSize
                                 else block_start_location);
         r = r\<lparr>end_of_buffer_offset := block_start_location\<rparr>
     in if 0 < block_start_location
        then let (skip_status, f) = sf_skip ops (infile r) block_start_location;
                 r = r\<lparr>infile := f\<rparr>
             in if \<not> status_ok skip_status then (False, report_drop block_start_location skip_status r)
                else (True, r)
        else (True, r))"

text \<open>\<open>ReadPhysicalRecord\<close> answers a type, or one of two codes of its own.\<close>

definition kEof :: nat where [layout]: "kEof = kMaxRecordType + 1"
definition kBadRecord :: nat where [layout]: "kBadRecord = kMaxRecordType + 2"

text \<open>
  The second part of its loop, once the buffer holds a header. \<open>result\<close> is the caller's slice,
  which some branches leave as it is; the type is the byte of the header as a signed \<^verbatim>\<open>char\<close>,
  widened to an unsigned number.
\<close>

definition parse_physical_record :: "slice \<Rightarrow> 'g log_reader \<Rightarrow> nat \<times> slice \<times> 'g log_reader" where
  "parse_physical_record result r =
    (let header = buffer r;
         a = unat (header ! 4);
         b = unat (header ! 5);
         type = unat (scast (header ! 6) :: u32);
         len = a + 256 * b
     in if length (buffer r) < kHeaderSize + len
        then let drop_size = word_of_nat (length (buffer r));
                 r = r\<lparr>buffer := []\<rparr>
             in if \<not> eof r then (kBadRecord, result, report_corruption drop_size ''bad record length'' r)
                else (kEof, result, r)
        else if type = type_code kZeroType \<and> len = 0 then (kBadRecord, result, r\<lparr>buffer := []\<rparr>)
        else if checksum r \<and>
           crc_value 0 (take (1 + len) (drop 6 header)) \<noteq> crc_unmask (decode_fixed32 header)
        then let drop_size = word_of_nat (length (buffer r));
                 r = r\<lparr>buffer := []\<rparr>
             in (kBadRecord, result, report_corruption drop_size ''checksum mismatch'' r)
        else let r = r\<lparr>buffer := drop (kHeaderSize + len) (buffer r)\<rparr>
             in if end_of_buffer_offset r - word_of_nat (length (buffer r)) - word_of_nat kHeaderSize
                   - word_of_nat len < initial_offset r
                then (kBadRecord, [], r)
                else (type, take len (drop kHeaderSize header), r))"

function read_physical_record ::
  "'g sequential_file \<Rightarrow> slice \<Rightarrow> 'g log_reader \<Rightarrow> nat \<times> slice \<times> 'g log_reader" where
  "read_physical_record ops result r =
    (if length (buffer r) < kHeaderSize
     then if \<not> eof r
          then let (s, buf, f) = sf_read ops (infile r) kBlockSize;
                   r = r\<lparr>infile := f, buffer := buf,
                         end_of_buffer_offset := end_of_buffer_offset r + word_of_nat (length buf)\<rparr>
               in if \<not> status_ok s
                  then (kEof, result,
                        (report_drop (word_of_nat kBlockSize) s (r\<lparr>buffer := []\<rparr>))\<lparr>eof := True\<rparr>)
                  else read_physical_record ops result
                         (if length buf < kBlockSize then r\<lparr>eof := True\<rparr> else r)
          else (kEof, result, r\<lparr>buffer := []\<rparr>)
     else parse_physical_record result r)"
  by auto
termination
  by (relation "measure (\<lambda>(ops, result, r). if length (buffer r) < kHeaderSize \<and> \<not> eof r then 1 else 0)")
    (auto simp: layout)

declare read_physical_record.simps [simp del]

fun decimal :: "nat \<Rightarrow> string" where
  "decimal n = (if n < 10 then [char_of (48 + n)] else decimal (n div 10) @ [char_of (48 + n mod 10)])"

declare decimal.simps [simp del]

text \<open>The variables of the loop of \<^verbatim>\<open>ReadRecord\<close>.\<close>

record 'g read_state =
  in_fragmented_record :: bool
  prospective_record_offset :: u64
  scratch :: slice
  fragment :: slice
  reader :: "'g log_reader"

text \<open>
  A pass of the loop: \<open>Inl\<close> is a return, with the record if there is one, and \<open>Inr\<close> goes on.
\<close>

definition partial_record :: "string \<Rightarrow> 'g read_state \<Rightarrow> 'g log_reader" where
  "partial_record reason st =
    (if in_fragmented_record st \<and> scratch st \<noteq> []
     then report_corruption (word_of_nat (length (scratch st))) reason (reader st) else reader st)"

definition record_switch ::
  "nat \<Rightarrow> u64 \<Rightarrow> 'g read_state \<Rightarrow> slice option \<times> 'g log_reader + 'g read_state" where
  "record_switch type physical_record_offset st =
    (if type = type_code kFullType then
       Inl (Some (fragment st),
            (partial_record ''partial record without end(1)'' st)\<lparr>last_record_offset := physical_record_offset\<rparr>)
     else if type = type_code kFirstType then
       Inr (st\<lparr>reader := partial_record ''partial record without end(2)'' st,
               prospective_record_offset := physical_record_offset,
               scratch := fragment st, in_fragmented_record := True\<rparr>)
     else if type = type_code kMiddleType then
       (if \<not> in_fragmented_record st
        then Inr (st\<lparr>reader := report_corruption (word_of_nat (length (fragment st)))
                      ''missing start of fragmented record(1)'' (reader st)\<rparr>)
        else Inr (st\<lparr>scratch := scratch st @ fragment st\<rparr>))
     else if type = type_code kLastType then
       (if \<not> in_fragmented_record st
        then Inr (st\<lparr>reader := report_corruption (word_of_nat (length (fragment st)))
                      ''missing start of fragmented record(2)'' (reader st)\<rparr>)
        else Inl (Some (scratch st @ fragment st),
                  (reader st)\<lparr>last_record_offset := prospective_record_offset st\<rparr>))
     else if type = kEof then Inl (None, reader st)
     else if type = kBadRecord then
       (if in_fragmented_record st
        then Inr (st\<lparr>reader := report_corruption (word_of_nat (length (scratch st)))
                      ''error in middle of record'' (reader st),
                    in_fragmented_record := False, scratch := []\<rparr>)
        else Inr st)
     else Inr (st\<lparr>reader := report_corruption
                   (word_of_nat (length (fragment st) + (if in_fragmented_record st then length (scratch st) else 0)))
                   (''unknown record type '' @ decimal type) (reader st),
                 in_fragmented_record := False, scratch := []\<rparr>))"

definition record_pass ::
  "'g sequential_file \<Rightarrow> 'g read_state \<Rightarrow> slice option \<times> 'g log_reader + 'g read_state" where
  "record_pass ops st =
    (let (type, frag, r) = read_physical_record ops (fragment st) (reader st);
         st = st\<lparr>fragment := frag, reader := r\<rparr>;
         physical_record_offset = end_of_buffer_offset r - word_of_nat (length (buffer r)) -
           word_of_nat kHeaderSize - word_of_nat (length frag)
     in if resyncing r \<and> type = type_code kMiddleType then Inr st
        else if resyncing r \<and> type = type_code kLastType then Inr (st\<lparr>reader := r\<lparr>resyncing := False\<rparr>\<rparr>)
        else record_switch type physical_record_offset (st\<lparr>reader := r\<lparr>resyncing := False\<rparr>\<rparr>))"

partial_function (option) record_loop ::
  "'g sequential_file \<Rightarrow> 'g read_state \<Rightarrow> (slice option \<times> 'g log_reader) option" where
  "record_loop ops st =
    (case record_pass ops st of Inl result \<Rightarrow> Some result | Inr st \<Rightarrow> record_loop ops st)"

definition read_record :: "'g sequential_file \<Rightarrow> 'g log_reader \<Rightarrow> (slice option \<times> 'g log_reader) option" where
  "read_record ops r =
    (let (found, r) = (if last_record_offset r < initial_offset r then skip_to_initial_block ops r
                       else (True, r))
     in if \<not> found then Some (None, r)
        else record_loop ops \<lparr>in_fragmented_record = False, prospective_record_offset = 0,
               scratch = [], fragment = [], reader = r\<rparr>)"

text \<open>The uses of a log: the records of a list are added, all records are read.\<close>

fun add_records :: "'f writable_file \<Rightarrow> slice list \<Rightarrow> 'f log_writer \<Rightarrow> status \<times> 'f log_writer" where
  "add_records ops [] w = (OK, w)"
| "add_records ops (d # ds) w =
    (let (s, w) = add_record ops d w in if status_ok s then add_records ops ds w else (s, w))"

partial_function (option) read_records ::
  "'g sequential_file \<Rightarrow> 'g log_reader \<Rightarrow> (slice list \<times> 'g log_reader) option" where
  "read_records ops r =
    (case read_record ops r of
       None \<Rightarrow> None
     | Some (found, r) \<Rightarrow>
         (case found of
            None \<Rightarrow> Some ([], r)
          | Some d \<Rightarrow> Option.bind (read_records ops r) (\<lambda>(ds, r). Some (d # ds, r))))"

end
