(* ===== verification/LdbCrcSpec.thy ===== *)
theory LdbCrcSpec
  imports LdbCrc
begin

text \<open>
  \<open>crc_extend\<close> computes CRC-32C, whatever the alignment of the buffer: the step of a bit is linear,
  so the tables and the interleaved strides are read as sums of images of that step.
\<close>

section \<open>Linear maps and their tables\<close>

definition xor_linear :: "(u32 \<Rightarrow> u32) \<Rightarrow> bool" where
  "xor_linear f \<longleftrightarrow> (\<forall>x y. f (x XOR y) = f x XOR f y)"

lemma xor_linearD: "xor_linear f \<Longrightarrow> f (x XOR y) = f x XOR f y"
  by (simp add: xor_linear_def)

lemma xor_linear_0: "xor_linear f \<Longrightarrow> f 0 = 0"
  using xor_linearD [of f 0 0] by simp

lemma xor_linear_funpow: "xor_linear f \<Longrightarrow> xor_linear (f ^^ n)"
  by (induction n) (simp_all add: xor_linear_def)

lemma crc_bit_linear: "xor_linear crc_bit"
  unfolding xor_linear_def
  by (intro allI bit_word_eqI) (simp add: crc_bit_def bit_simps, blast)

lemma crc_byte_linear: "xor_linear crc_byte"
  unfolding crc_byte_def by (rule xor_linear_funpow [OF crc_bit_linear])

text \<open>The sums of some of the vectors of a list, in the order of a table.\<close>

fun span_step :: "u32 \<Rightarrow> u32 list \<Rightarrow> u32 list" where
  "span_step v [] = []"
| "span_step v (s # ss) = s # (s XOR v) # span_step v ss"

definition span :: "u32 list \<Rightarrow> u32 list" where
  "span vs = foldr span_step vs [0]"

lemma length_span_step [simp]: "length (span_step v ss) = 2 * length ss"
  by (induction ss) auto

lemma length_span [simp]: "length (span vs) = 2 ^ length vs"
  by (induction vs) (auto simp: span_def)

lemma nth_span_step:
  "c < 2 * length ss \<Longrightarrow> span_step v ss ! c = (if odd c then ss ! (c div 2) XOR v else ss ! (c div 2))"
proof (induction ss arbitrary: c)
  case (Cons s ss)
  show ?case
  proof (cases "c < 2")
    case True
    then have "c = 0 \<or> c = 1" by auto
    then show ?thesis by auto
  next
    case False
    then obtain d where "c = Suc (Suc d)" by (metis Suc_1 add_2_eq_Suc le_Suc_ex not_less)
    then show ?thesis using Cons by simp
  qed
qed simp

lemma push_bit_split:
  "push_bit j (word_of_nat c :: u32) =
     push_bit (Suc j) (word_of_nat (c div 2)) XOR (if odd c then 2 ^ j else 0)"
proof (rule bit_word_eqI)
  fix n assume n: "n < LENGTH(32)"
  have "bit c (Suc i) = bit (c div 2) i" for i by (simp add: bit_Suc)
  then have "n \<noteq> j \<Longrightarrow> j \<le> n \<Longrightarrow> bit c (n - j) = bit (c div 2) (n - Suc j)"
    using Suc_diff_Suc [of j n] by (metis le_neq_implies_less)
  then show "bit (push_bit j (word_of_nat c :: u32)) n =
      bit (push_bit (Suc j) (word_of_nat (c div 2)) XOR (if odd c then 2 ^ j else 0 :: u32)) n"
    using n unfolding bit_xor_iff bit_push_bit_iff by (cases "n = j") (auto simp: bit_simps bit_0)
qed

lemma nth_span:
  assumes "xor_linear f"
  shows "c < 2 ^ k \<Longrightarrow> span (map (\<lambda>i. f (2 ^ (j + i))) [0..<k]) ! c = f (push_bit j (word_of_nat c))"
proof (induction k arbitrary: j c)
  case 0
  then show ?case using assms by (simp add: span_def xor_linear_0)
next
  case (Suc k)
  have "map (\<lambda>i. f (2 ^ (j + i))) [0..<Suc k] = f (2 ^ j) # map (\<lambda>i. f (2 ^ (Suc j + i))) [0..<k]"
    by (simp add: upt_conv_Cons map_Suc_upt [symmetric] del: upt_Suc)
  then have "span (map (\<lambda>i. f (2 ^ (j + i))) [0..<Suc k]) =
      span_step (f (2 ^ j)) (span (map (\<lambda>i. f (2 ^ (Suc j + i))) [0..<k]))"
    by (simp add: span_def)
  then show ?case using Suc.prems Suc.IH [of "c div 2" "Suc j"] push_bit_split [of j c]
    by (simp add: nth_span_step xor_linearD [OF assms] xor_linear_0 [OF assms])
qed

section \<open>The orbit of the lowest bit\<close>

text \<open>A vector without the lowest bit is only shifted, so all tables are parts of one orbit.\<close>

lemma crc_bit_push: "\<not> bit y 31 \<Longrightarrow> crc_bit (push_bit 1 y) = y"
proof (rule bit_word_eqI)
  fix n assume "\<not> bit y 31" "n < LENGTH(32)"
  moreover have "\<not> bit (push_bit 1 y) 0" unfolding bit_push_bit_iff by simp
  ultimately show "bit (crc_bit (push_bit 1 y)) n = bit y n"
    unfolding crc_bit_def by (cases "n = 31") (simp_all only: if_False bit_drop_bit_eq bit_push_bit_iff comp_def, auto)
qed

lemma crc_bit_shift:
  "k \<le> n \<Longrightarrow> (\<And>i. 32 \<le> i + k \<Longrightarrow> \<not> bit y i) \<Longrightarrow>
   (crc_bit ^^ n) (push_bit k y) = (crc_bit ^^ (n - k)) y"
proof (induction k arbitrary: n)
  case (Suc k)
  then obtain m where n: "n = Suc m" by (cases n) auto
  have "crc_bit (push_bit (Suc k) y) = push_bit k y"
    using Suc.prems(2) crc_bit_push [of "push_bit k y"] by (auto simp: bit_simps)
  then have "(crc_bit ^^ n) (push_bit (Suc k) y) = (crc_bit ^^ m) (push_bit k y)"
    by (simp add: n funpow_swap1)
  also have "\<dots> = (crc_bit ^^ (m - k)) y"
    using Suc.prems by (intro Suc.IH) (auto simp: n)
  finally show ?case by (simp add: n)
qed simp

lemma crc_bit_power2: "k \<le> n \<Longrightarrow> k < 32 \<Longrightarrow> (crc_bit ^^ n) (2 ^ k) = (crc_bit ^^ (n - k)) 1"
  using crc_bit_shift [of k n 1] by (auto simp: push_bit_of_1 bit_1_iff)

fun orbit :: "nat \<Rightarrow> u32 \<Rightarrow> u32 list" where
  "orbit 0 v = []"
| "orbit (Suc n) v = v # orbit n (crc_bit v)"

lemma orbit_eq: "orbit n v = map (\<lambda>i. (crc_bit ^^ i) v) [0..<n]"
  by (induction n arbitrary: v)
    (simp_all add: upt_conv_Cons map_Suc_upt [symmetric] funpow_swap1 comp_def del: upt_Suc)

lemma nth_orbit_span:
  assumes "c < 256" "j \<le> 24"
  shows "span (rev (orbit 8 ((crc_bit ^^ Suc m) 1))) ! c = (crc_bit ^^ (8 + m + j)) (push_bit j (word_of_nat c))"
proof -
  have "rev (orbit 8 ((crc_bit ^^ Suc m) 1)) = map (\<lambda>i. (crc_bit ^^ (8 + m + j)) (2 ^ (j + i))) [0..<8]"
  proof (rule nth_equalityI)
    fix i assume "i < length (rev (orbit 8 ((crc_bit ^^ Suc m) 1)))"
    then have i: "i < 8" by (simp add: orbit_eq)
    then have nth: "rev [0..<8] ! i = 7 - i"
      by (simp add: rev_nth del: upt_rec_numeral)
    have "rev (orbit 8 ((crc_bit ^^ Suc m) 1)) ! i = (crc_bit ^^ (rev [0..<8] ! i)) ((crc_bit ^^ Suc m) 1)"
      unfolding orbit_eq rev_map using i by (subst nth_map) auto
    also have "\<dots> = (crc_bit ^^ (7 - i)) ((crc_bit ^^ Suc m) 1)" unfolding nth ..
    also have "\<dots> = (crc_bit ^^ (7 - i + Suc m)) 1" by (simp only: funpow_add comp_apply)
    also have "\<dots> = (crc_bit ^^ (8 + m - i)) 1" using i by (intro arg_cong [where f = "\<lambda>n. (crc_bit ^^ n) 1"]) simp
    also have "\<dots> = (crc_bit ^^ (8 + m + j)) (2 ^ (j + i))"
      using i assms(2) by (subst crc_bit_power2) auto
    finally show "rev (orbit 8 ((crc_bit ^^ Suc m) 1)) ! i =
        map (\<lambda>i. (crc_bit ^^ (8 + m + j)) (2 ^ (j + i))) [0..<8] ! i" using i by simp
  qed (simp add: orbit_eq)
  then show ?thesis using nth_span [OF xor_linear_funpow [OF crc_bit_linear, of "8 + m + j"], of c 8 j] assms(1) by simp
qed

section \<open>The tables\<close>

fun orbit_at :: "nat \<Rightarrow> u32 \<Rightarrow> u32" where
  "orbit_at 0 v = v"
| "orbit_at (Suc n) v = orbit_at n (crc_bit v)"

lemma orbit_at_eq: "orbit_at n v = (crc_bit ^^ n) v"
  by (induction n arbitrary: v) (simp_all add: funpow_swap1)

lemma orbit_24: "orbit_at 24 1 = 0xa541927e"
  by code_simp

lemma orbit_49: "orbit_at 25 0xa541927e = 0xf56e0ef4"
  by code_simp

lemma orbit_73: "orbit_at 24 0xf56e0ef4 = 0x7a1f6b24"
  by code_simp

lemma orbit_97: "orbit_at 24 0x7a1f6b24 = 0x18b8ea18"
  by code_simp

lemma orbit_105: "orbit_at 8 0x18b8ea18 = 0x9a9f274a"
  by code_simp

lemma orbit_113: "orbit_at 8 0x9a9f274a = 0x2a03aaa3"
  by code_simp

lemma orbit_121: "orbit_at 8 0x2a03aaa3 = 0xb13145f8"
  by code_simp

lemma byte_table: "kByteExtensionTable = span (rev (orbit 8 0x82f63b78))"
proof -
  have "rev (orbit 8 0x82f63b78) =
      [0xf26b8303, 0xe13b70f7, 0xc79a971f, 0x8ad958cf, 0x105ec76f, 0x20bd8ede, 0x417b1dbc, 0x82f63b78]"
    by code_simp
  then show ?thesis by (simp only: kByteExtensionTable_def) (simp add: span_def)
qed

lemma stride_table0: "kStrideExtensionTable0 = span (rev (orbit 8 0x18b8ea18))"
proof -
  have "rev (orbit 8 0x18b8ea18) =
      [0x30d23865, 0x61a470ca, 0xc348e194, 0x837db5d9, 0x03171d43, 0x062e3a86, 0x0c5c750c, 0x18b8ea18]"
    by code_simp
  then show ?thesis by (simp only: kStrideExtensionTable0_def) (simp add: span_def)
qed

lemma stride_table1: "kStrideExtensionTable1 = span (rev (orbit 8 0x9a9f274a))"
proof -
  have "rev (orbit 8 0x9a9f274a) =
      [0x54075546, 0xa80eaa8c, 0x55f123e9, 0xabe247d2, 0x5228f955, 0xa451f2aa, 0x4d4f93a5, 0x9a9f274a]"
    by code_simp
  then show ?thesis by (simp only: kStrideExtensionTable1_def) (simp add: span_def)
qed

lemma stride_table2: "kStrideExtensionTable2 = span (rev (orbit 8 0x2a03aaa3))"
proof -
  have "rev (orbit 8 0x2a03aaa3) =
      [0x678efd01, 0xcf1dfa02, 0x9bd782f5, 0x3243731b, 0x6486e636, 0xc90dcc6c, 0x97f7ee29, 0x2a03aaa3]"
    by code_simp
  then show ?thesis by (simp only: kStrideExtensionTable2_def) (simp add: span_def)
qed

lemma stride_table3: "kStrideExtensionTable3 = span (rev (orbit 8 0xb13145f8))"
proof -
  have "rev (orbit 8 0xb13145f8) =
      [0xf20c0dfe, 0xe1f46d0d, 0xc604aceb, 0x89e52f27, 0x162628bf, 0x2c4c517e, 0x5898a2fc, 0xb13145f8]"
    by code_simp
  then show ?thesis by (simp only: kStrideExtensionTable3_def) (simp add: span_def)
qed

lemma byte_table_nth: "unat (c :: u32) < 256 \<Longrightarrow> kByteExtensionTable ! unat c = crc_byte c"
  using nth_orbit_span [of "unat c" 0 0]
  by (simp add: byte_table crc_byte_def crc_bit_def)

text \<open>\<open>crc_stride\<close> moves a partial result over the 16 bytes of a stride.\<close>

definition crc_stride :: "u32 \<Rightarrow> u32" where
  "crc_stride = crc_byte ^^ 16"

lemma crc_stride_bits: "crc_stride = crc_bit ^^ 128"
  by (simp add: crc_stride_def crc_byte_def funpow_mult)

lemma orbit_step: "(crc_bit ^^ m) 1 = v \<Longrightarrow> orbit_at n v = w \<Longrightarrow> (crc_bit ^^ (n + m)) 1 = w"
  by (simp add: orbit_at_eq funpow_add)

lemmas stride_orbit =
  orbit_step [OF _ orbit_97, OF orbit_step [OF _ orbit_73, OF orbit_step [OF _ orbit_49, OF orbit_24 [unfolded orbit_at_eq]]]]

lemmas stride_orbits = stride_orbit
  orbit_step [OF stride_orbit orbit_105]
  orbit_step [OF orbit_step [OF stride_orbit orbit_105] orbit_113]
  orbit_step [OF orbit_step [OF orbit_step [OF stride_orbit orbit_105] orbit_113] orbit_121]

lemma nth_stride_span:
  assumes "(crc_bit ^^ (121 - j)) 1 = v" "unat (c :: u32) < 256" "j \<le> 24"
  shows "span (rev (orbit 8 v)) ! unat c = crc_stride (push_bit j c)"
proof -
  have "Suc (120 - j) = 121 - j" "8 + (120 - j) + j = 128" using assms(3) by auto
  then show ?thesis using nth_orbit_span [of "unat c" j "120 - j"] assms
    by (simp only: crc_stride_bits) simp
qed

lemma stride_table_nth:
  assumes "unat (c :: u32) < 256"
  shows "kStrideExtensionTable3 ! unat c = crc_stride c"
    "kStrideExtensionTable2 ! unat c = crc_stride (push_bit 8 c)"
    "kStrideExtensionTable1 ! unat c = crc_stride (push_bit 16 c)"
    "kStrideExtensionTable0 ! unat c = crc_stride (push_bit 24 c)"
  using nth_stride_span [of 0 _ c] nth_stride_span [of 8 _ c] nth_stride_span [of 16 _ c]
    nth_stride_span [of 24 _ c] stride_orbits assms
  by (simp_all add: stride_table0 stride_table1 stride_table2 stride_table3 del: orbit.simps)

section \<open>The steps\<close>

lemma low_byte: "(x :: u32) AND 0xff = take_bit 8 x"
  by (simp add: take_bit_eq_mask mask_eq_exp_minus_1)

lemma unat_byte_less: "unat (take_bit 8 (x :: u32)) < 256"
  using take_bit_nat_less_exp [of 8 "unat x"] by (simp add: unsigned_take_bit_eq)

lemma low_byte_split: "(x :: u32) = take_bit 8 x XOR push_bit 8 (drop_bit 8 x)"
  by (rule bit_word_eqI)
    (auto simp: bit_xor_iff bit_take_bit_iff bit_push_bit_iff bit_drop_bit_eq)

lemma crc_byte_shift: "(\<And>i. 24 \<le> i \<Longrightarrow> \<not> bit y i) \<Longrightarrow> crc_byte (push_bit 8 y) = y"
  unfolding crc_byte_def by (subst crc_bit_shift) auto

lemma crc_byte_table: "drop_bit 8 x XOR kByteExtensionTable ! unat (take_bit 8 x) = crc_byte x"
proof -
  have "crc_byte (push_bit 8 (drop_bit 8 x)) = drop_bit 8 x"
    by (rule crc_byte_shift) (auto simp: bit_drop_bit_eq dest: bit_imp_le_length)
  then have "crc_byte x = crc_byte (take_bit 8 x) XOR drop_bit 8 x"
    using low_byte_split [of x] xor_linearD [OF crc_byte_linear, of "take_bit 8 x" "push_bit 8 (drop_bit 8 x)"]
    by simp
  then show ?thesis by (simp add: byte_table_nth [OF unat_byte_less] xor.commute)
qed

lemma step1_eq: "step1 l b = crc_byte (l XOR ucast b)"
proof -
  have "take_bit 8 l XOR ucast b = take_bit 8 (l XOR ucast b)"
    by (rule bit_word_eqI) (auto simp: bit_xor_iff bit_take_bit_iff bit_ucast_iff dest: bit_imp_le_length)
  moreover have "drop_bit 8 l = drop_bit 8 (l XOR ucast b)"
    by (rule bit_word_eqI) (auto simp: bit_xor_iff bit_drop_bit_eq bit_ucast_iff dest: bit_imp_le_length)
  ultimately show ?thesis using crc_byte_table [of "l XOR ucast b"]
    by (simp only: step1_def Let_def low_byte xor.commute)
qed

lemma crc_stride_linear: "xor_linear crc_stride"
  unfolding crc_stride_def by (rule xor_linear_funpow [OF crc_byte_linear])

lemma bytes_split:
  "(x :: u32) = take_bit 8 x XOR push_bit 8 (take_bit 8 (drop_bit 8 x)) XOR
     push_bit 16 (take_bit 8 (drop_bit 16 x)) XOR push_bit 24 (drop_bit 24 x)"
  by (rule bit_word_eqI)
    (auto simp: bit_xor_iff bit_take_bit_iff bit_push_bit_iff bit_drop_bit_eq)

lemma step4_eq: "step4 p s crc = decode_fixed32 (drop (s * 4) p) XOR crc_stride crc"
proof -
  define h where "h = drop_bit 24 crc"
  have "h = take_bit 8 h"
    unfolding h_def by (rule bit_word_eqI) (auto simp: bit_take_bit_iff bit_drop_bit_eq dest: bit_imp_le_length)
  with unat_byte_less [of h] have "unat h < 256" by simp
  from stride_table_nth(4) [OF this] have
    "step4 p s crc = decode_fixed32 (drop (s * 4) p) XOR crc_stride (take_bit 8 crc XOR
       push_bit 8 (take_bit 8 (drop_bit 8 crc)) XOR push_bit 16 (take_bit 8 (drop_bit 16 crc)) XOR push_bit 24 h)"
    unfolding step4_def low_byte stride_table_nth [OF unat_byte_less] xor_linearD [OF crc_stride_linear]
    by (simp only: h_def ac_simps)
  then show ?thesis unfolding h_def bytes_split [symmetric] .
qed

lemma for_up_const: "for_up 0 n (\<lambda>_. f) s = (f ^^ n) s"
  by (induction n) (simp_all add: for_up_Suc)

lemma step4w_eq: "step4w w l = (crc_byte ^^ 4) (w XOR l)"
  by (simp only: step4w_def low_byte crc_byte_table for_up_const)

section \<open>The loops\<close>

lemma crc_update_simps [simp]:
  "crc_update l [] = l" "crc_update l (b # p) = crc_update (crc_byte (l XOR ucast b)) p"
  "crc_update l (p @ q) = crc_update (crc_update l p) q"
  by (simp_all add: crc_update_def)

lemma foldl_step1: "foldl step1 l p = crc_update l p"
  by (induction p arbitrary: l) (simp_all add: step1_eq)

text \<open>Up to four bytes are absorbed as one word.\<close>

lemma crc_update_le_word:
  "length bs \<le> 4 \<Longrightarrow> crc_update l bs = (crc_byte ^^ length bs) (l XOR le_word bs)"
proof (induction bs arbitrary: l)
  case (Cons b bs)
  have "ucast b OR push_bit 8 (le_word bs) = ucast b XOR push_bit 8 (le_word bs :: u32)"
    by (rule bit_word_eqI)
      (auto simp: bit_or_iff bit_xor_iff bit_push_bit_iff bit_ucast_iff dest: bit_imp_le_length)
  moreover have "crc_byte (push_bit 8 (le_word bs)) = le_word bs"
    using Cons.prems by (intro crc_byte_shift) (auto simp: bit_le_word)
  ultimately have "crc_byte (l XOR le_word (b # bs)) = crc_byte (l XOR ucast b) XOR le_word bs"
    by (simp add: xor_linearD [OF crc_byte_linear] ac_simps)
  then show ?case using Cons by (simp add: funpow_swap1)
qed simp

definition crc_word :: "u32 \<Rightarrow> u32" where
  "crc_word = crc_byte ^^ 4"

lemma crc_word_linear: "xor_linear crc_word"
  unfolding crc_word_def by (rule xor_linear_funpow [OF crc_byte_linear])

lemma crc_stride_word: "crc_stride x = crc_word (crc_word (crc_word (crc_word x)))"
proof -
  have "(crc_byte ^^ (4 + (4 + (4 + 4)))) x = (crc_byte ^^ 4) ((crc_byte ^^ 4) ((crc_byte ^^ 4) ((crc_byte ^^ 4) x)))"
    by (simp only: funpow_add comp_apply)
  then show ?thesis by (simp add: crc_stride_def crc_word_def)
qed

lemma crc_update_word: "4 \<le> length p \<Longrightarrow> crc_update l p = crc_update (crc_word (l XOR decode_fixed32 p)) (drop 4 p)"
  using crc_update_le_word [of "take 4 p" l] crc_update_simps(3) [of l "take 4 p" "drop 4 p"]
  by (simp add: crc_word_def decode_fixed32_def del: crc_update_simps)

lemma combine_strides_eq:
  "combine_strides (crc0, crc1, crc2, crc3) =
     crc_word (crc_word (crc_word (crc_word crc0 XOR crc1) XOR crc2) XOR crc3)"
  by (simp add: combine_strides_def step4w_eq crc_word_def xor.commute)

lemma combine_strides_step:
  "combine_strides (crc1, crc2, crc3, w XOR crc_stride crc0) =
     crc_word (combine_strides (crc0, crc1, crc2, crc3) XOR w)"
  by (simp add: combine_strides_eq crc_stride_word xor_linearD [OF crc_word_linear] ac_simps)

lemma word_loop_step:
  "4 \<le> length p \<Longrightarrow> word_loop (crc0, crc1, crc2, crc3) p =
     word_loop (crc1, crc2, crc3, step4 p 0 crc0) (drop 4 p)"
  by (simp add: word_loop.simps)

lemma word_loop_ok:
  "word_loop crcs p = (crcs', p') \<Longrightarrow>
   crc_update (combine_strides crcs') p' = crc_update (combine_strides crcs) p"
proof (induction crcs p rule: word_loop.induct)
  case (1 crc0 crc1 crc2 crc3 p)
  show ?case
  proof (cases "4 \<le> length p")
    case True
    from 1 True word_loop_step [OF True] have "crc_update (combine_strides crcs') p' =
        crc_update (combine_strides (crc1, crc2, crc3, step4 p 0 crc0)) (drop 4 p)" by simp
    then show ?thesis using crc_update_word [OF True]
      by (simp add: step4_eq combine_strides_step)
  next
    case False
    with 1 show ?thesis by (simp add: word_loop.simps)
  qed
qed

text \<open>A pass over 16 bytes is four passes over one word.\<close>

lemma step4_drop: "step4 (drop (k * 4) p) 0 crc = step4 p k crc"
  by (simp add: step4_def add.commute)

lemma swath_then_words:
  "swath_loop crcs p = (crcs', p') \<Longrightarrow> word_loop crcs' p' = word_loop crcs p"
proof (induction crcs p rule: swath_loop.induct)
  case (1 crc0 crc1 crc2 crc3 p)
  show ?case
  proof (cases "16 \<le> length p")
    case True
    then have "word_loop (crc0, crc1, crc2, crc3) p =
        word_loop (step4 p 0 crc0, step4 p 1 crc1, step4 p 2 crc2, step4 p 3 crc3) (drop 16 p)"
      using step4_drop [of 1 p] step4_drop [of 2 p] step4_drop [of 3 p] by (simp add: word_loop_step)
    with 1 True show ?thesis by (simp add: swath_loop.simps)
  next
    case False
    with 1 show ?thesis by (simp add: swath_loop.simps)
  qed
qed

lemma extend_strides_ok:
  "extend_strides l p = (l', p') \<Longrightarrow> crc_update l' p' = crc_update l p"
proof (cases "16 \<le> length p")
  case True
  assume "extend_strides l p = (l', p')"
  then obtain cs q cs' where
    s: "swath_loop (decode_fixed32 p XOR l, decode_fixed32 (drop 4 p), decode_fixed32 (drop 8 p),
        decode_fixed32 (drop 12 p)) (drop 16 p) = (cs, q)"
    and w: "word_loop cs q = (cs', p')" and l': "l' = combine_strides cs'"
    using True by (auto simp: extend_strides_def Let_def split: prod.splits)
  have "crc_update l' p' = crc_update (combine_strides (decode_fixed32 p XOR l, decode_fixed32 (drop 4 p),
      decode_fixed32 (drop 8 p), decode_fixed32 (drop 12 p))) (drop 16 p)"
    using word_loop_ok [OF w [unfolded swath_then_words [OF s]]] l' by simp
  also have "\<dots> = crc_update l p"
    using True by (simp add: combine_strides_eq crc_update_word xor.commute)
  finally show ?thesis .
qed (simp add: extend_strides_def)

lemma extend_aligned_ok:
  "extend_aligned a l p = (l', p') \<Longrightarrow> crc_update l' p' = crc_update l p"
  using crc_update_simps(3) [of l "take n p" "drop n p" for n]
  by (auto simp: extend_aligned_def Let_def foldl_step1 split: if_splits)

lemma crc_extend_eq: "crc_extend address crc data = crc32c crc data"
proof -
  obtain l p where a: "extend_aligned address (crc XOR kCRC32Xor) data = (l, p)" by force
  obtain l' p' where s: "extend_strides l p = (l', p')" by force
  have "(0xffffffff :: u32) = mask 32" by (simp add: mask_eq_exp_minus_1)
  then have "x XOR 0xffffffff = NOT x" for x :: u32
    by (intro bit_word_eqI) (simp_all only: bit_xor_iff bit_mask_iff bit_not_iff possible_bit_word, simp)
  then show ?thesis using extend_aligned_ok [OF a] extend_strides_ok [OF s] a s
    by (simp add: kCRC32Xor_def crc_extend_def can_accelerate_crc32c_def accelerated_crc32c_def foldl_step1 crc32c_def)
qed

lemma crc32c_append: "crc32c (crc32c crc a) b = crc32c crc (a @ b)"
  by (simp add: crc32c_def)

text \<open>The stored form of a checksum is undone exactly.\<close>

lemma unmask_mask: "crc_unmask (crc_mask crc) = crc"
proof -
  let ?rot = "drop_bit 15 crc OR push_bit 17 crc"
  have "drop_bit 17 ?rot OR push_bit 15 ?rot = crc"
  proof (rule bit_word_eqI)
    fix n assume "n < LENGTH(32)"
    then show "bit (drop_bit 17 ?rot OR push_bit 15 ?rot) n = bit crc n"
      by (cases "n < 15") (auto simp: bit_or_iff bit_drop_bit_eq bit_push_bit_iff dest: bit_imp_le_length)
  qed
  then show ?thesis by (simp add: crc_mask_def crc_unmask_def Let_def)
qed

end
