(* ===== verification/LdbLogSpec.thy ===== *)
theory LdbLogSpec
  imports LdbLog LdbCrcSpec
begin

text \<open>
  What the reader of a log makes of what the writer appended, for every file that keeps the two
  contracts of \<^verbatim>\<open>LdbFile\<close>. \<open>reader_at r rem k\<close> says that the reader stands at offset \<open>k\<close> of a
  block with the bytes \<open>rem\<close> before it; the writer stands at the same offset, except that an
  offset behind the last byte of a block may also be the start of the next one.
\<close>

section \<open>One physical record\<close>

definition physical_record :: "record_type \<Rightarrow> u8 list \<Rightarrow> u8 list" where
  "physical_record t data = physical_header init_type_crc t data @ data"

lemma length_physical_header [simp]: "length (physical_header crcs t data) = kHeaderSize"
  by (simp add: physical_header_def Let_def layout)

lemma init_type_crc_nth:
  "init_type_crc ! type_code t = crc32c 0 [word_of_nat (type_code t)]"
  by (cases t) (simp_all add: init_type_crc_def layout crc_value_def crc_extend_eq upt_rec)

lemma header_parts:
  fixes data :: "u8 list"
  assumes "length data < 2 ^ 16" and p_def: "p = physical_record t data @ rest"
  shows "unat (p ! 4) + 256 * unat (p ! 5) = length data" "p ! 6 = word_of_nat (type_code t)"
    "crc_unmask (decode_fixed32 p) = crc32c 0 (word_of_nat (type_code t) # data)"
    "take (1 + length data) (drop 6 p) = word_of_nat (type_code t) # data"
    "take (length data) (drop kHeaderSize p) = data" "drop (kHeaderSize + length data) p = rest"
proof -
  obtain c where p: "p = encode_fixed32 (crc_mask c) @ [word_of_nat (length data),
      word_of_nat (length data div 256), word_of_nat (type_code t)] @ data @ rest"
    and c: "c = crc_extend 0 (init_type_crc ! type_code t) data"
    unfolding p_def physical_record_def physical_header_def Let_def by auto
  have "length data div 256 < 256" using assms(1) by (intro less_mult_imp_div_less) simp
  then show "unat (p ! 4) + 256 * unat (p ! 5) = length data"
    by (simp add: p nth_append unat_of_nat)
  show "p ! 6 = word_of_nat (type_code t)" by (simp add: p nth_append)
  show "crc_unmask (decode_fixed32 p) = crc32c 0 (word_of_nat (type_code t) # data)"
    unfolding p decode_encode_fixed32 unmask_mask c crc_extend_eq init_type_crc_nth crc32c_append by simp
  show "take (1 + length data) (drop 6 p) = word_of_nat (type_code t) # data"
    "take (length data) (drop kHeaderSize p) = data"
    by (simp_all add: p layout)
  show "drop (kHeaderSize + length data) p = rest"
    unfolding p_def physical_record_def by simp
qed

lemma type_code_signed: "unat (scast (word_of_nat (type_code t) :: u8) :: u32) = type_code t"
  by (cases t) simp_all

section \<open>The reader\<close>

context sequential
begin

definition reader_at :: "'g log_reader \<Rightarrow> slice \<Rightarrow> nat \<Rightarrow> bool" where
  "reader_at r rem k \<longleftrightarrow> readable (infile r) \<and> buffer r @ unread (infile r) = rem \<and>
     initial_offset r = 0 \<and> \<not> resyncing r \<and> k \<le> kBlockSize \<and>
     (if eof r then unread (infile r) = [] \<and> length (buffer r) < kBlockSize - k
      else length (buffer r) = kBlockSize - k)"

lemma parse_ok:
  assumes "reader_at r (physical_record t data @ rest) k" "k + kHeaderSize + length data \<le> kBlockSize"
    "t \<noteq> kZeroType"
  shows "\<exists>r'. parse_physical_record frag r = (type_code t, data, r') \<and> kHeaderSize \<le> length (buffer r) \<and>
     reader_at r' rest (k + kHeaderSize + length data) \<and> reporter r' = reporter r"
proof -
  let ?n = "kHeaderSize + length data"
  have len: "length data < 2 ^ 16" using assms(2) by (simp add: layout)
  have all: "buffer r @ unread (infile r) = physical_record t data @ rest"
    using assms(1) by (simp add: reader_at_def)
  have n: "length (physical_record t data) = ?n" by (simp add: physical_record_def)
  have "?n \<le> length (buffer r)"
  proof (cases "eof r")
    case True
    then have "unread (infile r) = []" using assms(1) by (simp add: reader_at_def)
    with all have "buffer r = physical_record t data @ rest" by simp
    then show ?thesis using n by simp
  next
    case False
    then show ?thesis using assms by (simp add: reader_at_def)
  qed
  then have "take ?n (buffer r) = physical_record t data" "drop ?n (buffer r) @ unread (infile r) = rest"
    using arg_cong [OF all, of "take ?n"] arg_cong [OF all, of "drop ?n"] n by simp_all
  then obtain q where q: "buffer r = physical_record t data @ q" "q @ unread (infile r) = rest"
    using append_take_drop_id [of ?n "buffer r"] by metis
  have "kHeaderSize + (unat (buffer r ! 4) + 256 * unat (buffer r ! 5)) = ?n"
    using header_parts(1) [OF len q(1)] by simp
  have parse: "parse_physical_record frag r = (type_code t, data, r\<lparr>buffer := q\<rparr>)"
    using header_parts [OF len q(1)] q n assms(1,3)
    by (cases t) (simp_all add: parse_physical_record_def Let_def type_code_signed crc_value_def crc_extend_eq
        reader_at_def layout)
  moreover have "reader_at (r\<lparr>buffer := q\<rparr>) rest (k + ?n)"
    using assms q n by (auto simp: reader_at_def split: if_splits)
  ultimately show ?thesis using \<open>?n \<le> length (buffer r)\<close> by (auto simp: add.assoc)
qed

text \<open>The bytes at the end of a block are skipped and the next block is read.\<close>

lemma refill:
  assumes "reader_at r rem k" "kBlockSize - k < kHeaderSize" "kBlockSize - k \<le> length rem"
  shows "\<exists>r'. read_physical_record ops frag r = read_physical_record ops frag r' \<and>
     reader_at r' (drop (kBlockSize - k) rem) 0 \<and> reporter r' = reporter r"
proof -
  have eof: "\<not> eof r"
    using assms by (auto simp: reader_at_def)
  then have len: "length (buffer r) = kBlockSize - k" using assms by (simp add: reader_at_def)
  obtain f where f: "sf_read ops (infile r) kBlockSize = (OK, take kBlockSize (unread (infile r)), f)"
    "readable f" "unread f = drop kBlockSize (unread (infile r))"
    using read_law assms(1) by (meson reader_at_def)
  let ?buf = "take kBlockSize (unread (infile r))"
  let ?r = "r\<lparr>infile := f, buffer := ?buf,
     end_of_buffer_offset := end_of_buffer_offset r + word_of_nat (length ?buf)\<rparr>"
  let ?r' = "if length ?buf < kBlockSize then ?r\<lparr>eof := True\<rparr> else ?r"
  have "read_physical_record ops frag r = read_physical_record ops frag ?r'"
    using eof len assms(2) by (subst read_physical_record.simps) (simp add: f(1) Let_def del: length_take)
  moreover have "reader_at ?r' (drop (kBlockSize - k) rem) 0"
    using assms(1) len f(2,3) eof by (auto simp: reader_at_def)
  ultimately show ?thesis by (intro exI [of _ ?r']) simp
qed

lemma read_physical_ok:
  assumes "reader_at r (pad @ physical_record t data @ rest) k"
    "if kBlockSize - k < kHeaderSize then j = 0 \<and> length pad = kBlockSize - k else j = k \<and> pad = []"
    "j + kHeaderSize + length data \<le> kBlockSize" "t \<noteq> kZeroType"
  shows "\<exists>r'. read_physical_record ops frag r = (type_code t, data, r') \<and>
     reader_at r' rest (j + kHeaderSize + length data) \<and> reporter r' = reporter r"
proof -
  obtain r1 where r1: "read_physical_record ops frag r = read_physical_record ops frag r1"
    "reader_at r1 (physical_record t data @ rest) j" "reporter r1 = reporter r"
  proof (cases "kBlockSize - k < kHeaderSize")
    case True
    then show ?thesis using refill [OF assms(1) True, of frag] assms(2) that by auto
  next
    case False
    then show ?thesis using assms(1,2) that by auto
  qed
  obtain r2 where r2: "parse_physical_record frag r1 = (type_code t, data, r2)" "kHeaderSize \<le> length (buffer r1)"
    "reader_at r2 rest (j + kHeaderSize + length data)" "reporter r2 = reporter r1"
    using parse_ok [OF r1(2) assms(3,4)] by blast
  then have "read_physical_record ops frag r1 = (type_code t, data, r2)"
    by (subst read_physical_record.simps) simp
  with r1 r2 show ?thesis by auto
qed

text \<open>Nothing is left: the end of the file.\<close>

lemma read_physical_end:
  assumes "reader_at r [] k"
  shows "\<exists>r'. read_physical_record ops frag r = (kEof, frag, r') \<and> reporter r' = reporter r \<and> \<not> resyncing r'"
proof -
  have end_eof: "\<exists>r'. read_physical_record ops frag r = (kEof, frag, r') \<and> reporter r' = reporter r \<and> \<not> resyncing r'"
    if "eof r" "buffer r = []" "\<not> resyncing r" for r :: "'g log_reader"
    using that by (subst read_physical_record.simps) (simp add: layout)
  show ?thesis
  proof (cases "eof r")
    case True
    then show ?thesis using assms end_eof [of r] by (simp add: reader_at_def)
  next
    case False
    then have "kBlockSize - k = 0" using assms by (auto simp: reader_at_def)
    then obtain r' where r': "read_physical_record ops frag r = read_physical_record ops frag r'"
      "reader_at r' [] 0" "reporter r' = reporter r"
      using refill [OF assms, of frag] by (auto simp: layout)
    then have "eof r'" by (auto simp: reader_at_def layout split: if_splits)
    with r' show ?thesis using end_eof [of r'] by (simp add: reader_at_def)
  qed
qed

end

section \<open>The reader always returns\<close>

text \<open>
  Whatever the bytes of the file, a pass of the reader that goes on has consumed at least a
  header, so every call returns and a file gives finitely many records.
\<close>

context sequential
begin

definition left :: "'g log_reader \<Rightarrow> nat" where
  "left r = length (buffer r) + length (unread (infile r))"

lemma report_keeps [simp]:
  "buffer (report_drop n s r) = buffer r" "infile (report_drop n s r) = infile r"
  "buffer (report_corruption n m r) = buffer r" "infile (report_corruption n m r) = infile r"
  by (auto simp: report_corruption_def report_drop_def split: option.splits)

lemma left_cong [simp]:
  "left (report_drop n s r) = left r" "left (report_corruption n m r) = left r"
  "left (r\<lparr>eof := e\<rparr>) = left r" "left (r\<lparr>resyncing := e\<rparr>) = left r"
  "left (r\<lparr>last_record_offset := x\<rparr>) = left r" "left (r\<lparr>end_of_buffer_offset := x\<rparr>) = left r"
  by (simp_all add: left_def)

lemma parse_consumes:
  "parse_physical_record frag r = (ty, frag', r') \<Longrightarrow> kHeaderSize \<le> length (buffer r) \<Longrightarrow>
   infile r' = infile r \<and> left r' + kHeaderSize \<le> left r"
  by (auto simp: parse_physical_record_def Let_def left_def split: if_splits)

lemma refill_step:
  assumes "readable (infile r)" "length (buffer r) < kHeaderSize" "\<not> eof r"
  shows "\<exists>r'. read_physical_record ops frag r = read_physical_record ops frag r' \<and> readable (infile r') \<and>
    left r' \<le> left r \<and> (eof r' \<or> kHeaderSize \<le> length (buffer r'))"
proof -
  obtain f where f: "sf_read ops (infile r) kBlockSize = (OK, take kBlockSize (unread (infile r)), f)"
    "readable f" "unread f = drop kBlockSize (unread (infile r))"
    using read_law assms(1) by meson
  let ?buf = "take kBlockSize (unread (infile r))"
  let ?r = "r\<lparr>infile := f, buffer := ?buf,
     end_of_buffer_offset := end_of_buffer_offset r + word_of_nat (length ?buf)\<rparr>"
  let ?r' = "if length ?buf < kBlockSize then ?r\<lparr>eof := True\<rparr> else ?r"
  have "read_physical_record ops frag r = read_physical_record ops frag ?r'"
    using assms(2,3) by (subst read_physical_record.simps) (simp add: f(1) Let_def del: length_take)
  moreover have "readable (infile ?r')" "left ?r' \<le> left r" "eof ?r' \<or> kHeaderSize \<le> length (buffer ?r')"
    using f(2,3) by (auto simp: left_def layout)
  ultimately show ?thesis by blast
qed

lemma read_physical_consumes:
  assumes "read_physical_record ops frag r = (ty, frag', r')" "readable (infile r)"
  shows "readable (infile r') \<and> left r' \<le> left r \<and> (ty \<noteq> kEof \<longrightarrow> left r' + kHeaderSize \<le> left r)"
proof -
  have loaded: "readable (infile r') \<and> left r' \<le> left r \<and> (ty \<noteq> kEof \<longrightarrow> left r' + kHeaderSize \<le> left r)"
    if "read_physical_record ops frag r = (ty, frag', r')" "readable (infile r)"
      "eof r \<or> kHeaderSize \<le> length (buffer r)" for r
    using that parse_consumes [of frag r ty frag' r']
    by (cases "kHeaderSize \<le> length (buffer r)") (auto simp: read_physical_record.simps left_def not_le)
  show ?thesis
  proof (cases "eof r \<or> kHeaderSize \<le> length (buffer r)")
    case True
    then show ?thesis using loaded assms by blast
  next
    case False
    then obtain r1 where "read_physical_record ops frag r = read_physical_record ops frag r1"
      "readable (infile r1)" "left r1 \<le> left r" "eof r1 \<or> kHeaderSize \<le> length (buffer r1)"
      using refill_step [OF assms(2), of frag] by auto
    then show ?thesis using loaded [of r1] assms(1) by auto
  qed
qed

lemma record_switch_continues:
  "record_switch ty off st = Inr st' \<Longrightarrow>
   ty \<noteq> kEof \<and> infile (reader st') = infile (reader st) \<and> left (reader st') = left (reader st)"
  by (auto simp: record_switch_def partial_record_def layout split: if_splits)

lemma record_switch_returns:
  "record_switch ty off st = Inl (res, r') \<Longrightarrow>
   infile r' = infile (reader st) \<and> left r' = left (reader st) \<and> (res \<noteq> None \<longrightarrow> ty \<noteq> kEof)"
  by (auto simp: record_switch_def partial_record_def layout split: if_splits)

lemma record_pass_consumes:
  assumes "readable (infile (reader st))"
  shows "record_pass ops st = Inr st' \<Longrightarrow> readable (infile (reader st')) \<and> left (reader st') + kHeaderSize \<le> left (reader st)"
    "record_pass ops st = Inl (res, r') \<Longrightarrow> readable (infile r') \<and> left r' \<le> left (reader st) \<and>
      (res \<noteq> None \<longrightarrow> left r' + kHeaderSize \<le> left (reader st))"
proof -
  obtain ty frag r where p: "read_physical_record ops (fragment st) (reader st) = (ty, frag, r)"
    by (metis prod_cases3)
  have c: "readable (infile r)" "left r \<le> left (reader st)" "ty \<noteq> kEof \<Longrightarrow> left r + kHeaderSize \<le> left (reader st)"
    using read_physical_consumes [OF p assms] by auto
  show "record_pass ops st = Inr st' \<Longrightarrow> readable (infile (reader st')) \<and> left (reader st') + kHeaderSize \<le> left (reader st)"
    using c p by (auto simp: record_pass_def Let_def layout
        dest!: record_switch_continues split: if_splits)
  show "record_pass ops st = Inl (res, r') \<Longrightarrow> readable (infile r') \<and> left r' \<le> left (reader st) \<and>
      (res \<noteq> None \<longrightarrow> left r' + kHeaderSize \<le> left (reader st))"
    using c p by (auto simp: record_pass_def Let_def dest!: record_switch_returns split: if_splits)
qed

lemma record_loop_returns:
  "readable (infile (reader st)) \<Longrightarrow>
   \<exists>res r'. record_loop ops st = Some (res, r') \<and> readable (infile r') \<and> left r' \<le> left (reader st) \<and>
     (res \<noteq> None \<longrightarrow> left r' + kHeaderSize \<le> left (reader st))"
proof (induction "left (reader st)" arbitrary: st rule: less_induct)
  case less
  show ?case
  proof (cases "record_pass ops st")
    case (Inl x)
    then show ?thesis using record_pass_consumes(2) [OF less.prems, of "fst x" "snd x"]
      by (cases x) (auto simp: record_loop.simps [of ops st])
  next
    case (Inr st')
    then have c: "readable (infile (reader st'))" "left (reader st') + kHeaderSize \<le> left (reader st)"
      using record_pass_consumes(1) [OF less.prems Inr] by auto
    then have "left (reader st') < left (reader st)" by (simp add: layout)
    from less.hyps [OF this c(1)] c(2) Inr show ?thesis
      by (fastforce simp: record_loop.simps [of ops st])
  qed
qed

lemma read_record_returns:
  assumes "readable (infile r)"
  shows "\<exists>res r'. read_record ops r = Some (res, r') \<and> readable (infile r') \<and> left r' \<le> left r \<and>
     (res \<noteq> None \<longrightarrow> left r' + kHeaderSize \<le> left r)"
proof -
  define x where "x = (if last_record_offset r < initial_offset r then skip_to_initial_block ops r else (True, r))"
  have x: "readable (infile (snd x)) \<and> left (snd x) \<le> left r"
  proof -
    obtain f where "sf_skip ops (infile r) k = (OK, f k) \<and> readable (f k) \<and>
        unread (f k) = drop (unat k) (unread (infile r))" for k
      using skip_law [OF assms] by metis
    then have "readable (infile (snd (skip_to_initial_block ops r))) \<and> left (snd (skip_to_initial_block ops r)) \<le> left r"
      using assms by (simp add: skip_to_initial_block_def Let_def left_def)
    then show ?thesis using assms by (simp add: x_def)
  qed
  have "read_record ops r = (if \<not> fst x then Some (None, snd x)
        else record_loop ops \<lparr>in_fragmented_record = False, prospective_record_offset = 0,
               scratch = [], fragment = [], reader = snd x\<rparr>)"
    by (simp add: read_record_def case_prod_beta flip: x_def)
  then show ?thesis
    using x record_loop_returns [of "\<lparr>in_fragmented_record = False, prospective_record_offset = 0,
               scratch = [], fragment = [], reader = snd x\<rparr>"] by force
qed

lemma read_records_returns:
  "readable (infile r) \<Longrightarrow> \<exists>ds r'. read_records ops r = Some (ds, r') \<and> kHeaderSize * length ds \<le> left r"
proof (induction "left r" arbitrary: r rule: less_induct)
  case less
  obtain res r1 where r1: "read_record ops r = Some (res, r1)" "readable (infile r1)"
    "res \<noteq> None \<longrightarrow> left r1 + kHeaderSize \<le> left r"
    using read_record_returns [OF less.prems] by blast
  show ?case
  proof (cases res)
    case None
    then show ?thesis using r1 by (subst read_records.simps) simp
  next
    case (Some d)
    then have c: "left r1 + kHeaderSize \<le> left r" using r1(3) by simp
    then have "left r1 < left r" by (simp add: layout)
    from less.hyps [OF this r1(2)] Some r1(1) c show ?thesis by (subst read_records.simps) fastforce
  qed
qed

end

section \<open>The writer\<close>

context writable
begin

definition writer_ok :: "'f log_writer \<Rightarrow> bool" where
  "writer_ok w \<longleftrightarrow> sound (dest w) \<and> type_crc w = init_type_crc \<and> block_offset w \<le> kBlockSize"

lemma switch_block_ok:
  assumes "writer_ok w"
  defines "left \<equiv> kBlockSize - block_offset w"
  shows "writer_ok (switch_block ops w)"
    "written (dest (switch_block ops w)) = written (dest w) @ (if left < kHeaderSize then replicate left 0 else [])"
    "block_offset (switch_block ops w) + kHeaderSize \<le> kBlockSize"
proof -
  obtain f where f: "wf_append ops (dest w) (replicate left 0) = (OK, f)" "sound f"
    "written f = written (dest w) @ replicate left 0"
    using append_law assms(1) by (meson writer_ok_def)
  show "writer_ok (switch_block ops w)"
    using assms(1) f by (simp add: writer_ok_def switch_block_def Let_def flip: left_def)
  show "written (dest (switch_block ops w)) = written (dest w) @ (if left < kHeaderSize then replicate left 0 else [])"
    using f by (simp add: switch_block_def Let_def flip: left_def)
  show "block_offset (switch_block ops w) + kHeaderSize \<le> kBlockSize"
    using assms(1) unfolding switch_block_offset
    by (auto simp: writer_ok_def layout)
qed

lemma emit_ok:
  assumes "writer_ok w" "block_offset w + kHeaderSize + length data \<le> kBlockSize"
  shows "\<exists>w'. emit_physical_record ops t data w = (OK, w') \<and> writer_ok w' \<and>
     written (dest w') = written (dest w) @ physical_record t data \<and>
     block_offset w' = block_offset w + kHeaderSize + length data"
proof -
  obtain f where f: "wf_append ops (dest w) (physical_header (type_crc w) t data) = (OK, f)" "sound f"
    "written f = written (dest w) @ physical_header (type_crc w) t data"
    using append_law assms(1) by (meson writer_ok_def)
  obtain g where g: "wf_append ops f data = (OK, g)" "sound g" "written g = written f @ data"
    using append_law f(2) by meson
  obtain h where h: "wf_flush ops g = (OK, h)" "sound h" "written h = written g"
    using flush_law g(2) by meson
  show ?thesis using assms f g h
    by (simp add: emit_physical_record_def Let_def writer_ok_def physical_record_def)
qed

end

section \<open>A log\<close>

text \<open>The two offsets of a place between two blocks.\<close>

definition same_place :: "nat \<Rightarrow> nat \<Rightarrow> bool" where
  "same_place k b \<longleftrightarrow> k = b \<or> k = kBlockSize \<and> b = 0"

locale log_files =
  w: writable wops written sound + s: sequential sops unread readable
  for wops :: "'f writable_file" and written sound and
    sops :: "'g sequential_file" and unread readable
begin

text \<open>\<open>reads st data rest b\<close>: from here the reader's loop returns \<open>data\<close> and stands before \<open>rest\<close>.\<close>

definition reads :: "'g read_state \<Rightarrow> slice \<Rightarrow> slice \<Rightarrow> nat \<Rightarrow> bool" where
  "reads st data rest b \<longleftrightarrow> (\<exists>r' k. record_loop sops st = Some (Some data, r') \<and>
     s.reader_at r' rest k \<and> same_place k b \<and> reporter r' = reporter (reader st))"

lemma record_pass_fragment:
  assumes "s.reader_at (reader st) (pad @ physical_record t data @ rest) k" "same_place k b"
    "if kBlockSize - b < kHeaderSize then j = 0 \<and> pad = replicate (kBlockSize - b) 0 else j = b \<and> pad = []"
    "j + kHeaderSize + length data \<le> kBlockSize" "t \<noteq> kZeroType"
  shows "\<exists>r' off. record_pass sops st = record_switch (type_code t) off (st\<lparr>fragment := data, reader := r'\<rparr>) \<and>
    s.reader_at r' rest (j + kHeaderSize + length data) \<and> reporter r' = reporter (reader st)"
proof -
  have "if kBlockSize - k < kHeaderSize then j = 0 \<and> length pad = kBlockSize - k else j = k \<and> pad = []"
    using assms(2,3) by (auto simp: same_place_def layout split: if_splits)
  then obtain r' where r': "read_physical_record sops (fragment st) (reader st) = (type_code t, data, r')"
    "s.reader_at r' rest (j + kHeaderSize + length data)" "reporter r' = reporter (reader st)"
    using s.read_physical_ok [OF assms(1) _ assms(4,5)] by blast
  then have "\<not> resyncing r'" by (simp add: s.reader_at_def)
  then have same: "r'\<lparr>resyncing := False\<rparr> = r'" by simp
  from r' \<open>\<not> resyncing r'\<close> have "\<exists>off. record_pass sops st =
      record_switch (type_code t) off (st\<lparr>fragment := data, reader := r'\<rparr>)"
    by (auto simp: record_pass_def Let_def same)
  with r' show ?thesis by blast
qed

lemma reader_at_cong [simp]:
  "s.reader_at (r\<lparr>last_record_offset := x\<rparr>) rem k = s.reader_at r rem k"
  by (simp add: s.reader_at_def)

text \<open>The last fragment of a record ends the loop, an earlier one is kept in \<open>scratch\<close>.\<close>

lemma record_switch_last:
  assumes "in_fragmented_record st = (\<not> first)"
  shows "\<exists>r'. record_switch (type_code (fragment_type first True)) off st =
      Inl (Some ((if first then [] else scratch st) @ fragment st), r') \<and>
    (\<forall>rem k. s.reader_at r' rem k = s.reader_at (reader st) rem k) \<and> reporter r' = reporter (reader st)"
  using assms by (auto simp: record_switch_def fragment_type_def partial_record_def)

lemma record_switch_more:
  assumes "in_fragmented_record st = (\<not> first)"
  shows "\<exists>st'. record_switch (type_code (fragment_type first False)) off st = Inr st' \<and>
    in_fragmented_record st' \<and> scratch st' = (if first then [] else scratch st) @ fragment st \<and>
    reader st' = reader st"
  using assms by (auto simp: record_switch_def fragment_type_def partial_record_def)

lemma add_record_loop_ok:
  assumes "w.writer_ok w"
  shows "\<exists>w' bs. add_record_loop wops first ptr w = (OK, w') \<and> w.writer_ok w' \<and>
    written (dest w') = written (dest w) @ bs \<and>
    (\<forall>st rest k. s.reader_at (reader st) (bs @ rest) k \<longrightarrow> same_place k (block_offset w) \<longrightarrow>
       in_fragmented_record st = (\<not> first) \<longrightarrow>
       reads st ((if first then [] else scratch st) @ ptr) rest (block_offset w'))"
  using assms
proof (induction ops\<equiv>wops first ptr w rule: add_record_loop.induct)
  case (1 first ptr w)
  define pad :: slice where
    "pad = (if kBlockSize - block_offset w < kHeaderSize then replicate (kBlockSize - block_offset w) 0 else [])"
  define w1 where "w1 = switch_block wops w"
  define n where "n = fragment_length w1 ptr"
  define t where "t = fragment_type first (length ptr = n)"
  note w1 = w.switch_block_ok [OF "1.prems", folded w1_def, folded pad_def]
  have n: "n \<le> length ptr" "block_offset w1 + kHeaderSize + length (take n ptr) \<le> kBlockSize"
    using w1(3) by (simp_all add: n_def fragment_length_def)
  have t: "t \<noteq> kZeroType" by (simp add: t_def fragment_type_def)
  obtain w2 where w2: "emit_physical_record wops t (take n ptr) w1 = (OK, w2)" "w.writer_ok w2"
    "written (dest w2) = written (dest w1) @ physical_record t (take n ptr)"
    "block_offset w2 = block_offset w1 + kHeaderSize + length (take n ptr)"
    using w.emit_ok [OF w1(1) n(2)] by blast
  have loop: "add_record_loop wops first ptr w =
      (if drop n ptr \<noteq> [] then add_record_loop wops False (drop n ptr) w2 else (OK, w2))"
    by (subst add_record_loop.simps) (simp add: Let_def w2(1) flip: w1_def n_def t_def)
  have place: "if kBlockSize - block_offset w < kHeaderSize
      then block_offset w1 = 0 \<and> pad = replicate (kBlockSize - block_offset w) 0
      else block_offset w1 = block_offset w \<and> pad = []"
    by (simp add: w1_def switch_block_offset pad_def)
  have pass: "\<exists>r' off. record_pass sops st = record_switch (type_code t) off (st\<lparr>fragment := take n ptr, reader := r'\<rparr>) \<and>
      s.reader_at r' rest (block_offset w2) \<and> reporter r' = reporter (reader st)"
    if "s.reader_at (reader st) (pad @ physical_record t (take n ptr) @ rest) k" "same_place k (block_offset w)"
    for st rest k
    using record_pass_fragment [OF that place n(2) t] by (simp add: w2(4))
  show ?case
  proof (cases "drop n ptr = []")
    case True
    then have last: "length ptr = n" "take n ptr = ptr" using n(1) by auto
    have "reads st ((if first then [] else scratch st) @ ptr) rest (block_offset w2)"
      if asm: "s.reader_at (reader st) ((pad @ physical_record t ptr) @ rest) k" "same_place k (block_offset w)"
        "in_fragmented_record st = (\<not> first)" for st rest k
    proof -
      obtain r' off where r': "record_pass sops st =
          record_switch (type_code t) off (st\<lparr>fragment := ptr, reader := r'\<rparr>)"
        "s.reader_at r' rest (block_offset w2)" "reporter r' = reporter (reader st)"
        using pass [of st rest k] asm(1,2) unfolding last(2) append_assoc by blast
      show ?thesis
        using record_switch_last [of "st\<lparr>fragment := ptr, reader := r'\<rparr>" first off] asm(3) r'
        by (auto simp: reads_def record_loop.simps [of sops st] t_def last(1) same_place_def)
    qed
    then show ?thesis using loop True w2 w1(2) last(2) by auto
  next
    case False
    have IH: "\<exists>w' bs. add_record_loop wops False (drop n ptr) w2 = (OK, w') \<and> w.writer_ok w' \<and>
      written (dest w') = written (dest w2) @ bs \<and>
      (\<forall>st rest k. s.reader_at (reader st) (bs @ rest) k \<longrightarrow> same_place k (block_offset w2) \<longrightarrow>
         in_fragmented_record st \<longrightarrow> reads st (scratch st @ drop n ptr) rest (block_offset w'))"
      using "1.hyps" [OF w1_def n_def refl w2(1) [unfolded t_def, symmetric] _ w2(2)] False by simp
    then obtain w' bs where w': "add_record_loop wops False (drop n ptr) w2 = (OK, w')" "w.writer_ok w'"
      "written (dest w') = written (dest w2) @ bs"
      and bs: "\<And>st rest k. s.reader_at (reader st) (bs @ rest) k \<Longrightarrow> same_place k (block_offset w2) \<Longrightarrow>
         in_fragmented_record st \<Longrightarrow> reads st (scratch st @ drop n ptr) rest (block_offset w')"
      by blast
    have "reads st ((if first then [] else scratch st) @ ptr) rest (block_offset w')"
      if asm: "s.reader_at (reader st) ((pad @ physical_record t (take n ptr) @ bs) @ rest) k"
        "same_place k (block_offset w)" "in_fragmented_record st = (\<not> first)" for st rest k
    proof -
      obtain r' off where r': "record_pass sops st =
          record_switch (type_code t) off (st\<lparr>fragment := take n ptr, reader := r'\<rparr>)"
        "s.reader_at r' (bs @ rest) (block_offset w2)" "reporter r' = reporter (reader st)"
        using pass [of st "bs @ rest" k] asm(1,2) by auto
      have "length ptr \<noteq> n" using False by auto
      then obtain st' where st': "record_pass sops st = Inr st'" "in_fragmented_record st'"
        "scratch st' = (if first then [] else scratch st) @ take n ptr" "reader st' = r'"
        using record_switch_more [of "st\<lparr>fragment := take n ptr, reader := r'\<rparr>" first off] asm(3) r'(1)
        by (auto simp: t_def)
      have "reads st' (scratch st' @ drop n ptr) rest (block_offset w')"
        using bs [of st' rest "block_offset w2"] r'(2) st' by (simp add: same_place_def)
      then show ?thesis
        using st' r'(3) by (simp add: reads_def record_loop.simps [of sops st])
    qed
    then show ?thesis using loop False w' w2(3) w1(2)
      by (intro exI [of _ w'] exI [of _ "pad @ physical_record t (take n ptr) @ bs"]) simp
  qed
qed

text \<open>All records of a list, and then the end of the file.\<close>

lemma read_record_ok:
  assumes "s.reader_at r rem k" "reads \<lparr>in_fragmented_record = False, prospective_record_offset = 0,
      scratch = [], fragment = [], reader = r\<rparr> data rest b"
  shows "\<exists>r' k. read_record sops r = Some (Some data, r') \<and> s.reader_at r' rest k \<and> same_place k b \<and>
    reporter r' = reporter r"
  using assms by (auto simp: read_record_def reads_def s.reader_at_def)

lemma read_record_end:
  assumes "s.reader_at r [] k"
  shows "\<exists>r'. read_record sops r = Some (None, r') \<and> reporter r' = reporter r"
proof -
  let ?st = "\<lparr>in_fragmented_record = False, prospective_record_offset = 0, scratch = [], fragment = [], reader = r\<rparr>"
  obtain r' where "read_physical_record sops [] r = (kEof, [], r')" "reporter r' = reporter r" "\<not> resyncing r'"
    using s.read_physical_end [OF assms] by blast
  then have "record_pass sops ?st = Inl (None, r'\<lparr>resyncing := False\<rparr>)"
    by (simp add: record_pass_def Let_def record_switch_def layout)
  then show ?thesis using assms \<open>reporter r' = reporter r\<close>
    by (simp add: read_record_def s.reader_at_def record_loop.simps [of sops ?st])
qed

lemma add_records_ok:
  assumes "w.writer_ok w"
  shows "\<exists>w' bs. add_records wops ds w = (OK, w') \<and> w.writer_ok w' \<and>
    written (dest w') = written (dest w) @ bs \<and>
    (\<forall>r k. s.reader_at r bs k \<longrightarrow> same_place k (block_offset w) \<longrightarrow>
       (\<exists>r'. read_records sops r = Some (ds, r') \<and> reporter r' = reporter r))"
  using assms
proof (induction ds arbitrary: w)
  case Nil
  have "\<exists>r'. read_records sops r = Some ([], r') \<and> reporter r' = reporter r" if "s.reader_at r [] k" for r k
    using read_record_end [OF that] by (subst read_records.simps) auto
  then show ?case using Nil by auto
next
  case (Cons d ds)
  obtain w1 bs where w1: "add_record wops d w = (OK, w1)" "w.writer_ok w1" "written (dest w1) = written (dest w) @ bs"
    and bs: "\<And>st rest k. s.reader_at (reader st) (bs @ rest) k \<Longrightarrow> same_place k (block_offset w) \<Longrightarrow>
       \<not> in_fragmented_record st \<Longrightarrow> reads st d rest (block_offset w1)"
    using add_record_loop_ok [OF Cons.prems, of True d] unfolding add_record_def by auto
  obtain w2 cs where w2: "add_records wops ds w1 = (OK, w2)" "w.writer_ok w2" "written (dest w2) = written (dest w1) @ cs"
    and cs: "\<And>r k. s.reader_at r cs k \<Longrightarrow> same_place k (block_offset w1) \<Longrightarrow>
       \<exists>r'. read_records sops r = Some (ds, r') \<and> reporter r' = reporter r"
    using Cons.IH [OF w1(2)] by blast
  have "\<exists>r'. read_records sops r = Some (d # ds, r') \<and> reporter r' = reporter r"
    if asm: "s.reader_at r (bs @ cs) k" "same_place k (block_offset w)" for r k
  proof -
    obtain r1 k1 where r1: "read_record sops r = Some (Some d, r1)" "s.reader_at r1 cs k1"
      "same_place k1 (block_offset w1)" "reporter r1 = reporter r"
      using read_record_ok [OF asm(1)] bs [of "\<lparr>in_fragmented_record = False, prospective_record_offset = 0,
        scratch = [], fragment = [], reader = r\<rparr>" cs k] asm by fastforce
    from cs [OF r1(2,3)] r1 show ?thesis by (subst read_records.simps) auto
  qed
  with w1 w2 show ?case by auto
qed

text \<open>A log written to an empty file and read from its start.\<close>

theorem log_roundtrip:
  assumes "sound f" "written f = []" and reopen: "\<And>f. sound f \<Longrightarrow> readable (reopen f) \<and> unread (reopen f) = written f"
  shows "\<exists>w r. add_records wops ds (new_writer f) = (OK, w) \<and>
    read_records sops (new_reader (reopen (dest w)) (Some []) verify 0) = Some (ds, r) \<and> reporter r = Some []"
proof -
  have "w.writer_ok (new_writer f)" using assms(1) by (simp add: w.writer_ok_def new_writer_def)
  from add_records_ok [OF this, of ds] obtain w bs where
    w: "add_records wops ds (new_writer f) = (OK, w)" "w.writer_ok w" "written (dest w) = written f @ bs"
    and bs: "\<And>r k. s.reader_at r bs k \<Longrightarrow> same_place k (block_offset (new_writer f)) \<Longrightarrow>
       \<exists>r'. read_records sops r = Some (ds, r') \<and> reporter r' = reporter r"
    by (auto simp: new_writer_def)
  let ?r = "new_reader (reopen (dest w)) (Some []) verify 0"
  have "s.reader_at ?r bs kBlockSize"
    using w assms(2) reopen [of "dest w"] by (simp add: s.reader_at_def new_reader_def w.writer_ok_def)
  from bs [OF this] w(1) show ?thesis by (simp add: same_place_def new_writer_def new_reader_def)
qed

end

end
