(* ===== verification/LdbBloom.thy ===== *)
theory LdbBloom
  imports LdbCoding
begin

text \<open>
  The hash function and the Bloom filter of leveldb (\<^verbatim>\<open>util/hash.cc\<close>, \<^verbatim>\<open>util/bloom.cc\<close>). The
  number of bits per key is a natural number; \<^verbatim>\<open>bits_per_key * 0.69\<close> is computed in doubles, and
  its truncation agrees with \<open>69 * bits_per_key div 100\<close> up to the bound of 30 that the next
  lines impose.
\<close>

section \<open>The hash function\<close>

definition hash_mult :: u32 where "hash_mult = 0xc6a4a793"

definition hash_step :: "u32 \<Rightarrow> u32 \<Rightarrow> u32" where
  "hash_step h w = (let h = (h + w) * hash_mult in h XOR drop_bit 16 h)"

definition hash_tail :: "u32 \<Rightarrow> slice \<Rightarrow> u32" where
  "hash_tail h data =
    (if data = [] then h
     else let h = (if length data = 3 then h + push_bit 16 (ucast (data ! 2)) else h);
              h = (if 2 \<le> length data then h + push_bit 8 (ucast (data ! 1)) else h);
              h = (h + ucast (data ! 0)) * hash_mult
          in h XOR drop_bit 24 h)"

function hash_loop :: "u32 \<Rightarrow> slice \<Rightarrow> u32" where
  "hash_loop h data =
    (if 4 \<le> length data then hash_loop (hash_step h (decode_fixed32 data)) (drop 4 data)
     else hash_tail h data)"
  by auto
termination by (relation "measure (\<lambda>(h, data). length data)") auto

declare hash_loop.simps [simp del]

definition ldb_hash :: "slice \<Rightarrow> u32 \<Rightarrow> u32" where
  "ldb_hash data seed = hash_loop (seed XOR (word_of_nat (length data) * hash_mult)) data"

section \<open>The filter\<close>

definition bloom_hash :: "slice \<Rightarrow> u32" where
  "bloom_hash key = ldb_hash key 0xbc9f1d34"

definition probes :: "nat \<Rightarrow> nat" where
  "probes bits_per_key =
    (let k = 69 * bits_per_key div 100;
         k = (if k < 1 then 1 else k)
     in if 30 < k then 30 else k)"

definition bloom_delta :: "u32 \<Rightarrow> u32" where
  "bloom_delta h = drop_bit 17 h OR push_bit 15 h"

definition set_filter_bit :: "u8 list \<Rightarrow> nat \<Rightarrow> u8 list" where
  "set_filter_bit array bitpos =
    array[bitpos div 8 := array ! (bitpos div 8) OR push_bit (bitpos mod 8) 1]"

fun add_probes :: "nat \<Rightarrow> nat \<Rightarrow> u32 \<Rightarrow> u32 \<Rightarrow> u8 list \<Rightarrow> u8 list" where
  "add_probes 0 bits delta h array = array"
| "add_probes (Suc k) bits delta h array =
    add_probes k bits delta (h + delta) (set_filter_bit array (unat h mod bits))"

definition add_key :: "nat \<Rightarrow> nat \<Rightarrow> slice \<Rightarrow> u8 list \<Rightarrow> u8 list" where
  "add_key k bits key array =
    (let h = bloom_hash key in add_probes k bits (bloom_delta h) h array)"

definition filter_bytes :: "nat \<Rightarrow> nat \<Rightarrow> nat" where
  "filter_bytes bits_per_key n =
    (let bits = n * bits_per_key;
         bits = (if bits < 64 then 64 else bits)
     in (bits + 7) div 8)"

definition create_filter :: "nat \<Rightarrow> slice list \<Rightarrow> slice \<Rightarrow> slice" where
  "create_filter bits_per_key keys dst =
    (let bytes = filter_bytes bits_per_key (length keys);
         bits = bytes * 8;
         array = fold (add_key (probes bits_per_key) bits) keys (replicate bytes 0)
     in dst @ array @ [word_of_nat (probes bits_per_key)])"

fun match_probes :: "nat \<Rightarrow> nat \<Rightarrow> u32 \<Rightarrow> u32 \<Rightarrow> u8 list \<Rightarrow> bool" where
  "match_probes 0 bits delta h array = True"
| "match_probes (Suc k) bits delta h array =
    (let bitpos = unat h mod bits in
     if array ! (bitpos div 8) AND push_bit (bitpos mod 8) 1 = 0 then False
     else match_probes k bits delta (h + delta) array)"

definition key_may_match :: "slice \<Rightarrow> slice \<Rightarrow> bool" where
  "key_may_match key bloom_filter =
    (let len = length bloom_filter in
     if len < 2 then False
     else let bits = (len - 1) * 8;
              k = unat (scast (bloom_filter ! (len - 1)) :: u64)
          in if 30 < k then True
             else let h = bloom_hash key in match_probes k bits (bloom_delta h) h bloom_filter)"

section \<open>No false negatives\<close>

text \<open>\<open>covers a b\<close>: every bit of \<open>a\<close> is set in \<open>b\<close>.\<close>

definition covers :: "u8 list \<Rightarrow> u8 list \<Rightarrow> bool" where
  "covers a b \<longleftrightarrow> length b = length a \<and> (\<forall>i < length a. \<forall>n. bit (a ! i) n \<longrightarrow> bit (b ! i) n)"

lemma covers_refl [simp]: "covers a a"
  by (simp add: covers_def)

lemma covers_trans [trans]: "covers a b \<Longrightarrow> covers b c \<Longrightarrow> covers a c"
  by (simp add: covers_def)

lemma length_set_filter_bit [simp]: "length (set_filter_bit a p) = length a"
  by (simp add: set_filter_bit_def)

lemma nth_set_filter_bit:
  "i < length a \<Longrightarrow> set_filter_bit a p ! i = (if i = p div 8 then a ! i OR 2 ^ (p mod 8) else a ! i)"
  by (simp add: set_filter_bit_def nth_list_update)

lemma covers_set_filter_bit: "covers a (set_filter_bit a p)"
  by (simp add: covers_def nth_set_filter_bit bit_or_iff)

lemma covers_add_probes: "covers a (add_probes k bits delta h a)"
  by (induction k arbitrary: h a) (auto intro: covers_trans [OF covers_set_filter_bit])

lemma covers_fold_keys: "covers a (fold (add_key k bits) keys a)"
  by (induction keys arbitrary: a) (auto simp: add_key_def Let_def intro: covers_trans covers_add_probes)

lemma bit_test: "(b :: u8) AND 2 ^ j = 0 \<longleftrightarrow> \<not> bit b j"
  by (rule and_exp_eq_0_iff_not_bit)

lemma match_probes_mono:
  assumes "covers a b" "bits = length a * 8" "0 < bits" "match_probes k bits delta h (a @ x)"
  shows "match_probes k bits delta h (b @ y)"
  using assms(4)
proof (induction k arbitrary: h)
  case (Suc k)
  let ?p = "unat h mod bits"
  have "?p < bits" using assms(3) by simp
  then have i: "?p div 8 < length a" "?p div 8 < length b" using assms(1,2) by (auto simp: covers_def)
  then show ?case using Suc assms(1) by (auto simp: nth_append bit_test covers_def Let_def split: if_splits)
qed simp

lemma match_add_probes:
  assumes "bits = length a * 8" "0 < bits"
  shows "match_probes k bits delta h (add_probes k bits delta h a @ x)"
  using assms(1)
proof (induction k arbitrary: h a)
  case (Suc k)
  let ?p = "unat h mod bits" and ?a = "set_filter_bit a (unat h mod bits)"
  let ?b = "add_probes k bits delta (h + delta) ?a"
  have "?p < bits" using assms(2) by simp
  then have "?p div 8 < length a" using Suc.prems by auto
  then have "bit (?a ! (?p div 8)) (?p mod 8)" "?p div 8 < length ?a"
    by (simp_all add: nth_set_filter_bit bit_simps)
  then have "?p div 8 < length ?b" "bit (?b ! (?p div 8)) (?p mod 8)"
    using covers_add_probes [of ?a k bits delta "h + delta"] by (auto simp: covers_def)
  moreover have "match_probes k bits delta (h + delta) (?b @ x)"
    using Suc.IH [of ?a] Suc.prems by simp
  ultimately show ?case by (simp add: Let_def bit_test nth_append)
qed simp

lemma match_fold_keys:
  assumes "key \<in> set keys" "bits = length a * 8" "0 < bits"
  shows "match_probes k bits (bloom_delta (bloom_hash key)) (bloom_hash key) (fold (add_key k bits) keys a @ x)"
  using assms(1,2)
proof (induction keys arbitrary: a)
  case (Cons key' keys)
  let ?a = "add_key k bits key' a"
  have len: "length ?a = length a"
    using covers_fold_keys [of a k bits "[key']"] by (simp add: covers_def)
  show ?case
  proof (cases "key = key'")
    case True
    have "match_probes k bits (bloom_delta (bloom_hash key)) (bloom_hash key) (?a @ x)"
      using match_add_probes [OF Cons.prems(2) assms(3)] True by (simp add: add_key_def Let_def)
    from match_probes_mono [OF covers_fold_keys _ assms(3) this] Cons.prems(2) len
    show ?thesis by simp
  next
    case False
    then have "key \<in> set keys" using Cons.prems(1) by simp
    from Cons.IH [OF this, of ?a] Cons.prems(2) len show ?thesis by simp
  qed
qed simp

lemma probes_bounds: "1 \<le> probes b" "probes b \<le> 30"
  by (simp_all add: probes_def Let_def)

lemma create_filter_matches:
  assumes "key \<in> set keys"
  shows "key_may_match key (drop (length dst) (create_filter bits_per_key keys dst))"
proof -
  define bytes where "bytes = filter_bytes bits_per_key (length keys)"
  define k where "k = probes bits_per_key"
  define array where "array = fold (add_key k (bytes * 8)) keys (replicate bytes 0)"
  have filter: "drop (length dst) (create_filter bits_per_key keys dst) = array @ [word_of_nat k]"
    by (simp add: create_filter_def Let_def flip: bytes_def k_def array_def)
  have bytes: "8 \<le> bytes" by (auto simp: bytes_def filter_bytes_def Let_def)
  have len: "length array = bytes"
    using covers_fold_keys [of "replicate bytes 0" k "bytes * 8" keys] by (simp add: covers_def array_def)
  have k: "unat (scast (word_of_nat k :: u8) :: u64) = k"
  proof -
    have "list_all (\<lambda>k. unat (scast (word_of_nat k :: u8) :: u64) = k) [0..<31]" by code_simp
    moreover have "k < 31" using probes_bounds(2) [of bits_per_key] by (simp add: k_def)
    ultimately show ?thesis by (simp add: list_all_iff)
  qed
  have "match_probes k (bytes * 8) (bloom_delta (bloom_hash key)) (bloom_hash key) (array @ [word_of_nat k])"
    unfolding array_def using match_fold_keys [OF assms, of "bytes * 8" "replicate bytes 0"] bytes by simp
  moreover have "(array @ [word_of_nat k]) ! bytes = word_of_nat k" using len by (simp add: nth_append)
  ultimately show ?thesis
    unfolding filter using bytes len by (simp add: key_may_match_def Let_def k)
qed

end
