(* ===== verification/LdbKey.thy ===== *)
theory LdbKey
  imports LdbCoding "HOL-Library.List_Lexorder"
begin

text \<open>
  Comparators and internal keys (\<^verbatim>\<open>include/leveldb/slice.h\<close>, \<^verbatim>\<open>util/comparator.cc\<close>,
  \<^verbatim>\<open>db/dbformat.h\<close>, \<^verbatim>\<open>db/dbformat.cc\<close>). A comparator is a record of functions, as the virtual
  functions of the class are; the locale \<open>comparator\<close> states what tables and the database rely
  on, the bytewise comparator satisfies it, and so does the comparator of internal keys over
  any comparator that does. Of the result of a comparison only the sign matters.
\<close>

section \<open>Comparison of slices\<close>

fun memcmp :: "u8 list \<Rightarrow> u8 list \<Rightarrow> int" where
  "memcmp (a # as) (b # bs) = (if a < b then - 1 else if b < a then 1 else memcmp as bs)"
| "memcmp _ _ = 0"

definition slice_compare :: "slice \<Rightarrow> slice \<Rightarrow> int" where
  "slice_compare a b =
    (let min_len = min (length a) (length b);
         r = memcmp (take min_len a) (take min_len b)
     in if r = 0 then (if length a < length b then - 1 else if length b < length a then 1 else 0)
        else r)"

record comparator_ops =
  compare :: "slice \<Rightarrow> slice \<Rightarrow> int"
  find_shortest_separator :: "slice \<Rightarrow> slice \<Rightarrow> slice"
  find_short_successor :: "slice \<Rightarrow> slice"

section \<open>The bytewise comparator\<close>

text \<open>The loop over the common prefix.\<close>

function diff_loop :: "slice \<Rightarrow> slice \<Rightarrow> nat \<Rightarrow> nat" where
  "diff_loop start limit diff_index =
    (if diff_index < min (length start) (length limit) \<and> start ! diff_index = limit ! diff_index
     then diff_loop start limit (diff_index + 1) else diff_index)"
  by auto
termination by (relation "measure (\<lambda>(start, limit, i). length start - i)") auto

declare diff_loop.simps [simp del]

definition bytewise_separator :: "slice \<Rightarrow> slice \<Rightarrow> slice" where
  "bytewise_separator start limit =
    (let min_length = min (length start) (length limit);
         diff_index = diff_loop start limit 0
     in if min_length \<le> diff_index then start
        else let diff_byte = start ! diff_index
             in if diff_byte < 0xff \<and> unat diff_byte + 1 < unat (limit ! diff_index)
                then take (diff_index + 1) (start[diff_index := diff_byte + 1])
                else start)"

text \<open>The loop of \<^verbatim>\<open>FindShortSuccessor\<close> on the bytes of the key from index \<open>i\<close> on.\<close>

function successor_loop :: "slice \<Rightarrow> nat \<Rightarrow> slice" where
  "successor_loop key i =
    (if i < length key
     then let byte = key ! i
          in if byte \<noteq> 0xff then take (i + 1) (key[i := byte + 1]) else successor_loop key (i + 1)
     else key)"
  by auto
termination by (relation "measure (\<lambda>(key, i). length key - i)") auto

declare successor_loop.simps [simp del]

definition bytewise_successor :: "slice \<Rightarrow> slice" where
  "bytewise_successor key = successor_loop key 0"

definition bytewise_comparator :: comparator_ops where
  "bytewise_comparator = \<lparr>compare = slice_compare, find_shortest_separator = bytewise_separator,
     find_short_successor = bytewise_successor\<rparr>"

section \<open>Internal keys\<close>

datatype value_type = kTypeDeletion | kTypeValue

fun value_code :: "value_type \<Rightarrow> u64" where
  "value_code kTypeDeletion = 0"
| "value_code kTypeValue = 1"

definition kValueTypeForSeek :: value_type where "kValueTypeForSeek = kTypeValue"

definition kMaxSequenceNumber :: u64 where [layout]: "kMaxSequenceNumber = push_bit 56 1 - 1"

record parsed_key =
  user_key :: slice
  seq :: u64
  key_type :: value_type

definition pack_sequence_and_type :: "u64 \<Rightarrow> value_type \<Rightarrow> u64" where
  "pack_sequence_and_type s t = push_bit 8 s OR value_code t"

definition append_internal_key :: "slice \<Rightarrow> parsed_key \<Rightarrow> slice" where
  "append_internal_key result key =
    put_fixed64 (result @ user_key key) (pack_sequence_and_type (seq key) (key_type key))"

definition extract_user_key :: "slice \<Rightarrow> slice" where
  "extract_user_key internal_key = take (length internal_key - 8) internal_key"

text \<open>The tag of an internal key: its last eight bytes.\<close>

definition key_tag :: "slice \<Rightarrow> u64" where
  "key_tag key = decode_fixed64 (drop (length key - 8) key)"

definition parse_internal_key :: "slice \<Rightarrow> parsed_key option" where
  "parse_internal_key internal_key =
    (let n = length internal_key in
     if n < 8 then None
     else let num = key_tag internal_key;
              c = num AND 0xff
          in if c = value_code kTypeDeletion
             then Some \<lparr>user_key = take (n - 8) internal_key, seq = drop_bit 8 num, key_type = kTypeDeletion\<rparr>
             else if c = value_code kTypeValue
             then Some \<lparr>user_key = take (n - 8) internal_key, seq = drop_bit 8 num, key_type = kTypeValue\<rparr>
             else None)"

section \<open>The comparator of internal keys\<close>

definition internal_compare :: "comparator_ops \<Rightarrow> slice \<Rightarrow> slice \<Rightarrow> int" where
  "internal_compare user akey bkey =
    (let r = compare user (extract_user_key akey) (extract_user_key bkey) in
     if r = 0
     then let anum = key_tag akey; bnum = key_tag bkey
          in if bnum < anum then - 1 else if anum < bnum then 1 else r
     else r)"

definition seek_tag :: "slice \<Rightarrow> slice" where
  "seek_tag tmp = put_fixed64 tmp (pack_sequence_and_type kMaxSequenceNumber kValueTypeForSeek)"

definition internal_separator :: "comparator_ops \<Rightarrow> slice \<Rightarrow> slice \<Rightarrow> slice" where
  "internal_separator user start limit =
    (let user_start = extract_user_key start;
         user_limit = extract_user_key limit;
         tmp = find_shortest_separator user user_start user_limit
     in if length tmp < length user_start \<and> compare user user_start tmp < 0 then seek_tag tmp else start)"

definition internal_successor :: "comparator_ops \<Rightarrow> slice \<Rightarrow> slice" where
  "internal_successor user key =
    (let k = extract_user_key key;
         tmp = find_short_successor user k
     in if length tmp < length k \<and> compare user k tmp < 0 then seek_tag tmp else key)"

definition internal_comparator :: "comparator_ops \<Rightarrow> comparator_ops" where
  "internal_comparator user = \<lparr>compare = internal_compare user,
     find_shortest_separator = internal_separator user, find_short_successor = internal_successor user\<rparr>"

section \<open>Lookup keys\<close>

record lookup_key =
  lookup_space :: slice
  lookup_kstart :: nat

definition new_lookup_key :: "slice \<Rightarrow> u64 \<Rightarrow> lookup_key" where
  "new_lookup_key key s =
    (let head = encode_varint32 (word_of_nat (length key + 8))
     in \<lparr>lookup_space = head @ key @ encode_fixed64 (pack_sequence_and_type s kValueTypeForSeek),
         lookup_kstart = length head\<rparr>)"

definition memtable_key :: "lookup_key \<Rightarrow> slice" where
  "memtable_key k = lookup_space k"

definition lookup_internal_key :: "lookup_key \<Rightarrow> slice" where
  "lookup_internal_key k = drop (lookup_kstart k) (lookup_space k)"

definition lookup_user_key :: "lookup_key \<Rightarrow> slice" where
  "lookup_user_key k =
    (let s = lookup_space k in take (length s - lookup_kstart k - 8) (drop (lookup_kstart k) s))"

section \<open>What a comparator promises\<close>

text \<open>
  The order of keys, all that a sorted structure needs, and then the keys an index block
  shortens. \<open>valid\<close> singles out the keys the comparison is used on.
\<close>

locale key_order =
  fixes cmp :: "'k \<Rightarrow> 'k \<Rightarrow> int" and valid :: "'k \<Rightarrow> bool"
  assumes compare_refl: "valid a \<Longrightarrow> cmp a a = 0"
    and compare_flip: "valid a \<Longrightarrow> valid b \<Longrightarrow> 0 < cmp b a \<longleftrightarrow> cmp a b < 0"
    and compare_trans: "valid a \<Longrightarrow> valid b \<Longrightarrow> valid c \<Longrightarrow>
      cmp a b \<le> 0 \<Longrightarrow> cmp b c \<le> 0 \<Longrightarrow> cmp a c \<le> 0"
begin

lemma compare_less_trans:
  assumes "valid a" "valid b" "valid c" "cmp a b \<le> 0" "cmp b c < 0"
  shows "cmp a c < 0"
proof (rule ccontr)
  assume "\<not> cmp a c < 0"
  then have "cmp c a \<le> 0" using compare_flip [of c a] compare_flip [of a c] assms(1,3) by linarith
  then have "cmp c b \<le> 0" using compare_trans [of c a b] assms by blast
  then show False using compare_flip [of b c] assms by simp
qed

lemma compare_trans_less:
  assumes "valid a" "valid b" "valid c" "cmp a b < 0" "cmp b c \<le> 0"
  shows "cmp a c < 0"
proof (rule ccontr)
  assume "\<not> cmp a c < 0"
  then have "cmp c a \<le> 0" using compare_flip [of c a] compare_flip [of a c] assms(1,3) by linarith
  then have "cmp b a \<le> 0" using compare_trans [of b c a] assms by blast
  then show False using compare_flip [of a b] assms by simp
qed

lemma compare_zero_flip: "valid a \<Longrightarrow> valid b \<Longrightarrow> cmp a b = 0 \<longleftrightarrow> cmp b a = 0"
  using compare_flip [of a b] compare_flip [of b a] by linarith

end

locale comparator = key_order "compare ops" valid
  for ops :: comparator_ops and valid :: "slice \<Rightarrow> bool" +
  assumes separator_law: "valid a \<Longrightarrow> valid b \<Longrightarrow> compare ops a b < 0 \<Longrightarrow>
      valid (find_shortest_separator ops a b) \<and>
      compare ops a (find_shortest_separator ops a b) \<le> 0 \<and>
      compare ops (find_shortest_separator ops a b) b < 0"
    and separator_same: "valid a \<Longrightarrow> valid b \<Longrightarrow> compare ops a b = 0 \<Longrightarrow> find_shortest_separator ops a b = a"
    and successor_law: "valid a \<Longrightarrow> valid (find_short_successor ops a) \<and>
      compare ops a (find_short_successor ops a) \<le> 0"

section \<open>The bytewise comparator keeps the promises\<close>

lemma slice_compare_simps:
  "slice_compare [] [] = 0" "slice_compare [] (b # bs) = - 1" "slice_compare (a # as) [] = 1"
  "slice_compare (a # as) (b # bs) = (if a < b then - 1 else if b < a then 1 else slice_compare as bs)"
  by (simp_all add: slice_compare_def Let_def)

lemma slice_compare_less: "slice_compare a b = (if a < b then - 1 else if b < a then 1 else 0)"
proof (induction a arbitrary: b)
  case Nil
  then show ?case by (cases b) (simp_all add: slice_compare_simps)
next
  case (Cons x a)
  then show ?case by (cases b) (auto simp: slice_compare_simps)
qed

lemma slice_compare_sign [simp]:
  "slice_compare a b < 0 \<longleftrightarrow> a < b" "slice_compare a b = 0 \<longleftrightarrow> a = b" "slice_compare a b \<le> 0 \<longleftrightarrow> a \<le> b"
  "0 < slice_compare a b \<longleftrightarrow> b < a"
  by (auto simp: slice_compare_less not_less)

text \<open>Two lists that agree up to a first difference.\<close>

lemma less_at:
  "n < length a \<Longrightarrow> n < length b \<Longrightarrow> take n a = take n b \<Longrightarrow> a ! n < b ! n \<Longrightarrow> a < (b :: slice)"
proof (induction n arbitrary: a b)
  case 0
  then show ?case by (cases a; cases b) auto
next
  case (Suc n)
  then show ?case by (cases a; cases b) auto
qed

lemma diff_loop_split:
  "i \<le> diff_loop start limit i \<and>
   (\<forall>k. i \<le> k \<longrightarrow> k < diff_loop start limit i \<longrightarrow> start ! k = limit ! k \<and> k < min (length start) (length limit)) \<and>
   (diff_loop start limit i < min (length start) (length limit) \<longrightarrow>
     start ! diff_loop start limit i \<noteq> limit ! diff_loop start limit i)"
proof (induction start limit i rule: diff_loop.induct)
  case (1 start limit i)
  show ?case
  proof (cases "i < min (length start) (length limit) \<and> start ! i = limit ! i")
    case True
    then have step: "diff_loop start limit i = diff_loop start limit (i + 1)"
      by (subst diff_loop.simps) simp
    show ?thesis unfolding step using "1.IH" [OF True] True
      by (metis Suc_eq_plus1 Suc_leD le_antisym not_less_eq_eq)
  next
    case False
    then have "diff_loop start limit i = i" by (subst diff_loop.simps) (simp only: if_False)
    then show ?thesis using False by auto
  qed
qed

lemma bytewise_separator_ok:
  assumes "start < limit"
  shows "start \<le> bytewise_separator start limit \<and> bytewise_separator start limit < limit"
proof -
  define n where "n = diff_loop start limit 0"
  note split = diff_loop_split [of 0 start limit, folded n_def]
  show ?thesis
  proof (cases "n < min (length start) (length limit) \<and> start ! n < 0xff \<and> unat (start ! n) + 1 < unat (limit ! n)")
    case False
    then have "bytewise_separator start limit = start"
      by (auto simp: bytewise_separator_def Let_def simp flip: n_def)
    with assms show ?thesis by simp
  next
    case True
    let ?r = "take (n + 1) (start[n := start ! n + 1])"
    have len: "n < length start" "n < length limit" using True by auto
    have r: "bytewise_separator start limit = ?r"
      using True by (auto simp: bytewise_separator_def Let_def simp flip: n_def)
    have "take n start = take n limit"
      using split True by (intro nth_equalityI) auto
    moreover have "take n ?r = take n start" "?r ! n = start ! n + 1" "n < length ?r"
      using len by simp_all
    moreover have "unat (start ! n + 1) = unat (start ! n) + 1"
    proof -
      have "Suc (unat (start ! n)) < 256"
        using True unat_u8_less [of "limit ! n"] by (intro less_trans [OF _ unat_u8_less]) auto
      then show ?thesis by (simp add: unat_word_ariths)
    qed
    ultimately have "start < ?r" "?r < limit"
      using True len by (auto intro!: less_at [of n] simp: word_less_nat_alt)
    then show ?thesis unfolding r by simp
  qed
qed

lemma bytewise_separator_same: "bytewise_separator a a = a"
  using diff_loop_split [of 0 a a] by (auto simp: bytewise_separator_def Let_def)

lemma byte_less_succ: "b \<noteq> 0xff \<Longrightarrow> b < b + (1 :: u8)"
proof -
  assume "b \<noteq> 0xff"
  then have "unat b \<noteq> 255" by (auto simp: word_unat_eq_iff)
  then have "Suc (unat b) < 256" using unat_u8_less [of b] by linarith
  then show ?thesis by (simp add: word_less_nat_alt unat_word_ariths)
qed

lemma successor_loop_ok: "key \<le> successor_loop key i"
proof (induction key i rule: successor_loop.induct)
  case (1 key i)
  show ?case
  proof (cases "i < length key \<and> key ! i \<noteq> 0xff")
    case True
    let ?r = "take (i + 1) (key[i := key ! i + 1])"
    have r: "successor_loop key i = ?r" using True by (subst successor_loop.simps) simp
    have "key ! i < key ! i + 1"
      using True byte_less_succ by blast
    then have "key < ?r" using True by (intro less_at [of i]) (auto simp: min_def)
    then show ?thesis unfolding r by simp
  next
    case False
    then show ?thesis using "1.IH" by (subst successor_loop.simps) auto
  qed
qed

interpretation bytewise: comparator bytewise_comparator "\<lambda>_. True"
  by unfold_locales
    (auto simp: bytewise_comparator_def bytewise_separator_ok bytewise_separator_same
      bytewise_successor_def successor_loop_ok)

section \<open>The comparator of internal keys keeps them\<close>

lemma seek_tag_parts [simp]:
  "extract_user_key (seek_tag k) = k" "8 \<le> length (seek_tag k)"
  by (simp_all add: seek_tag_def put_fixed64_def extract_user_key_def)

context comparator
begin

definition user_valid :: "slice \<Rightarrow> bool" where
  "user_valid key \<longleftrightarrow> 8 \<le> length key \<and> valid (extract_user_key key)"

definition key_le :: "slice \<Rightarrow> slice \<Rightarrow> bool" where
  "key_le a b \<longleftrightarrow> compare ops (extract_user_key a) (extract_user_key b) < 0 \<or>
     compare ops (extract_user_key a) (extract_user_key b) = 0 \<and> key_tag b \<le> key_tag a"

lemma internal_compare_le: "internal_compare ops a b \<le> 0 \<longleftrightarrow> key_le a b"
  by (auto simp: internal_compare_def key_le_def Let_def)

lemma internal_compare_neg:
  "internal_compare ops a b < 0 \<longleftrightarrow> compare ops (extract_user_key a) (extract_user_key b) < 0 \<or>
     compare ops (extract_user_key a) (extract_user_key b) = 0 \<and> key_tag b < key_tag a"
  by (auto simp: internal_compare_def Let_def)

lemma internal_compare_pos:
  "0 < internal_compare ops a b \<longleftrightarrow> 0 < compare ops (extract_user_key a) (extract_user_key b) \<or>
     compare ops (extract_user_key a) (extract_user_key b) = 0 \<and> key_tag a < key_tag b"
  by (auto simp: internal_compare_def Let_def)

lemma key_le_trans:
  assumes "user_valid a" "user_valid b" "user_valid c" "key_le a b" "key_le b c"
  shows "key_le a c"
proof -
  let ?a = "extract_user_key a" and ?b = "extract_user_key b" and ?c = "extract_user_key c"
  have v: "valid ?a" "valid ?b" "valid ?c" using assms(1,2,3) by (simp_all add: user_valid_def)
  consider "compare ops ?a ?b < 0" | "compare ops ?a ?b = 0" "compare ops ?b ?c < 0"
    | "compare ops ?a ?b = 0" "compare ops ?b ?c = 0"
    using assms(4,5) by (auto simp: key_le_def)
  then show ?thesis
  proof cases
    case 1
    then show ?thesis using compare_trans_less [OF v] assms(5) by (auto simp: key_le_def)
  next
    case 2
    then show ?thesis using compare_less_trans [OF v] by (simp add: key_le_def)
  next
    case 3
    then have "compare ops ?a ?c \<le> 0" using compare_trans [OF v] by simp
    moreover have "compare ops ?c ?a \<le> 0"
      using 3 compare_trans [OF v(3,2,1)] compare_zero_flip [OF v(1,2)] compare_zero_flip [OF v(2,3)] by simp
    ultimately have "compare ops ?a ?c = 0" using compare_flip [OF v(1,3)] by linarith
    then show ?thesis using 3 assms(4,5) by (auto simp: key_le_def)
  qed
qed

lemma key_le_refl: "user_valid a \<Longrightarrow> key_le a a"
  by (simp add: key_le_def user_valid_def compare_refl)

lemma internal_separator_ok:
  assumes "user_valid a" "user_valid b" "internal_compare ops a b < 0"
  shows "user_valid (internal_separator ops a b) \<and> key_le a (internal_separator ops a b) \<and>
    internal_compare ops (internal_separator ops a b) b < 0"
proof -
  let ?a = "extract_user_key a" and ?b = "extract_user_key b"
  define t where "t = find_shortest_separator ops ?a ?b"
  have v: "valid ?a" "valid ?b" using assms(1,2) by (simp_all add: user_valid_def)
  show ?thesis
  proof (cases "length t < length ?a \<and> compare ops ?a t < 0")
    case True
    then have "compare ops ?a ?b \<noteq> 0" using separator_same [OF v] by (auto simp: t_def)
    then have less: "compare ops ?a ?b < 0" using assms(3) by (auto simp: internal_compare_neg)
    have "internal_separator ops a b = seek_tag t" using True by (simp add: internal_separator_def Let_def t_def)
    then show ?thesis using separator_law [OF v less] True
      by (simp add: internal_compare_neg user_valid_def key_le_def flip: t_def)
  next
    case False
    then have "internal_separator ops a b = a" by (auto simp: internal_separator_def Let_def t_def)
    then show ?thesis using assms key_le_refl by simp
  qed
qed

lemma internal_separator_same:
  assumes "user_valid a" "user_valid b" "internal_compare ops a b = 0"
  shows "internal_separator ops a b = a"
proof -
  have "compare ops (extract_user_key a) (extract_user_key b) = 0"
    using assms(3) by (auto simp: internal_compare_def Let_def split: if_splits)
  then show ?thesis
    using separator_same [of "extract_user_key a" "extract_user_key b"] assms(1,2)
    by (simp add: internal_separator_def Let_def user_valid_def)
qed

lemma internal_successor_ok:
  assumes "user_valid a"
  shows "user_valid (internal_successor ops a) \<and> key_le a (internal_successor ops a)"
proof -
  let ?a = "extract_user_key a"
  define t where "t = find_short_successor ops ?a"
  show ?thesis
  proof (cases "length t < length ?a \<and> compare ops ?a t < 0")
    case True
    then have "internal_successor ops a = seek_tag t" by (simp add: internal_successor_def Let_def t_def)
    then show ?thesis using successor_law [of ?a] True assms
      by (simp add: user_valid_def key_le_def flip: t_def)
  next
    case False
    then have "internal_successor ops a = a" by (auto simp: internal_successor_def Let_def t_def)
    then show ?thesis using assms key_le_refl by simp
  qed
qed

lemma internal: "comparator (internal_comparator ops) user_valid"
proof
  fix a b c assume a: "user_valid a"
  then show "compare (internal_comparator ops) a a = 0"
    by (simp add: internal_comparator_def internal_compare_def user_valid_def compare_refl)
  show "user_valid (find_short_successor (internal_comparator ops) a) \<and>
      compare (internal_comparator ops) a (find_short_successor (internal_comparator ops) a) \<le> 0"
    using internal_successor_ok [OF a] by (simp add: internal_comparator_def internal_compare_le)
  assume b: "user_valid b"
  then show "0 < compare (internal_comparator ops) b a \<longleftrightarrow> compare (internal_comparator ops) a b < 0"
    using a compare_flip compare_zero_flip
    by (auto simp: internal_comparator_def internal_compare_neg internal_compare_pos user_valid_def)
  show "compare (internal_comparator ops) a b < 0 \<Longrightarrow>
      user_valid (find_shortest_separator (internal_comparator ops) a b) \<and>
      compare (internal_comparator ops) a (find_shortest_separator (internal_comparator ops) a b) \<le> 0 \<and>
      compare (internal_comparator ops) (find_shortest_separator (internal_comparator ops) a b) b < 0"
    using internal_separator_ok [OF a b] by (simp add: internal_comparator_def internal_compare_le)
  show "compare (internal_comparator ops) a b = 0 \<Longrightarrow> find_shortest_separator (internal_comparator ops) a b = a"
    using internal_separator_same [OF a b] by (simp add: internal_comparator_def)
  assume c: "user_valid c"
  show "compare (internal_comparator ops) a b \<le> 0 \<Longrightarrow> compare (internal_comparator ops) b c \<le> 0 \<Longrightarrow>
      compare (internal_comparator ops) a c \<le> 0"
    using key_le_trans [OF a b c] by (simp add: internal_comparator_def internal_compare_le)
qed

end

text \<open>Internal keys over the bytewise comparator, as the database opens its tables by default.\<close>

interpretation internal_keys: comparator "internal_comparator bytewise_comparator" bytewise.user_valid
  by (rule bytewise.internal)

section \<open>Parsing internal keys\<close>

lemma key_tag_append: "key_tag (k @ encode_fixed64 v) = v"
  using decode_encode_fixed64 [of v "[]"] by (simp add: key_tag_def)

lemma sequence_small:
  assumes "s \<le> kMaxSequenceNumber"
  shows "unat s < 2 ^ 56" "bit s n \<Longrightarrow> n < 56"
proof -
  have "unat kMaxSequenceNumber = 2 ^ 56 - 1" by (simp add: kMaxSequenceNumber_def)
  then show small: "unat s < 2 ^ 56" using assms unfolding word_le_nat_alt by simp
  show "n < 56" if "bit s n"
  proof -
    have "take_bit 56 (unat s) = unat s" using small by (rule take_bit_nat_eq_self)
    moreover have "bit (unat s) n" using that by (simp add: bit_unsigned_iff bit_imp_le_length)
    ultimately have "bit (take_bit 56 (unat s)) n" by simp
    then show ?thesis unfolding bit_take_bit_iff by simp
  qed
qed

lemma value_code_bits: "bit (value_code t) n \<longleftrightarrow> n = 0 \<and> t = kTypeValue"
  by (cases t) (auto simp: bit_1_iff)

lemma pack_parts:
  assumes "s \<le> kMaxSequenceNumber"
  shows "pack_sequence_and_type s t AND 0xff = value_code t" "drop_bit 8 (pack_sequence_and_type s t) = s"
proof -
  have m: "(0xff :: u64) = mask 8" by (simp add: mask_eq_exp_minus_1)
  show "pack_sequence_and_type s t AND 0xff = value_code t"
    unfolding pack_sequence_and_type_def m
    by (rule bit_word_eqI) (auto simp: bit_and_iff bit_or_iff bit_push_bit_iff bit_mask_iff value_code_bits)
  show "drop_bit 8 (pack_sequence_and_type s t) = s"
    unfolding pack_sequence_and_type_def
    using sequence_small(2) [OF assms]
    by (intro bit_word_eqI) (auto simp: bit_drop_bit_eq bit_or_iff bit_push_bit_iff value_code_bits)
qed

lemma parse_append:
  assumes "seq key \<le> kMaxSequenceNumber"
  shows "parse_internal_key (append_internal_key [] key) = Some key"
  using pack_parts [OF assms]
  by (cases key; cases "key_type key")
    (simp_all add: parse_internal_key_def append_internal_key_def put_fixed64_def Let_def key_tag_append)

lemma extract_append: "extract_user_key (append_internal_key [] key) = user_key key"
  by (simp add: extract_user_key_def append_internal_key_def put_fixed64_def)

lemma pack_less:
  assumes "s \<le> kMaxSequenceNumber" "s' \<le> kMaxSequenceNumber"
  shows "pack_sequence_and_type s t < pack_sequence_and_type s' t' \<longleftrightarrow>
    s < s' \<or> s = s' \<and> value_code t < value_code t'"
proof -
  have packed: "unat (pack_sequence_and_type s t) = 256 * unat s + unat (value_code t)"
    if "s \<le> kMaxSequenceNumber" for s t
  proof -
    have "push_bit 8 s AND value_code t = 0"
      by (rule bit_word_eqI) (auto simp: bit_and_iff bit_push_bit_iff value_code_bits)
    then have "pack_sequence_and_type s t = push_bit 8 s + value_code t"
      unfolding pack_sequence_and_type_def by (simp add: disjunctive_add_eq_or)
    moreover have "unat (value_code t) \<le> 1" by (cases t) simp_all
    moreover have "unat (push_bit 8 s) = 256 * unat s"
      using sequence_small(1) [OF that] by (simp add: push_bit_eq_mult unat_word_ariths)
    ultimately show ?thesis using sequence_small(1) [OF that] by (simp add: unat_add_lem [THEN iffD1])
  qed
  have "unat (value_code t) \<le> 1" for t by (cases t) simp_all
  from this [of t] this [of t'] show ?thesis
    unfolding word_less_nat_alt packed [OF assms(1)] packed [OF assms(2)]
    by (auto simp: word_unat_eq_iff)
qed

lemma lookup_key_parts:
  "lookup_user_key (new_lookup_key k s) = k"
  "lookup_internal_key (new_lookup_key k s) = append_internal_key [] \<lparr>user_key = k, seq = s, key_type = kValueTypeForSeek\<rparr>"
  by (simp_all add: lookup_user_key_def lookup_internal_key_def new_lookup_key_def Let_def
      append_internal_key_def put_fixed64_def)

lemma key_tag_of: "key_tag (append_internal_key [] k) = pack_sequence_and_type (seq k) (key_type k)"
  by (simp add: append_internal_key_def put_fixed64_def key_tag_append)

text \<open>The order of internal keys over the bytewise comparator, on their parts.\<close>

lemma bytewise_internal_less:
  assumes "seq a \<le> kMaxSequenceNumber" "seq b \<le> kMaxSequenceNumber"
  shows "compare (internal_comparator bytewise_comparator) (append_internal_key [] a) (append_internal_key [] b) < 0 \<longleftrightarrow>
    user_key a < user_key b \<or>
    user_key a = user_key b \<and> (seq b < seq a \<or> seq b = seq a \<and> value_code (key_type b) < value_code (key_type a))"
  by (simp add: internal_comparator_def bytewise.internal_compare_neg extract_append key_tag_of
      pack_less [OF assms(2,1)]) (simp add: bytewise_comparator_def)

end
