(* ===== verification/LdbBatch.thy ===== *)
theory LdbBatch
  imports LdbFile LdbKey
begin

text \<open>
  Write batches (\<^verbatim>\<open>db/write_batch.cc\<close>): the serialised list of updates that is logged and then
  applied to the table in memory. A batch is its string \<^verbatim>\<open>rep_\<close>. The handler of \<^verbatim>\<open>Iterate\<close> is the
  list of the calls made to it.
\<close>

section \<open>Header\<close>

definition kHeader :: nat where  "kHeader = 12"

definition batch_clear :: slice where
  "batch_clear = replicate kHeader 0"

definition batch_count :: "slice \<Rightarrow> u32" where
  "batch_count rep = decode_fixed32 (drop 8 rep)"

definition batch_set_count :: "slice \<Rightarrow> u32 \<Rightarrow> slice" where
  "batch_set_count rep n = take 8 rep @ encode_fixed32 n @ drop 12 rep"

definition batch_sequence :: "slice \<Rightarrow> u64" where
  "batch_sequence rep = decode_fixed64 rep"

definition batch_set_sequence :: "slice \<Rightarrow> u64 \<Rightarrow> slice" where
  "batch_set_sequence rep s = encode_fixed64 s @ drop 8 rep"

section \<open>Updates\<close>

datatype batch_op = batch_op_put slice slice | batch_op_delete slice

definition batch_put :: "slice \<Rightarrow> slice \<Rightarrow> slice \<Rightarrow> slice" where
  "batch_put rep key val =
    (let rep = batch_set_count rep (batch_count rep + 1);
         rep = rep @ [ucast (value_code kTypeValue)];
         rep = put_length_prefixed_slice rep key
     in put_length_prefixed_slice rep val)"

definition batch_delete :: "slice \<Rightarrow> slice \<Rightarrow> slice" where
  "batch_delete rep key =
    (let rep = batch_set_count rep (batch_count rep + 1);
         rep = rep @ [ucast (value_code kTypeDeletion)]
     in put_length_prefixed_slice rep key)"

definition batch_append :: "slice \<Rightarrow> slice \<Rightarrow> slice" where
  "batch_append dst src =
    batch_set_count dst (batch_count dst + batch_count src) @ drop kHeader src"

section \<open>Iteration\<close>

lemma get_length_prefixed_shorter: "length (snd (get_length_prefixed_slice p)) \<le> length p"
  using varint_loop_shorter [of 28 0 0 p]
  by (auto simp: get_length_prefixed_slice_def get_varint32_def get_varint32_ptr_fast
      get_varint32_ptr_fallback_def dest!: less_imp_le split: option.splits prod.splits)

lemma prefixed_rest: "(k, rest) = get_length_prefixed_slice p \<Longrightarrow> length rest \<le> length p"
  using get_length_prefixed_shorter [of p] by (metis snd_conv)

function iterate_loop :: "slice \<Rightarrow> nat \<Rightarrow> batch_op list \<Rightarrow> nat \<times> status \<times> batch_op list" where
  "iterate_loop input found calls =
    (case input of
       [] \<Rightarrow> (found, OK, calls)
     | tag # input \<Rightarrow>
         if tag = ucast (value_code kTypeValue) then
           (let (k, rest) = get_length_prefixed_slice input in
            case k of
              None \<Rightarrow> (found + 1, Corruption ''bad WriteBatch Put'', calls)
            | Some key \<Rightarrow>
                (let (v, rest) = get_length_prefixed_slice rest in
                 case v of
                   None \<Rightarrow> (found + 1, Corruption ''bad WriteBatch Put'', calls)
                 | Some val \<Rightarrow> iterate_loop rest (found + 1) (calls @ [batch_op_put key val])))
         else if tag = ucast (value_code kTypeDeletion) then
           (let (k, rest) = get_length_prefixed_slice input in
            case k of
              None \<Rightarrow> (found + 1, Corruption ''bad WriteBatch Delete'', calls)
            | Some key \<Rightarrow> iterate_loop rest (found + 1) (calls @ [batch_op_delete key]))
         else (found + 1, Corruption ''unknown WriteBatch tag'', calls))"
  by pat_completeness auto
termination
  by (relation "measure (\<lambda>(input, found, calls). length input)") (auto dest!: prefixed_rest)

declare iterate_loop.simps [simp del]

definition batch_iterate :: "slice \<Rightarrow> status \<times> batch_op list" where
  "batch_iterate rep =
    (if length rep < kHeader then (Corruption ''malformed WriteBatch (too small)'', [])
     else let (found, s, calls) = iterate_loop (drop kHeader rep) 0 []
          in if \<not> status_ok s then (s, calls)
             else if word_of_nat found \<noteq> batch_count rep
             then (Corruption ''WriteBatch has wrong count'', calls)
             else (OK, calls))"

text \<open>
  \<^verbatim>\<open>MemTableInserter\<close>: the calls that \<^verbatim>\<open>InsertInto\<close> makes to \<^verbatim>\<open>MemTable::Add\<close>, each a sequence number,
  a type, a key and a value.
\<close>

fun inserter_calls :: "u64 \<Rightarrow> batch_op list \<Rightarrow> (u64 \<times> value_type \<times> slice \<times> slice) list" where
  "inserter_calls s [] = []"
| "inserter_calls s (batch_op_put key val # ops) = (s, kTypeValue, key, val) # inserter_calls (s + 1) ops"
| "inserter_calls s (batch_op_delete key # ops) = (s, kTypeDeletion, key, []) # inserter_calls (s + 1) ops"

definition batch_insert_into :: "slice \<Rightarrow> status \<times> (u64 \<times> value_type \<times> slice \<times> slice) list" where
  "batch_insert_into rep =
    (let (s, calls) = batch_iterate rep in (s, inserter_calls (batch_sequence rep) calls))"

fun batch_apply :: "slice \<Rightarrow> batch_op list \<Rightarrow> slice" where
  "batch_apply rep [] = rep"
| "batch_apply rep (batch_op_put key val # ops) = batch_apply (batch_put rep key val) ops"
| "batch_apply rep (batch_op_delete key # ops) = batch_apply (batch_delete rep key) ops"

section \<open>What a batch holds\<close>

text \<open>
  The batch that holds a list of updates under a sequence number. The operations on batches are
  the operations on that list, and iteration hands the list over.
\<close>

fun encode_op :: "batch_op \<Rightarrow> slice" where
  "encode_op (batch_op_put key val) = ucast (value_code kTypeValue) #
     put_length_prefixed_slice [] key @ put_length_prefixed_slice [] val"
| "encode_op (batch_op_delete key) = ucast (value_code kTypeDeletion) # put_length_prefixed_slice [] key"

fun op_small :: "batch_op \<Rightarrow> bool" where
  "op_small (batch_op_put key val) \<longleftrightarrow> length key < 2 ^ 32 \<and> length val < 2 ^ 32"
| "op_small (batch_op_delete key) \<longleftrightarrow> length key < 2 ^ 32"

definition batch_of :: "u64 \<Rightarrow> batch_op list \<Rightarrow> slice" where
  "batch_of s ops =
    encode_fixed64 s @ encode_fixed32 (word_of_nat (length ops)) @ concat (map encode_op ops)"

lemma put_prefixed_at_end: "put_length_prefixed_slice dst d = dst @ put_length_prefixed_slice [] d"
  by (simp add: put_length_prefixed_slice_def put_varint32_def)

lemma batch_clear_of: "batch_clear = batch_of 0 []"
  by (simp add: batch_clear_def batch_of_def kHeader_def encode_fixed64_def encode_fixed32_def
      numeral_eq_Suc le_bytes_def)

lemma batch_fields [simp]:
  "batch_count (batch_of s ops) = word_of_nat (length ops)"
  "batch_sequence (batch_of s ops) = s"
  "batch_set_sequence (batch_of s ops) s' = batch_of s' ops"
  "drop kHeader (batch_of s ops) = concat (map encode_op ops)"
  "length (batch_of s ops) < kHeader \<longleftrightarrow> False"
  by (simp_all add: batch_count_def batch_sequence_def batch_set_sequence_def batch_of_def kHeader_def)

lemma batch_set_count_of:
  "batch_set_count (batch_of s ops) n = encode_fixed64 s @ encode_fixed32 n @ concat (map encode_op ops)"
  by (simp add: batch_set_count_def batch_of_def)

lemma batch_extend:
  "length ops' = n \<Longrightarrow> batch_set_count (batch_of s ops) (batch_count (batch_of s ops) + word_of_nat n) @
    concat (map encode_op ops') = batch_of s (ops @ ops')"
  unfolding batch_set_count_of batch_fields by (simp add: batch_of_def)

lemma batch_put_of: "batch_put (batch_of s ops) key val = batch_of s (ops @ [batch_op_put key val])"
  using batch_extend [of "[batch_op_put key val]" 1 s ops]
  by (simp add: batch_put_def Let_def put_prefixed_at_end [of "_ @ _"])

lemma batch_delete_of: "batch_delete (batch_of s ops) key = batch_of s (ops @ [batch_op_delete key])"
  using batch_extend [of "[batch_op_delete key]" 1 s ops]
  by (simp add: batch_delete_def Let_def put_prefixed_at_end [of "_ @ _"])

lemma batch_append_of: "batch_append (batch_of s ops) (batch_of s' ops') = batch_of s (ops @ ops')"
  using batch_extend [of ops' _ s ops] by (simp add: batch_append_def)

lemma batch_apply_of: "batch_apply (batch_of s ops) ops' = batch_of s (ops @ ops')"
  by (induction "batch_of s ops" ops' arbitrary: ops rule: batch_apply.induct)
    (simp_all add: batch_put_of batch_delete_of)

lemma iterate_loop_encode:
  "op_small op \<Longrightarrow> iterate_loop (encode_op op @ rest) found calls = iterate_loop rest (found + 1) (calls @ [op])"
  by (cases op) (subst iterate_loop.simps, simp add: get_length_prefixed_put)+

lemma iterate_loop_encodes:
  "\<forall>op \<in> set ops. op_small op \<Longrightarrow>
    iterate_loop (concat (map encode_op ops)) found calls = (found + length ops, OK, calls @ ops)"
  by (induction ops arbitrary: found calls)
    (simp_all add: iterate_loop.simps [of "[]"] iterate_loop_encode)

lemma batch_iterate_of:
  "\<forall>op \<in> set ops. op_small op \<Longrightarrow> batch_iterate (batch_of s ops) = (OK, ops)"
  using iterate_loop_encodes [of ops 0 "[]"] by (simp add: batch_iterate_def status_ok_def)

text \<open>The calls of the inserter, with their numbers.\<close>

lemma inserter_calls_nth:
  "i < length ops \<Longrightarrow> inserter_calls s ops ! i =
    (case ops ! i of batch_op_put key val \<Rightarrow> (s + word_of_nat i, kTypeValue, key, val)
     | batch_op_delete key \<Rightarrow> (s + word_of_nat i, kTypeDeletion, key, []))"
  by (induction s ops arbitrary: i rule: inserter_calls.induct)
    (auto simp: nth_Cons' less_Suc_eq_0_disj algebra_simps split: batch_op.splits)

lemma length_inserter_calls [simp]: "length (inserter_calls s ops) = length ops"
  by (induction s ops rule: inserter_calls.induct) simp_all

end
