(* ===== verification/LdbProperties.thy ===== *)
theory LdbProperties
  imports LdbLogSpec LdbBloom LdbBatch
begin

text \<open>
  The properties of the leveldb components. The log is stated over the in-memory file of
  \<^verbatim>\<open>helpers/memenv\<close>, the model of the two file contracts.
\<close>

interpretation mem_log:
  log_files mem_writable file_contents file_ok mem_sequential seq_unread seq_ok ..

text \<open>
  Property C28. Every integer and every string that a Put routine appends is what the matching
  Get routine reads back, with the bytes that follow left over; the length of a 64-bit varint
  is the one that \<^verbatim>\<open>VarintLength\<close> predicts.
\<close>

theorem coding_roundtrip:
  assumes "length d < 2 ^ 32"
  shows "get_varint32 (put_varint32 [] v @ rest) = (Some v, rest) \<and>
    get_varint64 (put_varint64 [] w @ rest) = (Some w, rest) \<and>
    length (put_varint64 [] w) = varint_length w \<and>
    decode_fixed32 (put_fixed32 [] v @ rest) = v \<and>
    decode_fixed64 (put_fixed64 [] w @ rest) = w \<and>
    get_length_prefixed_slice (put_length_prefixed_slice [] d @ rest) = (Some d, rest) \<and>
    get_length_prefixed_slice_ptr (put_length_prefixed_slice [] d @ rest) = Some (d, rest)"
  using get_varint32_put get_varint64_put length_encode_varint64 get_length_prefixed_put [OF assms]
    get_length_prefixed_agree
  by (simp add: put_varint32_def put_varint64_def put_fixed32_def put_fixed64_def)

theorem coding_roundtrip_witness:
  "length ([1, 2, 3] :: slice) < 2 ^ 32 \<and>
   get_length_prefixed_slice (put_length_prefixed_slice [] [1, 2, 3] @ [9]) = (Some [1, 2, 3], [9])"
  using coding_roundtrip [of "[1, 2, 3]" _ "[9]"] by simp

text \<open>
  Property C29. \<^verbatim>\<open>Extend\<close>, with its tables, its alignment loop and its interleaved strides, computes
  CRC-32C as defined bit by bit, for every address of the buffer; extending over two pieces is
  extending over their concatenation; and the mask of a stored checksum is undone exactly.
\<close>

theorem checksum_is_crc32c:
  "crc_extend address crc data = crc32c crc data \<and>
   crc_extend address (crc_extend address' crc a) b = crc_extend address'' crc (a @ b) \<and>
   crc_unmask (crc_mask crc) = crc"
  by (simp add: crc_extend_eq crc32c_append unmask_mask)

text \<open>
  Property C30. Records of any number and any length that are added to an empty file are read back
  in order from its start, with or without the verification of checksums, and the reporter of
  the reader is told of no corruption.
\<close>

theorem log_read_back:
  "\<exists>w r. add_records mem_writable ds (new_writer empty_file) = (OK, w) \<and>
     read_records mem_sequential (new_reader (open_sequential (dest w)) (Some []) verify 0) = Some (ds, r) \<and>
     reporter r = Some []"
  by (rule mem_log.log_roundtrip) (simp_all add: open_sequential_ok)

text \<open>
  Property C31. The reader returns on every file, whatever its bytes, the initial offset and the
  options: reading until the end takes finitely many passes, and every record returned has
  cost at least the seven bytes of a header.
\<close>

theorem log_reader_returns:
  "\<exists>ds r. read_records mem_sequential
      (new_reader (open_sequential (snd (file_append empty_file bytes))) rep verify initial) = Some (ds, r) \<and>
    kHeaderSize * length ds \<le> length bytes"
proof -
  let ?f = "snd (file_append empty_file bytes)"
  have "file_ok ?f" "file_contents ?f = bytes"
    using append_loop_ok [of empty_file bytes] by (simp_all add: file_append_def)
  then show ?thesis
    using mem_seq.read_records_returns [of "new_reader (open_sequential ?f) rep verify initial"]
      open_sequential_ok [of ?f]
    by (auto simp: mem_seq.left_def new_reader_def)
qed

section \<open>Keys and batches\<close>

text \<open>
  Property C32. An internal key is parsed back into its parts, and internal keys are in ascending
  order of the user key and, for one user key, in descending order of the sequence number and
  then of the type: the newest entry of a user key comes first.
\<close>

theorem internal_key_order:
  assumes "seq a \<le> kMaxSequenceNumber" "seq b \<le> kMaxSequenceNumber"
  shows "parse_internal_key (append_internal_key [] a) = Some a \<and>
    (compare (internal_comparator bytewise_comparator) (append_internal_key [] a) (append_internal_key [] b) < 0 \<longleftrightarrow>
      user_key a < user_key b \<or>
      user_key a = user_key b \<and> (seq b < seq a \<or>
        seq b = seq a \<and> value_code (key_type b) < value_code (key_type a)))"
  using parse_append [OF assms(1)] bytewise_internal_less [OF assms] by simp

theorem internal_key_order_witness:
  "compare (internal_comparator bytewise_comparator)
    (append_internal_key [] \<lparr>user_key = [1], seq = 7, key_type = kTypeValue\<rparr>)
    (append_internal_key [] \<lparr>user_key = [1], seq = 6, key_type = kTypeValue\<rparr>) < 0"
  using internal_key_order [of "\<lparr>user_key = [1], seq = 7, key_type = kTypeValue\<rparr>"
      "\<lparr>user_key = [1], seq = 6, key_type = kTypeValue\<rparr>"]
  by (simp add: kMaxSequenceNumber_def)

text \<open>
  The keys that the index block of a table is made of: for internal keys \<open>a\<close> before
  \<open>b\<close> the short separator is at least \<open>a\<close> and before \<open>b\<close>, and the short successor is at least
  \<open>a\<close>; both are internal keys again.
\<close>

lemma separators_between:
  assumes "8 \<le> length a" "8 \<le> length b" "compare (internal_comparator bytewise_comparator) a b < 0"
  shows "let icmp = internal_comparator bytewise_comparator;
      between = find_shortest_separator icmp a b; after = find_short_successor icmp a
    in 8 \<le> length between \<and> compare icmp a between \<le> 0 \<and> compare icmp between b < 0 \<and>
      8 \<le> length after \<and> compare icmp a after \<le> 0"
  using internal_keys.separator_law [OF _ _ assms(3)] internal_keys.successor_law [of a] assms(1,2)
  by (simp add: bytewise.user_valid_def)

lemma separators_between_instance:
  "let icmp = internal_comparator bytewise_comparator;
     between = find_shortest_separator icmp ([1, 2] @ replicate 8 0) ([7] @ replicate 8 0)
   in compare icmp ([1, 2] @ replicate 8 0) between \<le> 0"
proof -
  have "compare (internal_comparator bytewise_comparator) ([1, 2] @ replicate 8 0) ([7] @ replicate 8 0) < 0"
    by (simp add: internal_comparator_def internal_compare_def bytewise_comparator_def extract_user_key_def)
  from separators_between [OF _ _ this] show ?thesis by (simp add: Let_def)
qed

text \<open>
  Property C33. A batch refines a list of updates: iterating over a batch that was built by
  \<open>Put\<close> and \<open>Delete\<close>, to which a second one was appended and which was given a sequence number,
  hands over the updates of both in order, and inserting it numbers them from that sequence
  number on.
\<close>

theorem batch_iterates:
  assumes "\<forall>op \<in> set (ops @ ops'). op_small op"
  shows "let rep = batch_set_sequence
        (batch_append (batch_apply batch_clear ops) (batch_apply batch_clear ops')) s
    in batch_iterate rep = (OK, ops @ ops') \<and>
      batch_insert_into rep = (OK, inserter_calls s (ops @ ops')) \<and>
      batch_count rep = word_of_nat (length ops + length ops')"
  using batch_iterate_of [OF assms, of s]
  by (simp add: batch_clear_of batch_apply_of batch_append_of batch_insert_into_def)

theorem batch_iterates_witness:
  "let rep = batch_set_sequence (batch_append (batch_apply batch_clear [batch_op_put [1] [2, 3]])
       (batch_apply batch_clear [batch_op_delete [1]])) 9
   in batch_insert_into rep = (OK, [(9, kTypeValue, [1], [2, 3]), (10, kTypeDeletion, [1], [])])"
  using batch_iterates [of "[batch_op_put [1] [2, 3]]" "[batch_op_delete [1]]" 9] by (simp add: Let_def)

end
