(* ===== verification/LdbSkipList.thy ===== *)
theory LdbSkipList
  imports LdbKey
begin

text \<open>
  The skip list (\<^verbatim>\<open>db/skiplist.h\<close>) and the generator of its heights (\<^verbatim>\<open>util/random.h\<close>). A node is
  named by its place in the order of allocation, the head is node 0, and a null pointer is
  \<open>None\<close>. The searches follow pointers until they find their place, so they are
  \<open>partial_function (option)\<close>; under the invariant they return.
\<close>

section \<open>Random heights\<close>

definition random_M :: u32 where "random_M = 2147483647"

definition new_random :: "u32 \<Rightarrow> u32" where
  "new_random s =
    (let seed = s AND 0x7fffffff in if seed = 0 \<or> seed = 2147483647 then 1 else seed)"

definition random_next :: "u32 \<Rightarrow> u32" where
  "random_next seed =
    (let A = 16807;
         product = ucast seed * A :: u64;
         seed = ucast (drop_bit 31 product + (product AND ucast random_M))
     in if random_M < seed then seed - random_M else seed)"

definition kMaxHeight :: nat where [layout]: "kMaxHeight = 12"

function random_height_loop :: "nat \<Rightarrow> u32 \<Rightarrow> nat \<times> u32" where
  "random_height_loop height rnd =
    (if height < kMaxHeight then
       let rnd = random_next rnd in
       if rnd mod 4 = 0 then random_height_loop (height + 1) rnd else (height, rnd)
     else (height, rnd))"
  by auto
termination by (relation "measure (\<lambda>(height, rnd). kMaxHeight - height)") auto

declare random_height_loop.simps [simp del]

definition random_height :: "u32 \<Rightarrow> nat \<times> u32" where
  "random_height rnd = random_height_loop 1 rnd"

section \<open>Nodes\<close>

record 'k node =
  node_key :: 'k
  node_next :: "nat option list"

record 'k skip_list =
  nodes :: "'k node list"
  max_height :: nat
  random_state :: u32

definition key_of :: "'k skip_list \<Rightarrow> nat \<Rightarrow> 'k" where
  "key_of sl x = node_key (nodes sl ! x)"

definition next_of :: "'k skip_list \<Rightarrow> nat \<Rightarrow> nat \<Rightarrow> nat option" where
  "next_of sl x n = node_next (nodes sl ! x) ! n"

definition set_next :: "'k skip_list \<Rightarrow> nat \<Rightarrow> nat \<Rightarrow> nat option \<Rightarrow> 'k skip_list" where
  "set_next sl x n y =
    sl\<lparr>nodes := (nodes sl)[x := (nodes sl ! x)\<lparr>node_next := (node_next (nodes sl ! x))[n := y]\<rparr>]\<rparr>"

text \<open>The pointers of a fresh node are not initialised; its caller sets them all.\<close>

definition new_node :: "'k skip_list \<Rightarrow> 'k \<Rightarrow> nat \<Rightarrow> nat \<times> 'k skip_list" where
  "new_node sl key height =
    (length (nodes sl), sl\<lparr>nodes := nodes sl @ [\<lparr>node_key = key, node_next = replicate height None\<rparr>]\<rparr>)"

definition new_skip_list :: "'k \<Rightarrow> 'k skip_list" where
  "new_skip_list any_key =
    \<lparr>nodes = [\<lparr>node_key = any_key, node_next = replicate kMaxHeight None\<rparr>],
     max_height = 1, random_state = new_random 0xdeadbeef\<rparr>"

section \<open>Searches\<close>

definition key_is_after_node :: "('k \<Rightarrow> 'k \<Rightarrow> int) \<Rightarrow> 'k skip_list \<Rightarrow> 'k \<Rightarrow> nat option \<Rightarrow> bool" where
  "key_is_after_node cmp sl key n = (case n of None \<Rightarrow> False | Some n \<Rightarrow> cmp (key_of sl n) key < 0)"

partial_function (option) find_greater_loop ::
    "('k \<Rightarrow> 'k \<Rightarrow> int) \<Rightarrow> 'k skip_list \<Rightarrow> 'k \<Rightarrow> nat \<Rightarrow> nat \<Rightarrow> nat list option \<Rightarrow>
     (nat option \<times> nat list option) option" where
  "find_greater_loop cmp sl key x level prev =
    (let nxt = next_of sl x level in
     if key_is_after_node cmp sl key nxt then find_greater_loop cmp sl key (the nxt) level prev
     else let prev = map_option (\<lambda>p. p[level := x]) prev
          in if level = 0 then Some (nxt, prev)
             else find_greater_loop cmp sl key x (level - 1) prev)"

definition find_greater_or_equal ::
    "('k \<Rightarrow> 'k \<Rightarrow> int) \<Rightarrow> 'k skip_list \<Rightarrow> 'k \<Rightarrow> nat list option \<Rightarrow> (nat option \<times> nat list option) option" where
  "find_greater_or_equal cmp sl key prev = find_greater_loop cmp sl key 0 (max_height sl - 1) prev"

partial_function (option) find_less_loop ::
    "('k \<Rightarrow> 'k \<Rightarrow> int) \<Rightarrow> 'k skip_list \<Rightarrow> 'k \<Rightarrow> nat \<Rightarrow> nat \<Rightarrow> nat option" where
  "find_less_loop cmp sl key x level =
    (let nxt = next_of sl x level in
     if nxt = None \<or> cmp (key_of sl (the nxt)) key \<ge> 0
     then if level = 0 then Some x else find_less_loop cmp sl key x (level - 1)
     else find_less_loop cmp sl key (the nxt) level)"

definition find_less_than :: "('k \<Rightarrow> 'k \<Rightarrow> int) \<Rightarrow> 'k skip_list \<Rightarrow> 'k \<Rightarrow> nat option" where
  "find_less_than cmp sl key = find_less_loop cmp sl key 0 (max_height sl - 1)"

partial_function (option) find_last_loop :: "'k skip_list \<Rightarrow> nat \<Rightarrow> nat \<Rightarrow> nat option" where
  "find_last_loop sl x level =
    (case next_of sl x level of
       None \<Rightarrow> if level = 0 then Some x else find_last_loop sl x (level - 1)
     | Some y \<Rightarrow> find_last_loop sl y level)"

definition find_last :: "'k skip_list \<Rightarrow> nat option" where
  "find_last sl = find_last_loop sl 0 (max_height sl - 1)"

section \<open>Insertion\<close>

definition link_level :: "nat \<Rightarrow> nat list \<Rightarrow> nat \<Rightarrow> 'k skip_list \<Rightarrow> 'k skip_list" where
  "link_level x prev i sl =
    (let sl = set_next sl x i (next_of sl (prev ! i) i) in set_next sl (prev ! i) i (Some x))"

definition skip_insert :: "('k \<Rightarrow> 'k \<Rightarrow> int) \<Rightarrow> 'k \<Rightarrow> 'k skip_list \<Rightarrow> 'k skip_list option" where
  "skip_insert cmp key sl =
    (case find_greater_or_equal cmp sl key (Some (replicate kMaxHeight 0)) of
       Some (_, Some prev) \<Rightarrow>
         (let (height, r) = random_height (random_state sl);
              sl = sl\<lparr>random_state := r\<rparr>;
              (prev, sl) =
                (if max_height sl < height
                 then (for_up (max_height sl) height (\<lambda>i p. p[i := 0]) prev, sl\<lparr>max_height := height\<rparr>)
                 else (prev, sl));
              (x, sl) = new_node sl key height
          in Some (for_up 0 height (link_level x prev) sl))
     | _ \<Rightarrow> None)"

fun skip_insert_all :: "('k \<Rightarrow> 'k \<Rightarrow> int) \<Rightarrow> 'k list \<Rightarrow> 'k skip_list \<Rightarrow> 'k skip_list option" where
  "skip_insert_all cmp [] sl = Some sl"
| "skip_insert_all cmp (k # ks) sl = Option.bind (skip_insert cmp k sl) (skip_insert_all cmp ks)"

definition skip_contains :: "('k \<Rightarrow> 'k \<Rightarrow> int) \<Rightarrow> 'k skip_list \<Rightarrow> 'k \<Rightarrow> bool option" where
  "skip_contains cmp sl key =
    (case find_greater_or_equal cmp sl key None of
       None \<Rightarrow> None
     | Some (x, _) \<Rightarrow> Some (case x of None \<Rightarrow> False | Some x \<Rightarrow> cmp key (key_of sl x) = 0))"

section \<open>The iterator\<close>

text \<open>Its state is the node it is on; it is valid unless that is the null pointer.\<close>

definition iter_next :: "'k skip_list \<Rightarrow> nat \<Rightarrow> nat option" where
  "iter_next sl x = next_of sl x 0"

definition iter_prev :: "('k \<Rightarrow> 'k \<Rightarrow> int) \<Rightarrow> 'k skip_list \<Rightarrow> nat \<Rightarrow> nat option option" where
  "iter_prev cmp sl x =
    (case find_less_than cmp sl (key_of sl x) of
       None \<Rightarrow> None
     | Some y \<Rightarrow> Some (if y = 0 then None else Some y))"

definition iter_seek :: "('k \<Rightarrow> 'k \<Rightarrow> int) \<Rightarrow> 'k skip_list \<Rightarrow> 'k \<Rightarrow> nat option option" where
  "iter_seek cmp sl target = map_option fst (find_greater_or_equal cmp sl target None)"

definition iter_seek_to_first :: "'k skip_list \<Rightarrow> nat option" where
  "iter_seek_to_first sl = next_of sl 0 0"

definition iter_seek_to_last :: "'k skip_list \<Rightarrow> nat option option" where
  "iter_seek_to_last sl =
    (case find_last sl of None \<Rightarrow> None | Some y \<Rightarrow> Some (if y = 0 then None else Some y))"

end
