(* ===== verification/LdbSkipListSpec.thy ===== *)
theory LdbSkipListSpec
  imports LdbSkipList "HOL-Library.Multiset"
begin

text \<open>
  The skip list keeps sorted lists: every level is a chain of nodes in ascending order of their
  keys, every node of a level is on the levels below, and the searches find their place on level
  0. The invariant holds after each pointer that an insertion sets, so a search that runs
  between two of them finds its place as well.
\<close>

section \<open>Stores and loads\<close>

definition height_of :: "'k skip_list \<Rightarrow> nat \<Rightarrow> nat" where
  "height_of sl x = length (node_next (nodes sl ! x))"

lemma nth_update_if: "xs[i := y] ! j = (if i = j \<and> j < length xs then y else xs ! j)"
  by (cases "i < length xs") (auto simp: nth_list_update list_update_beyond)

lemma set_next_fields [simp]:
  "length (nodes (set_next sl x n y)) = length (nodes sl)"
  "max_height (set_next sl x n y) = max_height sl"
  "random_state (set_next sl x n y) = random_state sl"
  "key_of (set_next sl x n y) k = key_of sl k"
  "height_of (set_next sl x n y) k = height_of sl k"
  by (simp_all add: set_next_def key_of_def height_of_def nth_update_if)

lemma next_of_set_next:
  "x < length (nodes sl) \<Longrightarrow> n < height_of sl x \<Longrightarrow>
    next_of (set_next sl x n y) k m = (if k = x \<and> m = n then y else next_of sl k m)"
  by (auto simp: set_next_def next_of_def height_of_def nth_update_if)

lemma next_of_set_next_other [simp]: "k \<noteq> x \<or> m \<noteq> n \<Longrightarrow> next_of (set_next sl x n y) k m = next_of sl k m"
  by (auto simp: set_next_def next_of_def nth_update_if)

lemma node_of_update [simp]:
  "key_of (sl\<lparr>max_height := h\<rparr>) k = key_of sl k" "key_of (sl\<lparr>random_state := r\<rparr>) k = key_of sl k"
  "next_of (sl\<lparr>max_height := h\<rparr>) k i = next_of sl k i" "next_of (sl\<lparr>random_state := r\<rparr>) k i = next_of sl k i"
  "height_of (sl\<lparr>max_height := h\<rparr>) k = height_of sl k" "height_of (sl\<lparr>random_state := r\<rparr>) k = height_of sl k"
  by (simp_all add: key_of_def next_of_def height_of_def)

section \<open>Chains\<close>

text \<open>Node \<open>x\<close> and the nodes \<open>ys\<close> form the end of the chain of a level.\<close>

fun linked :: "'k skip_list \<Rightarrow> nat \<Rightarrow> nat \<Rightarrow> nat list \<Rightarrow> bool" where
  "linked sl i x [] \<longleftrightarrow> i < height_of sl x \<and> next_of sl x i = None"
| "linked sl i x (y # ys) \<longleftrightarrow> i < height_of sl x \<and> next_of sl x i = Some y \<and> linked sl i y ys"

lemma linked_cong:
  "(\<And>n. n \<in> set (x # ys) \<Longrightarrow> next_of sl' n i = next_of sl n i \<and> height_of sl' n = height_of sl n) \<Longrightarrow>
    linked sl' i x ys = linked sl i x ys"
  by (induction ys arbitrary: x) auto

lemma linked_suffix: "linked sl i x (us @ ys) \<Longrightarrow> linked sl i (last (x # us)) ys"
  by (induction us arbitrary: x) auto

lemma linked_first:
  "linked sl i x ys \<Longrightarrow> i < height_of sl x \<and> next_of sl x i = (case ys of [] \<Rightarrow> None | y # _ \<Rightarrow> Some y)"
  by (cases ys) auto

lemma linked_insert:
  assumes "linked sl i a (us @ ws)" "x \<notin> set (a # us @ ws)" "distinct (a # us @ ws)"
    "x < length (nodes sl)" "i < height_of sl x" "\<forall>n \<in> set (a # us). n < length (nodes sl)"
  shows "linked (set_next (set_next sl x i (next_of sl (last (a # us)) i)) (last (a # us)) i (Some x)) i a (us @ x # ws)"
  using assms
proof (induction us arbitrary: a)
  case Nil
  let ?sl = "set_next (set_next sl x i (next_of sl a i)) a i (Some x)"
  have chain: "linked sl i a ws" and a: "a < length (nodes sl)" "i < height_of sl a" "a \<noteq> x"
    using Nil.prems linked_first [of sl i a ws] by auto
  have ptr: "next_of ?sl k i = (if k = a then Some x else if k = x then next_of sl a i else next_of sl k i)" for k
    using a Nil.prems(4,5) by (simp add: next_of_set_next)
  have far: "linked ?sl i w ws' = linked sl i w ws'" if "ws = w # ws'" for w ws'
    using Nil.prems(2,3) that by (intro linked_cong) (auto simp: ptr)
  show ?case
  proof (cases ws)
    case Nil
    with chain a ptr \<open>i < height_of sl x\<close> show ?thesis by simp
  next
    case (Cons w ws')
    with chain a ptr far \<open>i < height_of sl x\<close> show ?thesis by simp
  qed
next
  case (Cons u us)
  have "a \<noteq> last (u # us)" using Cons.prems(3) last_in_set [of "u # us"] by auto
  with Cons show ?case by auto
qed

text \<open>The iterator stands on node \<open>p\<close>, where the keys from its own on are \<open>ks\<close>.\<close>

fun stands_at :: "'k skip_list \<Rightarrow> nat option \<Rightarrow> 'k list \<Rightarrow> bool" where
  "stands_at sl p [] \<longleftrightarrow> p = None"
| "stands_at sl p (k # ks) \<longleftrightarrow> (\<exists>x. p = Some x \<and> key_of sl x = k \<and> stands_at sl (iter_next sl x) ks)"

lemma stands_at_linked:
  "linked sl 0 x ys \<Longrightarrow> stands_at sl (next_of sl x 0) (map (key_of sl) ys)"
  by (induction ys arbitrary: x) (auto simp: iter_next_def)

section \<open>Searches along sorted levels\<close>

lemma takeWhile_down_closed:
  "sorted_wrt R ys \<Longrightarrow> (\<And>x y. x \<in> set ys \<Longrightarrow> y \<in> set ys \<Longrightarrow> R x y \<Longrightarrow> P y \<Longrightarrow> P x) \<Longrightarrow>
    n \<in> set ys \<Longrightarrow> n \<in> set (takeWhile P ys) \<longleftrightarrow> P n"
  by (induction ys) auto

text \<open>
  A search is a function of the node, the level and what it has noted so far. If it goes on
  along the level as long as \<open>P\<close> holds of the next node and then descends, it ends at the last
  node of level 0 for which \<open>P\<close> holds, and has noted the last such node of every level.
\<close>

lemma descent:
  assumes step: "\<And>x i s. f x i s = (case next_of sl x i of
      Some y \<Rightarrow> if P y then f y i s else if i = 0 then g x (upd i x s) else f x (i - 1) (upd i x s)
    | None \<Rightarrow> if i = 0 then g x (upd i x s) else f x (i - 1) (upd i x s))"
    and chains: "\<And>i. i \<le> hi \<Longrightarrow> linked sl i 0 (chain ! i)"
    and nested: "\<And>i. i < hi \<Longrightarrow> set (chain ! Suc i) \<subseteq> set (chain ! i)"
    and closed: "\<And>i n. i \<le> hi \<Longrightarrow> n \<in> set (chain ! i) \<Longrightarrow> P n \<Longrightarrow> n \<in> set (takeWhile P (chain ! i))"
  shows "i \<le> hi \<Longrightarrow> x \<in> set (0 # takeWhile P (chain ! i)) \<Longrightarrow>
    f x i s = g (last (0 # takeWhile P (chain ! 0)))
      (for_down 0 (Suc i) (\<lambda>j. upd j (last (0 # takeWhile P (chain ! j)))) s)"
proof (induction i arbitrary: x s)
  have walk: "linked sl i x (vs @ ws) \<Longrightarrow> \<forall>n \<in> set vs. P n \<Longrightarrow> f x i s = f (last (x # vs)) i s" for i x vs ws s
    by (induction vs arbitrary: x) (auto simp: step [of x i s for x])
  have down: "f x i s = (if i = 0 then g y (upd i y s) else f y (i - 1) (upd i y s))"
    if i: "i \<le> hi" and x_in: "x \<in> set (0 # takeWhile P (chain ! i))" and y_def: "y = last (0 # takeWhile P (chain ! i))" for i x y s
  proof -
    let ?A = "dropWhile P (chain ! i)"
    obtain us vs where split: "0 # takeWhile P (chain ! i) = us @ x # vs" using x_in by (meson split_list)
    have x: "linked sl i x (vs @ ?A)"
    proof (cases us)
      case Nil
      with split chains [OF i] takeWhile_dropWhile_id [of P "chain ! i"] show ?thesis by simp
    next
      case (Cons u us')
      then have "chain ! i = (us' @ [x]) @ vs @ ?A"
        using split takeWhile_dropWhile_id [of P "chain ! i"] by simp
      with chains [OF i] linked_suffix [of sl i 0 "us' @ [x]" "vs @ ?A"] show ?thesis by simp
    qed
    have "\<forall>n \<in> set vs. P n"
    proof
      fix n assume n: "n \<in> set vs"
      from split have "takeWhile P (chain ! i) = tl (us @ x # vs)" by (metis list.sel(3))
      with n have "n \<in> set (takeWhile P (chain ! i))" by (cases us) auto
      then show "P n" by (rule set_takeWhileD [THEN conjunct2])
    qed
    moreover have y: "y = last (x # vs)" using split y_def by simp
    ultimately have "f x i s = f y i s" using walk [OF x] by simp
    moreover have "next_of sl y i = (case ?A of [] \<Rightarrow> None | a # _ \<Rightarrow> Some a)"
      using linked_first linked_suffix [OF x] unfolding y by blast
    moreover have "\<not> P a" if "?A = a # as" for a as using that hd_dropWhile [of P "chain ! i"] by simp
    ultimately show ?thesis using step [of y i s] by (cases ?A) simp_all
  qed
  {
    case 0
    then show ?case using down [of 0 x _ s] by (simp add: for_down_def)
  next
    case (Suc i)
    let ?y = "last (0 # takeWhile P (chain ! Suc i))"
    have "?y \<in> set (0 # takeWhile P (chain ! i))"
    proof (cases "takeWhile P (chain ! Suc i) = []")
      case False
      then have y: "?y \<in> set (takeWhile P (chain ! Suc i))" by simp
      then have "?y \<in> set (chain ! Suc i)" "P ?y" by (blast dest: set_takeWhileD)+
      then have "?y \<in> set (chain ! i)" using nested [of i] Suc.prems(1) by auto
      then show ?thesis using closed [of i ?y] \<open>P ?y\<close> Suc.prems(1) by simp
    qed simp
    from Suc.IH [OF _ this] Suc.prems show ?case
      using down [OF Suc.prems refl] by (simp add: for_down_Suc)
  }
qed

section \<open>The invariant\<close>

context key_order
begin

definition level_ok :: "'k skip_list \<Rightarrow> nat \<Rightarrow> nat list \<Rightarrow> bool" where
  "level_ok sl i ys \<longleftrightarrow> linked sl i 0 ys \<and> (\<forall>n \<in> set ys. 0 < n \<and> n < length (nodes sl) \<and> valid (key_of sl n)) \<and>
     sorted_wrt (\<lambda>a b. cmp (key_of sl a) (key_of sl b) < 0) ys"

definition skip_ok :: "'k skip_list \<Rightarrow> nat list list \<Rightarrow> bool" where
  "skip_ok sl chain \<longleftrightarrow> length chain = kMaxHeight \<and> 0 < max_height sl \<and> max_height sl \<le> kMaxHeight \<and>
     nodes sl \<noteq> [] \<and> (\<forall>i < kMaxHeight. level_ok sl i (chain ! i)) \<and>
     (\<forall>i. Suc i < kMaxHeight \<longrightarrow> set (chain ! Suc i) \<subseteq> set (chain ! i)) \<and>
     (\<forall>i < kMaxHeight. max_height sl \<le> i \<longrightarrow> chain ! i = [])"

definition before :: "'k skip_list \<Rightarrow> 'k \<Rightarrow> nat list \<Rightarrow> nat list" where
  "before sl key ys = takeWhile (\<lambda>n. cmp (key_of sl n) key < 0) ys"

definition from_key :: "'k skip_list \<Rightarrow> 'k \<Rightarrow> nat list \<Rightarrow> nat list" where
  "from_key sl key ys = dropWhile (\<lambda>n. cmp (key_of sl n) key < 0) ys"

lemma before_from: "before sl key ys @ from_key sl key ys = ys"
  by (simp add: before_def from_key_def)

lemma level_split:
  assumes "level_ok sl i ys" "valid key"
  shows "n \<in> set ys \<Longrightarrow> n \<in> set (before sl key ys) \<longleftrightarrow> cmp (key_of sl n) key < 0"
    and "n \<in> set (from_key sl key ys) \<Longrightarrow> 0 \<le> cmp (key_of sl n) key"
proof -
  have sorted: "sorted_wrt (\<lambda>a b. cmp (key_of sl a) (key_of sl b) < 0) ys"
    and v: "\<forall>n \<in> set ys. valid (key_of sl n)" using assms(1) by (simp_all add: level_ok_def)
  have less: "cmp (key_of sl a) key < 0"
    if "a \<in> set ys" "b \<in> set ys" "cmp (key_of sl a) (key_of sl b) < 0" "cmp (key_of sl b) key < 0" for a b
    using that v assms(2) compare_less_trans [of "key_of sl a" "key_of sl b" key] by simp
  from takeWhile_down_closed [OF sorted, of "\<lambda>n. cmp (key_of sl n) key < 0"] less
  show part: "n \<in> set ys \<Longrightarrow> n \<in> set (before sl key ys) \<longleftrightarrow> cmp (key_of sl n) key < 0" for n
    unfolding before_def by blast
  have "distinct ys"
    using sorted v compare_refl by (induction ys) auto
  then have "set (before sl key ys) \<inter> set (from_key sl key ys) = {}"
    using before_from [of sl key ys] by (metis distinct_append)
  moreover assume "n \<in> set (from_key sl key ys)"
  moreover from this have "n \<in> set ys" using before_from [of sl key ys] by (metis UnCI set_append)
  ultimately show "0 \<le> cmp (key_of sl n) key" using part [of n] by (auto simp: not_less)
qed

lemma level_distinct: "level_ok sl i ys \<Longrightarrow> distinct (0 # ys)"
proof -
  assume l: "level_ok sl i ys"
  then have "sorted_wrt (\<lambda>a b. cmp (key_of sl a) (key_of sl b) < 0) ys" "\<forall>n \<in> set ys. valid (key_of sl n)"
    by (simp_all add: level_ok_def)
  then have "distinct ys" using compare_refl by (induction ys) auto
  with l show ?thesis by (auto simp: level_ok_def)
qed

section \<open>What the searches find\<close>

lemma find_greater_ok:
  assumes "skip_ok sl chain" "valid key" "level < kMaxHeight"
  shows "find_greater_loop cmp sl key 0 level prev =
    Some (case from_key sl key (chain ! 0) of [] \<Rightarrow> None | n # _ \<Rightarrow> Some n,
      for_down 0 (Suc level) (\<lambda>j. map_option (\<lambda>p. p[j := last (0 # before sl key (chain ! j))])) prev)"
proof -
  let ?P = "\<lambda>n. cmp (key_of sl n) key < 0"
  have "find_greater_loop cmp sl key 0 level prev =
    (\<lambda>x prev. Some (next_of sl x 0, prev)) (last (0 # takeWhile ?P (chain ! 0)))
      (for_down 0 (Suc level) (\<lambda>j. map_option (\<lambda>p. p[j := last (0 # takeWhile ?P (chain ! j))])) prev)"
  proof (rule descent [where f = "find_greater_loop cmp sl key" and sl = sl and P = ?P and
        upd = "\<lambda>i x. map_option (\<lambda>p. p[i := x])" and hi = level and chain = chain])
    show "find_greater_loop cmp sl key x i s =
      (case next_of sl x i of
         None \<Rightarrow> if i = 0 then Some (next_of sl x 0, map_option (\<lambda>p. p[i := x]) s)
           else find_greater_loop cmp sl key x (i - 1) (map_option (\<lambda>p. p[i := x]) s)
       | Some y \<Rightarrow> if ?P y then find_greater_loop cmp sl key y i s
           else if i = 0 then Some (next_of sl x 0, map_option (\<lambda>p. p[i := x]) s)
           else find_greater_loop cmp sl key x (i - 1) (map_option (\<lambda>p. p[i := x]) s))" for x i s
      by (subst find_greater_loop.simps) (auto simp: Let_def key_is_after_node_def split: option.splits)
    show "n \<in> set (takeWhile ?P (chain ! i))" if "i \<le> level" "n \<in> set (chain ! i)" "?P n" for i n
      using level_split(1) [of sl i "chain ! i" key n] that assms by (simp add: skip_ok_def before_def)
  qed (use assms in \<open>auto simp: skip_ok_def level_ok_def\<close>)
  moreover have "linked sl 0 0 (before sl key (chain ! 0) @ from_key sl key (chain ! 0))"
    using assms by (simp add: skip_ok_def level_ok_def before_from)
  from linked_first [OF linked_suffix [OF this]]
  have "next_of sl (last (0 # before sl key (chain ! 0))) 0 = (case from_key sl key (chain ! 0) of [] \<Rightarrow> None | n # _ \<Rightarrow> Some n)"
    by blast
  ultimately show ?thesis by (simp add: before_def)
qed

lemma find_less_ok:
  assumes "skip_ok sl chain" "valid key" "level < kMaxHeight"
  shows "find_less_loop cmp sl key 0 level = Some (last (0 # before sl key (chain ! 0)))"
proof -
  let ?P = "\<lambda>n. cmp (key_of sl n) key < 0"
  have "(\<lambda>x i (s :: unit). find_less_loop cmp sl key x i) 0 level () = Some (last (0 # takeWhile ?P (chain ! 0)))"
  proof (rule descent [where sl = sl and P = ?P and g = "\<lambda>x _. Some x" and upd = "\<lambda>_ _ _. ()" and
        hi = level and chain = chain])
    show "find_less_loop cmp sl key x i =
      (case next_of sl x i of
         None \<Rightarrow> if i = 0 then Some x else find_less_loop cmp sl key x (i - 1)
       | Some y \<Rightarrow> if ?P y then find_less_loop cmp sl key y i
           else if i = 0 then Some x else find_less_loop cmp sl key x (i - 1))" for x i
      by (subst find_less_loop.simps) (auto simp: Let_def split: option.splits)
    show "n \<in> set (takeWhile ?P (chain ! i))" if "i \<le> level" "n \<in> set (chain ! i)" "?P n" for i n
      using level_split(1) [of sl i "chain ! i" key n] that assms by (simp add: skip_ok_def before_def)
  qed (use assms in \<open>auto simp: skip_ok_def level_ok_def\<close>)
  then show ?thesis by (simp add: before_def)
qed

lemma find_last_ok:
  assumes "skip_ok sl chain" "level < kMaxHeight"
  shows "find_last_loop sl 0 level = Some (last (0 # chain ! 0))"
proof -
  have all: "takeWhile (\<lambda>_. True) ys = ys" for ys :: "nat list" by (simp add: takeWhile_eq_all_conv)
  have "(\<lambda>x i (s :: unit). find_last_loop sl x i) 0 level () = Some (last (0 # takeWhile (\<lambda>_. True) (chain ! 0)))"
  proof (rule descent [where sl = sl and P = "\<lambda>_. True" and g = "\<lambda>x _. Some x" and
        upd = "\<lambda>_ _ _. ()" and hi = level and chain = chain])
    show "find_last_loop sl x i = (case next_of sl x i of
         None \<Rightarrow> if i = 0 then Some x else find_last_loop sl x (i - 1)
       | Some y \<Rightarrow> if True then find_last_loop sl y i else if i = 0 then Some x else find_last_loop sl x (i - 1))" for x i
      by (subst find_last_loop.simps) (simp split: option.splits)
  qed (use assms in \<open>auto simp: skip_ok_def level_ok_def all\<close>)
  then show ?thesis by (simp add: all)
qed

section \<open>Insertion\<close>

lemma before_cong: "key_of sl' = key_of sl \<Longrightarrow> before sl' key ys = before sl key ys \<and> from_key sl' key ys = from_key sl key ys"
  by (simp add: before_def from_key_def)

lemma link_step:
  assumes ok: "skip_ok sl chain" and i: "i < kMaxHeight" "i < max_height sl" "i < height_of sl x"
    and x: "0 < x" "x < length (nodes sl)" "valid (key_of sl x)" "x \<notin> set (chain ! i)"
    and below: "i = 0 \<or> x \<in> set (chain ! (i - 1))"
    and new: "\<forall>n \<in> set (chain ! i). cmp (key_of sl n) (key_of sl x) \<noteq> 0"
    and prev: "prev ! i = last (0 # before sl (key_of sl x) (chain ! i))"
  shows "skip_ok (link_level x prev i sl)
    (chain[i := before sl (key_of sl x) (chain ! i) @ x # from_key sl (key_of sl x) (chain ! i)])"
proof -
  let ?B = "before sl (key_of sl x) (chain ! i)" and ?A = "from_key sl (key_of sl x) (chain ! i)"
  let ?sl = "link_level x prev i sl"
  have split: "chain ! i = ?B @ ?A" by (rule before_from [symmetric])
  have level: "level_ok sl i (chain ! i)" using ok i(1) by (simp add: skip_ok_def)
  have keys: "key_of ?sl = key_of sl" "length (nodes ?sl) = length (nodes sl)" "max_height ?sl = max_height sl"
    by (simp_all add: link_level_def Let_def fun_eq_iff)
  have here: "level_ok ?sl i (?B @ x # ?A)"
  proof -
    have "distinct (0 # ?B @ ?A)" using level_distinct [OF level] by (simp flip: split)
    moreover have "linked sl i 0 (?B @ ?A)" using level by (simp add: level_ok_def flip: split)
    moreover have "\<forall>n \<in> set (0 # ?B). n < length (nodes sl)"
      using level x(2) by (subst (asm) split) (auto simp: level_ok_def)
    ultimately have "linked ?sl i 0 (?B @ x # ?A)"
      using linked_insert [of sl i 0 ?B ?A x] x i(3) prev split by (simp add: link_level_def Let_def)
    moreover have "0 < cmp (key_of sl n) (key_of sl x)" "cmp (key_of sl x) (key_of sl n) < 0" if "n \<in> set ?A" for n
    proof -
      have "n \<in> set (chain ! i)" using that by (subst split) simp
      then show "0 < cmp (key_of sl n) (key_of sl x)"
        using level_split(2) [OF level x(3) that] new by force
      then show "cmp (key_of sl x) (key_of sl n) < 0"
        using compare_flip [of "key_of sl x" "key_of sl n"] \<open>n \<in> set (chain ! i)\<close> x(3) level by (simp add: level_ok_def)
    qed
    moreover have "cmp (key_of sl n) (key_of sl x) < 0" if "n \<in> set ?B" for n
      using that unfolding before_def by (blast dest: set_takeWhileD)
    moreover have "sorted_wrt (\<lambda>a b. cmp (key_of sl a) (key_of sl b) < 0) (?B @ ?A)"
      "\<forall>n \<in> set (?B @ ?A). 0 < n \<and> n < length (nodes sl) \<and> valid (key_of sl n)"
      using level by (simp_all add: level_ok_def flip: split)
    ultimately show ?thesis using x by (auto simp: level_ok_def keys sorted_wrt_append)
  qed
  have other: "level_ok ?sl j (chain ! j)" if "j < kMaxHeight" "j \<noteq> i" for j
  proof -
    have "linked ?sl j 0 (chain ! j) = linked sl j 0 (chain ! j)"
      using that(2) by (intro linked_cong) (simp add: link_level_def Let_def)
    then show ?thesis using ok that(1) by (simp add: skip_ok_def level_ok_def keys)
  qed
  have "set (chain[i := ?B @ x # ?A] ! Suc j) \<subseteq> set (chain[i := ?B @ x # ?A] ! j)" if "Suc j < kMaxHeight" for j
  proof -
    have old: "set (chain ! Suc j) \<subseteq> set (chain ! j)" and len: "length chain = kMaxHeight"
      using ok that by (simp_all add: skip_ok_def)
    have ins: "set (?B @ x # ?A) = insert x (set (chain ! i))" by (subst split) auto
    consider "j = i" | "Suc j = i" | "j \<noteq> i" "Suc j \<noteq> i" by blast
    then show ?thesis
    proof cases
      case 1
      then show ?thesis using old ins that len by (auto simp: nth_list_update)
    next
      case 2
      then have "x \<in> set (chain ! j)" using below by auto
      then show ?thesis using 2 old ins that len by (auto simp: nth_list_update)
    qed (use old in simp)
  qed
  moreover have "nodes ?sl \<noteq> []" using keys(2) x(2) by auto
  ultimately show ?thesis using ok here other i(2) by (auto simp: skip_ok_def keys nth_list_update)
qed

end

text \<open>The array \<open>prev\<close> after a search.\<close>

lemma noted_levels:
  "for_down 0 n (\<lambda>j. map_option (\<lambda>p. p[j := y j])) (Some p) = Some (for_down 0 n (\<lambda>j p. p[j := y j]) p)"
  by (induction n arbitrary: p) (simp_all add: for_down_Suc)

lemma nth_noted_levels:
  "n \<le> length p \<Longrightarrow> length (for_down 0 n (\<lambda>j p. p[j := y j]) p) = length p \<and>
    (\<forall>k < length p. for_down 0 n (\<lambda>j p. p[j := y j]) p ! k = (if k < n then y k else p ! k))"
  by (induction n arbitrary: p) (auto simp: for_down_Suc nth_update_if less_Suc_eq)

lemma nth_head_levels:
  "a \<le> b \<Longrightarrow> length (for_up a b (\<lambda>i p. p[i := y]) p) = length p \<and>
    (\<forall>k < length p. for_up a b (\<lambda>i p. p[i := y]) p ! k = (if a \<le> k \<and> k < b then y else p ! k))"
  by (rule for_up_rule) (auto simp: nth_update_if)

lemma random_height_bounds: "0 < fst (random_height r) \<and> fst (random_height r) \<le> kMaxHeight"
proof -
  have "h \<le> kMaxHeight \<Longrightarrow> h \<le> fst (random_height_loop h r) \<and> fst (random_height_loop h r) \<le> kMaxHeight" for h
    by (induction h r rule: random_height_loop.induct) (subst (1 2) random_height_loop.simps, fastforce simp: Let_def)
  from this [of 1] show ?thesis by (simp add: random_height_def kMaxHeight_def)
qed

lemma new_node_fields:
  assumes "new_node sl key h = (x, sl')"
  shows "x = length (nodes sl)" "length (nodes sl') = Suc (length (nodes sl))" "max_height sl' = max_height sl"
    "random_state sl' = random_state sl" "key_of sl' x = key" "height_of sl' x = h"
    "n < length (nodes sl) \<Longrightarrow> key_of sl' n = key_of sl n \<and> next_of sl' n i = next_of sl n i \<and> height_of sl' n = height_of sl n"
  using assms by (auto simp: new_node_def key_of_def next_of_def height_of_def nth_append)

context key_order
begin

lemma level_new_node:
  assumes "level_ok sl i ys" "new_node sl key h = (x, sl')" "nodes sl \<noteq> []"
  shows "level_ok sl' i ys"
proof -
  note f = new_node_fields [OF assms(2)]
  have n: "\<forall>n \<in> set (0 # ys). n < length (nodes sl)" using assms(1,3) by (auto simp: level_ok_def)
  have keys: "key_of sl' n = key_of sl n" if "n \<in> set ys" for n using that n f(7) by auto
  have "linked sl' i 0 ys = linked sl i 0 ys" using n f(7) by (intro linked_cong) blast
  moreover have "sorted_wrt (\<lambda>a b. cmp (key_of sl' a) (key_of sl' b) < 0) ys"
    by (rule sorted_wrt_mono_rel [where P = "\<lambda>a b. cmp (key_of sl a) (key_of sl b) < 0"])
      (use assms(1) keys in \<open>simp_all add: level_ok_def\<close>)
  ultimately show ?thesis using assms(1) n f(2) keys by (auto simp: level_ok_def)
qed

text \<open>The levels after \<open>i\<close> pointers have been set.\<close>

definition linked_upto :: "nat \<Rightarrow> nat \<Rightarrow> 'k skip_list \<Rightarrow> nat list list \<Rightarrow> nat list list" where
  "linked_upto i x sl chain = map (\<lambda>j. if j < i
     then before sl (key_of sl x) (chain ! j) @ x # from_key sl (key_of sl x) (chain ! j) else chain ! j) [0..<kMaxHeight]"

lemma link_levels_ok:
  assumes ok: "skip_ok sl chain" and h: "h \<le> kMaxHeight" "h \<le> max_height sl" "h \<le> height_of sl x"
    and x: "0 < x" "x < length (nodes sl)" "valid (key_of sl x)" "x \<notin> set (chain ! 0)"
    and new: "\<forall>n \<in> set (chain ! 0). cmp (key_of sl n) (key_of sl x) \<noteq> 0"
    and prev: "\<forall>i < h. prev ! i = last (0 # before sl (key_of sl x) (chain ! i))"
    and i: "i \<le> h"
  shows "skip_ok (for_up 0 i (link_level x prev) sl) (linked_upto i x sl chain) \<and>
    key_of (for_up 0 i (link_level x prev) sl) = key_of sl"
proof -
  have sub: "set (chain ! j) \<subseteq> set (chain ! 0)" if "j < kMaxHeight" for j
    using that ok by (induction j) (auto simp: skip_ok_def subset_iff)
  define Q where "Q i sl' \<longleftrightarrow> skip_ok sl' (linked_upto i x sl chain) \<and> key_of sl' = key_of sl \<and>
    max_height sl' = max_height sl \<and> height_of sl' = height_of sl \<and> length (nodes sl') = length (nodes sl)" for i sl'
  have "Q i (for_up 0 i (link_level x prev) sl)"
  proof (rule for_up_rule)
    have "linked_upto 0 x sl chain = chain"
      using ok by (intro nth_equalityI) (auto simp: linked_upto_def skip_ok_def)
    then show "Q 0 sl" using ok by (simp add: Q_def)
    fix j t assume j: "j < i" and Q: "Q j t"
    then have j': "j < kMaxHeight" using i h by simp
    let ?C = "linked_upto j x sl chain"
    have C: "?C ! k = (if k < j then before sl (key_of sl x) (chain ! k) @ x # from_key sl (key_of sl x) (chain ! k) else chain ! k)"
      if "k < kMaxHeight" for k using that by (simp add: linked_upto_def)
    have t: "key_of t = key_of sl" using Q by (simp add: Q_def)
    have "skip_ok (link_level x prev j t)
        (?C[j := before t (key_of t x) (?C ! j) @ x # from_key t (key_of t x) (?C ! j)])"
      using Q j j' i h x new prev sub [OF j']
      by (intro link_step) (auto simp: Q_def C before_cong [OF t])
    moreover have "?C[j := before t (key_of t x) (?C ! j) @ x # from_key t (key_of t x) (?C ! j)] = linked_upto (Suc j) x sl chain"
      using j' by (intro nth_equalityI) (auto simp: linked_upto_def nth_list_update before_cong [OF t] t)
    ultimately show "Q (Suc j) (link_level x prev j t)"
      using Q by (simp add: Q_def link_level_def Let_def fun_eq_iff)
  qed simp
  then show ?thesis by (simp add: Q_def)
qed

section \<open>The sorted list behind a skip list\<close>

text \<open>
  Refinement: a skip list stands for the list of its keys. What the operations answer is a
  function of that list, and insertion is insertion at the place of the key.
\<close>

definition stands_for_keys :: "'k skip_list \<Rightarrow> 'k list \<Rightarrow> bool" where
  "stands_for_keys sl ks \<longleftrightarrow> (\<exists>chain. skip_ok sl chain \<and> map (key_of sl) (chain ! 0) = ks)"

lemma new_skip_list_stands: "stands_for_keys (new_skip_list any_key) []"
  unfolding stands_for_keys_def
  by (rule exI [of _ "replicate kMaxHeight []"])
    (simp add: skip_ok_def level_ok_def new_skip_list_def height_of_def next_of_def kMaxHeight_def)

lemma skip_ok_bottom: "skip_ok sl chain \<Longrightarrow> level_ok sl 0 (chain ! 0)"
  by (simp add: skip_ok_def kMaxHeight_def)

lemma stands_for_sorted:
  "stands_for_keys sl ks \<Longrightarrow> sorted_wrt (\<lambda>a b. cmp a b < 0) ks \<and> (\<forall>k \<in> set ks. valid k)"
  by (auto simp: stands_for_keys_def level_ok_def sorted_wrt_map dest!: skip_ok_bottom)

lemma iter_seek_first_ok: "stands_for_keys sl ks \<Longrightarrow> stands_at sl (iter_seek_to_first sl) ks"
  by (auto simp: stands_for_keys_def level_ok_def iter_seek_to_first_def
      intro!: stands_at_linked dest!: skip_ok_bottom)

lemma iter_seek_ok:
  assumes "stands_for_keys sl ks" "valid key"
  shows "\<exists>p. iter_seek cmp sl key = Some p \<and> stands_at sl p (dropWhile (\<lambda>k. cmp k key < 0) ks)"
proof -
  obtain chain where ok: "skip_ok sl chain" and ks: "ks = map (key_of sl) (chain ! 0)"
    using assms(1) by (auto simp: stands_for_keys_def)
  let ?A = "from_key sl key (chain ! 0)"
  have "linked sl 0 0 (before sl key (chain ! 0) @ ?A)"
    using ok by (simp add: before_from skip_ok_def level_ok_def kMaxHeight_def)
  from linked_suffix [OF this] linked_first [OF linked_suffix [OF this]] stands_at_linked
  have "stands_at sl (case ?A of [] \<Rightarrow> None | n # _ \<Rightarrow> Some n) (map (key_of sl) ?A)" by metis
  moreover have "max_height sl - 1 < kMaxHeight" using ok by (auto simp: skip_ok_def)
  ultimately show ?thesis using find_greater_ok [OF ok assms(2), of "max_height sl - 1" None]
    by (simp add: iter_seek_def find_greater_or_equal_def ks dropWhile_map from_key_def comp_def)
qed

lemma seek_to_last_ok:
  assumes "stands_for_keys sl ks"
  shows "\<exists>p. iter_seek_to_last sl = Some p \<and> stands_at sl p (if ks = [] then [] else [last ks])"
proof -
  obtain chain where ok: "skip_ok sl chain" and ks: "ks = map (key_of sl) (chain ! 0)"
    using assms by (auto simp: stands_for_keys_def)
  have "max_height sl - 1 < kMaxHeight" using ok by (auto simp: skip_ok_def)
  note find_last_ok [OF ok this]
  moreover have "linked sl 0 (last (0 # chain ! 0)) []"
    using linked_suffix [of sl 0 0 "chain ! 0" "[]"] skip_ok_bottom [OF ok] by (simp add: level_ok_def)
  moreover have "last (chain ! 0) \<noteq> 0" if "chain ! 0 \<noteq> []"
    using skip_ok_bottom [OF ok] last_in_set [OF that] by (auto simp: level_ok_def)
  ultimately show ?thesis
    by (cases "chain ! 0 = []") (auto simp: iter_seek_to_last_def find_last_def ks iter_next_def last_map)
qed

lemma iter_prev_ok:
  assumes "stands_for_keys sl (pre @ k # rest)" "key_of sl x = k"
  shows "\<exists>p. iter_prev cmp sl x = Some p \<and> stands_at sl p (if pre = [] then [] else last pre # k # rest)"
proof -
  obtain chain where ok: "skip_ok sl chain" and ks: "map (key_of sl) (chain ! 0) = pre @ k # rest"
    using assms(1) by (auto simp: stands_for_keys_def)
  then obtain us ws where split: "chain ! 0 = us @ ws" and us: "map (key_of sl) us = pre" and ws: "map (key_of sl) ws = k # rest"
    by (auto simp: map_eq_append_conv)
  have sorted: "sorted_wrt (\<lambda>a b. cmp a b < 0) (pre @ k # rest)" "\<forall>k' \<in> set (pre @ k # rest). valid k'"
    using stands_for_sorted [OF assms(1)] by auto
  then have "valid k" "\<not> cmp k k < 0" "\<forall>k' \<in> set pre. cmp k' k < 0"
    using compare_refl [of k] by (auto simp: sorted_wrt_append)
  then have "before sl k (chain ! 0) = us"
    using us ws unfolding split before_def by (cases ws) (auto simp: takeWhile_append2 takeWhile_eq_all_conv)
  moreover have "max_height sl - 1 < kMaxHeight" using ok by (auto simp: skip_ok_def)
  ultimately have found: "find_less_than cmp sl k = Some (last (0 # us))"
    using find_less_ok [OF ok \<open>valid k\<close>] by (simp add: find_less_than_def)
  have chain: "linked sl 0 0 (us @ ws)" "\<forall>n \<in> set us. 0 < n"
    using skip_ok_bottom [OF ok] by (auto simp: level_ok_def split)
  from stands_at_linked [OF linked_suffix [OF chain(1)]] have nxt: "stands_at sl (next_of sl (last (0 # us)) 0) (k # rest)"
    by (simp add: ws)
  show ?thesis
  proof (cases "us = []")
    case True
    then show ?thesis using found us by (simp add: iter_prev_def assms(2))
  next
    case False
    then have "last us \<noteq> 0" using chain(2) last_in_set [OF False] by auto
    then show ?thesis using False found us nxt by (auto simp: iter_prev_def assms(2) iter_next_def last_map)
  qed
qed

lemma first_equal:
  assumes "sorted_wrt (\<lambda>a b. cmp a b < 0) ks" "\<forall>k \<in> set ks. valid k" "valid key"
  shows "(case dropWhile (\<lambda>k. cmp k key < 0) ks of [] \<Rightarrow> False | k # _ \<Rightarrow> cmp key k = 0) =
    (\<exists>k \<in> set ks. cmp key k = 0)"
  using assms(1,2)
proof (induction ks)
  case (Cons k ks)
  have "cmp key k' \<noteq> 0" if "k' \<in> set ks" "0 \<le> cmp k key" for k'
    using that Cons.prems assms(3) compare_trans_less [of k k' key] compare_zero_flip [of key k'] by auto
  moreover have "cmp key k \<noteq> 0" if "cmp k key < 0"
    using that Cons.prems assms(3) compare_zero_flip [of key k] by simp
  ultimately show ?case using Cons by auto
qed simp

lemma contains_ok:
  assumes "stands_for_keys sl ks" "valid key"
  shows "skip_contains cmp sl key = Some (\<exists>k \<in> set ks. cmp key k = 0)"
proof -
  obtain p where p: "iter_seek cmp sl key = Some p" "stands_at sl p (dropWhile (\<lambda>k. cmp k key < 0) ks)"
    using iter_seek_ok [OF assms] by blast
  have "skip_contains cmp sl key = Some (case dropWhile (\<lambda>k. cmp k key < 0) ks of [] \<Rightarrow> False | k # _ \<Rightarrow> cmp key k = 0)"
    using p by (cases "dropWhile (\<lambda>k. cmp k key < 0) ks")
      (auto simp: iter_seek_def skip_contains_def simp del: dropWhile_eq_Nil_conv)
  then show ?thesis using first_equal [of ks key] stands_for_sorted [OF assms(1)] assms(2) by simp
qed

lemma skip_ok_cong:
  assumes "skip_ok sl chain" "max_height sl \<le> h" "h \<le> kMaxHeight"
  shows "skip_ok (sl\<lparr>random_state := r, max_height := h\<rparr>) chain"
proof -
  let ?sl = "sl\<lparr>random_state := r, max_height := h\<rparr>"
  have "linked ?sl i x ys = linked sl i x ys" for i x ys by (rule linked_cong) simp
  then have "level_ok ?sl i ys = level_ok sl i ys" for i ys by (simp add: level_ok_def)
  with assms show ?thesis by (auto simp: skip_ok_def)
qed

lemma skip_insert_ok:
  assumes "stands_for_keys sl ks" "valid key" "\<forall>k \<in> set ks. cmp k key \<noteq> 0"
  shows "\<exists>sl'. skip_insert cmp key sl = Some sl' \<and>
    stands_for_keys sl' (takeWhile (\<lambda>k. cmp k key < 0) ks @ key # dropWhile (\<lambda>k. cmp k key < 0) ks)"
proof -
  obtain chain where ok: "skip_ok sl chain" and ks: "ks = map (key_of sl) (chain ! 0)"
    using assms(1) by (auto simp: stands_for_keys_def)
  have m: "0 < max_height sl" "max_height sl \<le> kMaxHeight" "length chain = kMaxHeight" "nodes sl \<noteq> []"
    using ok by (simp_all add: skip_ok_def)
  define y where "y j = last (0 # before sl key (chain ! j))" for j
  obtain p where find: "find_greater_or_equal cmp sl key (Some (replicate kMaxHeight 0)) =
      Some (case from_key sl key (chain ! 0) of [] \<Rightarrow> None | n # _ \<Rightarrow> Some n, Some p)"
    and p: "length p = kMaxHeight" "\<forall>k < kMaxHeight. p ! k = (if k < max_height sl then y k else 0)"
    using find_greater_ok [OF ok assms(2), of "max_height sl - 1" "Some (replicate kMaxHeight 0)"] m
      nth_noted_levels [of "max_height sl" "replicate kMaxHeight 0" y]
    by (simp add: find_greater_or_equal_def noted_levels y_def)
  have y0: "y k = 0" if "k < kMaxHeight" "max_height sl \<le> k" for k
    using that ok by (simp add: y_def before_def skip_ok_def)
  then have y: "p ! k = y k" if "k < kMaxHeight" for k using p(2) that by auto
  obtain h r where hr: "random_height (random_state sl) = (h, r)" by fastforce
  with random_height_bounds [of "random_state sl"] have h: "0 < h" "h \<le> kMaxHeight" by simp_all
  define p' where "p' = (if max_height sl < h then for_up (max_height sl) h (\<lambda>i p. p[i := 0]) p else p)"
  define sl1 where "sl1 = sl\<lparr>random_state := r, max_height := max (max_height sl) h\<rparr>"
  have sl1: "skip_ok sl1 chain" unfolding sl1_def using ok h m by (intro skip_ok_cong) auto
  obtain x sl2 where node: "new_node sl1 key h = (x, sl2)" by fastforce
  note f = new_node_fields [OF node]
  have "(if max_height sl < h then sl\<lparr>random_state := r, max_height := h\<rparr> else sl\<lparr>random_state := r\<rparr>) = sl1"
    by (cases sl) (simp add: sl1_def max_def)
  then have "skip_insert cmp key sl = Some (for_up 0 h (link_level x p') sl2)"
    using node by (auto simp: skip_insert_def find hr p'_def Let_def)
  moreover have keys: "key_of sl2 n = key_of sl n" if "n \<in> set (chain ! 0)" for n
    using that f(7) skip_ok_bottom [OF ok] by (auto simp: sl1_def level_ok_def)
  have p': "\<forall>i < h. p' ! i = y i"
    using nth_head_levels [of "max_height sl" h 0 p] p(1) h y y0 by (auto simp: p'_def)
  have sub: "set (chain ! j) \<subseteq> set (chain ! 0)" if "j < kMaxHeight" for j
    using that ok by (induction j) (auto simp: skip_ok_def subset_iff)
  have b: "before sl2 key (chain ! j) = before sl key (chain ! j)" if "j < kMaxHeight" for j
    unfolding before_def using keys sub [OF that] by (intro takeWhile_cong) auto
  have sl2: "skip_ok sl2 chain"
    using sl1 f(2,3) level_new_node [OF _ node] by (fastforce simp: skip_ok_def)
  have "x \<notin> set (chain ! 0)" "\<forall>n \<in> set (chain ! 0). cmp (key_of sl2 n) (key_of sl2 x) \<noteq> 0"
    using skip_ok_bottom [OF sl1] f(1,5) keys assms(3) ks by (auto simp: level_ok_def)
  then have final: "skip_ok (for_up 0 h (link_level x p') sl2) (linked_upto h x sl2 chain)"
      "key_of (for_up 0 h (link_level x p') sl2) = key_of sl2"
    using link_levels_ok [OF sl2, of h x p' h] h f m assms(2) p' b by (auto simp: y_def sl1_def)
  moreover have "map (key_of sl2) (linked_upto h x sl2 chain ! 0) =
      takeWhile (\<lambda>k. cmp k key < 0) ks @ key # dropWhile (\<lambda>k. cmp k key < 0) ks"
  proof -
    have "ks = map (key_of sl2) (chain ! 0)" using ks keys by simp
    then show ?thesis using h f(5)
      by (simp add: linked_upto_def kMaxHeight_def before_def from_key_def takeWhile_map dropWhile_map comp_def)
  qed
  ultimately show ?thesis unfolding stands_for_keys_def by metis
qed

lemma skip_insert_all_ok:
  assumes "stands_for_keys sl ks" "\<forall>k \<in> set new. valid k" "\<forall>k \<in> set new. \<forall>k' \<in> set ks. cmp k' k \<noteq> 0"
    "sorted_wrt (\<lambda>a b. cmp a b \<noteq> 0) new"
  shows "\<exists>sl' ks'. skip_insert_all cmp new sl = Some sl' \<and> stands_for_keys sl' ks' \<and> mset ks' = mset ks + mset new"
  using assms
proof (induction new arbitrary: sl ks)
  case (Cons k new)
  let ?ks = "takeWhile (\<lambda>k'. cmp k' k < 0) ks @ k # dropWhile (\<lambda>k'. cmp k' k < 0) ks"
  obtain sl1 where sl1: "skip_insert cmp k sl = Some sl1" "stands_for_keys sl1 ?ks"
    using skip_insert_ok [OF Cons.prems(1), of k] Cons.prems(2,3) by (simp del: split_paired_Ex) blast
  have m: "mset ?ks = add_mset k (mset ks)"
    by (metis mset.simps(2) mset_append takeWhile_dropWhile_id union_mset_add_mset_right)
  then have "set ?ks = insert k (set ks)" by (metis set_mset_add_mset_insert set_mset_mset)
  then obtain sl' ks' where "skip_insert_all cmp new sl1 = Some sl'" "stands_for_keys sl' ks'" "mset ks' = mset ?ks + mset new"
    using Cons.IH [OF sl1(2)] Cons.prems by auto
  with sl1(1) m show ?case by auto
qed auto

end

section \<open>The generator\<close>

text \<open>The fast reduction is exact: the state runs through the powers of 16807 modulo 2^31 - 1.\<close>

lemma random_sum:
  fixes s :: u32
  assumes "unat s < 2147483647"
  shows "unat (ucast (drop_bit 31 (ucast s * 16807 :: u64) + ((ucast s * 16807) AND ucast random_M)) :: u32) =
    unat s * 16807 div 2 ^ 31 + unat s * 16807 mod 2 ^ 31"
proof -
  let ?p = "unat s * 16807"
  let ?w = "ucast s * 16807 :: u64"
  have small: "?p < 36092757655129" using assms by linarith
  then have p: "unat ?w = ?p" by (simp add: unat_word_ariths unat_widen)
  have "ucast random_M = (mask 31 :: u64)" by (simp add: random_M_def mask_eq_exp_minus_1)
  then have low: "unat (?w AND ucast random_M) = ?p mod 2 ^ 31"
    by (simp only: unsigned_take_bit_eq p flip: take_bit_eq_mask) (simp only: take_bit_eq_mod)
  have high: "unat (drop_bit 31 ?w) = ?p div 2 ^ 31"
    by (simp only: unat_drop_bit_eq p) (simp only: drop_bit_eq_div)
  have bounds: "?p div 2 ^ 31 < 2 ^ 15" "?p mod 2 ^ 31 < 2 ^ 31" using small by (simp_all add: less_mult_imp_div_less)
  then have sum: "unat (drop_bit 31 ?w + (?w AND ucast random_M)) = ?p div 2 ^ 31 + ?p mod 2 ^ 31"
    unfolding unat_word_ariths low high by (intro mod_less) simp
  have "unat (ucast (drop_bit 31 ?w + (?w AND ucast random_M)) :: u32) = take_bit 32 (?p div 2 ^ 31 + ?p mod 2 ^ 31)"
    unfolding unsigned_ucast_eq sum by simp
  also have "\<dots> = ?p div 2 ^ 31 + ?p mod 2 ^ 31" using bounds by (intro take_bit_nat_eq_self) simp
  finally show ?thesis .
qed

lemma random_next_exact:
  assumes "0 < unat s" "unat s < 2147483647"
  shows "unat (random_next s) = unat s * 16807 mod 2147483647" "0 < unat (random_next s)"
    "unat (random_next s) < 2147483647"
proof -
  define t where "t = unat s * 16807 div 2 ^ 31 + unat s * 16807 mod 2 ^ 31"
  define w where "w = (ucast (drop_bit 31 (ucast s * 16807 :: u64) + ((ucast s * 16807) AND ucast random_M)) :: u32)"
  have w: "unat w = t" unfolding w_def t_def by (rule random_sum [OF assms(2)])
  have eq: "unat s * 16807 = t + 2147483647 * (unat s * 16807 div 2 ^ 31)"
    unfolding t_def using mult_div_mod_eq [of "2 ^ 31" "unat s * 16807"] by simp
  then have cong: "t mod 2147483647 = unat s * 16807 mod 2147483647" by (metis mod_mult_self2)
  have "coprime (2147483647 :: nat) 16807" by (simp add: coprime_iff_gcd_eq_1 gcd_non_0_nat)
  then have nz: "unat s * 16807 mod 2147483647 \<noteq> 0"
    using assms by (auto simp: coprime_dvd_mult_left_iff mod_eq_0_iff_dvd dest: dvd_imp_le)
  have "unat s * 16807 div 2 ^ 31 < 16807" using assms(2) by (intro less_mult_imp_div_less) simp
  moreover have "unat s * 16807 mod 2 ^ 31 < 2147483648" by simp
  ultimately have t: "t < 2147483648 + 16807" unfolding t_def by linarith
  have "t \<noteq> 2147483647" using nz cong by auto
  moreover have "t mod 2147483647 = t - 2147483647" if "2147483647 < t" using that t by (simp add: le_mod_geq)
  ultimately have "t mod 2147483647 = (if 2147483647 < t then t - 2147483647 else t)" by simp
  moreover have "random_next s = (if random_M < w then w - random_M else w)"
    by (simp add: random_next_def Let_def w_def)
  moreover have "random_M < w \<longleftrightarrow> 2147483647 < t" by (simp add: word_less_nat_alt w random_M_def)
  moreover have "2147483647 < t \<Longrightarrow> unat (w - random_M) = t - 2147483647"
    by (simp add: unat_sub word_le_nat_alt w random_M_def)
  ultimately show "unat (random_next s) = unat s * 16807 mod 2147483647"
    using cong w by (simp split: if_splits)
  then show "0 < unat (random_next s)" "unat (random_next s) < 2147483647" using nz by simp_all
qed

end
