(* ===== verification/LdbMemTable.thy ===== *)
theory LdbMemTable
  imports LdbSkipListSpec LdbBatch
begin

text \<open>
  The table in memory (\<^verbatim>\<open>db/memtable.cc\<close>): a skip list of encoded entries, ordered by the internal
  keys in front of them. A pointer into an entry is the list of the bytes from there on.
\<close>

section \<open>Entries\<close>

text \<open>
  A length read at a pointer and the pointer behind it. The code assumes that the five bytes
  are not corrupted, so the second case does not arise.
\<close>

definition read_length :: "u8 list \<Rightarrow> u32 \<times> u8 list" where
  "read_length data =
    (case get_varint32_ptr (take 5 data) of
       Some (len, q) \<Rightarrow> (len, drop (length (take 5 data) - length q) data)
     | None \<Rightarrow> (0, []))"

definition mem_slice :: "u8 list \<Rightarrow> slice" where
  "mem_slice data = (let (len, p) = read_length data in take (unat len) p)"

definition key_comparator :: "comparator_ops \<Rightarrow> u8 list \<Rightarrow> u8 list \<Rightarrow> int" where
  "key_comparator icmp aptr bptr = compare icmp (mem_slice aptr) (mem_slice bptr)"

definition encode_key :: "slice \<Rightarrow> slice" where
  "encode_key target = put_varint32 [] (word_of_nat (length target)) @ target"

definition mem_entry :: "u64 \<Rightarrow> value_type \<Rightarrow> slice \<Rightarrow> slice \<Rightarrow> u8 list" where
  "mem_entry s type key val =
    encode_varint32 (word_of_nat (length key + 8)) @ key @ encode_fixed64 (push_bit 8 s OR value_code type) @
    encode_varint32 (word_of_nat (length val)) @ val"

section \<open>The table\<close>

record mem_table =
  user_comparator :: comparator_ops
  mem_list :: "u8 list skip_list"

definition new_mem_table :: "comparator_ops \<Rightarrow> mem_table" where
  "new_mem_table user = \<lparr>user_comparator = user, mem_list = new_skip_list []\<rparr>"

definition mem_compare :: "mem_table \<Rightarrow> u8 list \<Rightarrow> u8 list \<Rightarrow> int" where
  "mem_compare mt = key_comparator (internal_comparator (user_comparator mt))"

definition mem_add :: "u64 \<Rightarrow> value_type \<Rightarrow> slice \<Rightarrow> slice \<Rightarrow> mem_table \<Rightarrow> mem_table option" where
  "mem_add s type key val mt =
    (case skip_insert (mem_compare mt) (mem_entry s type key val) (mem_list mt) of
       None \<Rightarrow> None | Some sl \<Rightarrow> Some (mt\<lparr>mem_list := sl\<rparr>))"

text \<open>\<open>*value\<close> and \<open>*s\<close> are passed in and returned with the answer.\<close>

definition mem_get :: "lookup_key \<Rightarrow> slice \<Rightarrow> status \<Rightarrow> mem_table \<Rightarrow> (bool \<times> slice \<times> status) option" where
  "mem_get key val s mt =
    (case iter_seek (mem_compare mt) (mem_list mt) (memtable_key key) of
       None \<Rightarrow> None
     | Some None \<Rightarrow> Some (False, val, s)
     | Some (Some x) \<Rightarrow>
         (let entry = key_of (mem_list mt) x;
              (key_length, key_ptr) = read_length entry;
              n = unat key_length
          in Some (if compare (user_comparator mt) (take (n - 8) key_ptr) (lookup_user_key key) = 0
                   then let type = decode_fixed64 (drop (n - 8) key_ptr) AND 0xff
                        in if type = value_code kTypeValue then (True, mem_slice (drop n key_ptr), s)
                           else if type = value_code kTypeDeletion then (True, val, NotFound '''')
                           else (False, val, s)
                   else (False, val, s))))"

section \<open>Its iterator\<close>

definition mem_seek :: "mem_table \<Rightarrow> slice \<Rightarrow> nat option option" where
  "mem_seek mt k = iter_seek (mem_compare mt) (mem_list mt) (encode_key k)"

definition mem_iter_key :: "mem_table \<Rightarrow> nat \<Rightarrow> slice" where
  "mem_iter_key mt x = mem_slice (key_of (mem_list mt) x)"

definition mem_iter_value :: "mem_table \<Rightarrow> nat \<Rightarrow> slice" where
  "mem_iter_value mt x =
    (let (len, p) = read_length (key_of (mem_list mt) x) in mem_slice (drop (unat len) p))"

section \<open>Inserting a batch\<close>

text \<open>The handler of \<^verbatim>\<open>InsertInto\<close>, applied to the calls that the iteration makes.\<close>

fun mem_add_all :: "(u64 \<times> value_type \<times> slice \<times> slice) list \<Rightarrow> mem_table \<Rightarrow> mem_table option" where
  "mem_add_all [] mt = Some mt"
| "mem_add_all ((s, type, key, val) # calls) mt = Option.bind (mem_add s type key val mt) (mem_add_all calls)"

definition insert_into :: "slice \<Rightarrow> mem_table \<Rightarrow> (status \<times> mem_table) option" where
  "insert_into rep mt =
    (let (s, calls) = batch_insert_into rep in map_option (Pair s) (mem_add_all calls mt))"

section \<open>Entries are read back\<close>

lemma length_encode_varint32: "length (encode_varint32 v) \<le> 5"
  by (simp add: encode_varint32_def Let_def)

lemma read_length_encode: "read_length (encode_varint32 v @ rest) = (v, rest)"
proof -
  have "get_varint32_ptr (encode_varint32 v @ r) = Some (v, r)" for r
    using get_varint32_put [of v r] by (simp add: get_varint32_def split: option.splits prod.splits)
  then show ?thesis using length_encode_varint32 [of v] by (simp add: read_length_def)
qed

lemma mem_slice_encode: "length d < 2 ^ 32 \<Longrightarrow> mem_slice (encode_varint32 (word_of_nat (length d)) @ d @ rest) = d"
  by (simp add: mem_slice_def read_length_encode unat_of_nat)

text \<open>An update of the table: its arguments to \<open>mem_add\<close>.\<close>

type_synonym mem_update = "u64 \<times> value_type \<times> slice \<times> slice"

fun entry_of :: "mem_update \<Rightarrow> u8 list" where
  "entry_of (s, t, k, v) = mem_entry s t k v"

fun parts_of :: "mem_update \<Rightarrow> parsed_key" where
  "parts_of (s, t, k, v) = \<lparr>user_key = k, seq = s, key_type = t\<rparr>"

fun update_ok :: "mem_update \<Rightarrow> bool" where
  "update_ok (s, t, k, v) \<longleftrightarrow> s \<le> kMaxSequenceNumber \<and> length k + 8 < 2 ^ 32 \<and> length v < 2 ^ 32"

lemma entry_split:
  "entry_of (s, t, k, v) = encode_varint32 (word_of_nat (length k + 8)) @
     append_internal_key [] (parts_of (s, t, k, v)) @ encode_varint32 (word_of_nat (length v)) @ v"
  by (simp add: mem_entry_def append_internal_key_def put_fixed64_def pack_sequence_and_type_def)

lemma length_append_internal_key: "length (append_internal_key [] a) = length (user_key a) + 8"
  by (simp add: append_internal_key_def put_fixed64_def)

lemma mem_slice_entry: "update_ok u \<Longrightarrow> mem_slice (entry_of u) = append_internal_key [] (parts_of u)"
proof (cases u)
  case (fields s t k v)
  assume "update_ok u"
  with fields show ?thesis
    using mem_slice_encode [of "append_internal_key [] (parts_of u)" "encode_varint32 (word_of_nat (length v)) @ v"]
    by (simp only: entry_split) (simp add: length_append_internal_key)
qed

lemma mem_slice_lookup:
  assumes "length k + 8 < 2 ^ 32"
  shows "mem_slice (memtable_key (new_lookup_key k s)) =
    append_internal_key [] \<lparr>user_key = k, seq = s, key_type = kValueTypeForSeek\<rparr>"
  using assms mem_slice_encode [of "k @ encode_fixed64 (pack_sequence_and_type s kValueTypeForSeek)" "[]"]
  by (simp add: memtable_key_def new_lookup_key_def Let_def append_internal_key_def put_fixed64_def)

section \<open>The order of entries\<close>

context comparator
begin

lemma entries_ordered: "key_order (key_comparator ops) (\<lambda>e. valid (mem_slice e))"
  by unfold_locales (auto simp: key_comparator_def compare_refl compare_flip intro: compare_trans)

end

interpretation mem_order:
  key_order "key_comparator (internal_comparator bytewise_comparator)" "\<lambda>e. bytewise.user_valid (mem_slice e)"
  by (rule internal_keys.entries_ordered)

text \<open>A table over the bytewise comparator that holds the given updates, in any order.\<close>

definition holds_updates :: "mem_table \<Rightarrow> mem_update set \<Rightarrow> bool" where
  "holds_updates mt us \<longleftrightarrow> user_comparator mt = bytewise_comparator \<and> (\<forall>u \<in> us. update_ok u) \<and>
     (\<exists>ks. mem_order.stands_for_keys (mem_list mt) ks \<and> set ks = entry_of ` us)"

abbreviation key_less :: "parsed_key \<Rightarrow> parsed_key \<Rightarrow> bool" where
  "key_less a b \<equiv> compare (internal_comparator bytewise_comparator) (append_internal_key [] a) (append_internal_key [] b) < 0"

lemma user_valid_append: "bytewise.user_valid (append_internal_key [] a)"
  by (simp add: bytewise.user_valid_def length_append_internal_key)

lemma new_mem_table_holds: "holds_updates (new_mem_table bytewise_comparator) {}"
  using mem_order.new_skip_list_stands by (auto simp: holds_updates_def new_mem_table_def)

lemma mem_add_ok:
  assumes "holds_updates mt us" "update_ok u" "u = (s, t, k, v)"
    and new: "\<forall>u' \<in> us. fst u' \<noteq> s"
  shows "\<exists>mt'. mem_add s t k v mt = Some mt' \<and> holds_updates mt' (insert u us)"
proof -
  let ?cmp = "key_comparator (internal_comparator bytewise_comparator)"
  obtain ks where ks: "mem_order.stands_for_keys (mem_list mt) ks" "set ks = entry_of ` us"
    using assms(1) by (auto simp: holds_updates_def)
  have v: "bytewise.user_valid (mem_slice (entry_of u))"
    by (simp add: mem_slice_entry [OF assms(2)] user_valid_append)
  have "?cmp e (entry_of u) \<noteq> 0" if e: "e \<in> set ks" for e
  proof -
    obtain u' where u': "u' \<in> us" "e = entry_of u'" using e ks(2) by auto
    then have ok: "update_ok u'" and ne: "seq (parts_of u') \<noteq> seq (parts_of u)"
      using assms(1,3) new by (cases u', force simp: holds_updates_def)+
    have le: "seq (parts_of u') \<le> kMaxSequenceNumber" "seq (parts_of u) \<le> kMaxSequenceNumber"
      using ok assms(2) by (cases u', auto) (cases u, auto)
    have "key_less (parts_of u') (parts_of u) \<or> key_less (parts_of u) (parts_of u')"
      unfolding bytewise_internal_less [OF le] bytewise_internal_less [OF le(2,1)] using ne by force
    then show ?thesis
      using internal_keys.compare_zero_flip [OF user_valid_append user_valid_append, of "parts_of u'" "parts_of u"]
      by (auto simp: key_comparator_def u'(2) mem_slice_entry [OF ok] mem_slice_entry [OF assms(2)])
  qed
  then obtain sl where sl: "skip_insert ?cmp (entry_of u) (mem_list mt) = Some sl"
    "mem_order.stands_for_keys sl (takeWhile (\<lambda>k. ?cmp k (entry_of u) < 0) ks @ entry_of u # dropWhile (\<lambda>k. ?cmp k (entry_of u) < 0) ks)"
    using mem_order.skip_insert_ok [OF ks(1) v] by blast
  have ins: "set (takeWhile P ks @ e # dropWhile P ks) = insert e (set ks)" for P and e :: "u8 list"
    using takeWhile_dropWhile_id [of P ks] by (metis Un_insert_right list.simps(15) set_append)
  have "\<exists>ks'. mem_order.stands_for_keys sl ks' \<and> set ks' = entry_of ` insert u us"
    by (intro exI conjI, rule sl(2)) (simp only: ins ks(2) image_insert)
  then show ?thesis using sl(1) assms
    by (auto simp: mem_add_def mem_compare_def holds_updates_def)
qed

text \<open>
  A lookup finds the newest of the updates that are visible to it: those of the key with a
  sequence number up to the one asked for.
\<close>

definition visible :: "slice \<Rightarrow> u64 \<Rightarrow> mem_update \<Rightarrow> bool" where
  "visible k s u \<longleftrightarrow> user_key (parts_of u) = k \<and> seq (parts_of u) \<le> s"

fun answer :: "mem_update \<Rightarrow> slice \<Rightarrow> status \<Rightarrow> bool \<times> slice \<times> status" where
  "answer (_, kTypeValue, _, v) val st = (True, v, st)"
| "answer (_, kTypeDeletion, _, _) val st = (True, val, NotFound '''')"

lemma visible_order:
  assumes "update_ok u" "s \<le> kMaxSequenceNumber" "user_key (parts_of u) = k"
  shows "visible k s u \<longleftrightarrow> \<not> key_less (parts_of u) \<lparr>user_key = k, seq = s, key_type = kValueTypeForSeek\<rparr>"
proof -
  have "seq (parts_of u) \<le> kMaxSequenceNumber" using assms(1) by (cases u) auto
  moreover have "value_code t \<le> 1" for t by (cases t) simp_all
  ultimately show ?thesis
    using assms by (auto simp: visible_def bytewise_internal_less kValueTypeForSeek_def not_less)
qed

lemma read_entry:
  assumes "update_ok u" "u = (q, t, k, v)"
  shows "read_length (entry_of u) = (word_of_nat (length k + 8),
      append_internal_key [] (parts_of u) @ encode_varint32 (word_of_nat (length v)) @ v)"
    "unat (word_of_nat (length k + 8) :: u32) = length k + 8"
proof -
  show "read_length (entry_of u) = (word_of_nat (length k + 8),
      append_internal_key [] (parts_of u) @ encode_varint32 (word_of_nat (length v)) @ v)"
    by (simp only: assms(2) entry_split read_length_encode)
  show "unat (word_of_nat (length k + 8) :: u32) = length k + 8"
    using assms by (simp add: unat_of_nat del: of_nat_add)
qed

lemma answer_entry:
  assumes "update_ok u" "u = (q, t, k, v)" "user_comparator mt = bytewise_comparator"
    "iter_seek (mem_compare mt) (mem_list mt) (memtable_key (new_lookup_key k' s)) = Some (Some x)"
    "key_of (mem_list mt) x = entry_of u"
  shows "mem_get (new_lookup_key k' s) val st mt = Some (if k = k' then answer u val st else (False, val, st))"
proof -
  have "length v < 2 ^ 32" "q \<le> kMaxSequenceNumber" using assms(1,2) by auto
  then have "mem_slice (encode_varint32 (word_of_nat (length v)) @ v) = v"
    "decode_fixed64 (encode_fixed64 (pack_sequence_and_type q t) @ r) AND 0xff = value_code t" for r
    using mem_slice_encode [of v "[]"] pack_parts [of q t] by simp_all
  then show ?thesis
    unfolding mem_get_def assms(3-5) option.case Let_def read_entry [OF assms(1,2)] prod.case lookup_key_parts
    by (cases t) (simp_all add: assms(2) bytewise_comparator_def append_internal_key_def put_fixed64_def)
qed

lemma holds_seq: "holds_updates mt us \<Longrightarrow> u \<in> us \<Longrightarrow> update_ok u \<and> seq (parts_of u) \<le> kMaxSequenceNumber"
  by (cases u) (auto simp: holds_updates_def)

lemma mem_get_ok:
  assumes h: "holds_updates mt us" and k: "length k + 8 < 2 ^ 32" and s: "s \<le> kMaxSequenceNumber"
  shows "(\<forall>u \<in> us. \<not> visible k s u) \<and> mem_get (new_lookup_key k s) val st mt = Some (False, val, st) \<or>
    (\<exists>u \<in> us. visible k s u \<and> (\<forall>u' \<in> us. visible k s u' \<longrightarrow> seq (parts_of u') \<le> seq (parts_of u)) \<and>
      mem_get (new_lookup_key k s) val st mt = Some (answer u val st))"
proof -
  let ?cmp = "key_comparator (internal_comparator bytewise_comparator)"
  let ?T = "memtable_key (new_lookup_key k s)"
  let ?t = "\<lparr>user_key = k, seq = s, key_type = kValueTypeForSeek\<rparr>"
  note T = mem_slice_lookup [OF k, of s]
  have user: "user_comparator mt = bytewise_comparator" using h by (simp add: holds_updates_def)
  then have cmp: "mem_compare mt = ?cmp" by (simp add: mem_compare_def)
  obtain ks where ks: "mem_order.stands_for_keys (mem_list mt) ks" "set ks = entry_of ` us"
    using h by (auto simp: holds_updates_def)
  have below: "?cmp (entry_of u) ?T < 0 \<longleftrightarrow> key_less (parts_of u) ?t" if "u \<in> us" for u
    using holds_seq [OF h that] by (simp add: key_comparator_def mem_slice_entry T)
  have vis: "visible k s u \<longleftrightarrow> user_key (parts_of u) = k \<and> \<not> key_less (parts_of u) ?t" if "u \<in> us" for u
    using holds_seq [OF h that] visible_order [OF _ s] by (metis visible_def)
  have "bytewise.user_valid (mem_slice ?T)" by (simp add: T user_valid_append)
  obtain p where p: "iter_seek ?cmp (mem_list mt) ?T = Some p"
    "stands_at (mem_list mt) p (dropWhile (\<lambda>k. ?cmp k ?T < 0) ks)"
    using mem_order.iter_seek_ok [OF ks(1) \<open>bytewise.user_valid (mem_slice ?T)\<close>] by (elim exE conjE) (rule that)
  show ?thesis
  proof (cases "dropWhile (\<lambda>k. ?cmp k ?T < 0) ks")
    case Nil
    then have "\<forall>e \<in> set ks. ?cmp e ?T < 0" by (simp only: dropWhile_eq_Nil_conv)
    then have "\<forall>u \<in> us. \<not> visible k s u" using ks(2) below vis by blast
    moreover have "p = None" using p(2) Nil by simp
    then have "mem_get (new_lookup_key k s) val st mt = Some (False, val, st)"
      using p(1) by (simp add: mem_get_def cmp)
    ultimately show ?thesis by blast
  next
    case (Cons e D)
    have "e \<in> set ks" using Cons by (metis list.set_intros(1) set_dropWhileD)
    then obtain u where u: "u \<in> us" "e = entry_of u" using ks(2) by auto
    obtain x where x: "p = Some x" "key_of (mem_list mt) x = entry_of u" using p(2) Cons u(2) by auto
    obtain q t k' v where fields: "u = (q, t, k', v)" by (cases u)
    note ok = holds_seq [OF h u(1)]
    have found: "mem_get (new_lookup_key k s) val st mt = Some (if k' = k then answer u val st else (False, val, st))"
      using ok by (intro answer_entry [OF _ fields user _ x(2)]) (simp_all add: cmp p(1) x(1))
    have head: "\<not> key_less (parts_of u) ?t"
      using below [OF u(1)] hd_dropWhile [of "\<lambda>k. ?cmp k ?T < 0" ks] Cons u(2) by simp
    have first: "parts_of b = parts_of u \<or> key_less (parts_of u) (parts_of b)" if b: "b \<in> us" "visible k s b" for b
    proof -
      note okb = holds_seq [OF h b(1)]
      have "entry_of b \<in> set ks" "\<not> ?cmp (entry_of b) ?T < 0" using b below vis ks(2) by auto
      then have "entry_of b \<in> set (dropWhile (\<lambda>k. ?cmp k ?T < 0) ks)"
        by (metis (no_types, lifting) UnE set_append set_takeWhileD takeWhile_dropWhile_id)
      then consider "entry_of b = entry_of u" | "entry_of b \<in> set D" using Cons u(2) by auto
      then show ?thesis
      proof cases
        case 1
        then have "append_internal_key [] (parts_of b) = append_internal_key [] (parts_of u)"
          using okb ok by (simp flip: mem_slice_entry)
        then show ?thesis using parse_append okb ok by (metis option.inject)
      next
        case 2
        have "sorted_wrt (\<lambda>a b. ?cmp a b < 0) (dropWhile (\<lambda>k. ?cmp k ?T < 0) ks)"
          using mem_order.stands_for_sorted [OF ks(1)] by (metis sorted_wrt_append takeWhile_dropWhile_id)
        then have "?cmp (entry_of u) (entry_of b) < 0" using Cons u(2) 2 by simp
        then show ?thesis using ok okb by (simp add: key_comparator_def mem_slice_entry)
      qed
    qed
    show ?thesis
    proof (cases "k' = k")
      case True
      then have "visible k s u" using vis [OF u(1)] head fields by simp
      moreover have "seq (parts_of b) \<le> seq (parts_of u)" if b: "b \<in> us" "visible k s b" for b
        using first [OF b]
      proof
        assume "key_less (parts_of u) (parts_of b)"
        moreover have "user_key (parts_of b) = user_key (parts_of u)"
          using b(2) True fields by (simp add: visible_def)
        ultimately show ?thesis using ok holds_seq [OF h b(1)] by (auto simp: bytewise_internal_less)
      qed simp
      ultimately show ?thesis using u(1) found True by auto
    next
      case False
      have "\<not> visible k s b" if b: "b \<in> us" for b
      proof
        assume v: "visible k s b"
        then have "user_key (parts_of b) = k" by (simp add: visible_def)
        with first [OF b v] False fields ok holds_seq [OF h b] have "k' < k" by (auto simp: bytewise_internal_less)
        then have "key_less (parts_of u) ?t" using fields ok s by (simp add: bytewise_internal_less)
        with head show False by simp
      qed
      then show ?thesis using found False by simp
    qed
  qed
qed

section \<open>Batches in the table\<close>

text \<open>What a sequence of updates makes of a key: nothing, a deletion or a value.\<close>

definition replay_op :: "batch_op \<Rightarrow> (slice \<rightharpoonup> slice option) \<Rightarrow> (slice \<rightharpoonup> slice option)" where
  "replay_op op m = (case op of batch_op_put k v \<Rightarrow> m(k \<mapsto> Some v) | batch_op_delete k \<Rightarrow> m(k \<mapsto> None))"

definition replay :: "batch_op list \<Rightarrow> (slice \<rightharpoonup> slice option)" where
  "replay ops = fold replay_op ops Map.empty"

fun op_key :: "batch_op \<Rightarrow> slice" where
  "op_key (batch_op_put k v) = k" | "op_key (batch_op_delete k) = k"

fun op_effect :: "batch_op \<Rightarrow> slice option" where
  "op_effect (batch_op_put k v) = Some v" | "op_effect (batch_op_delete k) = None"

lemma replay_snoc: "replay (ops @ [op]) k = (if op_key op = k then Some (op_effect op) else replay ops k)"
  by (cases op) (auto simp: replay_def replay_op_def)

lemma replay_none: "\<forall>op \<in> set ops. op_key op \<noteq> k \<Longrightarrow> replay ops k = None"
  by (induction ops rule: rev_induct) (simp_all add: replay_snoc, simp add: replay_def)

lemma replay_last:
  "j < length ops \<Longrightarrow> op_key (ops ! j) = k \<Longrightarrow> \<forall>j'. j < j' \<and> j' < length ops \<longrightarrow> op_key (ops ! j') \<noteq> k \<Longrightarrow>
    replay ops k = Some (op_effect (ops ! j))"
proof (induction ops rule: rev_induct)
  case (snoc op ops)
  show ?case
  proof (cases "j = length ops")
    case False
    then have j: "j < length ops" using snoc.prems(1) by simp
    moreover have "op_key op \<noteq> k" using snoc.prems(3) j by (metis length_append_singleton lessI nth_append_length)
    moreover have "\<forall>j'. j < j' \<and> j' < length ops \<longrightarrow> op_key (ops ! j') \<noteq> k"
      using snoc.prems(3) by (auto simp: nth_append)
    ultimately show ?thesis using snoc.IH snoc.prems(2) by (simp add: replay_snoc nth_append)
  qed (use snoc.prems(2) in \<open>simp add: replay_snoc\<close>)
qed simp

lemma mem_add_all_ok:
  assumes "holds_updates mt us" "\<forall>u \<in> set calls. update_ok u" "distinct (map fst calls)"
    "\<forall>u \<in> us. fst u \<notin> fst ` set calls"
  shows "\<exists>mt'. mem_add_all calls mt = Some mt' \<and> holds_updates mt' (us \<union> set calls)"
  using assms
proof (induction calls arbitrary: mt us)
  case (Cons u calls)
  obtain s t k v where u: "u = (s, t, k, v)" by (cases u)
  have "\<forall>u' \<in> us. fst u' \<noteq> s" using Cons.prems(4) u by auto
  with mem_add_ok [OF Cons.prems(1) _ u] Cons.prems(2) obtain mt' where mt':
    "mem_add s t k v mt = Some mt'" "holds_updates mt' (insert u us)" by auto
  obtain mt'' where "mem_add_all calls mt' = Some mt''" "holds_updates mt'' (insert u us \<union> set calls)"
    using Cons.IH [OF mt'(2)] Cons.prems(2-4) by auto
  with mt'(1) show ?case by (auto simp: u)
qed auto

fun op_fits :: "batch_op \<Rightarrow> bool" where
  "op_fits (batch_op_put key val) \<longleftrightarrow> length key + 8 < 2 ^ 32 \<and> length val < 2 ^ 32"
| "op_fits (batch_op_delete key) \<longleftrightarrow> length key + 8 < 2 ^ 32"

lemma op_fits_small: "op_fits op \<Longrightarrow> op_small op"
  by (cases op) simp_all

lemma unat_kMax: "unat kMaxSequenceNumber = 2 ^ 56 - 1"
  by (simp add: kMaxSequenceNumber_def)

text \<open>The numbered updates of a batch, one by one.\<close>

lemma numbered:
  assumes "unat s + length ops \<le> 2 ^ 56" "i < length ops"
  shows "unat (fst (inserter_calls s ops ! i)) = unat s + i" "user_key (parts_of (inserter_calls s ops ! i)) = op_key (ops ! i)"
    "seq (parts_of (inserter_calls s ops ! i)) = fst (inserter_calls s ops ! i)"
    "op_fits (ops ! i) \<Longrightarrow> update_ok (inserter_calls s ops ! i)"
    "answer (inserter_calls s ops ! i) val st =
      (case op_effect (ops ! i) of None \<Rightarrow> (True, val, NotFound '''') | Some v \<Rightarrow> (True, v, st))"
proof -
  have "unat (s + word_of_nat i) = unat s + i"
    using assms by (simp add: unat_word_ariths unat_of_nat)
  moreover from this have "s + word_of_nat i \<le> kMaxSequenceNumber"
    using assms by (simp add: word_le_nat_alt unat_kMax)
  ultimately show "unat (fst (inserter_calls s ops ! i)) = unat s + i" "user_key (parts_of (inserter_calls s ops ! i)) = op_key (ops ! i)"
    "seq (parts_of (inserter_calls s ops ! i)) = fst (inserter_calls s ops ! i)"
    "op_fits (ops ! i) \<Longrightarrow> update_ok (inserter_calls s ops ! i)"
    "answer (inserter_calls s ops ! i) val st =
      (case op_effect (ops ! i) of None \<Rightarrow> (True, val, NotFound '''') | Some v \<Rightarrow> (True, v, st))"
    using assms(2) by (cases "ops ! i"; simp add: inserter_calls_nth)+
qed

lemma insert_into_ok:
  assumes "\<forall>op \<in> set ops. op_fits op" "unat s + length ops \<le> 2 ^ 56"
  shows "\<exists>mt. insert_into (batch_of s ops) (new_mem_table bytewise_comparator) = Some (OK, mt) \<and>
    holds_updates mt (set (inserter_calls s ops))"
proof -
  let ?calls = "inserter_calls s ops"
  have "\<forall>op \<in> set ops. op_small op" using assms(1) op_fits_small by blast
  then have "batch_insert_into (batch_of s ops) = (OK, ?calls)"
    using batch_iterate_of by (simp add: batch_insert_into_def)
  moreover have "\<forall>u \<in> set ?calls. update_ok u"
    using numbered(4) [OF assms(2)] assms(1) by (simp add: all_set_conv_all_nth)
  moreover have "distinct (map fst ?calls)"
    unfolding distinct_conv_nth using numbered(1) [OF assms(2)] by (auto simp: word_unat_eq_iff)
  ultimately show ?thesis using mem_add_all_ok [OF new_mem_table_holds, of ?calls] by (auto simp: insert_into_def)
qed

lemma table_answers:
  assumes h: "holds_updates mt (set (inserter_calls s ops))" and n: "unat s + length ops \<le> 2 ^ 56"
    and i: "i < length ops" and k: "length k + 8 < 2 ^ 32"
  shows "mem_get (new_lookup_key k (s + word_of_nat i)) val st mt =
    Some (case replay (take (Suc i) ops) k of
        None \<Rightarrow> (False, val, st) | Some None \<Rightarrow> (True, val, NotFound '''') | Some (Some v) \<Rightarrow> (True, v, st))"
proof -
  let ?calls = "inserter_calls s ops" and ?s = "s + word_of_nat i"
  have s: "unat ?s = unat s + i" using n i by (simp add: unat_word_ariths unat_of_nat)
  have le: "?s \<le> kMaxSequenceNumber" using n i by (simp add: word_le_nat_alt unat_kMax s)
  have vis: "visible k ?s (?calls ! j) \<longleftrightarrow> op_key (ops ! j) = k \<and> j \<le> i" if "j < length ops" for j
    using numbered [OF n that] by (simp add: visible_def word_le_nat_alt s)
  from mem_get_ok [OF h k le, of val st] show ?thesis
  proof
    assume none: "(\<forall>u \<in> set ?calls. \<not> visible k ?s u) \<and> mem_get (new_lookup_key k ?s) val st mt = Some (False, val, st)"
    have "op_key op \<noteq> k" if op: "op \<in> set (take (Suc i) ops)" for op
    proof -
      obtain j where j: "op = ops ! j" "j < Suc i" "j < length ops" using op unfolding in_set_conv_nth by fastforce
      then have "?calls ! j \<in> set ?calls" by simp
      with none vis [OF j(3)] j show ?thesis by auto
    qed
    then show ?thesis using none replay_none [of "take (Suc i) ops" k] by simp
  next
    assume "\<exists>u \<in> set ?calls. visible k ?s u \<and> (\<forall>u' \<in> set ?calls. visible k ?s u' \<longrightarrow> seq (parts_of u') \<le> seq (parts_of u)) \<and>
      mem_get (new_lookup_key k ?s) val st mt = Some (answer u val st)"
    then obtain j where j: "j < length ops" "visible k ?s (?calls ! j)"
      "\<forall>u' \<in> set ?calls. visible k ?s u' \<longrightarrow> seq (parts_of u') \<le> seq (parts_of (?calls ! j))"
      "mem_get (new_lookup_key k ?s) val st mt = Some (answer (?calls ! j) val st)"
      by (auto simp: in_set_conv_nth)
    note v = j(2) [unfolded vis [OF j(1)]]
    have "op_key (ops ! j') \<noteq> k" if "j < j'" "j' < Suc i" "j' < length ops" for j'
    proof
      assume "op_key (ops ! j') = k"
      then have "seq (parts_of (?calls ! j')) \<le> seq (parts_of (?calls ! j))"
        using j(3) vis [OF that(3)] that by simp
      then show False using that(1) numbered(1,3) [OF n that(3)] numbered(1,3) [OF n j(1)] by (simp add: word_le_nat_alt)
    qed
    then have "replay (take (Suc i) ops) k = Some (op_effect (ops ! j))"
      using replay_last [of j "take (Suc i) ops" k] v j(1) by simp
    then show ?thesis using j(4) numbered(5) [OF n j(1)] by (simp split: option.splits)
  qed
qed

end
