(* ===== verification/LdbBlock.thy ===== *)
theory LdbBlock
  imports LdbKey LdbFile
begin

text \<open>
  Blocks of a table (\<^verbatim>\<open>table/block_builder.cc\<close>, \<^verbatim>\<open>table/block.cc\<close>): sorted entries, each key without
  the prefix it shares with the one before, and an array of restart points where keys are
  complete. Offsets and sizes are \<^verbatim>\<open>uint32_t\<close>s in the code; here they are natural numbers, reduced
  modulo \<open>2 ^ 32\<close> where the code computes them. A loop that such a reduction could keep from
  ending is a \<open>partial_function (option)\<close>.
\<close>

section \<open>The builder\<close>

record block_builder =
  block_buffer :: slice
  restart_points :: "u32 list"
  restart_counter :: int
  block_finished :: bool
  last_key :: slice

definition new_block_builder :: block_builder where
  "new_block_builder = \<lparr>block_buffer = [], restart_points = [0], restart_counter = 0, block_finished = False, last_key = []\<rparr>"

definition builder_reset :: "block_builder \<Rightarrow> block_builder" where
  "builder_reset b =
    b\<lparr>block_buffer := [], restart_points := [0], restart_counter := 0, block_finished := False, last_key := []\<rparr>"

definition current_size_estimate :: "block_builder \<Rightarrow> nat" where
  "current_size_estimate b = length (block_buffer b) + length (restart_points b) * 4 + 4"

definition builder_finish :: "block_builder \<Rightarrow> slice \<times> block_builder" where
  "builder_finish b =
    (let buf = fold (\<lambda>r buf. put_fixed32 buf r) (restart_points b) (block_buffer b);
         buf = put_fixed32 buf (word_of_nat (length (restart_points b)))
     in (buf, b\<lparr>block_buffer := buf, block_finished := True\<rparr>))"

text \<open>The loop that finds the shared prefix is the one of \<^verbatim>\<open>FindShortestSeparator\<close>.\<close>

definition builder_add :: "int \<Rightarrow> slice \<Rightarrow> slice \<Rightarrow> block_builder \<Rightarrow> block_builder" where
  "builder_add block_restart_interval key val b =
    (let (shared, b) =
       (if restart_counter b < block_restart_interval then (diff_loop (last_key b) key 0, b)
        else (0, b\<lparr>restart_points := restart_points b @ [word_of_nat (length (block_buffer b))], restart_counter := 0\<rparr>));
       non_shared = length key - shared;
       buf = put_varint32 (block_buffer b) (word_of_nat shared);
       buf = put_varint32 buf (word_of_nat non_shared);
       buf = put_varint32 buf (word_of_nat (length val));
       buf = buf @ take non_shared (drop shared key);
       buf = buf @ val
     in b\<lparr>block_buffer := buf, last_key := take shared (last_key b) @ take non_shared (drop shared key),
          restart_counter := restart_counter b + 1\<rparr>)"

section \<open>Reading a block\<close>

text \<open>A size of 0 marks a block as bad.\<close>

record block =
  block_data :: slice
  block_size :: nat
  restart_offset :: nat

definition read_num_restarts :: "slice \<Rightarrow> nat \<Rightarrow> nat" where
  "read_num_restarts data n_bytes = unat (decode_fixed32 (drop (n_bytes - 4) data))"

definition new_block :: "slice \<Rightarrow> block" where
  "new_block contents =
    (let n_bytes = length contents in
     if n_bytes < 4 then \<lparr>block_data = contents, block_size = 0, restart_offset = 0\<rparr>
     else let max_restarts_allowed = (n_bytes - 4) div 4;
              n = read_num_restarts contents n_bytes
          in if max_restarts_allowed < n then \<lparr>block_data = contents, block_size = 0, restart_offset = 0\<rparr>
             else \<lparr>block_data = contents, block_size = n_bytes,
                   restart_offset = (n_bytes - (1 + n) mod 2 ^ 32 * 4) mod 2 ^ 32\<rparr>)"

text \<open>
  An entry from \<open>p\<close> up to the limit: the three numbers in front of it and the bytes behind them.
  The sum of the two lengths is a sum of 32 bits.
\<close>

definition decode_entry :: "u8 list \<Rightarrow> (u32 \<times> u32 \<times> u32 \<times> u8 list) option" where
  "decode_entry p =
    (if length p < 3 then None
     else let shared = ucast (p ! 0); non_shared = ucast (p ! 1); value_length = ucast (p ! 2);
              parsed =
                (if shared OR non_shared OR value_length < 128
                 then Some (shared, non_shared, value_length, drop 3 p)
                 else case get_varint32_ptr p of
                     None \<Rightarrow> None
                   | Some (shared, p) \<Rightarrow> (case get_varint32_ptr p of
                         None \<Rightarrow> None
                       | Some (non_shared, p) \<Rightarrow> (case get_varint32_ptr p of
                             None \<Rightarrow> None
                           | Some (value_length, p) \<Rightarrow> Some (shared, non_shared, value_length, p))))
          in case parsed of
               None \<Rightarrow> None
             | Some (shared, non_shared, value_length, p) \<Rightarrow>
                 if word_of_nat (length p) < non_shared + value_length then None
                 else Some (shared, non_shared, value_length, p))"

section \<open>The iterator of a block\<close>

text \<open>The value is a slice of the data: its offset and its size.\<close>

record block_iter =
  iter_data :: slice
  iter_restarts :: nat
  num_restarts :: nat
  current_at :: nat
  restart_index :: nat
  iter_key :: slice
  value_at :: nat
  value_size :: nat
  iter_status :: status

definition new_block_iter :: "slice \<Rightarrow> nat \<Rightarrow> nat \<Rightarrow> block_iter" where
  "new_block_iter data r n = \<lparr>iter_data = data, iter_restarts = r, num_restarts = n, current_at = r,
     restart_index = n, iter_key = [], value_at = 0, value_size = 0, iter_status = OK\<rparr>"

definition block_valid :: "block_iter \<Rightarrow> bool" where
  "block_valid it \<longleftrightarrow> current_at it < iter_restarts it"

definition block_value :: "block_iter \<Rightarrow> slice" where
  "block_value it = take (value_size it) (drop (value_at it) (iter_data it))"

definition next_entry_offset :: "block_iter \<Rightarrow> nat" where
  "next_entry_offset it = (value_at it + value_size it) mod 2 ^ 32"

definition get_restart_point :: "block_iter \<Rightarrow> nat \<Rightarrow> nat" where
  "get_restart_point it index = unat (decode_fixed32 (drop (iter_restarts it + index * 4) (iter_data it)))"

definition seek_to_restart_point :: "nat \<Rightarrow> block_iter \<Rightarrow> block_iter" where
  "seek_to_restart_point index it =
    it\<lparr>iter_key := [], restart_index := index, value_at := get_restart_point it index, value_size := 0\<rparr>"

definition corruption_error :: "block_iter \<Rightarrow> block_iter" where
  "corruption_error it = it\<lparr>current_at := iter_restarts it, restart_index := num_restarts it,
     iter_status := Corruption ''bad entry in block'', iter_key := [], value_at := 0, value_size := 0\<rparr>"

function advance_restart :: "block_iter \<Rightarrow> block_iter" where
  "advance_restart it =
    (if restart_index it + 1 < num_restarts it \<and> get_restart_point it (restart_index it + 1) < current_at it
     then advance_restart (it\<lparr>restart_index := restart_index it + 1\<rparr>) else it)"
  by auto
termination by (relation "measure (\<lambda>it. num_restarts it - restart_index it)") auto

declare advance_restart.simps [simp del]

definition parse_next_key :: "block_iter \<Rightarrow> bool \<times> block_iter" where
  "parse_next_key it =
    (let it = it\<lparr>current_at := next_entry_offset it\<rparr> in
     if iter_restarts it \<le> current_at it
     then (False, it\<lparr>current_at := iter_restarts it, restart_index := num_restarts it\<rparr>)
     else case decode_entry (take (iter_restarts it - current_at it) (drop (current_at it) (iter_data it))) of
         None \<Rightarrow> (False, corruption_error it)
       | Some (shared, non_shared, value_length, p) \<Rightarrow>
           if length (iter_key it) < unat shared then (False, corruption_error it)
           else let p_at = iter_restarts it - length p
                in (True, advance_restart
                     (it\<lparr>iter_key := take (unat shared) (iter_key it) @ take (unat non_shared) (drop p_at (iter_data it)),
                        value_at := p_at + unat non_shared, value_size := unat value_length\<rparr>)))"

definition block_next :: "block_iter \<Rightarrow> block_iter" where
  "block_next it = snd (parse_next_key it)"

definition block_seek_to_first :: "block_iter \<Rightarrow> block_iter" where
  "block_seek_to_first it = snd (parse_next_key (seek_to_restart_point 0 it))"

partial_function (option) skip_to_end :: "block_iter \<Rightarrow> block_iter option" where
  "skip_to_end it =
    (let (more, it) = parse_next_key it in
     if more \<and> next_entry_offset it < iter_restarts it then skip_to_end it else Some it)"

definition block_seek_to_last :: "block_iter \<Rightarrow> block_iter option" where
  "block_seek_to_last it = skip_to_end (seek_to_restart_point (num_restarts it - 1) it)"

text \<open>The two loops of \<^verbatim>\<open>Prev\<close>; the first one answers no index when no restart point is before.\<close>

fun back_to_restart :: "block_iter \<Rightarrow> nat \<Rightarrow> nat \<Rightarrow> nat option" where
  "back_to_restart it original index =
    (if original \<le> get_restart_point it index then
       (case index of 0 \<Rightarrow> None | Suc index \<Rightarrow> back_to_restart it original index)
     else Some index)"

declare back_to_restart.simps [simp del]

partial_function (option) forward_to :: "nat \<Rightarrow> block_iter \<Rightarrow> block_iter option" where
  "forward_to original it =
    (let (more, it) = parse_next_key it in
     if more \<and> next_entry_offset it < original then forward_to original it else Some it)"

definition block_prev :: "block_iter \<Rightarrow> block_iter option" where
  "block_prev it =
    (let original = current_at it in
     case back_to_restart it original (restart_index it) of
       None \<Rightarrow> Some (it\<lparr>current_at := iter_restarts it, restart_index := num_restarts it\<rparr>)
     | Some index \<Rightarrow> forward_to original (seek_to_restart_point index it))"

text \<open>Binary search in the restart points; \<open>Some None\<close> is the return after a corrupt entry.\<close>

partial_function (option) seek_search ::
    "comparator_ops \<Rightarrow> slice \<Rightarrow> block_iter \<Rightarrow> nat \<Rightarrow> nat \<Rightarrow> nat option option" where
  "seek_search cmp target it left right =
    (if left < right then
       let mid = (left + right + 1) mod 2 ^ 32 div 2;
           region_offset = get_restart_point it mid
       in case decode_entry (take (iter_restarts it - region_offset) (drop region_offset (iter_data it))) of
            None \<Rightarrow> Some None
          | Some (shared, non_shared, value_length, p) \<Rightarrow>
              if shared \<noteq> 0 then Some None
              else let mid_key = take (unat non_shared) (drop (iter_restarts it - length p) (iter_data it))
                   in if compare cmp mid_key target < 0 then seek_search cmp target it mid right
                      else seek_search cmp target it left (mid - 1)
     else Some (Some left))"

partial_function (option) seek_linear :: "comparator_ops \<Rightarrow> slice \<Rightarrow> block_iter \<Rightarrow> block_iter option" where
  "seek_linear cmp target it =
    (let (more, it) = parse_next_key it in
     if \<not> more then Some it
     else if 0 \<le> compare cmp (iter_key it) target then Some it
     else seek_linear cmp target it)"

definition block_seek :: "comparator_ops \<Rightarrow> slice \<Rightarrow> block_iter \<Rightarrow> block_iter option" where
  "block_seek cmp target it =
    (case seek_search cmp target it 0 (num_restarts it - 1) of
       None \<Rightarrow> None
     | Some None \<Rightarrow> Some (corruption_error it)
     | Some (Some left) \<Rightarrow> seek_linear cmp target (seek_to_restart_point left it))"

text \<open>The iterator a block hands out: an error, no iterator for an empty block, or one over the entries.\<close>

definition new_iterator :: "block \<Rightarrow> status + block_iter option" where
  "new_iterator b =
    (if block_size b < 4 then Inl (Corruption ''bad block contents'')
     else let n = read_num_restarts (block_data b) (block_size b)
          in if n = 0 then Inr None else Inr (Some (new_block_iter (block_data b) (restart_offset b) n)))"

end
