(* ===== verification/LdbBlockSpec.thy ===== *)
theory LdbBlockSpec
  imports LdbBlock
begin

text \<open>
  What a block holds, and that its iterator walks along it. A block is laid out as a list of
  entries, each with the length of the prefix it shares, and a list of the entries that are
  restart points.
\<close>

section \<open>Entries\<close>

type_synonym block_entry = "nat \<times> slice \<times> slice"

fun enc_entry :: "block_entry \<Rightarrow> slice" where
  "enc_entry (sh, k, v) =
    encode_varint32 (word_of_nat sh) @ encode_varint32 (word_of_nat (length k - sh)) @
    encode_varint32 (word_of_nat (length v)) @ drop sh k @ v"

lemma get_varint32_ptr_encode: "get_varint32_ptr (encode_varint32 v @ rest) = Some (v, rest)"
  using get_varint32_put [of v rest] by (simp add: get_varint32_def split: option.splits prod.splits)

lemma unat_byte [simp]: "unat (ucast (b :: u8) :: u32) = unat b" "unat (ucast b :: u64) = unat b"
proof -
  have "unat b < 2 ^ 32" "unat b < 2 ^ 64" by (rule less_trans [OF unat_u8_less], simp)+
  then show "unat (ucast b :: u32) = unat b" "unat (ucast b :: u64) = unat b"
    unfolding unsigned_ucast_eq by (simp_all add: take_bit_nat_eq_self del: unat_u8_less)
qed

lemma get_varint32_ptr_byte:
  assumes "b < 128"
  shows "get_varint32_ptr (b # p) = Some (ucast b, p)"
proof -
  have "ucast b < (128 :: u64)" using assms by (simp add: word_less_nat_alt)
  then have "\<not> bit b 7" using small_bits [of "ucast b" 7] by (auto simp: bit_ucast_iff)
  then have "(ucast b :: u32) AND 128 = 0"
    by (intro bit_word_eqI) (unfold bit_and_iff bit_ucast_iff bit_group_consts, auto)
  then show ?thesis by (simp add: get_varint32_ptr_def Let_def)
qed

lemma or_small: "(a OR b :: 'a::len word) < c \<Longrightarrow> a < c \<and> b < c"
  by (metis le_less_trans le_word_or1 le_word_or2)

text \<open>The fast path for three short numbers is a special case of the slow one.\<close>

lemma decode_entry_slow:
  assumes "3 \<le> length p" "get_varint32_ptr p = Some (a, p1)" "get_varint32_ptr p1 = Some (b, p2)"
    "get_varint32_ptr p2 = Some (c, p3)"
  shows "decode_entry p = (if word_of_nat (length p3) < b + c then None else Some (a, b, c, p3))"
proof (cases "(ucast (p ! 0) OR ucast (p ! 1) OR ucast (p ! 2) :: u32) < 128")
  case True
  obtain x y z r where p: "p = x # y # z # r" using assms(1) by (auto simp: Suc_le_length_iff numeral_3_eq_3)
  have w: "w < 128" if "(ucast w :: u32) < 128" for w :: u8
    using that by (simp add: word_less_nat_alt)
  have "x < 128" "y < 128" "z < 128"
    using or_small [OF True] or_small [of "ucast (p ! 1)" "ucast (p ! 2)" 128] by (auto simp: p intro!: w)
  then have "a = ucast x" "p1 = y # z # r" using assms(2) by (simp_all add: p get_varint32_ptr_byte)
  moreover from this have "b = ucast y" "p2 = z # r" using assms(3) \<open>y < 128\<close> by (simp_all add: get_varint32_ptr_byte)
  moreover from this have "c = ucast z" "p3 = r" using assms(4) \<open>z < 128\<close> by (simp_all add: get_varint32_ptr_byte)
  ultimately show ?thesis using True by (simp add: p decode_entry_def Let_def)
next
  case False
  then show ?thesis using assms by (simp add: decode_entry_def Let_def)
qed

text \<open>
  The bound is checked on a sum of 32 bits: lengths that wrap around pass, and the key would be
  read past the end of the block. A checksum protects the blocks that are read from files.
\<close>

lemma decode_entry_overrun:
  "\<exists>p shared non_shared value_length q. decode_entry p = Some (shared, non_shared, value_length, q) \<and>
     length q < unat non_shared"
proof -
  have "decode_entry [0, 0xff, 0xff, 0xff, 0xff, 0x0f, 2, 0x41] = Some (0, 0xffffffff, 2, [0x41])"
    by (simp add: decode_entry_def get_varint32_ptr_def get_varint32_ptr_fallback_def Let_def push_bit_eq_mult)
  then show ?thesis by (intro exI conjI) (assumption, simp)
qed

lemma encode_varint32_not_empty [simp]: "encode_varint32 v \<noteq> []"
  by (simp add: encode_varint32_def Let_def)

lemma length_enc_entry: "3 + (length k - sh) + length v \<le> length (enc_entry (sh, k, v))"
proof -
  have "1 \<le> length (encode_varint32 w)" for w by (simp add: Suc_le_eq)
  from this [of "word_of_nat sh"] this [of "word_of_nat (length k - sh)"] this [of "word_of_nat (length v)"]
  show ?thesis by simp
qed

lemma decode_enc_entry:
  assumes "length (enc_entry (sh, k, v) @ rest) < 2 ^ 32"
  shows "decode_entry (enc_entry (sh, k, v) @ rest) =
    Some (word_of_nat sh, word_of_nat (length k - sh), word_of_nat (length v), drop sh k @ v @ rest)"
proof -
  have "length (drop sh k @ v @ rest) < 2 ^ 32" using assms by simp
  moreover from this have "\<not> word_of_nat (length (drop sh k @ v @ rest)) < (word_of_nat (length k - sh) + word_of_nat (length v) :: u32)"
    by (simp add: word_less_nat_alt unat_of_nat flip: of_nat_add del: of_nat_diff)
  ultimately show ?thesis
    using decode_entry_slow [of "enc_entry (sh, k, v) @ rest" "word_of_nat sh" _ "word_of_nat (length k - sh)" _
        "word_of_nat (length v)" "drop sh k @ v @ rest"] length_enc_entry [of k sh v]
    by (simp add: get_varint32_ptr_encode)
qed

section \<open>The layout of a block\<close>

definition shared_at :: "block_entry list \<Rightarrow> nat \<Rightarrow> nat" where "shared_at E i = fst (E ! i)"
definition key_at :: "block_entry list \<Rightarrow> nat \<Rightarrow> slice" where "key_at E i = fst (snd (E ! i))"
definition val_at :: "block_entry list \<Rightarrow> nat \<Rightarrow> slice" where "val_at E i = snd (snd (E ! i))"

definition key_before :: "block_entry list \<Rightarrow> nat \<Rightarrow> slice" where
  "key_before E i = (case i of 0 \<Rightarrow> [] | Suc j \<Rightarrow> key_at E j)"

definition entries_bytes :: "block_entry list \<Rightarrow> slice" where
  "entries_bytes E = concat (map enc_entry E)"

definition off :: "block_entry list \<Rightarrow> nat \<Rightarrow> nat" where
  "off E i = length (entries_bytes (take i E))"

definition block_bytes :: "block_entry list \<Rightarrow> nat list \<Rightarrow> slice" where
  "block_bytes E R = entries_bytes E @ concat (map (\<lambda>r. encode_fixed32 (word_of_nat (off E r))) R) @
     encode_fixed32 (word_of_nat (length R))"

definition chained :: "block_entry list \<Rightarrow> bool" where
  "chained E \<longleftrightarrow> (\<forall>i < length E. shared_at E i \<le> length (key_at E i) \<and> shared_at E i \<le> length (key_before E i) \<and>
     take (shared_at E i) (key_before E i) = take (shared_at E i) (key_at E i))"

definition restarts_ok :: "block_entry list \<Rightarrow> nat list \<Rightarrow> bool" where
  "restarts_ok E R \<longleftrightarrow> R \<noteq> [] \<and> hd R = 0 \<and> sorted_wrt (<) R \<and>
     (\<forall>r \<in> set R. r = 0 \<or> r < length E \<and> shared_at E r = 0)"

lemma off_0 [simp]: "off E 0 = 0"
  by (simp add: off_def entries_bytes_def)

lemma entries_bytes_append: "entries_bytes (E @ F) = entries_bytes E @ entries_bytes F"
  by (simp add: entries_bytes_def)

lemma off_append [simp]: "i \<le> length E \<Longrightarrow> off (E @ F) i = off E i"
  by (simp add: off_def)

lemma off_Suc: "i < length E \<Longrightarrow> off E (Suc i) = off E i + length (enc_entry (E ! i))"
  by (simp add: off_def take_Suc_conv_app_nth entries_bytes_def)

lemma off_length: "off E (length E) = length (entries_bytes E)"
  by (simp add: off_def)

lemma off_less: "i < j \<Longrightarrow> j \<le> length E \<Longrightarrow> off E i < off E j"
proof (induction j)
  case (Suc j)
  moreover have "0 < length (enc_entry (E ! j))"
    by (cases "E ! j") simp
  ultimately show ?case using off_Suc [of j E] by (cases "i = j") auto
qed simp

lemma off_mono: "i \<le> j \<Longrightarrow> j \<le> length E \<Longrightarrow> off E i \<le> off E j"
  using off_less [of i j E] by (cases "i = j") auto

lemma off_less_iff: "i \<le> length E \<Longrightarrow> j \<le> length E \<Longrightarrow> off E i < off E j \<longleftrightarrow> i < j"
  using off_less [of i j E] off_less [of j i E] by (cases i j rule: linorder_cases) auto

lemma off_eq_iff: "i \<le> length E \<Longrightarrow> j \<le> length E \<Longrightarrow> off E i = off E j \<longleftrightarrow> i = j"
  using off_less [of i j E] off_less [of j i E] by (cases i j rule: linorder_cases) auto

lemma drop_off: "i \<le> length E \<Longrightarrow> drop (off E i) (entries_bytes E) = entries_bytes (drop i E)"
  using entries_bytes_append [of "take i E" "drop i E"] by (simp add: off_def)

lemma drop_entry:
  "i < length E \<Longrightarrow> drop (off E i) (entries_bytes E) = enc_entry (E ! i) @ entries_bytes (drop (Suc i) E)"
  by (simp add: drop_off Cons_nth_drop_Suc [symmetric]) (simp add: entries_bytes_def)

section \<open>The iterator on a block\<close>

text \<open>An iterator over the block of entries \<open>E\<close> and restart points \<open>R\<close>, without errors so far.\<close>

definition iter_on :: "block_entry list \<Rightarrow> nat list \<Rightarrow> block_iter \<Rightarrow> bool" where
  "iter_on E R it \<longleftrightarrow> chained E \<and> restarts_ok E R \<and> length (block_bytes E R) < 2 ^ 32 \<and>
     iter_data it = block_bytes E R \<and> iter_restarts it = off E (length E) \<and> num_restarts it = length R \<and>
     iter_status it = OK"

definition iter_at :: "block_entry list \<Rightarrow> nat list \<Rightarrow> nat \<Rightarrow> block_iter \<Rightarrow> bool" where
  "iter_at E R i it \<longleftrightarrow> iter_on E R it \<and> i < length E \<and> current_at it = off E i \<and> iter_key it = key_at E i \<and>
     block_value it = val_at E i \<and> next_entry_offset it = off E (Suc i) \<and> restart_index it < length R"

definition iter_end :: "block_entry list \<Rightarrow> nat list \<Rightarrow> block_iter \<Rightarrow> bool" where
  "iter_end E R it \<longleftrightarrow> iter_on E R it \<and> \<not> block_valid it"

text \<open>Before \<open>ParseNextKey\<close>, with entry \<open>i\<close> next.\<close>

definition iter_ready :: "block_entry list \<Rightarrow> nat list \<Rightarrow> nat \<Rightarrow> block_iter \<Rightarrow> bool" where
  "iter_ready E R i it \<longleftrightarrow> iter_on E R it \<and> i \<le> length E \<and> next_entry_offset it = off E i \<and> restart_index it < length R \<and>
     (i < length E \<longrightarrow> shared_at E i \<le> length (iter_key it) \<and>
       take (shared_at E i) (iter_key it) = take (shared_at E i) (key_at E i))"

lemma iter_at_ready: "iter_at E R i it \<Longrightarrow> iter_ready E R (Suc i) it"
  by (auto simp: iter_at_def iter_ready_def iter_on_def chained_def key_before_def Suc_le_eq)

lemma restart_point:
  assumes "iter_on E R it" "j < length R"
  shows "get_restart_point it j = off E (R ! j)" "R ! j \<le> length E"
proof -
  have small: "length (block_bytes E R) < 2 ^ 32" using assms(1) by (simp add: iter_on_def)
  have "R ! j \<in> set R" using assms(2) by simp
  then show r: "R ! j \<le> length E" using assms(1) unfolding iter_on_def restarts_ok_def by fastforce
  then have "off E (R ! j) \<le> off E (length E)" using off_less_iff [of "length E" E "R ! j"] by (simp add: not_less [symmetric])
  then have "off E (R ! j) < 2 ^ 32" using small by (simp add: block_bytes_def off_length)
  moreover have "drop (off E (length E) + j * 4) (block_bytes E R) =
      encode_fixed32 (word_of_nat (off E (R ! j))) @ drop (Suc j * 4)
        (concat (map (\<lambda>r. encode_fixed32 (word_of_nat (off E r))) R) @ encode_fixed32 (word_of_nat (length R)))"
    using drop_fixed32s [OF assms(2)] by (simp add: block_bytes_def off_length)
  ultimately show "get_restart_point it j = off E (R ! j)"
    using assms(1) by (simp add: get_restart_point_def iter_on_def unat_of_nat)
qed

section \<open>Steps of the iterator\<close>

lemma advance_restart_fields:
  "iter_data (advance_restart it) = iter_data it \<and> iter_restarts (advance_restart it) = iter_restarts it \<and>
   num_restarts (advance_restart it) = num_restarts it \<and> current_at (advance_restart it) = current_at it \<and>
   iter_key (advance_restart it) = iter_key it \<and> value_at (advance_restart it) = value_at it \<and>
   value_size (advance_restart it) = value_size it \<and> iter_status (advance_restart it) = iter_status it \<and>
   (restart_index it < num_restarts it \<longrightarrow> restart_index (advance_restart it) < num_restarts it)"
proof (induction it rule: advance_restart.induct)
  case (1 it)
  show ?case
    using "1.IH" by (subst (1 2 3 4 5 6 7 8 9) advance_restart.simps) (auto simp: get_restart_point_def)
qed

lemma iter_on_update:
  "iter_on E R (it\<lparr>current_at := c\<rparr>) = iter_on E R it" "iter_on E R (it\<lparr>restart_index := j\<rparr>) = iter_on E R it"
  "iter_on E R (it\<lparr>iter_key := k\<rparr>) = iter_on E R it" "iter_on E R (it\<lparr>value_at := a\<rparr>) = iter_on E R it"
  "iter_on E R (it\<lparr>value_size := n\<rparr>) = iter_on E R it" "iter_on E R (advance_restart it) = iter_on E R it"
  by (simp_all add: iter_on_def advance_restart_fields)

lemma parse_at_end:
  assumes "iter_ready E R (length E) it"
  shows "fst (parse_next_key it) = False" "iter_end E R (snd (parse_next_key it))"
  using assms by (simp_all add: parse_next_key_def Let_def iter_ready_def iter_end_def block_valid_def iter_on_def)

lemma length_key_at: "chained E \<Longrightarrow> i < length E \<Longrightarrow> length (key_at E i) \<le> off E (Suc i)"
proof (induction i)
  case 0
  then show ?case using off_Suc [of 0 E] length_enc_entry [of "key_at E 0" "shared_at E 0" "val_at E 0"]
    by (auto simp: chained_def key_before_def key_at_def shared_at_def val_at_def simp del: enc_entry.simps dest!: spec [of _ 0])
next
  case (Suc i)
  have "shared_at E (Suc i) \<le> length (key_at E i)"
    using Suc.prems by (auto simp: chained_def key_before_def)
  then show ?case using Suc off_Suc [of "Suc i" E]
      length_enc_entry [of "key_at E (Suc i)" "shared_at E (Suc i)" "val_at E (Suc i)"]
    by (simp add: key_at_def shared_at_def val_at_def del: enc_entry.simps)
qed

text \<open>What decoding finds at an entry: its numbers, and behind them the key delta and the value.\<close>

lemma decode_at:
  assumes on: "iter_on E R it" and i: "i < length E"
  defines "sh \<equiv> shared_at E i" and "n \<equiv> length (drop (shared_at E i) (key_at E i))" and "v \<equiv> val_at E i"
  obtains p where "decode_entry (take (iter_restarts it - off E i) (drop (off E i) (iter_data it))) =
      Some (word_of_nat sh, word_of_nat n, word_of_nat (length v), p)"
    and "take n (drop (iter_restarts it - length p) (iter_data it)) = drop sh (key_at E i)"
    and "take (length v) (drop (iter_restarts it - length p + n) (iter_data it)) = v"
    and "iter_restarts it - length p + n + length v = off E (Suc i)"
    and "sh < 2 ^ 32" "n < 2 ^ 32" "length v < 2 ^ 32"
proof -
  have ch: "chained E" using on by (simp add: iter_on_def)
  have small: "off E (length E) < 2 ^ 32" using on by (simp add: iter_on_def block_bytes_def off_length)
  have offs: "off E i < off E (length E)" "off E (Suc i) \<le> off E (length E)"
    using off_less [OF i, of E] off_mono [of "Suc i" "length E" E] i by simp_all
  define d where "d = drop sh (key_at E i)"
  have n: "n = length d" "length (key_at E i) - sh = n" by (simp_all add: n_def d_def sh_def)
  define hdr where "hdr = encode_varint32 (word_of_nat sh) @ encode_varint32 (word_of_nat n) @
      encode_varint32 (word_of_nat (length v))"
  define rest where "rest = entries_bytes (drop (Suc i) E)"
  have e: "E ! i = (sh, key_at E i, v)" by (simp add: sh_def v_def shared_at_def key_at_def val_at_def)
  then have enc: "enc_entry (E ! i) = hdr @ d @ v" by (simp add: hdr_def d_def n(2) del: of_nat_diff)
  define pre where "pre = take (off E i) (entries_bytes E)"
  define tail where "tail = concat (map (\<lambda>r. encode_fixed32 (word_of_nat (off E r))) R) @ encode_fixed32 (word_of_nat (length R))"
  have split: "entries_bytes E = pre @ hdr @ d @ v @ rest"
    using drop_entry [OF i] append_take_drop_id [of "off E i" "entries_bytes E"] by (simp add: enc rest_def pre_def)
  then have "block_bytes E R = pre @ hdr @ d @ v @ rest @ tail"
    by (simp add: block_bytes_def tail_def)
  then have data: "iter_data it = pre @ hdr @ d @ v @ rest @ tail" using on by (simp add: iter_on_def)
  have pre: "length pre = off E i" using offs(1) by (simp add: pre_def off_length)
  then have total: "iter_restarts it = off E i + length hdr + n + length v + length rest"
    using on unfolding iter_on_def off_length split by (simp add: n)
  have suc: "off E (Suc i) = off E i + length hdr + n + length v" using off_Suc [OF i] by (simp add: enc n)
  have le: "sh \<le> length (key_at E i)" using ch i by (simp add: chained_def sh_def)
  have sizes: "sh < 2 ^ 32" "n < 2 ^ 32" "length v < 2 ^ 32"
    using le length_key_at [OF ch i] n(2) suc offs(2) small by linarith+
  let ?p = "d @ v @ rest"
  have at: "iter_restarts it - length ?p = off E i + length hdr" using total by (simp add: n)
  have "take (iter_restarts it - off E i) (drop (off E i) (iter_data it)) = hdr @ ?p"
    using total pre by (simp add: data n)
  moreover have "decode_entry (hdr @ ?p) = Some (word_of_nat sh, word_of_nat n, word_of_nat (length v), ?p)"
  proof -
    have "length (enc_entry (sh, key_at E i, v)) = length hdr + n + length v"
      using arg_cong [OF enc, of length] unfolding e by (simp add: n(1) del: enc_entry.simps)
    then have len: "length (enc_entry (sh, key_at E i, v) @ rest) < 2 ^ 32"
      using total on small by (simp add: iter_on_def del: enc_entry.simps)
    have "enc_entry (sh, key_at E i, v) @ rest = hdr @ ?p" using enc unfolding e by simp
    then show ?thesis using decode_enc_entry [OF len] n(2) by (simp only: d_def)
  qed
  ultimately have decode: "decode_entry (take (iter_restarts it - off E i) (drop (off E i) (iter_data it))) =
      Some (word_of_nat sh, word_of_nat n, word_of_nat (length v), ?p)" by simp
  show ?thesis
  proof (rule that [OF decode])
    show "take n (drop (iter_restarts it - length ?p) (iter_data it)) = drop sh (key_at E i)"
      using pre unfolding at by (simp add: data n flip: d_def)
    show "take (length v) (drop (iter_restarts it - length ?p + n) (iter_data it)) = v"
      using pre unfolding at by (simp add: data n)
    show "iter_restarts it - length ?p + n + length v = off E (Suc i)" unfolding at suc by simp
  qed (use sizes in auto)
qed

lemma parse_entry:
  assumes ready: "iter_ready E R i it" and i: "i < length E"
  shows "fst (parse_next_key it) = True" "iter_at E R i (snd (parse_next_key it))"
proof -
  note on = ready [unfolded iter_ready_def, THEN conjunct1]
  let ?sh = "shared_at E i" and ?n = "length (drop (shared_at E i) (key_at E i))" and ?v = "val_at E i"
  obtain p where decode: "decode_entry (take (iter_restarts it - off E i) (drop (off E i) (iter_data it))) =
      Some (word_of_nat ?sh, word_of_nat ?n, word_of_nat (length ?v), p)"
    and key: "take ?n (drop (iter_restarts it - length p) (iter_data it)) = drop ?sh (key_at E i)"
    and val: "take (length ?v) (drop (iter_restarts it - length p + ?n) (iter_data it)) = ?v"
    and suc: "iter_restarts it - length p + ?n + length ?v = off E (Suc i)"
    and sizes: "?sh < 2 ^ 32" "?n < 2 ^ 32" "length ?v < 2 ^ 32"
    by (rule decode_at [OF on i])
  define n where "n = ?n"
  define it' where "it' = it\<lparr>current_at := off E i, iter_key := take ?sh (iter_key it) @ drop ?sh (key_at E i),
      value_at := iter_restarts it - length p + n, value_size := length ?v\<rparr>"
  have small: "off E (length E) < 2 ^ 32" using on by (simp add: iter_on_def block_bytes_def off_length)
  have offs: "off E i < off E (length E)" "off E (Suc i) \<le> off E (length E)"
    using off_less [OF i, of E] off_mono [of "Suc i" "length E" E] i by simp_all
  have "parse_next_key it = (True, advance_restart it')"
  proof -
    have words: "unat (word_of_nat ?sh :: u32) = ?sh" "unat (word_of_nat n :: u32) = n" "unat (word_of_nat (length ?v) :: u32) = length ?v"
      using sizes(1,3) sizes(2) [folded n_def] by (simp_all add: unat_of_nat)
    have fields: "next_entry_offset it = off E i" "off E i < iter_restarts it" "?sh \<le> length (iter_key it)"
      using ready offs(1) i on by (simp_all add: iter_ready_def iter_on_def)
    show ?thesis
      unfolding parse_next_key_def Let_def fields(1)
      using fields(2,3) decode [folded n_def] key [folded n_def] words by (simp add: it'_def)
  qed
  moreover have "iter_at E R i (advance_restart it')"
  proof -
    have "iter_on E R it'" using on by (simp add: it'_def iter_on_def)
    moreover have "take ?sh (iter_key it) @ drop ?sh (key_at E i) = key_at E i"
      using ready i by (simp add: iter_ready_def)
    moreover have "block_value it' = ?v" "next_entry_offset it' = off E (Suc i)"
      using val [folded n_def] suc [folded n_def] offs(2) small by (simp_all add: block_value_def next_entry_offset_def it'_def)
    moreover have "restart_index it' < num_restarts it'" using ready on by (simp add: it'_def iter_ready_def iter_on_def)
    ultimately show ?thesis
      using i advance_restart_fields [of it'] on
      by (simp add: iter_at_def iter_on_update block_value_def next_entry_offset_def) (simp add: it'_def iter_on_def)
  qed
  ultimately show "fst (parse_next_key it) = True" "iter_at E R i (snd (parse_next_key it))" by simp_all
qed

lemma ready_restart:
  assumes "iter_on E R it" "j < length R"
  shows "iter_ready E R (R ! j) (seek_to_restart_point j it)"
proof -
  have "off E (R ! j) \<le> off E (length E)" using off_mono restart_point(2) [OF assms] by simp
  moreover have "off E (length E) < 2 ^ 32" using assms(1) by (simp add: iter_on_def block_bytes_def off_length)
  moreover have "R ! j \<in> set R" using assms(2) by simp
  then have "R ! j < length E \<Longrightarrow> shared_at E (R ! j) = 0"
    using assms(1) by (fastforce simp: iter_on_def restarts_ok_def chained_def key_before_def)
  ultimately show ?thesis
    using assms restart_point [OF assms]
    by (simp add: iter_ready_def seek_to_restart_point_def iter_on_update next_entry_offset_def)
qed

text \<open>A step from entry to entry, or to the end.\<close>

definition iter_reach :: "block_entry list \<Rightarrow> nat list \<Rightarrow> nat \<Rightarrow> block_iter \<Rightarrow> bool" where
  "iter_reach E R i it \<longleftrightarrow> (if i < length E then iter_at E R i it else iter_end E R it)"

lemma parse_reach: "iter_ready E R i it \<Longrightarrow> iter_reach E R i (snd (parse_next_key it))"
  using parse_entry parse_at_end [of E R it]
  by (cases "i < length E") (auto simp: iter_reach_def iter_ready_def)

lemma parse_more: "iter_ready E R i it \<Longrightarrow> fst (parse_next_key it) \<longleftrightarrow> i < length E"
  using parse_entry(1) parse_at_end(1) [of E R it]
  by (cases "i < length E") (auto simp: iter_ready_def)

lemma next_reach: "iter_at E R i it \<Longrightarrow> iter_reach E R (Suc i) (block_next it)"
  using parse_reach [OF iter_at_ready] by (simp add: block_next_def)

lemma restarts_first: "restarts_ok E R \<Longrightarrow> 0 < length R \<and> R ! 0 = 0"
  by (cases R) (auto simp: restarts_ok_def)

lemma seek_to_first_reach: "iter_on E R it \<Longrightarrow> iter_reach E R 0 (block_seek_to_first it)"
  using parse_reach ready_restart [of E R it 0] restarts_first [of E R]
  by (auto simp: block_seek_to_first_def iter_on_def)

lemma skip_to_end_reach:
  "iter_ready E R i it \<Longrightarrow> \<exists>it'. skip_to_end it = Some it' \<and> (if i < length E then iter_at E R (length E - 1) it' else iter_end E R it')"
proof (induction "length E - i" arbitrary: i it)
  case 0
  then have "\<not> fst (parse_next_key it)" "iter_end E R (snd (parse_next_key it))"
    using parse_more [OF 0(2)] parse_reach [OF 0(2)] by (auto simp: iter_reach_def)
  then show ?case using 0 by (subst skip_to_end.simps) (simp add: Let_def split_beta)
next
  case (Suc d)
  then have i: "i < length E" by simp
  let ?it = "snd (parse_next_key it)"
  have at: "fst (parse_next_key it)" "iter_at E R i ?it" using parse_entry [OF Suc.prems i] by simp_all
  then have off: "next_entry_offset ?it = off E (Suc i)" "iter_restarts ?it = off E (length E)"
    by (simp_all add: iter_at_def iter_on_def)
  show ?case
  proof (cases "Suc i < length E")
    case True
    then have "skip_to_end it = skip_to_end ?it"
      using at(1) off off_less [of "Suc i" "length E" E] by (subst skip_to_end.simps) (simp add: Let_def split_beta)
    then show ?thesis using Suc.hyps(1) [OF _ iter_at_ready [OF at(2)]] Suc.hyps(2) True by auto
  next
    case False
    then have "length E = Suc i" using i by simp
    then show ?thesis using at off by (subst skip_to_end.simps) (auto simp: Let_def split_beta)
  qed
qed

lemma seek_to_last_reach:
  assumes on: "iter_on E R it"
  shows "\<exists>it'. block_seek_to_last it = Some it' \<and> (if E = [] then iter_end E R it' else iter_at E R (length E - 1) it')"
proof -
  have ok: "restarts_ok E R" and R: "R \<noteq> []" "num_restarts it = length R"
    using on by (auto simp: iter_on_def restarts_ok_def)
  have "R ! (length R - 1) \<in> set R" using R(1) by simp
  then have last: "R ! (length R - 1) < length E \<longleftrightarrow> E \<noteq> []"
    using ok unfolding restarts_ok_def by (metis length_greater_0_conv less_nat_zero_code list.size(3))
  have "length R - 1 < length R" using R(1) by simp
  from skip_to_end_reach [OF ready_restart [OF on this]] show ?thesis
    unfolding block_seek_to_last_def R(2) last by (cases "E = []") auto
qed

text \<open>Going back: from a restart point before entry \<open>i\<close> forward to the entry before \<open>i\<close>.\<close>

lemma forward_to_reach:
  "iter_ready E R j it \<Longrightarrow> j < i \<Longrightarrow> i \<le> length E \<Longrightarrow>
    \<exists>it'. forward_to (off E i) it = Some it' \<and> iter_at E R (i - 1) it'"
proof (induction "i - j" arbitrary: j it)
  case (Suc d)
  let ?it = "snd (parse_next_key it)"
  have at: "fst (parse_next_key it)" "iter_at E R j ?it" using parse_entry [OF Suc.prems(1)] Suc.prems by simp_all
  then have off: "next_entry_offset ?it = off E (Suc j)" by (simp add: iter_at_def)
  show ?case
  proof (cases "Suc j < i")
    case True
    then have "forward_to (off E i) it = forward_to (off E i) ?it"
      using at(1) off off_less [OF True Suc.prems(3)] by (subst forward_to.simps) (simp add: Let_def split_beta)
    then show ?thesis using Suc.hyps(1) [OF _ iter_at_ready [OF at(2)] True] Suc.hyps(2) Suc.prems(3) by auto
  next
    case False
    then have "i = Suc j" using Suc.prems(2) by simp
    then show ?thesis using at off by (subst forward_to.simps) (auto simp: Let_def split_beta)
  qed
qed simp

lemma back_to_restart_result:
  "iter_on E R it \<Longrightarrow> index < length R \<Longrightarrow> i \<le> length E \<Longrightarrow>
    (case back_to_restart it (off E i) index of None \<Rightarrow> i = 0 | Some j \<Rightarrow> j < length R \<and> R ! j < i)"
proof (induction index)
  case 0
  then have "R ! 0 = 0" using restarts_first [of E R] by (simp add: iter_on_def)
  then show ?case using 0 restart_point [OF 0(1,2)] off_less_iff [of 0 E i]
    by (subst back_to_restart.simps) auto
next
  case (Suc index)
  then show ?case using restart_point [OF Suc(2,3)] off_less_iff [of "R ! Suc index" E i]
    by (subst back_to_restart.simps) (auto simp: not_le)
qed

lemma prev_reach:
  assumes at: "iter_at E R i it"
  shows "\<exists>it'. block_prev it = Some it' \<and> (if i = 0 then iter_end E R it' else iter_at E R (i - 1) it')"
proof -
  have on: "iter_on E R it" "restart_index it < length R" "i < length E" "current_at it = off E i"
    using at by (simp_all add: iter_at_def)
  note found = back_to_restart_result [OF on(1,2), of i]
  show ?thesis
  proof (cases "back_to_restart it (off E i) (restart_index it)")
    case None
    then show ?thesis using found on
      by (auto simp: block_prev_def Let_def iter_end_def iter_on_update block_valid_def)
  next
    case (Some j)
    then have j: "j < length R" "R ! j < i" using found on(3) by simp_all
    from forward_to_reach [OF ready_restart [OF on(1) j(1)] j(2)] on(3) Some j(2) show ?thesis
      by (simp add: block_prev_def Let_def on(4))
  qed
qed

section \<open>Seeking\<close>

context comparator
begin

definition keys_sorted :: "block_entry list \<Rightarrow> bool" where
  "keys_sorted E \<longleftrightarrow> (\<forall>i < length E. valid (key_at E i)) \<and>
     (\<forall>i j. i < j \<longrightarrow> j < length E \<longrightarrow> compare ops (key_at E i) (key_at E j) < 0)"

text \<open>All keys before entry \<open>i\<close> are before the target.\<close>

definition keys_before :: "block_entry list \<Rightarrow> slice \<Rightarrow> nat \<Rightarrow> bool" where
  "keys_before E target i \<longleftrightarrow> (\<forall>j < i. compare ops (key_at E j) target < 0)"

lemma keys_before_restart:
  assumes "keys_sorted E" "valid target" "i < length E" "compare ops (key_at E i) target < 0"
  shows "keys_before E target i"
  using assms compare_less_trans unfolding keys_sorted_def keys_before_def
  by (metis less_imp_le order.strict_trans)

lemma seek_search_ok:
  assumes on: "iter_on E R it" and sorted: "keys_sorted E" "valid target"
  shows "left \<le> right \<Longrightarrow> right < length R \<Longrightarrow> keys_before E target (R ! left) \<Longrightarrow>
    \<exists>j < length R. seek_search ops target it left right = Some (Some j) \<and> keys_before E target (R ! j)"
proof (induction "right - left" arbitrary: left right rule: less_induct)
  case less
  show ?case
  proof (cases "left < right")
    case True
    define mid where "mid = (left + right + 1) div 2"
    have mid: "left < mid" "mid \<le> right" "mid < length R" using True less.prems by (auto simp: mid_def)
    have "length R * 4 < 2 ^ 32"
    proof -
      have "length (concat (map (\<lambda>r. encode_fixed32 (word_of_nat (off E r))) R)) = length R * 4" by (induction R) simp_all
      then show ?thesis using on by (simp add: iter_on_def block_bytes_def)
    qed
    then have m: "(left + right + 1) mod 2 ^ 32 div 2 = mid" using True less.prems by (simp add: mid_def)
    have ok: "restarts_ok E R" using on by (simp add: iter_on_def)
    have "R ! 0 < R ! mid" using ok mid unfolding restarts_ok_def by (metis gr0I less_nat_zero_code sorted_wrt_nth_less)
    moreover have "R ! mid \<in> set R" using mid(3) by simp
    ultimately have r: "R ! mid < length E" "shared_at E (R ! mid) = 0"
      using ok unfolding restarts_ok_def by (metis less_nat_zero_code)+
    let ?n = "length (drop (shared_at E (R ! mid)) (key_at E (R ! mid)))"
    obtain p where decode: "decode_entry (take (iter_restarts it - off E (R ! mid)) (drop (off E (R ! mid)) (iter_data it))) =
        Some (word_of_nat (shared_at E (R ! mid)), word_of_nat ?n, word_of_nat (length (val_at E (R ! mid))), p)"
      and key: "take ?n (drop (iter_restarts it - length p) (iter_data it)) = drop (shared_at E (R ! mid)) (key_at E (R ! mid))"
      and n: "?n < 2 ^ 32"
      by (rule decode_at [OF on r(1)])
    have key: "take (unat (word_of_nat (length (key_at E (R ! mid))) :: u32)) (drop (iter_restarts it - length p) (iter_data it)) = key_at E (R ! mid)"
      using key n by (simp add: r(2) unat_of_nat)
    have step: "seek_search ops target it left right =
      (if compare ops (key_at E (R ! mid)) target < 0 then seek_search ops target it mid right
       else seek_search ops target it left (mid - 1))"
      using True decode key by (subst seek_search.simps) (simp add: m [simplified] Let_def restart_point(1) [OF on mid(3)] r(2))
    show ?thesis
    proof (cases "compare ops (key_at E (R ! mid)) target < 0")
      case True
      then show ?thesis using less.hyps [of right mid] mid less.prems keys_before_restart [OF sorted r(1) True]
        by (simp add: step)
    next
      case False
      then show ?thesis using less.hyps [of "mid - 1" left] mid less.prems by (simp add: step)
    qed
  next
    case False
    then show ?thesis using less.prems by (subst seek_search.simps) auto
  qed
qed

lemma seek_linear_ok:
  assumes sorted: "keys_sorted E" "valid target"
  shows "iter_ready E R i it \<Longrightarrow> keys_before E target i \<Longrightarrow>
    \<exists>it' j. seek_linear ops target it = Some it' \<and> iter_reach E R j it' \<and> j \<le> length E \<and> keys_before E target j \<and>
      (j < length E \<longrightarrow> 0 \<le> compare ops (key_at E j) target)"
proof (induction "length E - i" arbitrary: i it)
  case 0
  then have "i = length E" by (simp add: iter_ready_def)
  then show ?case using 0 parse_more [OF 0(2)] parse_reach [OF 0(2)]
    by (subst seek_linear.simps) (auto simp: Let_def split_beta)
next
  case (Suc d)
  then have i: "i < length E" by simp
  let ?it = "snd (parse_next_key it)"
  have at: "fst (parse_next_key it)" "iter_at E R i ?it" using parse_entry [OF Suc.prems(1) i] by simp_all
  then have key: "iter_key ?it = key_at E i" by (simp add: iter_at_def)
  show ?case
  proof (cases "0 \<le> compare ops (key_at E i) target")
    case True
    then show ?thesis using at key i Suc.prems(2)
      by (intro exI [of _ ?it] exI [of _ i], subst seek_linear.simps) (simp add: Let_def split_beta iter_reach_def)
  next
    case False
    then have "seek_linear ops target it = seek_linear ops target ?it"
      using at(1) key by (subst seek_linear.simps) (simp add: Let_def split_beta)
    moreover have "keys_before E target (Suc i)"
      using False Suc.prems(2) by (simp add: keys_before_def less_Suc_eq)
    ultimately show ?thesis using Suc.hyps(1) [OF _ iter_at_ready [OF at(2)]] Suc.hyps(2) by auto
  qed
qed

lemma block_seek_ok:
  assumes on: "iter_on E R it" and sorted: "keys_sorted E" "valid target"
  shows "\<exists>it' j. block_seek ops target it = Some it' \<and> iter_reach E R j it' \<and> j \<le> length E \<and> keys_before E target j \<and>
    (j < length E \<longrightarrow> 0 \<le> compare ops (key_at E j) target)"
proof -
  have R: "0 < length R" "R ! 0 = 0" "num_restarts it = length R"
    using on restarts_first [of E R] by (simp_all add: iter_on_def)
  obtain j where j: "j < length R" "seek_search ops target it 0 (length R - 1) = Some (Some j)" "keys_before E target (R ! j)"
    using seek_search_ok [OF assms, of 0 "length R - 1"] R by (auto simp: keys_before_def)
  then show ?thesis using seek_linear_ok [OF sorted ready_restart [OF on j(1)] j(3)] by (simp add: block_seek_def R(3))
qed

end

end
