(* ===== verification/LdbBlockRound.thy ===== *)
theory LdbBlockRound
  imports LdbBlockSpec
begin

text \<open>
  The builder writes the layout that the iterator reads: building a block from sorted entries
  and reading it gives the entries back, from the first one, from the last one, from a key on,
  and backwards.
\<close>

section \<open>The builder\<close>

fun builder_add_all :: "int \<Rightarrow> (slice \<times> slice) list \<Rightarrow> block_builder \<Rightarrow> block_builder" where
  "builder_add_all interval [] b = b"
| "builder_add_all interval ((key, val) # es) b = builder_add_all interval es (builder_add interval key val b)"

definition builder_holds :: "block_entry list \<Rightarrow> nat list \<Rightarrow> block_builder \<Rightarrow> bool" where
  "builder_holds E R b \<longleftrightarrow> chained E \<and> restarts_ok E R \<and> block_buffer b = entries_bytes E \<and>
     restart_points b = map (\<lambda>r. word_of_nat (off E r)) R \<and> last_key b = key_before E (length E) \<and>
     (E = [] \<longrightarrow> restart_counter b = 0)"

lemma new_builder_holds: "builder_holds [] [0] new_block_builder"
  by (simp add: builder_holds_def new_block_builder_def chained_def restarts_ok_def entries_bytes_def key_before_def)

lemma shared_prefix:
  "let n = diff_loop a b 0 in n \<le> length a \<and> n \<le> length b \<and> take n a = take n b"
proof -
  define n where "n = diff_loop a b 0"
  note d = diff_loop_split [of 0 a b, folded n_def]
  have "n \<le> min (length a) (length b)"
  proof (rule ccontr)
    assume "\<not> n \<le> min (length a) (length b)"
    then have "min (length a) (length b) < n" by linarith
    with d [THEN conjunct2, THEN conjunct1, rule_format, of "min (length a) (length b)"] show False by simp
  qed
  moreover have "take n a = take n b" using d calculation by (intro nth_equalityI) auto
  ultimately show ?thesis by (simp add: n_def [symmetric] Let_def)
qed

lemma chained_snoc:
  "chained E \<Longrightarrow> sh \<le> length k \<Longrightarrow> sh \<le> length (key_before E (length E)) \<Longrightarrow>
    take sh (key_before E (length E)) = take sh k \<Longrightarrow> chained (E @ [(sh, k, v)])"
proof -
  assume E: "chained E" and new: "sh \<le> length k" "sh \<le> length (key_before E (length E))"
    "take sh (key_before E (length E)) = take sh k"
  let ?E = "E @ [(sh, k, v)]"
  have before: "key_before ?E i = key_before E i" if "i \<le> length E" for i
    using that by (cases i) (simp_all add: key_before_def key_at_def nth_append)
  have old: "shared_at ?E i = shared_at E i" "key_at ?E i = key_at E i" if "i < length E" for i
    using that by (simp_all add: shared_at_def key_at_def nth_append)
  have last: "shared_at ?E (length E) = sh" "key_at ?E (length E) = k" by (simp_all add: shared_at_def key_at_def)
  show "chained ?E"
    unfolding chained_def
  proof (intro allI impI)
    fix i assume "i < length ?E"
    then consider "i < length E" | "i = length E" by fastforce
    then show "shared_at ?E i \<le> length (key_at ?E i) \<and> shared_at ?E i \<le> length (key_before ?E i) \<and>
        take (shared_at ?E i) (key_before ?E i) = take (shared_at ?E i) (key_at ?E i)"
    proof cases
      case 1
      then show ?thesis using E old [OF 1] before [of i] by (simp add: chained_def)
    next
      case 2
      then show ?thesis using new before [of i] by (simp add: last)
    qed
  qed
qed

lemma restarts_ok_snoc:
  assumes "restarts_ok E R" "E \<noteq> [] \<or> R = [0]"
  shows "restarts_ok (E @ [(sh, k, v)]) R" "E \<noteq> [] \<Longrightarrow> sh = 0 \<Longrightarrow> restarts_ok (E @ [(sh, k, v)]) (R @ [length E])"
proof -
  have "\<forall>r \<in> set R. r = 0 \<or> r < length E \<and> shared_at (E @ [(sh, k, v)]) r = 0"
    using assms(1) by (auto simp: restarts_ok_def shared_at_def nth_append)
  then show "restarts_ok (E @ [(sh, k, v)]) R" "E \<noteq> [] \<Longrightarrow> sh = 0 \<Longrightarrow> restarts_ok (E @ [(sh, k, v)]) (R @ [length E])"
    using assms(1) by (auto simp: restarts_ok_def shared_at_def sorted_wrt_append)
qed

lemma builder_add_holds:
  assumes "builder_holds E R b" "0 < interval"
  shows "\<exists>sh R'. builder_holds (E @ [(sh, key, val)]) R' (builder_add interval key val b)"
proof -
  note b = assms(1) [unfolded builder_holds_def]
  have one: "E \<noteq> [] \<or> R = [0]"
  proof (cases "E = []")
    case True
    then have "\<forall>r \<in> set R. r = 0" "sorted_wrt (<) R" "R \<noteq> []" using b by (auto simp: restarts_ok_def)
    then show ?thesis by (cases R; cases "tl R") auto
  qed simp
  have key: "take n k @ drop n k = k" "take (length k - n) (drop n k) = drop n k" for n and k :: slice by simp_all
  have points: "map (\<lambda>r. word_of_nat (off (E @ [x]) r)) R = (map (\<lambda>r. word_of_nat (off E r)) R :: u32 list)" for x
    using b by (auto simp: restarts_ok_def)
  have last: "key_before (E @ [(sh, key, val)]) (length (E @ [(sh, key, val)])) = key" for sh
    by (simp add: key_before_def key_at_def)
  show ?thesis
  proof (cases "restart_counter b < interval")
    case True
    define sh where "sh = diff_loop (last_key b) key 0"
    have sh: "sh \<le> length (last_key b)" "sh \<le> length key" "take sh (last_key b) = take sh key"
      using shared_prefix [of "last_key b" key] by (simp_all add: sh_def Let_def)
    have "builder_add interval key val b =
        b\<lparr>block_buffer := block_buffer b @ enc_entry (sh, key, val), last_key := key, restart_counter := restart_counter b + 1\<rparr>"
      using True by (simp add: builder_add_def Let_def put_varint32_def sh(3) flip: sh_def)
    then have "builder_holds (E @ [(sh, key, val)]) R (builder_add interval key val b)"
      using b sh restarts_ok_snoc(1) [OF _ one] chained_snoc [of E sh key val] points last
      by (simp add: builder_holds_def entries_bytes_append del: enc_entry.simps) (simp add: entries_bytes_def)
    then show ?thesis by blast
  next
    case False
    then have E: "E \<noteq> []" using b assms(2) by auto
    have "builder_add interval key val b =
        b\<lparr>block_buffer := block_buffer b @ enc_entry (0, key, val), last_key := key, restart_counter := 1,
          restart_points := restart_points b @ [word_of_nat (length (block_buffer b))]\<rparr>"
      using False by (simp add: builder_add_def Let_def put_varint32_def)
    then have "builder_holds (E @ [(0, key, val)]) (R @ [length E]) (builder_add interval key val b)"
      using b E restarts_ok_snoc(2) [OF _ one E, of 0] chained_snoc [of E 0 key val] points last
      by (simp add: builder_holds_def entries_bytes_append off_length del: enc_entry.simps) (simp add: entries_bytes_def)
    then show ?thesis by blast
  qed
qed

lemma builder_add_all_holds:
  "builder_holds E R b \<Longrightarrow> 0 < interval \<Longrightarrow>
    \<exists>E' R'. builder_holds (E @ E') R' (builder_add_all interval es b) \<and> map snd E' = es"
proof (induction es arbitrary: E R b)
  case (Cons e es)
  obtain key val where e: "e = (key, val)" by (cases e)
  obtain sh R1 where "builder_holds (E @ [(sh, key, val)]) R1 (builder_add interval key val b)"
    using builder_add_holds [OF Cons.prems] by blast
  from Cons.IH [OF this Cons.prems(2)] obtain E' R' where
    "builder_holds ((E @ [(sh, key, val)]) @ E') R' (builder_add_all interval es (builder_add interval key val b))" "map snd E' = es"
    by blast
  then show ?case by (intro exI [of _ "(sh, key, val) # E'"] exI [of _ R']) (simp add: e)
qed auto

lemma builder_finish_bytes: "builder_holds E R b \<Longrightarrow> fst (builder_finish b) = block_bytes E R"
proof -
  have "fold (\<lambda>r buf. put_fixed32 buf r) rs buf = buf @ concat (map encode_fixed32 rs)" for rs buf
    by (induction rs arbitrary: buf) (simp_all add: put_fixed32_def)
  then show "builder_holds E R b \<Longrightarrow> fst (builder_finish b) = block_bytes E R"
    by (simp add: builder_finish_def Let_def builder_holds_def block_bytes_def put_fixed32_def comp_def)
qed

section \<open>Opening a block\<close>

lemma new_iterator_on:
  assumes "chained E" "restarts_ok E R" "length (block_bytes E R) < 2 ^ 32"
  shows "\<exists>it. new_iterator (new_block (block_bytes E R)) = Inr (Some it) \<and> iter_on E R it"
proof -
  let ?B = "block_bytes E R" and ?S = "concat (map (\<lambda>r. encode_fixed32 (word_of_nat (off E r))) R) :: slice"
  have S: "length ?S = length R * 4" by (induction R) simp_all
  then have len: "length ?B = off E (length E) + length R * 4 + 4" by (simp add: block_bytes_def off_length)
  have "drop (length ?B - 4) ?B = encode_fixed32 (word_of_nat (length R))" by (simp add: block_bytes_def)
  then have n: "read_num_restarts ?B (length ?B) = length R"
    using assms(3) len decode_encode_fixed32 [of _ "[]"] by (simp add: read_num_restarts_def unat_of_nat)
  have "0 < length R" using assms(2) by (simp add: restarts_ok_def)
  then show ?thesis using assms len n
    by (simp add: new_block_def Let_def new_iterator_def new_block_iter_def iter_on_def)
qed

text \<open>The block built from given entries, and the iterator it hands out.\<close>

definition built_block :: "int \<Rightarrow> (slice \<times> slice) list \<Rightarrow> slice" where
  "built_block interval es = fst (builder_finish (builder_add_all interval es new_block_builder))"

lemma built_block_iter:
  assumes "0 < interval" "length (built_block interval es) < 2 ^ 32"
  obtains it E R where "new_iterator (new_block (built_block interval es)) = Inr (Some it)" "iter_on E R it" "map snd E = es"
proof -
  obtain E R where h: "builder_holds E R (builder_add_all interval es new_block_builder)" and E: "map snd E = es"
    using builder_add_all_holds [OF new_builder_holds assms(1), of es] by auto
  have bytes: "built_block interval es = block_bytes E R"
    unfolding built_block_def by (rule builder_finish_bytes [OF h])
  then have "chained E" "restarts_ok E R" "length (block_bytes E R) < 2 ^ 32"
    using h assms(2) by (simp_all add: builder_holds_def)
  from new_iterator_on [OF this] E that show ?thesis unfolding bytes by blast
qed

section \<open>What is read\<close>

text \<open>The pairs that the iterator yields from where it stands.\<close>

fun reads_from :: "block_iter \<Rightarrow> (slice \<times> slice) list \<Rightarrow> bool" where
  "reads_from it [] \<longleftrightarrow> \<not> block_valid it \<and> iter_status it = OK"
| "reads_from it (e # es) \<longleftrightarrow> block_valid it \<and> iter_key it = fst e \<and> block_value it = snd e \<and>
     reads_from (block_next it) es"

lemma reach_reads: "iter_reach E R i it \<Longrightarrow> i \<le> length E \<Longrightarrow> reads_from it (drop i (map snd E))"
proof (induction "length E - i" arbitrary: i it)
  case 0
  then show ?case by (simp add: iter_reach_def iter_end_def iter_on_def)
next
  case (Suc d)
  then have i: "i < length E" by simp
  with Suc.prems(1) have at: "iter_at E R i it" by (simp add: iter_reach_def)
  have "reads_from (block_next it) (drop (Suc i) (map snd E))"
    using Suc.hyps(1) [OF _ next_reach [OF at]] Suc.hyps(2) i by simp
  moreover have "block_valid it" using at off_less [OF i] by (simp add: iter_at_def block_valid_def iter_on_def)
  moreover have "drop i (map snd E) = (key_at E i, val_at E i) # drop (Suc i) (map snd E)"
    using i by (simp add: Cons_nth_drop_Suc [symmetric] key_at_def val_at_def)
  ultimately show ?case using at by (simp add: iter_at_def)
qed

lemma dropWhile_drop:
  "\<forall>i < j. P (xs ! i) \<Longrightarrow> j \<le> length xs \<Longrightarrow> (j < length xs \<Longrightarrow> \<not> P (xs ! j)) \<Longrightarrow> dropWhile P xs = drop j xs"
proof (induction xs arbitrary: j)
  case (Cons x xs)
  show ?case
  proof (cases j)
    case 0
    then show ?thesis using Cons.prems by simp
  next
    case (Suc n)
    then have "P x" "\<forall>i < n. P (xs ! i)" using Cons.prems(1) by (fastforce, force)
    then show ?thesis using Cons.IH [of n] Cons.prems(2,3) Suc by simp
  qed
qed simp

lemma last_reads:
  "(if E = [] then iter_end E R it else iter_at E R (length E - 1) it) \<Longrightarrow>
    reads_from it (if E = [] then [] else [snd (last E)])"
  using reach_reads [of E R "length E - 1" it] reach_reads [of E R 0 it]
  by (cases E rule: rev_cases) (auto simp: iter_reach_def)

context comparator
begin

lemma sorted_entries:
  "sorted_wrt (\<lambda>a b. compare ops (fst a) (fst b) < 0) (map snd E) \<Longrightarrow> \<forall>e \<in> set (map snd E). valid (fst e) \<Longrightarrow> keys_sorted E"
  by (auto simp: keys_sorted_def key_at_def sorted_wrt_iff_nth_less)

lemma seek_reads:
  assumes "iter_on E R it" "keys_sorted E" "valid target"
  shows "\<exists>it'. block_seek ops target it = Some it' \<and>
    reads_from it' (dropWhile (\<lambda>e. compare ops (fst e) target < 0) (map snd E))"
proof -
  obtain it' j where j: "block_seek ops target it = Some it'" "iter_reach E R j it'" "j \<le> length E"
      "keys_before E target j" "j < length E \<longrightarrow> 0 \<le> compare ops (key_at E j) target"
    using block_seek_ok [OF assms] by blast
  have "dropWhile (\<lambda>e. compare ops (fst e) target < 0) (map snd E) = drop j (map snd E)"
    using j(3-5) by (intro dropWhile_drop) (auto simp: keys_before_def key_at_def)
  then show ?thesis using j(1) reach_reads [OF j(2,3)] by auto
qed

text \<open>Seeking a key that is there, and going back from it.\<close>

lemma seek_prev_reads:
  assumes on: "iter_on E R it" and sorted: "keys_sorted E" and i: "i < length E"
  shows "\<exists>it1 it2. block_seek ops (key_at E i) it = Some it1 \<and> reads_from it1 (drop i (map snd E)) \<and>
    block_prev it1 = Some it2 \<and> reads_from it2 (if i = 0 then [] else drop (i - 1) (map snd E))"
proof -
  have valid: "valid (key_at E i)" using sorted i by (simp add: keys_sorted_def)
  obtain it1 j where j: "block_seek ops (key_at E i) it = Some it1" "iter_reach E R j it1" "j \<le> length E"
      "keys_before E (key_at E i) j" "j < length E \<longrightarrow> 0 \<le> compare ops (key_at E j) (key_at E i)"
    using block_seek_ok [OF on sorted valid] by blast
  have "j = i"
  proof (rule antisym)
    show "j \<le> i"
    proof (rule ccontr)
      assume "\<not> j \<le> i"
      then have "compare ops (key_at E i) (key_at E i) < 0" using j(4) by (simp add: keys_before_def)
      then show False using compare_refl [OF valid] by simp
    qed
    show "i \<le> j"
    proof (rule ccontr)
      assume "\<not> i \<le> j"
      then have "compare ops (key_at E j) (key_at E i) < 0" "j < length E" using sorted i by (simp_all add: keys_sorted_def)
      then show False using j(5) by simp
    qed
  qed
  with j(2) i have at: "iter_at E R i it1" by (simp add: iter_reach_def)
  obtain it2 where it2: "block_prev it1 = Some it2" "if i = 0 then iter_end E R it2 else iter_at E R (i - 1) it2"
    using prev_reach [OF at] by blast
  have "reads_from it2 (if i = 0 then [] else drop (i - 1) (map snd E))"
  proof (cases "i = 0")
    case True
    then show ?thesis using it2(2) by (simp add: iter_end_def iter_on_def)
  next
    case False
    moreover from i have "i - 1 < length E" by simp
    ultimately show ?thesis using it2(2) reach_reads [of E R "i - 1" it2] by (simp add: iter_reach_def)
  qed
  then show ?thesis using j(1) it2(1) reach_reads [OF j(2,3)] \<open>j = i\<close> by auto
qed

end

end
