(* ===== verification/LdbStoreProperties.thy ===== *)
theory LdbStoreProperties
  imports LdbMemTable LdbBlockRound
begin

text \<open>
  The properties of the structures that hold the key-value pairs: the skip list, the table in
  memory and the blocks of the tables on disk.
\<close>

section \<open>In memory\<close>

text \<open>
  Property C34. The skip list is a sorted list. For every comparison that is an order, inserting
  keys of which no two are equal returns, and the iterator then visits exactly these keys in
  ascending order; seeking finds the first key that is not before the target, and a key is
  contained exactly if it was inserted.
\<close>

theorem skip_list_sorted:
  assumes "key_order cmp valid" "\<forall>k \<in> set new. valid k" "sorted_wrt (\<lambda>a b. cmp a b \<noteq> 0) new" "valid target"
  shows "\<exists>sl ks. skip_insert_all cmp new (new_skip_list any_key) = Some sl \<and> mset ks = mset new \<and>
    sorted_wrt (\<lambda>a b. cmp a b < 0) ks \<and> stands_at sl (iter_seek_to_first sl) ks \<and>
    (\<exists>p. iter_seek cmp sl target = Some p \<and> stands_at sl p (dropWhile (\<lambda>k. cmp k target < 0) ks)) \<and>
    skip_contains cmp sl target = Some (\<exists>k \<in> set new. cmp target k = 0)"
proof -
  note order = assms(1)
  obtain sl ks where sl: "skip_insert_all cmp new (new_skip_list any_key) = Some sl"
      "key_order.stands_for_keys cmp valid sl ks" "mset ks = mset new"
    using key_order.skip_insert_all_ok [OF order key_order.new_skip_list_stands [OF order, of any_key] assms(2) _ assms(3)] by auto
  from sl(3) have "set ks = set new" by (rule mset_eq_setD)
  then show ?thesis
    using sl key_order.stands_for_sorted [OF order sl(2)] key_order.iter_seek_first_ok [OF order sl(2)]
      key_order.iter_seek_ok [OF order sl(2) assms(4)] key_order.contains_ok [OF order sl(2) assms(4)] by auto
qed

theorem skip_list_sorted_witness:
  "\<exists>sl. skip_insert_all slice_compare [[7], [1, 2]] (new_skip_list []) = Some sl \<and>
    skip_contains slice_compare sl [7] = Some True"
proof -
  have "key_order slice_compare (\<lambda>_. True)"
    using bytewise.key_order_axioms by (simp add: bytewise_comparator_def)
  from skip_list_sorted [OF this, where new = "[[7], [1, 2]]" and target = "[7]" and any_key = "[]"] show ?thesis by auto
qed

text \<open>
  Property C35. The table in memory answers from the newest visible update. After a batch of
  puts and deletes has been inserted with the sequence numbers from \<open>s\<close> on, the lookup of a key at
  the snapshot after the update number \<open>i\<close> answers what replaying the updates up to that one
  leaves: the value last put, the status \<open>NotFound\<close> if the key was deleted last, and false if it
  was never touched.
\<close>

theorem memtable_answers:
  assumes "\<forall>op \<in> set ops. op_fits op" "unat s + length ops \<le> 2 ^ 56" "i < length ops" "length k + 8 < 2 ^ 32"
  shows "\<exists>mt. insert_into (batch_set_sequence (batch_apply batch_clear ops) s) (new_mem_table bytewise_comparator) =
      Some (OK, mt) \<and>
    mem_get (new_lookup_key k (s + word_of_nat i)) val st mt =
      Some (case replay (take (Suc i) ops) k of
          None \<Rightarrow> (False, val, st) | Some None \<Rightarrow> (True, val, NotFound '''') | Some (Some v) \<Rightarrow> (True, v, st))"
  using insert_into_ok [OF assms(1,2)] table_answers [OF _ assms(2-4)]
  by (auto simp: batch_clear_of batch_apply_of)

theorem memtable_answers_witness:
  "\<exists>mt. insert_into (batch_set_sequence (batch_apply batch_clear
        [batch_op_put [1] [5], batch_op_put [2] [6], batch_op_delete [1]]) 40) (new_mem_table bytewise_comparator) =
      Some (OK, mt) \<and>
    mem_get (new_lookup_key [1] 41) [] OK mt = Some (True, [5], OK)"
  using memtable_answers [of "[batch_op_put [1] [5], batch_op_put [2] [6], batch_op_delete [1]]" 40 1 "[1]" "[]" OK]
  by (simp add: replay_def replay_op_def)

section \<open>In blocks\<close>

text \<open>
  Property C36. A block gives its entries back. For every comparator that keeps its contract and
  every restart interval, a block of less than 4 GiB that was built from entries in ascending
  order opens without an error; from the first entry on the iterator yields all entries, it
  finds the last one, and after \<open>Seek\<close> it yields those from the target on. Every key of the block
  can be sought exactly, and from there \<open>Prev\<close> goes to the entry before, across restart points and
  compressed prefixes, or off the block at the first entry.
\<close>

theorem block_reads_back:
  assumes "comparator cmp valid" "0 < interval" "\<forall>e \<in> set es. valid (fst e)"
    "sorted_wrt (\<lambda>a b. compare cmp (fst a) (fst b) < 0) es" "valid target"
    "length (built_block interval es) < 2 ^ 32"
  shows "\<exists>it. new_iterator (new_block (built_block interval es)) = Inr (Some it) \<and>
    reads_from (block_seek_to_first it) es \<and>
    (\<exists>it'. block_seek_to_last it = Some it' \<and> reads_from it' (if es = [] then [] else [last es])) \<and>
    (\<exists>it'. block_seek cmp target it = Some it' \<and> reads_from it' (dropWhile (\<lambda>e. compare cmp (fst e) target < 0) es)) \<and>
    (\<forall>i < length es. \<exists>it1 it2. block_seek cmp (fst (es ! i)) it = Some it1 \<and> reads_from it1 (drop i es) \<and>
       block_prev it1 = Some it2 \<and> reads_from it2 (if i = 0 then [] else drop (i - 1) es))"
proof -
  note cmp = assms(1)
  obtain it E R where it: "new_iterator (new_block (built_block interval es)) = Inr (Some it)" "iter_on E R it"
    and E: "map snd E = es"
    by (rule built_block_iter [OF assms(2,6)])
  have sorted: "comparator.keys_sorted cmp valid E"
    using comparator.sorted_entries [OF cmp] assms(3,4) E by blast
  have "reads_from (block_seek_to_first it) es"
    using reach_reads [OF seek_to_first_reach [OF it(2)]] E by simp
  moreover obtain it' where "block_seek_to_last it = Some it'" "reads_from it' (if E = [] then [] else [snd (last E)])"
    using seek_to_last_reach [OF it(2)] last_reads by blast
  moreover have "(if E = [] then [] else [snd (last E)]) = (if es = [] then [] else [last es])"
    using E by (auto simp: last_map)
  moreover have "\<exists>it1 it2. block_seek cmp (fst (es ! i)) it = Some it1 \<and> reads_from it1 (drop i es) \<and>
      block_prev it1 = Some it2 \<and> reads_from it2 (if i = 0 then [] else drop (i - 1) es)" if "i < length es" for i
  proof -
    have i: "i < length E" "fst (es ! i) = key_at E i" using that E by (auto simp: key_at_def)
    show ?thesis using comparator.seek_prev_reads [OF cmp it(2) sorted i(1)] unfolding E i(2) .
  qed
  ultimately show ?thesis
    using it(1) comparator.seek_reads [OF cmp it(2) sorted assms(5)] unfolding E
    by (intro exI [of _ it]) (simp only: simp_thms, blast)
qed

lemmas built_evals = built_block_def new_block_builder_def builder_add_def Let_def put_varint32_def builder_finish_def
  put_fixed32_def encode_varint32_def diff_loop.simps

theorem block_reads_back_witness:
  "\<exists>it. new_iterator (new_block (built_block 2 [([1], [5]), ([1, 2], [6]), ([3], [])])) =
    Inr (Some it) \<and> reads_from (block_seek_to_first it) [([1], [5]), ([1, 2], [6]), ([3], [])]"
proof -
  have "length (built_block 2 [([1], [5]), ([1, 2], [6]), ([3], [])]) < 2 ^ 32"
    by (simp add: built_evals)
  from block_reads_back [OF bytewise.comparator_axioms, of 2 "[([1], [5]), ([1, 2], [6]), ([3], [])]" "[]"] this
  show ?thesis by (auto simp: bytewise_comparator_def)
qed

end
