(* ===== verification/LdbFormat.thy ===== *)
theory LdbFormat
  imports LdbBlock LdbCrcSpec
begin

text \<open>
  The format of a table file (\<^verbatim>\<open>table/format.h\<close>, \<^verbatim>\<open>table/format.cc\<close>): handles of blocks, the footer,
  and the block with its trailer (\<^verbatim>\<open>WriteRawBlock\<close> of \<^verbatim>\<open>table/table_builder.cc\<close> writes it,
  \<^verbatim>\<open>ReadBlock\<close> reads it).

  The calls of \<^verbatim>\<open>port/port_stdcxx.h\<close> to the compression library Snappy, which is not part of the
  sources, are a parameter, a record of functions; a locale states what the readers rely on, the
  round trip and the format's limit of \<open>2 ^ 32 - 1\<close> uncompressed bytes, and the functions of a build without the library satisfy it. A table file is read at given offsets: the
  reader answers whether the bytes lie in the caller's buffer.

  A size is a natural number; the size of a handle plus the trailer is computed modulo \<open>2 ^ 64\<close>, and
  a handle that makes it wrap around, on which the code reads in front of its buffer, is
  a truncated block here. The memory that a block is held in is the flags of its contents.
\<close>

section \<open>Handles and the footer\<close>

record block_handle =
  bh_offset :: u64
  bh_size :: u64

definition new_block_handle :: block_handle where
  "new_block_handle = \<lparr>bh_offset = - 1, bh_size = - 1\<rparr>"

definition kMaxEncodedLength :: nat where [layout]: "kMaxEncodedLength = 10 + 10"

definition handle_encode_to :: "block_handle \<Rightarrow> slice \<Rightarrow> slice" where
  "handle_encode_to h dst = put_varint64 (put_varint64 dst (bh_offset h)) (bh_size h)"

definition handle_decode_from :: "block_handle \<Rightarrow> slice \<Rightarrow> status \<times> block_handle \<times> slice" where
  "handle_decode_from h input =
    (case get_varint64 input of
       (None, input) \<Rightarrow> (Corruption ''bad block handle'', h, input)
     | (Some offset, input) \<Rightarrow>
        (let h = h\<lparr>bh_offset := offset\<rparr>
         in case get_varint64 input of
              (None, input) \<Rightarrow> (Corruption ''bad block handle'', h, input)
            | (Some n, input) \<Rightarrow> (OK, h\<lparr>bh_size := n\<rparr>, input)))"

record footer =
  metaindex_handle :: block_handle
  index_handle :: block_handle

definition new_footer :: footer where
  "new_footer = \<lparr>metaindex_handle = new_block_handle, index_handle = new_block_handle\<rparr>"

definition kEncodedLength :: nat where [layout]: "kEncodedLength = 2 * kMaxEncodedLength + 8"

definition kTableMagicNumber :: u64 where "kTableMagicNumber = 0xdb4775248b80fb57"

text \<open>\<^verbatim>\<open>std::string::resize\<close>\<close>

definition resize :: "nat \<Rightarrow> slice \<Rightarrow> slice" where
  "resize n s = take n s @ replicate (n - length s) 0"

definition footer_encode_to :: "footer \<Rightarrow> slice \<Rightarrow> slice" where
  "footer_encode_to f dst =
    (let dst = handle_encode_to (metaindex_handle f) dst;
         dst = handle_encode_to (index_handle f) dst;
         dst = resize (2 * kMaxEncodedLength) dst;
         dst = put_fixed32 dst (ucast (kTableMagicNumber AND 0xffffffff))
     in put_fixed32 dst (ucast (drop_bit 32 kTableMagicNumber)))"

text \<open>The callers pass the bytes of a footer, \<open>kEncodedLength\<close> of them at least.\<close>

definition footer_decode_from :: "footer \<Rightarrow> slice \<Rightarrow> status \<times> footer \<times> slice" where
  "footer_decode_from f input =
    (let magic_lo = decode_fixed32 (drop (kEncodedLength - 8) input);
         magic_hi = decode_fixed32 (drop (kEncodedLength - 4) input);
         magic = push_bit 32 (ucast magic_hi) OR ucast magic_lo
     in if magic \<noteq> kTableMagicNumber then (Corruption ''not an sstable (bad magic number)'', f, input)
        else let rest = drop kEncodedLength input;
                 (result, h, input) = handle_decode_from (metaindex_handle f) input;
                 f = f\<lparr>metaindex_handle := h\<rparr>
             in if \<not> status_ok result then (result, f, input)
                else let (result, h, input) = handle_decode_from (index_handle f) input;
                         f = f\<lparr>index_handle := h\<rparr>
                     in (result, f, if status_ok result then rest else input))"

section \<open>Blocks in a file\<close>

datatype compression_type = kNoCompression | kSnappyCompression

fun compression_code :: "compression_type \<Rightarrow> u8" where
  "compression_code kNoCompression = 0" | "compression_code kSnappyCompression = 1"

record snappy_ops =
  snappy_compress :: "slice \<Rightarrow> slice option"
  snappy_length :: "slice \<Rightarrow> nat option"
  snappy_uncompress :: "slice \<Rightarrow> slice option"

locale snappy_library =
  fixes sn :: snappy_ops
  assumes compress_law: "snappy_compress sn d = Some c \<Longrightarrow>
    snappy_length sn c = Some (length d) \<and> snappy_uncompress sn c = Some d"
    and compress_small: "snappy_compress sn d = Some c \<Longrightarrow> length d < 2 ^ 32"

definition no_snappy :: snappy_ops where
  "no_snappy = \<lparr>snappy_compress = \<lambda>_. None, snappy_length = \<lambda>_. None, snappy_uncompress = \<lambda>_. None\<rparr>"

record 'f random_file =
  rf_read :: "'f \<Rightarrow> nat \<Rightarrow> nat \<Rightarrow> status \<times> slice \<times> bool"

locale random_access =
  fixes ops :: "'f random_file" and contents :: "'f \<Rightarrow> slice" and readable :: "'f \<Rightarrow> bool"
  assumes read_law: "readable f \<Longrightarrow> offset \<le> length (contents f) \<Longrightarrow>
    \<exists>own. rf_read ops f offset n = (OK, take n (drop offset (contents f)), own)"

definition mem_random :: "file_state random_file" where
  "mem_random = \<lparr>rf_read = \<lambda>f offset n. case file_read f offset n of (s, d) \<Rightarrow> (s, d, True)\<rparr>"

definition kBlockTrailerSize :: nat where [layout]: "kBlockTrailerSize = 5"

text \<open>The trailer of a block: its type and the masked checksum of its bytes and its type.\<close>

definition block_trailer :: "slice \<Rightarrow> compression_type \<Rightarrow> slice" where
  "block_trailer block_contents type =
    (let crc = crc_value 0 block_contents;
         crc = crc_extend 0 crc [compression_code type]
     in compression_code type # encode_fixed32 (crc_mask crc))"

record block_contents =
  bc_data :: slice
  cachable :: bool
  heap_allocated :: bool

definition no_contents :: block_contents where
  "no_contents = \<lparr>bc_data = [], cachable = False, heap_allocated = False\<rparr>"

definition read_block ::
    "snappy_ops \<Rightarrow> 'f random_file \<Rightarrow> 'f \<Rightarrow> bool \<Rightarrow> block_handle \<Rightarrow> status \<times> block_contents" where
  "read_block sn ops f verify_checksums handle =
    (let n = unat (bh_size handle);
         (s, contents, own) = rf_read ops f (unat (bh_offset handle)) ((n + kBlockTrailerSize) mod 2 ^ 64)
     in if \<not> status_ok s then (s, no_contents)
        else if length contents \<noteq> n + kBlockTrailerSize then (Corruption ''truncated block read'', no_contents)
        else if verify_checksums \<and>
            crc_value 0 (take (n + 1) contents) \<noteq> crc_unmask (decode_fixed32 (drop (n + 1) contents))
          then (Corruption ''block checksum mismatch'', no_contents)
        else if contents ! n = compression_code kNoCompression
          then (OK, \<lparr>bc_data = take n contents, cachable = own, heap_allocated = own\<rparr>)
        else if contents ! n = compression_code kSnappyCompression
          then (case snappy_length sn (take n contents) of
                  None \<Rightarrow> (Corruption ''corrupted compressed block contents'', no_contents)
                | Some ulength \<Rightarrow> (case snappy_uncompress sn (take n contents) of
                      None \<Rightarrow> (Corruption ''corrupted compressed block contents'', no_contents)
                    | Some ubuf \<Rightarrow> (OK, \<lparr>bc_data = take ulength ubuf, cachable = True, heap_allocated = True\<rparr>)))
        else (Corruption ''bad block type'', no_contents))"

section \<open>Round trips\<close>

interpretation no_snappy: snappy_library no_snappy
  by unfold_locales (simp_all add: no_snappy_def)

interpretation mem_random: random_access mem_random file_contents file_ok
  by unfold_locales (auto simp: mem_random_def file_read_ok file_size_contents)

lemma handle_decode_encode:
  "handle_decode_from h0 (handle_encode_to h [] @ rest) = (OK, h, rest)"
  by (simp add: handle_decode_from_def handle_encode_to_def put_varint64_def get_varint64_put)

lemma handle_encode_append: "handle_encode_to h dst = dst @ handle_encode_to h []"
  by (simp add: handle_encode_to_def put_varint64_def)

lemma varint_length_le: "unat v < 2 ^ (7 * Suc j) \<Longrightarrow> varint_length v \<le> Suc j"
proof (induction j arbitrary: v)
  case 0
  then have "v < 128" by (simp add: word_less_nat_alt)
  then show ?case by (simp add: varint_length.simps [of v] linorder_not_le [symmetric])
next
  case (Suc j)
  have "unat (drop_bit 7 v) < 2 ^ (7 * Suc j)"
    using Suc.prems unfolding unat_drop_bit_7 by (intro less_mult_imp_div_less) (simp add: power_add)
  from Suc.IH [OF this] show ?case by (simp add: varint_length.simps [of v])
qed

lemma length_handle: "length (handle_encode_to h []) \<le> kMaxEncodedLength"
proof -
  have "varint_length v \<le> 10" for v
  proof -
    have "unat v < 2 ^ LENGTH(64)" by (rule unsigned_less)
    then have "unat v < 2 ^ (7 * Suc 9)" by simp
    from varint_length_le [OF this] show ?thesis by simp
  qed
  from this [of "bh_offset h"] this [of "bh_size h"] show ?thesis
    by (simp add: handle_encode_to_def put_varint64_def length_encode_varint64 layout)
qed

lemma footer_encode:
  "footer_encode_to f [] = handle_encode_to (metaindex_handle f) [] @ handle_encode_to (index_handle f) [] @
    replicate (2 * kMaxEncodedLength - length (handle_encode_to (metaindex_handle f) []) -
      length (handle_encode_to (index_handle f) [])) 0 @ encode_fixed64 kTableMagicNumber"
proof -
  have "encode_fixed32 (ucast (kTableMagicNumber AND 0xffffffff)) @ encode_fixed32 (ucast (drop_bit 32 kTableMagicNumber)) =
      encode_fixed64 kTableMagicNumber"
    unfolding encode_fixed32_def encode_fixed64_def kTableMagicNumber_def by code_simp
  moreover note length_handle [of "metaindex_handle f"] length_handle [of "index_handle f"]
  ultimately show ?thesis
    by (simp add: footer_encode_to_def Let_def put_fixed32_def resize_def
        handle_encode_append [of "index_handle f" "handle_encode_to (metaindex_handle f) []"])
qed

lemma length_footer [simp]: "length (footer_encode_to f []) = kEncodedLength"
  using length_handle [of "metaindex_handle f"] length_handle [of "index_handle f"]
  by (simp add: footer_encode layout)

lemma footer_decode_encode: "footer_decode_from f0 (footer_encode_to f [] @ rest) = (OK, f, rest)"
proof -
  let ?h = "handle_encode_to (metaindex_handle f) []" and ?i = "handle_encode_to (index_handle f) []"
  let ?pad = "replicate (2 * kMaxEncodedLength - length ?h - length ?i) (0 :: u8)"
  have enc: "footer_encode_to f [] @ rest = ?h @ ?i @ ?pad @ encode_fixed64 kTableMagicNumber @ rest"
    by (simp add: footer_encode)
  have len: "length (?h @ ?i @ ?pad) = kEncodedLength - 8"
    using length_handle [of "metaindex_handle f"] length_handle [of "index_handle f"] by (simp add: layout)
  have "drop (kEncodedLength - 8) (footer_encode_to f [] @ rest) = encode_fixed64 kTableMagicNumber @ rest"
    unfolding enc using len by (metis append_assoc append_eq_conv_conj)
  moreover from this have "drop (kEncodedLength - 4) (footer_encode_to f [] @ rest) = drop 4 (encode_fixed64 kTableMagicNumber @ rest)"
    using drop_drop [of 4 "kEncodedLength - 8" "footer_encode_to f [] @ rest"] by (simp add: layout)
  moreover have "(push_bit 32 (ucast (decode_fixed32 (drop 4 (encode_fixed64 kTableMagicNumber @ rest)))) OR
      ucast (decode_fixed32 (encode_fixed64 kTableMagicNumber @ rest)) :: u64) = kTableMagicNumber"
  proof -
    have "decode_fixed32 (drop 4 (encode_fixed64 kTableMagicNumber @ rest)) = decode_fixed32 (drop 4 (encode_fixed64 kTableMagicNumber))"
        "decode_fixed32 (encode_fixed64 kTableMagicNumber @ rest) = decode_fixed32 (encode_fixed64 kTableMagicNumber)"
      by (simp_all add: decode_fixed32_def)
    moreover have "(push_bit 32 (ucast (decode_fixed32 (drop 4 (encode_fixed64 kTableMagicNumber)))) OR
        ucast (decode_fixed32 (encode_fixed64 kTableMagicNumber)) :: u64) = kTableMagicNumber"
      by code_simp
    ultimately show ?thesis by simp
  qed
  moreover have "drop kEncodedLength (footer_encode_to f [] @ rest) = rest" by simp
  ultimately show ?thesis
    unfolding footer_decode_from_def Let_def
    by (simp add: enc handle_decode_encode)
qed

context random_access
begin

text \<open>A block that lies in the file with its trailer is read, whatever is verified.\<close>

lemma read_block_ok:
  assumes "readable f" "contents f = pre @ d @ block_trailer d type @ post"
    "length pre < 2 ^ 64" "length d + 5 < 2 ^ 64" "snappy_library sn"
    "raw = d \<and> type = kNoCompression \<or> snappy_compress sn raw = Some d \<and> type = kSnappyCompression"
  shows "\<exists>c. read_block sn ops f verify \<lparr>bh_offset = word_of_nat (length pre), bh_size = word_of_nat (length d)\<rparr> = (OK, c) \<and>
    bc_data c = raw"
proof -
  let ?t = "block_trailer d type"
  have t: "length ?t = 5" by (simp add: block_trailer_def Let_def)
  obtain own where read: "rf_read ops f (length pre) (length d + 5) = (OK, d @ ?t, own)"
    using read_law [OF assms(1), of "length pre" "length d + 5"] t by (auto simp: assms(2))
  have "crc_value 0 (take (length d + 1) (d @ ?t)) = crc_unmask (decode_fixed32 (drop (length d + 1) (d @ ?t)))"
    using decode_encode_fixed32 [of _ "[]"]
    by (simp add: block_trailer_def Let_def unmask_mask crc_extend_eq crc_value_def crc32c_append)
  moreover have "(d @ ?t) ! length d = compression_code type" by (simp add: block_trailer_def Let_def nth_append)
  ultimately show ?thesis
    using read t assms(3-6) snappy_library.compress_law [OF assms(5), of raw d]
    by (auto simp: read_block_def Let_def unat_of_nat layout)
qed

end

end
