(* ===== verification/LdbFilterBlock.thy ===== *)
theory LdbFilterBlock
  imports LdbBloom LdbKey
begin

text \<open>
  Filter policies and the filter block of a table (\<^verbatim>\<open>include/leveldb/filter_policy.h\<close>,
  \<^verbatim>\<open>table/filter_block.h\<close>, \<^verbatim>\<open>table/filter_block.cc\<close>, \<^verbatim>\<open>InternalFilterPolicy\<close> of
  \<^verbatim>\<open>db/dbformat.cc\<close>). A policy is a record of functions, as the virtual functions of the class
  are; the locale \<open>filter_policy\<close> states what its documentation asks for. The Bloom filter is one,
  and so is the policy of internal keys over any other.

  \<^verbatim>\<open>tmp_keys_\<close> is empty between the calls and local here. A pointer into the contents of a block
  is an index.
\<close>

section \<open>Policies\<close>

record filter_policy_ops =
  fp_name :: string
  fp_create :: "slice list \<Rightarrow> slice \<Rightarrow> slice"
  fp_match :: "slice \<Rightarrow> slice \<Rightarrow> bool"

locale filter_policy =
  fixes pol :: filter_policy_ops
  assumes create_appends: "fp_create pol keys dst = dst @ fp_create pol keys []"
    and create_covers: "k \<in> set keys \<Longrightarrow> fp_match pol k (fp_create pol keys [])"

definition bloom_policy :: "nat \<Rightarrow> filter_policy_ops" where
  "bloom_policy bits_per_key = \<lparr>fp_name = ''leveldb.BuiltinBloomFilter2'',
     fp_create = create_filter bits_per_key, fp_match = key_may_match\<rparr>"

definition internal_policy :: "filter_policy_ops \<Rightarrow> filter_policy_ops" where
  "internal_policy user = \<lparr>fp_name = fp_name user,
     fp_create = \<lambda>keys. fp_create user (map extract_user_key keys),
     fp_match = \<lambda>key. fp_match user (extract_user_key key)\<rparr>"

section \<open>The builder\<close>

definition kFilterBaseLg :: nat where [layout]: "kFilterBaseLg = 11"
definition kFilterBase :: nat where [layout]: "kFilterBase = 2 ^ 11"

record filter_builder =
  fb_keys :: slice
  fb_start :: "nat list"
  fb_result :: slice
  fb_offsets :: "u32 list"

definition new_filter_builder :: filter_builder where
  "new_filter_builder = \<lparr>fb_keys = [], fb_start = [], fb_result = [], fb_offsets = []\<rparr>"

definition generate_filter :: "filter_policy_ops \<Rightarrow> filter_builder \<Rightarrow> filter_builder" where
  "generate_filter pol b =
    (let num_keys = length (fb_start b);
         offs = fb_offsets b @ [word_of_nat (length (fb_result b))]
     in if num_keys = 0 then b\<lparr>fb_offsets := offs\<rparr>
        else let start = fb_start b @ [length (fb_keys b)];
                 tmp_keys = map (\<lambda>i. take (start ! (i + 1) - start ! i) (drop (start ! i) (fb_keys b))) [0..<num_keys]
             in \<lparr>fb_keys = [], fb_start = [], fb_result = fp_create pol tmp_keys (fb_result b), fb_offsets = offs\<rparr>)"

function generate_until :: "filter_policy_ops \<Rightarrow> nat \<Rightarrow> filter_builder \<Rightarrow> filter_builder" where
  "generate_until pol filter_index b =
    (if length (fb_offsets b) < filter_index then generate_until pol filter_index (generate_filter pol b) else b)"
  by auto
termination
  by (relation "measure (\<lambda>(pol, n, b). n - length (fb_offsets b))") (auto simp: generate_filter_def Let_def)

declare generate_until.simps [simp del]

definition filter_start_block :: "filter_policy_ops \<Rightarrow> u64 \<Rightarrow> filter_builder \<Rightarrow> filter_builder" where
  "filter_start_block pol block_offset b = generate_until pol (unat block_offset div kFilterBase) b"

definition filter_add_key :: "slice \<Rightarrow> filter_builder \<Rightarrow> filter_builder" where
  "filter_add_key key b = b\<lparr>fb_start := fb_start b @ [length (fb_keys b)], fb_keys := fb_keys b @ key\<rparr>"

definition filter_finish :: "filter_policy_ops \<Rightarrow> filter_builder \<Rightarrow> slice" where
  "filter_finish pol b =
    (let b = (if fb_start b \<noteq> [] then generate_filter pol b else b);
         array_offset = word_of_nat (length (fb_result b));
         result = fold (\<lambda>off r. put_fixed32 r off) (fb_offsets b) (fb_result b)
     in put_fixed32 result array_offset @ [word_of_nat kFilterBaseLg])"

section \<open>The reader\<close>

text \<open>
  \<open>fr_offset\<close> is \<^verbatim>\<open>offset_ - data_\<close>. \<^verbatim>\<open>base_lg_\<close> is a signed character that is widened; a shift by
  64 or more, which only damaged contents ask for and the language leaves undefined, is zero here.
\<close>

record filter_reader =
  fr_data :: slice
  fr_offset :: nat
  fr_num :: nat
  fr_base_lg :: u64

definition new_filter_reader :: "slice \<Rightarrow> filter_reader" where
  "new_filter_reader contents =
    (let n = length contents;
         r = \<lparr>fr_data = [], fr_offset = 0, fr_num = 0, fr_base_lg = 0\<rparr>
     in if n < 5 then r
        else let r = r\<lparr>fr_base_lg := scast (contents ! (n - 1))\<rparr>;
                 last_word = unat (decode_fixed32 (drop (n - 5) contents))
             in if n - 5 < last_word then r
                else r\<lparr>fr_data := contents, fr_offset := last_word, fr_num := (n - 5 - last_word) div 4\<rparr>)"

definition filter_key_may_match :: "filter_policy_ops \<Rightarrow> filter_reader \<Rightarrow> u64 \<Rightarrow> slice \<Rightarrow> bool" where
  "filter_key_may_match pol r block_offset key =
    (let index = unat (drop_bit (unat (fr_base_lg r)) block_offset) in
     if index < fr_num r
     then let start = unat (decode_fixed32 (drop (fr_offset r + index * 4) (fr_data r)));
              limit = unat (decode_fixed32 (drop (fr_offset r + index * 4 + 4) (fr_data r)))
          in if start \<le> limit \<and> limit \<le> fr_offset r
             then fp_match pol key (take (limit - start) (drop start (fr_data r)))
             else if start = limit then False else True
     else True)"

section \<open>What a builder holds\<close>

text \<open>
  \<open>chunk\<close> are the bytes of a filter, \<open>pos\<close> is where the filter number \<open>i\<close> begins. \<open>filled\<close>: the
  builder has written the filters of the groups \<open>gs\<close> of keys and has collected the keys \<open>ks\<close> of
  the next one.
\<close>

definition chunk :: "filter_policy_ops \<Rightarrow> slice list \<Rightarrow> slice" where
  "chunk pol g = (if g = [] then [] else fp_create pol g [])"

definition chunks :: "filter_policy_ops \<Rightarrow> slice list list \<Rightarrow> slice" where
  "chunks pol gs = concat (map (chunk pol) gs)"

definition pos :: "filter_policy_ops \<Rightarrow> slice list list \<Rightarrow> nat \<Rightarrow> nat" where
  "pos pol gs i = length (chunks pol (take i gs))"

definition filled :: "filter_policy_ops \<Rightarrow> slice list list \<Rightarrow> slice list \<Rightarrow> filter_builder \<Rightarrow> bool" where
  "filled pol gs ks b \<longleftrightarrow>
    fb_result b = chunks pol gs \<and> fb_offsets b = map (\<lambda>i. word_of_nat (pos pol gs i)) [0..<length gs] \<and>
    fb_keys b = concat ks \<and> fb_start b = map (\<lambda>i. length (concat (take i ks))) [0..<length ks]"

lemma filled_new: "filled pol [] [] new_filter_builder"
  by (simp add: filled_def new_filter_builder_def chunks_def)

lemma chunks_snoc: "chunks pol (gs @ [g]) = chunks pol gs @ chunk pol g"
  by (simp add: chunks_def)

lemma filled_add_key: "filled pol gs ks b \<Longrightarrow> filled pol gs (ks @ [k]) (filter_add_key k b)"
  by (auto simp: filled_def filter_add_key_def intro!: map_cong)

lemma filled_add_keys: "filled pol gs ks b \<Longrightarrow> filled pol gs (ks @ new) (fold filter_add_key new b)"
proof (induction new arbitrary: ks b)
  case (Cons k new)
  from Cons.IH [OF filled_add_key [OF Cons.prems]] show ?case by simp
qed simp

text \<open>The flattened keys are cut where they were joined.\<close>

lemma cut_keys:
  "i < length ks \<Longrightarrow> take (length (concat (take (Suc i) ks)) - length (concat (take i ks)))
     (drop (length (concat (take i ks))) (concat ks)) = ks ! i"
proof -
  assume i: "i < length ks"
  then have "concat ks = concat (take i ks) @ ks ! i @ concat (drop (Suc i) ks)"
    by (metis concat.simps(2) concat_append id_take_nth_drop)
  moreover have "concat (take (Suc i) ks) = concat (take i ks) @ ks ! i"
    using i by (simp add: take_Suc_conv_app_nth)
  ultimately show ?thesis by simp
qed

text \<open>
  The calls a builder is made for: a block is started at its offset and its keys are added, and so
  on for the next block.
\<close>

definition filter_add_blocks ::
  "filter_policy_ops \<Rightarrow> (u64 \<times> slice list) list \<Rightarrow> filter_builder \<Rightarrow> filter_builder" where
  "filter_add_blocks pol blocks b =
    fold (\<lambda>(off, keys) b. fold filter_add_key keys (filter_start_block pol off b)) blocks b"

definition filter_bytes_of :: "filter_policy_ops \<Rightarrow> slice list list \<Rightarrow> slice" where
  "filter_bytes_of pol gs = chunks pol gs @
    concat (map (\<lambda>i. encode_fixed32 (word_of_nat (pos pol gs i))) [0..<length gs]) @
    encode_fixed32 (word_of_nat (length (chunks pol gs))) @ [word_of_nat kFilterBaseLg]"

context filter_policy
begin

lemma filled_generate: "filled pol gs ks b \<Longrightarrow> filled pol (gs @ [ks]) [] (generate_filter pol b)"
proof -
  assume filled: "filled pol gs ks b"
  let ?start = "fb_start b @ [length (fb_keys b)]"
  have start: "?start = map (\<lambda>i. length (concat (take i ks))) [0..<Suc (length ks)]"
    using filled by (simp add: filled_def)
  have "map (\<lambda>i. take (?start ! (i + 1) - ?start ! i) (drop (?start ! i) (fb_keys b))) [0..<length (fb_start b)] = ks"
    unfolding start using filled cut_keys [of _ ks]
    by (intro nth_equalityI) (simp_all add: filled_def del: upt_Suc)
  moreover have "pos pol (gs @ [ks]) i = pos pol gs i" if "i \<le> length gs" for i
    using that by (simp add: pos_def)
  moreover have "pos pol gs (length gs) = length (chunks pol gs)" by (simp add: pos_def)
  ultimately show ?thesis
    using filled create_appends [of ks "chunks pol gs"]
    by (auto simp: generate_filter_def Let_def filled_def chunks_snoc chunk_def)
qed

text \<open>
  \<open>kept blocks gs ks\<close>: every block's keys are among those of the filter of its offset, written
  or still collected.
\<close>

definition kept :: "(u64 \<times> slice list) list \<Rightarrow> slice list list \<Rightarrow> slice list \<Rightarrow> bool" where
  "kept blocks gs ks \<longleftrightarrow>
    (\<forall>(off, keys) \<in> set blocks. let i = unat off div kFilterBase in
       i < length gs \<and> set keys \<subseteq> set (gs ! i) \<or> i = length gs \<and> set keys \<subseteq> set ks) \<and>
    (length gs = 0 \<or> (\<exists>(off, keys) \<in> set blocks. length gs = unat off div kFilterBase))"

lemma generate_until_ok:
  "filled pol gs ks b \<Longrightarrow> length gs \<le> n \<Longrightarrow>
   \<exists>gs' ks'. filled pol gs' ks' (generate_until pol n b) \<and> length gs' = n \<and>
     (length gs = n \<and> gs' = gs \<and> ks' = ks \<or> length gs < n \<and> (\<exists>more. gs' = gs @ ks # more))"
proof (induction "n - length gs" arbitrary: gs ks b)
  case 0
  then have "length (fb_offsets b) = n" by (simp add: filled_def)
  then have "generate_until pol n b = b" by (subst generate_until.simps) simp
  with 0 show ?case by auto
next
  case (Suc m)
  then have len: "length (fb_offsets b) < n" by (simp add: filled_def)
  from filled_generate [OF Suc.prems(1)] Suc.hyps(1) [of "gs @ [ks]" "[]" "generate_filter pol b"] Suc.hyps(2)
  obtain gs' ks' where gs': "filled pol gs' ks' (generate_until pol n (generate_filter pol b))" "length gs' = n"
    "gs' = gs @ [ks] \<or> (\<exists>more. gs' = (gs @ [ks]) @ [] # more)" by fastforce
  then have "\<exists>more. gs' = gs @ ks # more" by auto
  moreover have "generate_until pol n b = generate_until pol n (generate_filter pol b)"
    using len by (subst generate_until.simps) simp
  moreover have "length gs < n" using Suc.hyps(2) by simp
  ultimately show ?case using gs'(1,2) by metis
qed

lemma start_block_ok:
  assumes "filled pol gs ks b" "kept blocks gs ks" "\<forall>(o', _) \<in> set blocks. o' \<le> off"
  shows "\<exists>gs' ks'. filled pol gs' ks' (filter_start_block pol off b) \<and> length gs' = unat off div kFilterBase \<and>
    (\<forall>(o', keys) \<in> set blocks. let i = unat o' div kFilterBase in
       i < length gs' \<and> set keys \<subseteq> set (gs' ! i) \<or> i = length gs' \<and> set keys \<subseteq> set ks')"
proof -
  have "length gs \<le> unat off div kFilterBase"
    using assms(2,3) by (force simp: kept_def word_le_nat_alt intro: div_le_mono)
  from generate_until_ok [OF assms(1) this] obtain gs' ks' where
      gs': "filled pol gs' ks' (filter_start_block pol off b)" "length gs' = unat off div kFilterBase"
      "gs' = gs \<and> ks' = ks \<or> length gs < length gs' \<and> (\<exists>more. gs' = gs @ ks # more)"
    unfolding filter_start_block_def by metis
  have "let i = unat o' div kFilterBase in i < length gs' \<and> set keys \<subseteq> set (gs' ! i) \<or> i = length gs' \<and> set keys \<subseteq> set ks'"
    if "(o', keys) \<in> set blocks" for o' keys
    using assms(2) that gs'(3) by (fastforce simp: kept_def Let_def nth_append)
  with gs' show ?thesis by blast
qed

lemma add_blocks_ok:
  "sorted (map fst blocks) \<Longrightarrow>
   \<exists>gs ks. filled pol gs ks (filter_add_blocks pol blocks new_filter_builder) \<and> kept blocks gs ks"
proof (induction blocks rule: rev_induct)
  case Nil
  then show ?case using filled_new by (auto simp: filter_add_blocks_def kept_def)
next
  case (snoc block blocks)
  obtain off keys where block: "block = (off, keys)" by (cases block)
  from snoc obtain gs ks where b: "filled pol gs ks (filter_add_blocks pol blocks new_filter_builder)" "kept blocks gs ks"
    by (auto simp: sorted_append)
  have "\<forall>(o', _) \<in> set blocks. o' \<le> off" using snoc.prems by (auto simp: sorted_append block)
  from start_block_ok [OF b this] obtain gs' ks' where
      s: "filled pol gs' ks' (filter_start_block pol off (filter_add_blocks pol blocks new_filter_builder))"
      "length gs' = unat off div kFilterBase"
      "\<forall>(o', keys) \<in> set blocks. let i = unat o' div kFilterBase in
         i < length gs' \<and> set keys \<subseteq> set (gs' ! i) \<or> i = length gs' \<and> set keys \<subseteq> set ks'"
    by blast
  have "kept (blocks @ [block]) gs' (ks' @ keys)"
    using s(2,3) by (fastforce simp: kept_def block Let_def)
  moreover have "filled pol gs' (ks' @ keys) (filter_add_blocks pol (blocks @ [block]) new_filter_builder)"
    using filled_add_keys [OF s(1)] by (simp add: filter_add_blocks_def block)
  ultimately show ?case by blast
qed

lemma finish_ok:
  assumes "filled pol gs ks b" "kept blocks gs ks"
  shows "\<exists>gs'. filter_finish pol b = filter_bytes_of pol gs' \<and>
    (\<forall>(off, keys) \<in> set blocks. keys \<noteq> [] \<longrightarrow> unat off div kFilterBase < length gs' \<and>
       set keys \<subseteq> set (gs' ! (unat off div kFilterBase)))"
proof -
  define gs' where "gs' = (if ks = [] then gs else gs @ [ks])"
  define b' where "b' = (if fb_start b \<noteq> [] then generate_filter pol b else b)"
  have "filled pol gs' [] b'"
    using assms(1) filled_generate [OF assms(1)] by (auto simp: gs'_def b'_def filled_def)
  moreover have "fold (\<lambda>off r. put_fixed32 r off) os r = r @ concat (map encode_fixed32 os)" for os r
    by (induction os arbitrary: r) (simp_all add: put_fixed32_def)
  ultimately have "filter_finish pol b = filter_bytes_of pol gs'"
    unfolding filter_finish_def b'_def [symmetric] Let_def
    by (simp add: filled_def filter_bytes_of_def put_fixed32_def comp_def)
  moreover have "unat off div kFilterBase < length gs' \<and> set keys \<subseteq> set (gs' ! (unat off div kFilterBase))"
    if "(off, keys) \<in> set blocks" "keys \<noteq> []" for off keys
    using assms(2) that by (fastforce simp: kept_def gs'_def nth_append Let_def)
  ultimately show ?thesis by blast
qed

lemma reader_ok:
  assumes "length (chunks pol gs) < 2 ^ 32" "unat off div kFilterBase < length gs"
    "k \<in> set (gs ! (unat off div kFilterBase))"
  shows "filter_key_may_match pol (new_filter_reader (filter_bytes_of pol gs)) off k"
proof -
  let ?i = "unat off div kFilterBase" and ?n = "length gs" and ?R = "chunks pol gs"
  let ?w = "\<lambda>i. encode_fixed32 (word_of_nat (pos pol gs i))"
  let ?tail = "concat (map ?w [0..<?n]) @ encode_fixed32 (word_of_nat (length ?R)) @ [word_of_nat kFilterBaseLg]"
  have bytes: "filter_bytes_of pol gs = ?R @ ?tail" by (simp add: filter_bytes_of_def)
  have sums: "length (concat (map ?w [0..<?n])) = ?n * 4" by (simp add: length_concat comp_def sum_list_triv)
  have all: "?tail = concat (map ?w [0..<Suc ?n]) @ [word_of_nat kFilterBaseLg]" by (simp add: pos_def)
  have read: "decode_fixed32 (drop (j * 4) ?tail) = word_of_nat (pos pol gs j)" if "j \<le> ?n" for j
    unfolding all using drop_fixed32s [of j "[0..<Suc ?n]" "\<lambda>i. word_of_nat (pos pol gs i)"] that
    by (simp del: upt_Suc)
  have small: "unat (word_of_nat (pos pol gs j) :: u32) = pos pol gs j" if "j \<le> ?n" for j
  proof -
    have "length (chunks pol gs) = length (chunks pol (take j gs)) + length (chunks pol (drop j gs))"
      by (metis append_take_drop_id chunks_def concat_append length_append map_append)
    with assms(1) show ?thesis by (simp add: pos_def unat_of_nat)
  qed
  define C where "C = filter_bytes_of pol gs"
  have C: "C = ?R @ ?tail" and len: "length C = length ?R + ?n * 4 + 5"
    using sums by (simp_all add: C_def bytes)
  have drop: "drop (length ?R + j * 4) C = drop (j * 4) ?tail" for j by (simp add: C)
  have top: "pos pol gs ?n = length ?R" by (simp add: pos_def)
  have "C ! (length C - 1) = word_of_nat kFilterBaseLg"
    unfolding C using sums by (simp add: nth_append)
  moreover have "unat (decode_fixed32 (drop (length C - 5) C)) = length ?R"
    using drop [of ?n] read [of ?n] small [of ?n] top by (simp add: len)
  ultimately have reader: "new_filter_reader C = \<lparr>fr_data = C, fr_offset = length ?R, fr_num = ?n,
      fr_base_lg = scast (word_of_nat kFilterBaseLg :: u8)\<rparr>"
    by (simp add: new_filter_reader_def Let_def len)
  have "unat (scast (word_of_nat kFilterBaseLg :: u8) :: u64) = 11" by (simp add: layout)
  then have index: "unat (drop_bit (unat (scast (word_of_nat kFilterBaseLg :: u8) :: u64)) off) = ?i"
    by (simp only: unat_drop_bit_eq) (simp add: drop_bit_eq_div layout)
  have bounds: "unat (decode_fixed32 (drop (length ?R + ?i * 4) C)) = pos pol gs ?i"
    "unat (decode_fixed32 (drop (length ?R + ?i * 4 + 4) C)) = pos pol gs (Suc ?i)"
    using drop [of ?i] drop [of "Suc ?i"] read [of ?i] read [of "Suc ?i"] small assms(2)
    by (simp_all add: algebra_simps)
  have g: "gs = take ?i gs @ gs ! ?i # drop (Suc ?i) gs" using assms(2) by (rule id_take_nth_drop)
  have step: "chunks pol (take (Suc ?i) gs) = chunks pol (take ?i gs) @ chunk pol (gs ! ?i)"
    using assms(2) by (simp add: take_Suc_conv_app_nth chunks_snoc)
  have "?R = chunks pol (take ?i gs) @ chunk pol (gs ! ?i) @ chunks pol (drop (Suc ?i) gs)"
    by (subst g) (simp add: chunks_def)
  then have "take (pos pol gs (Suc ?i) - pos pol gs ?i) (drop (pos pol gs ?i) C) = chunk pol (gs ! ?i)"
      "pos pol gs ?i \<le> pos pol gs (Suc ?i)" "pos pol gs (Suc ?i) \<le> length ?R"
    by (simp_all add: C pos_def step)
  moreover have "fp_match pol k (chunk pol (gs ! ?i))"
    using assms(3) create_covers by (auto simp: chunk_def)
  ultimately show ?thesis
    unfolding C_def [symmetric] reader using assms(2) bounds
    by (simp add: filter_key_may_match_def Let_def index)
qed

lemma no_false_negative:
  assumes "sorted (map fst blocks)" "(off, keys) \<in> set blocks" "k \<in> set keys"
    "length (filter_finish pol (filter_add_blocks pol blocks new_filter_builder)) < 2 ^ 32"
  shows "filter_key_may_match pol
    (new_filter_reader (filter_finish pol (filter_add_blocks pol blocks new_filter_builder))) off k"
proof -
  from add_blocks_ok [OF assms(1)] obtain gs0 ks where
    "filled pol gs0 ks (filter_add_blocks pol blocks new_filter_builder)" "kept blocks gs0 ks" by blast
  from finish_ok [OF this] obtain gs where
    gs: "filter_finish pol (filter_add_blocks pol blocks new_filter_builder) = filter_bytes_of pol gs"
      "\<forall>(off, keys) \<in> set blocks. keys \<noteq> [] \<longrightarrow> unat off div kFilterBase < length gs \<and>
         set keys \<subseteq> set (gs ! (unat off div kFilterBase))" by blast
  moreover from gs(2) assms(2,3) have "unat off div kFilterBase < length gs" "k \<in> set (gs ! (unat off div kFilterBase))"
    by force+
  moreover have "length (chunks pol gs) < 2 ^ 32" using assms(4) gs(1) by (simp add: filter_bytes_of_def)
  ultimately show ?thesis using reader_ok by simp
qed

lemma internal: "filter_policy (internal_policy pol)"
proof
  show "fp_create (internal_policy pol) keys dst = dst @ fp_create (internal_policy pol) keys []" for keys dst
    unfolding internal_policy_def filter_policy_ops.select_convs by (rule create_appends)
  show "k \<in> set keys \<Longrightarrow> fp_match (internal_policy pol) k (fp_create (internal_policy pol) keys [])" for k keys
    by (simp add: internal_policy_def create_covers)
qed

end

interpretation bloom: filter_policy "bloom_policy bits_per_key" for bits_per_key
proof
  show "fp_create (bloom_policy bits_per_key) keys dst = dst @ fp_create (bloom_policy bits_per_key) keys []" for keys dst
    by (simp add: bloom_policy_def create_filter_def Let_def)
  show "fp_match (bloom_policy bits_per_key) k (fp_create (bloom_policy bits_per_key) keys [])" if "k \<in> set keys" for k keys
    using create_filter_matches [OF that, of "[]"] by (simp add: bloom_policy_def)
qed

interpretation internal_bloom: filter_policy "internal_policy (bloom_policy bits_per_key)" for bits_per_key
  by (rule bloom.internal)

end
