(* ===== verification/LdbTable.thy ===== *)
theory LdbTable
  imports LdbFormat LdbFilterBlock
begin

text \<open>
  Tables (\<^verbatim>\<open>table/table_builder.cc\<close>, \<^verbatim>\<open>table/table.cc\<close>, \<^verbatim>\<open>table/two_level_iterator.cc\<close>): the file
  of sorted entries with its index, its optional filter and its footer, the lookup of a key, and
  the iterator over all entries.

  The options are a record of those that the code consults. Left out are \<^verbatim>\<open>ChangeOptions\<close>, which
  compares pointers, and the cache of blocks, so that \<^verbatim>\<open>BlockReader\<close> is modelled for
  \<^verbatim>\<open>block_cache == nullptr\<close>. \<^verbatim>\<open>compressed_output\<close> is scratch space. The file
  operations and the Snappy functions are arguments. \<^verbatim>\<open>IteratorWrapper\<close> caches what the iterator it
  wraps answers; the model asks the iterator.
\<close>

record table_options =
  opt_comparator :: comparator_ops
  opt_block_size :: nat
  opt_restart_interval :: int
  opt_compression :: compression_type
  opt_filter :: "filter_policy_ops option"
  opt_paranoid :: bool

definition bytes_of :: "string \<Rightarrow> slice" where
  "bytes_of s = map of_char s"

section \<open>The builder\<close>

record 'f table_builder =
  tb_file :: 'f
  tb_offset :: u64
  tb_status :: status
  tb_data_block :: block_builder
  tb_index_block :: block_builder
  tb_last_key :: slice
  tb_num_entries :: int
  tb_closed :: bool
  tb_filter :: "filter_builder option"
  tb_pending_index_entry :: bool
  tb_pending_handle :: block_handle

definition new_table_builder :: "table_options \<Rightarrow> 'f \<Rightarrow> 'f table_builder" where
  "new_table_builder opts f =
    \<lparr>tb_file = f, tb_offset = 0, tb_status = OK, tb_data_block = new_block_builder,
     tb_index_block = new_block_builder, tb_last_key = [], tb_num_entries = 0, tb_closed = False,
     tb_filter = map_option (\<lambda>pol. filter_start_block pol 0 new_filter_builder) (opt_filter opts),
     tb_pending_index_entry = False, tb_pending_handle = new_block_handle\<rparr>"

definition write_raw_block ::
    "'f writable_file \<Rightarrow> slice \<Rightarrow> compression_type \<Rightarrow> 'f table_builder \<Rightarrow> block_handle \<times> 'f table_builder" where
  "write_raw_block W block_contents type tb =
    (let handle = \<lparr>bh_offset = tb_offset tb, bh_size = word_of_nat (length block_contents)\<rparr>;
         (s, f) = wf_append W (tb_file tb) block_contents;
         tb = tb\<lparr>tb_status := s, tb_file := f\<rparr>
     in if status_ok s
        then let (s, f) = wf_append W (tb_file tb) (block_trailer block_contents type);
                 tb = tb\<lparr>tb_status := s, tb_file := f\<rparr>
             in (handle, if status_ok s
                  then tb\<lparr>tb_offset := tb_offset tb + word_of_nat (length block_contents + kBlockTrailerSize)\<rparr> else tb)
        else (handle, tb))"

text \<open>What \<^verbatim>\<open>WriteBlock\<close> stores of a finished block, and the block builder it leaves behind.\<close>

definition stored_block :: "snappy_ops \<Rightarrow> compression_type \<Rightarrow> slice \<Rightarrow> slice \<times> compression_type" where
  "stored_block sn type raw =
    (case type of
       kNoCompression \<Rightarrow> (raw, kNoCompression)
     | kSnappyCompression \<Rightarrow>
        (case snappy_compress sn raw of
           Some compressed \<Rightarrow>
             if length compressed < length raw - length raw div 8 then (compressed, kSnappyCompression)
             else (raw, kNoCompression)
         | None \<Rightarrow> (raw, kNoCompression)))"

definition write_block ::
    "snappy_ops \<Rightarrow> 'f writable_file \<Rightarrow> table_options \<Rightarrow> block_builder \<Rightarrow> 'f table_builder \<Rightarrow>
     block_handle \<times> block_builder \<times> 'f table_builder" where
  "write_block sn W opts block tb =
    (let (raw, block) = builder_finish block;
         (block_contents, type) = stored_block sn (opt_compression opts) raw;
         (handle, tb) = write_raw_block W block_contents type tb
     in (handle, builder_reset block, tb))"

definition table_flush :: "snappy_ops \<Rightarrow> 'f writable_file \<Rightarrow> table_options \<Rightarrow> 'f table_builder \<Rightarrow> 'f table_builder" where
  "table_flush sn W opts tb =
    (if \<not> status_ok (tb_status tb) then tb
     else if block_buffer (tb_data_block tb) = [] then tb
     else let (handle, block, tb) = write_block sn W opts (tb_data_block tb) tb;
              tb = tb\<lparr>tb_pending_handle := handle, tb_data_block := block\<rparr>;
              tb = (if status_ok (tb_status tb)
                    then let (s, f) = wf_flush W (tb_file tb)
                         in tb\<lparr>tb_pending_index_entry := True, tb_status := s, tb_file := f\<rparr>
                    else tb)
          in case opt_filter opts of
               None \<Rightarrow> tb
             | Some pol \<Rightarrow> tb\<lparr>tb_filter := map_option (filter_start_block pol (tb_offset tb)) (tb_filter tb)\<rparr>)"

text \<open>The index entry of the last block, under a key that separates it from what follows.\<close>

definition add_index_entry :: "slice \<Rightarrow> 'f table_builder \<Rightarrow> 'f table_builder" where
  "add_index_entry key tb = tb\<lparr>tb_last_key := key,
     tb_index_block := builder_add 1 key (handle_encode_to (tb_pending_handle tb) []) (tb_index_block tb),
     tb_pending_index_entry := False\<rparr>"

definition table_add ::
    "snappy_ops \<Rightarrow> 'f writable_file \<Rightarrow> table_options \<Rightarrow> slice \<Rightarrow> slice \<Rightarrow> 'f table_builder \<Rightarrow> 'f table_builder" where
  "table_add sn W opts key val tb =
    (if \<not> status_ok (tb_status tb) then tb
     else let tb = (if tb_pending_index_entry tb
                    then add_index_entry (find_shortest_separator (opt_comparator opts) (tb_last_key tb) key) tb else tb);
              tb = tb\<lparr>tb_filter := map_option (filter_add_key key) (tb_filter tb)\<rparr>;
              tb = tb\<lparr>tb_last_key := key, tb_num_entries := tb_num_entries tb + 1,
                     tb_data_block := builder_add (opt_restart_interval opts) key val (tb_data_block tb)\<rparr>
          in if opt_block_size opts \<le> current_size_estimate (tb_data_block tb) then table_flush sn W opts tb else tb)"

text \<open>The parts of \<^verbatim>\<open>Finish\<close>; each is skipped once an operation has failed.\<close>

definition write_filter_block ::
    "'f writable_file \<Rightarrow> table_options \<Rightarrow> 'f table_builder \<Rightarrow> block_handle \<times> 'f table_builder" where
  "write_filter_block W opts tb =
    (case (opt_filter opts, tb_filter tb) of
       (Some pol, Some fb) \<Rightarrow>
         if status_ok (tb_status tb) then write_raw_block W (filter_finish pol fb) kNoCompression tb
         else (new_block_handle, tb)
     | _ \<Rightarrow> (new_block_handle, tb))"

definition meta_key :: "filter_policy_ops \<Rightarrow> slice" where
  "meta_key pol = bytes_of (''filter.'' @ fp_name pol)"

definition write_metaindex_block ::
    "snappy_ops \<Rightarrow> 'f writable_file \<Rightarrow> table_options \<Rightarrow> block_handle \<Rightarrow> 'f table_builder \<Rightarrow>
     block_handle \<times> 'f table_builder" where
  "write_metaindex_block sn W opts filter_block_handle tb =
    (if status_ok (tb_status tb)
     then let meta_index_block = (case opt_filter opts of
                None \<Rightarrow> new_block_builder
              | Some pol \<Rightarrow> builder_add (opt_restart_interval opts) (meta_key pol)
                  (handle_encode_to filter_block_handle []) new_block_builder);
              (handle, _, tb) = write_block sn W opts meta_index_block tb
          in (handle, tb)
     else (new_block_handle, tb))"

definition write_index_block ::
    "snappy_ops \<Rightarrow> 'f writable_file \<Rightarrow> table_options \<Rightarrow> 'f table_builder \<Rightarrow> block_handle \<times> 'f table_builder" where
  "write_index_block sn W opts tb =
    (if status_ok (tb_status tb)
     then let tb = (if tb_pending_index_entry tb
                    then add_index_entry (find_short_successor (opt_comparator opts) (tb_last_key tb)) tb else tb);
              (handle, block, tb) = write_block sn W opts (tb_index_block tb) tb
          in (handle, tb\<lparr>tb_index_block := block\<rparr>)
     else (new_block_handle, tb))"

definition write_footer ::
    "'f writable_file \<Rightarrow> block_handle \<Rightarrow> block_handle \<Rightarrow> 'f table_builder \<Rightarrow> 'f table_builder" where
  "write_footer W metaindex_block_handle index_block_handle tb =
    (if status_ok (tb_status tb)
     then let footer_encoding = footer_encode_to
                \<lparr>metaindex_handle = metaindex_block_handle, index_handle = index_block_handle\<rparr> [];
              (s, f) = wf_append W (tb_file tb) footer_encoding;
              tb = tb\<lparr>tb_status := s, tb_file := f\<rparr>
          in if status_ok s then tb\<lparr>tb_offset := tb_offset tb + word_of_nat (length footer_encoding)\<rparr> else tb
     else tb)"

definition table_finish ::
    "snappy_ops \<Rightarrow> 'f writable_file \<Rightarrow> table_options \<Rightarrow> 'f table_builder \<Rightarrow> status \<times> 'f table_builder" where
  "table_finish sn W opts tb =
    (let tb = (table_flush sn W opts tb)\<lparr>tb_closed := True\<rparr>;
         (filter_block_handle, tb) = write_filter_block W opts tb;
         (metaindex_block_handle, tb) = write_metaindex_block sn W opts filter_block_handle tb;
         (index_block_handle, tb) = write_index_block sn W opts tb;
         tb = write_footer W metaindex_block_handle index_block_handle tb
     in (tb_status tb, tb))"

definition table_abandon :: "'f table_builder \<Rightarrow> 'f table_builder" where
  "table_abandon tb = tb\<lparr>tb_closed := True\<rparr>"

section \<open>The iterators that a block hands out\<close>

text \<open>An iterator that only has a status, one without entries, or one over the entries of a block.\<close>

type_synonym data_iter = "status + block_iter option"

definition di_valid :: "data_iter \<Rightarrow> bool" where
  "di_valid it = (case it of Inr (Some b) \<Rightarrow> block_valid b | _ \<Rightarrow> False)"

definition di_key :: "data_iter \<Rightarrow> slice" where
  "di_key it = (case it of Inr (Some b) \<Rightarrow> iter_key b | _ \<Rightarrow> [])"

definition di_value :: "data_iter \<Rightarrow> slice" where
  "di_value it = (case it of Inr (Some b) \<Rightarrow> block_value b | _ \<Rightarrow> [])"

definition di_status :: "data_iter \<Rightarrow> status" where
  "di_status it = (case it of Inl s \<Rightarrow> s | Inr None \<Rightarrow> OK | Inr (Some b) \<Rightarrow> iter_status b)"

definition di_step :: "(block_iter \<Rightarrow> block_iter option) \<Rightarrow> data_iter \<Rightarrow> data_iter option" where
  "di_step f it = (case it of Inr (Some b) \<Rightarrow> map_option (Inr \<circ> Some) (f b) | _ \<Rightarrow> Some it)"

definition di_seek :: "comparator_ops \<Rightarrow> slice \<Rightarrow> data_iter \<Rightarrow> data_iter option" where
  "di_seek cmp target = di_step (block_seek cmp target)"

definition di_seek_to_first :: "data_iter \<Rightarrow> data_iter option" where
  "di_seek_to_first = di_step (Some \<circ> block_seek_to_first)"

definition di_seek_to_last :: "data_iter \<Rightarrow> data_iter option" where
  "di_seek_to_last = di_step block_seek_to_last"

definition di_next :: "data_iter \<Rightarrow> data_iter option" where
  "di_next = di_step (Some \<circ> block_next)"

definition di_prev :: "data_iter \<Rightarrow> data_iter option" where
  "di_prev = di_step block_prev"

section \<open>Reading a table\<close>

record 'f table =
  t_file :: 'f
  t_options :: table_options
  t_filter :: "filter_reader option"
  t_metaindex_handle :: block_handle
  t_index_block :: block

definition read_filter :: "snappy_ops \<Rightarrow> 'f random_file \<Rightarrow> slice \<Rightarrow> 'f table \<Rightarrow> 'f table" where
  "read_filter sn RF filter_handle_value t =
    (let (s, filter_handle, v) = handle_decode_from new_block_handle filter_handle_value in
     if \<not> status_ok s then t
     else let (s, contents) = read_block sn RF (t_file t) (opt_paranoid (t_options t)) filter_handle
          in if \<not> status_ok s then t else t\<lparr>t_filter := Some (new_filter_reader (bc_data contents))\<rparr>)"

definition read_meta :: "snappy_ops \<Rightarrow> 'f random_file \<Rightarrow> footer \<Rightarrow> 'f table \<Rightarrow> 'f table option" where
  "read_meta sn RF foot t =
    (case opt_filter (t_options t) of
       None \<Rightarrow> Some t
     | Some pol \<Rightarrow>
        (let (s, contents) = read_block sn RF (t_file t) (opt_paranoid (t_options t)) (metaindex_handle foot) in
         if \<not> status_ok s then Some t
         else case di_seek bytewise_comparator (meta_key pol) (new_iterator (LdbBlock.new_block (bc_data contents))) of
              None \<Rightarrow> None
            | Some it \<Rightarrow> Some (if di_valid it \<and> di_key it = meta_key pol then read_filter sn RF (di_value it) t else t)))"

definition table_open ::
    "snappy_ops \<Rightarrow> 'f random_file \<Rightarrow> table_options \<Rightarrow> 'f \<Rightarrow> nat \<Rightarrow> (status \<times> 'f table option) option" where
  "table_open sn RF opts f bytes =
    (if bytes < kEncodedLength then Some (Corruption ''file is too short to be an sstable'', None)
     else let (s, footer_input, _) = rf_read RF f (bytes - kEncodedLength) kEncodedLength in
     if \<not> status_ok s then Some (s, None)
     else let (s, foot, _) = footer_decode_from new_footer footer_input in
     if \<not> status_ok s then Some (s, None)
     else let (s, index_block_contents) = read_block sn RF f (opt_paranoid opts) (index_handle foot) in
     if \<not> status_ok s then Some (s, None)
     else map_option (\<lambda>t. (s, Some t))
       (read_meta sn RF foot \<lparr>t_file = f, t_options = opts, t_filter = None,
          t_metaindex_handle = metaindex_handle foot,
          t_index_block = LdbBlock.new_block (bc_data index_block_contents)\<rparr>))"

definition block_reader :: "snappy_ops \<Rightarrow> 'f random_file \<Rightarrow> 'f table \<Rightarrow> bool \<Rightarrow> slice \<Rightarrow> data_iter" where
  "block_reader sn RF t verify_checksums index_value =
    (let (s, handle, input) = handle_decode_from new_block_handle index_value in
     if \<not> status_ok s then Inl s
     else let (s, contents) = read_block sn RF (t_file t) verify_checksums handle
          in if status_ok s then new_iterator (LdbBlock.new_block (bc_data contents)) else Inl s)"

text \<open>The lookup answers its status and the pair, if any, that it hands to \<^verbatim>\<open>handle_result\<close>.\<close>

definition internal_get ::
    "snappy_ops \<Rightarrow> 'f random_file \<Rightarrow> 'f table \<Rightarrow> bool \<Rightarrow> slice \<Rightarrow> (status \<times> (slice \<times> slice) option) option" where
  "internal_get sn RF t verify_checksums k =
    (let cmp = opt_comparator (t_options t) in
     case di_seek cmp k (new_iterator (t_index_block t)) of
       None \<Rightarrow> None
     | Some iiter \<Rightarrow>
        if \<not> di_valid iiter then Some (di_status iiter, None)
        else let (hs, handle, _) = handle_decode_from new_block_handle (di_value iiter) in
             if (case (t_filter t, opt_filter (t_options t)) of
                   (Some r, Some pol) \<Rightarrow> status_ok hs \<and> \<not> filter_key_may_match pol r (bh_offset handle) k
                 | _ \<Rightarrow> False)
             then Some (di_status iiter, None)
             else case di_seek cmp k (block_reader sn RF t verify_checksums (di_value iiter)) of
                    None \<Rightarrow> None
                  | Some block_iter \<Rightarrow>
                     Some (if status_ok (di_status block_iter) then di_status iiter else di_status block_iter,
                       if di_valid block_iter then Some (di_key block_iter, di_value block_iter) else None))"

definition approximate_offset_of :: "'f table \<Rightarrow> slice \<Rightarrow> u64 option" where
  "approximate_offset_of t key =
    (case di_seek (opt_comparator (t_options t)) key (new_iterator (t_index_block t)) of
       None \<Rightarrow> None
     | Some index_iter \<Rightarrow>
        Some (if di_valid index_iter
              then let (s, handle, _) = handle_decode_from new_block_handle (di_value index_iter)
                   in if status_ok s then bh_offset handle else bh_offset (t_metaindex_handle t)
              else bh_offset (t_metaindex_handle t)))"
end
