(* ===== verification/LdbTableSpec.thy ===== *)
theory LdbTableSpec
  imports LdbTable LdbBlockRound
begin

text \<open>
  The builder of a table writes the layout \<open>table_bytes\<close>: the data blocks, the filter block, the
  block of meta data, the index and the footer. Every key of a data block is at most the key of
  its index entry, which is before every key of the later blocks.
\<close>

section \<open>The layout\<close>

definition stored :: "snappy_ops \<Rightarrow> table_options \<Rightarrow> (slice \<times> slice) list \<Rightarrow> slice \<times> compression_type" where
  "stored sn opts es = stored_block sn (opt_compression opts) (built_block (opt_restart_interval opts) es)"

definition framed :: "slice \<times> compression_type \<Rightarrow> slice" where
  "framed p = fst p @ block_trailer (fst p) (snd p)"

definition region :: "snappy_ops \<Rightarrow> table_options \<Rightarrow> (slice \<times> slice) list list \<Rightarrow> slice" where
  "region sn opts bs = concat (map (\<lambda>es. framed (stored sn opts es)) bs)"

definition handle_for :: "slice \<Rightarrow> slice \<Rightarrow> block_handle" where
  "handle_for pre d = \<lparr>bh_offset = word_of_nat (length pre), bh_size = word_of_nat (length d)\<rparr>"

definition handle_at :: "snappy_ops \<Rightarrow> table_options \<Rightarrow> (slice \<times> slice) list list \<Rightarrow> nat \<Rightarrow> block_handle" where
  "handle_at sn opts bs i = handle_for (region sn opts (take i bs)) (fst (stored sn opts (bs ! i)))"

text \<open>Data blocks with the key of their index entry.\<close>

type_synonym indexed = "slice \<times> (slice \<times> slice) list"

definition index_entries :: "snappy_ops \<Rightarrow> table_options \<Rightarrow> indexed list \<Rightarrow> (slice \<times> slice) list" where
  "index_entries sn opts B =
    map (\<lambda>i. (fst (B ! i), handle_encode_to (handle_at sn opts (map snd B) i) [])) [0..<length B]"

definition filter_blocks :: "snappy_ops \<Rightarrow> table_options \<Rightarrow> (slice \<times> slice) list list \<Rightarrow> (u64 \<times> slice list) list" where
  "filter_blocks sn opts bs =
    map (\<lambda>i. (word_of_nat (length (region sn opts (take i bs))), map fst (bs ! i))) [0..<length bs]"

lemma region_snoc: "region sn opts (bs @ [b]) = region sn opts bs @ framed (stored sn opts b)"
  by (simp add: region_def)

lemma index_entries_snoc:
  "index_entries sn opts (B @ [(k, es)]) = index_entries sn opts B @
    [(k, handle_encode_to (handle_at sn opts (map snd B @ [es]) (length B)) [])]"
  by (auto simp: index_entries_def handle_at_def nth_append)

lemma filter_blocks_snoc:
  "filter_blocks sn opts (bs @ [b]) = filter_blocks sn opts bs @ [(word_of_nat (length (region sn opts bs)), map fst b)]"
  by (auto simp: filter_blocks_def nth_append)

lemma filter_add_blocks_snoc:
  "filter_add_blocks pol (bs @ [(at, keys)]) b =
    fold filter_add_key keys (filter_start_block pol at (filter_add_blocks pol bs b))"
  by (simp add: filter_add_blocks_def)

lemma builder_add_all_snoc: "builder_add_all n (es @ [(k, v)]) b = builder_add n k v (builder_add_all n es b)"
  by (induction n es b rule: builder_add_all.induct) simp_all

lemma builder_reset_new: "builder_reset b = new_block_builder"
  by (simp add: builder_reset_def new_block_builder_def)

lemma builder_empty: "block_buffer (builder_add_all n es new_block_builder) = [] \<longleftrightarrow> es = []"
proof (cases es rule: rev_cases)
  case (snoc xs x)
  have "encode_varint32 v \<noteq> []" for v by (simp add: encode_varint32_def Let_def)
  then have "block_buffer (builder_add n k v b) \<noteq> []" for k v b
    by (simp add: builder_add_def Let_def put_varint32_def split_beta)
  with snoc show ?thesis by (cases x) (simp add: builder_add_all_snoc)
qed (simp add: new_block_builder_def)

text \<open>The bytes of a finished table.\<close>

definition filter_contents :: "snappy_ops \<Rightarrow> table_options \<Rightarrow> filter_policy_ops \<Rightarrow> (slice \<times> slice) list list \<Rightarrow> slice" where
  "filter_contents sn opts pol bs = filter_finish pol (filter_add_blocks pol (filter_blocks sn opts bs) new_filter_builder)"

definition filter_part :: "snappy_ops \<Rightarrow> table_options \<Rightarrow> (slice \<times> slice) list list \<Rightarrow> slice" where
  "filter_part sn opts bs =
    (case opt_filter opts of None \<Rightarrow> [] | Some pol \<Rightarrow> framed (filter_contents sn opts pol bs, kNoCompression))"

definition meta_entries :: "snappy_ops \<Rightarrow> table_options \<Rightarrow> slice \<Rightarrow> (slice \<times> slice) list list \<Rightarrow> (slice \<times> slice) list" where
  "meta_entries sn opts pre bs =
    (case opt_filter opts of None \<Rightarrow> []
     | Some pol \<Rightarrow> [(meta_key pol, handle_encode_to (handle_for pre (filter_contents sn opts pol bs)) [])])"

definition index_stored :: "snappy_ops \<Rightarrow> table_options \<Rightarrow> indexed list \<Rightarrow> slice \<times> compression_type" where
  "index_stored sn opts B = stored_block sn (opt_compression opts) (built_block 1 (index_entries sn opts B))"

text \<open>Four consecutive parts behind the data: \<open>bs\<close> are the blocks the filter has seen.\<close>

definition table_bytes :: "snappy_ops \<Rightarrow> table_options \<Rightarrow> indexed list \<Rightarrow> (slice \<times> slice) list list \<Rightarrow> slice" where
  "table_bytes sn opts B bs =
    (let r0 = region sn opts (map snd B);
         r1 = r0 @ filter_part sn opts bs;
         meta = stored sn opts (meta_entries sn opts r0 bs);
         r2 = r1 @ framed meta;
         index = index_stored sn opts B;
         r3 = r2 @ framed index
     in r3 @ footer_encode_to \<lparr>metaindex_handle = handle_for r1 (fst meta), index_handle = handle_for r2 (fst index)\<rparr> [])"

section \<open>The builder's invariant\<close>

text \<open>
  \<open>tb_holds B pend cur tb\<close>: the blocks \<open>B\<close> are written and indexed, the block \<open>pend\<close>, if any, is
  written and waits for its index entry, and \<open>cur\<close> is collected.
\<close>

definition opt_list :: "'a option \<Rightarrow> 'a list" where
  "opt_list x = (case x of None \<Rightarrow> [] | Some a \<Rightarrow> [a])"

lemma opt_list_simps [simp]: "opt_list None = []" "opt_list (Some a) = [a]"
  by (simp_all add: opt_list_def)

text \<open>The blocks of the table once the index entry that is still due is made.\<close>

definition all_blocks :: "table_options \<Rightarrow> indexed list \<Rightarrow> (slice \<times> slice) list option \<Rightarrow> indexed list" where
  "all_blocks opts B pend =
    B @ map (\<lambda>p. (find_short_successor (opt_comparator opts) (fst (last p)), p)) (opt_list pend)"

context writable
begin

definition tb_holds :: "snappy_ops \<Rightarrow> table_options \<Rightarrow> indexed list \<Rightarrow> (slice \<times> slice) list option \<Rightarrow>
    (slice \<times> slice) list \<Rightarrow> 'f table_builder \<Rightarrow> bool" where
  "tb_holds sn opts B pend cur tb \<longleftrightarrow>
    (let bs = map snd B @ opt_list pend in
     tb_status tb = OK \<and> sound (tb_file tb) \<and> written (tb_file tb) = region sn opts bs \<and>
     tb_offset tb = word_of_nat (length (region sn opts bs)) \<and>
     tb_data_block tb = builder_add_all (opt_restart_interval opts) cur new_block_builder \<and>
     tb_index_block tb = builder_add_all 1 (index_entries sn opts B) new_block_builder \<and>
     tb_pending_index_entry tb = (pend \<noteq> None) \<and>
     (\<forall>p. pend = Some p \<longrightarrow> cur = [] \<and> p \<noteq> [] \<and> tb_last_key tb = fst (last p) \<and>
       tb_pending_handle tb = handle_at sn opts bs (length B)) \<and>
     (cur \<noteq> [] \<longrightarrow> tb_last_key tb = fst (last cur)) \<and>
     tb_filter tb = map_option (\<lambda>pol. filter_add_blocks pol (filter_blocks sn opts (bs @ [cur])) new_filter_builder) (opt_filter opts))"

lemma new_table_holds: "sound f \<Longrightarrow> written f = [] \<Longrightarrow> tb_holds sn opts [] None [] (new_table_builder opts f)"
  by (auto simp: tb_holds_def new_table_builder_def region_def index_entries_def filter_blocks_def
      filter_add_blocks_def intro!: option.map_cong0)

lemma write_raw_ok:
  assumes "sound (tb_file tb)" "tb_offset tb = word_of_nat (length (written (tb_file tb)))"
  shows "\<exists>f. write_raw_block ops d type tb = (handle_for (written (tb_file tb)) d,
      tb\<lparr>tb_status := OK, tb_file := f, tb_offset := word_of_nat (length (written f))\<rparr>) \<and>
    sound f \<and> written f = written (tb_file tb) @ framed (d, type)"
proof -
  obtain f1 where f1: "wf_append ops (tb_file tb) d = (OK, f1)" "sound f1" "written f1 = written (tb_file tb) @ d"
    using append_law [OF assms(1)] by blast
  obtain f2 where f2: "wf_append ops f1 (block_trailer d type) = (OK, f2)" "sound f2"
      "written f2 = written f1 @ block_trailer d type"
    using append_law [OF f1(2)] by blast
  have "length (block_trailer d type) = kBlockTrailerSize" by (simp add: block_trailer_def Let_def layout)
  then show ?thesis using f1 f2 assms(2)
    by (intro exI [of _ f2]) (simp add: write_raw_block_def handle_for_def framed_def)
qed

lemma add_index_holds:
  assumes "tb_holds sn opts B (Some p) cur tb"
  shows "tb_holds sn opts (B @ [(key, p)]) None [] (add_index_entry key tb)"
  using assms by (simp add: tb_holds_def Let_def add_index_entry_def index_entries_snoc builder_add_all_snoc)

lemma add_entry_holds:
  assumes "tb_holds sn opts B None cur tb"
  shows "tb_holds sn opts B None (cur @ [(k, v)]) (tb\<lparr>tb_filter := map_option (filter_add_key k) (tb_filter tb),
    tb_last_key := k, tb_num_entries := n, tb_data_block := builder_add (opt_restart_interval opts) k v (tb_data_block tb)\<rparr>)"
  using assms by (cases "opt_filter opts")
    (simp_all add: tb_holds_def Let_def builder_add_all_snoc filter_blocks_snoc filter_add_blocks_snoc)

lemma flush_holds:
  assumes "tb_holds sn opts B None cur tb"
  shows "cur \<noteq> [] \<Longrightarrow> tb_holds sn opts B (Some cur) [] (table_flush sn ops opts tb)"
    "cur = [] \<Longrightarrow> table_flush sn ops opts tb = tb"
proof -
  note h = assms [unfolded tb_holds_def Let_def]
  show "cur = [] \<Longrightarrow> table_flush sn ops opts tb = tb"
    using h by (simp add: table_flush_def new_block_builder_def)
  assume cur: "cur \<noteq> []"
  obtain d ty where st: "stored sn opts cur = (d, ty)" by (cases "stored sn opts cur")
  obtain f1 where f1: "write_raw_block ops d ty tb = (handle_for (written (tb_file tb)) d,
      tb\<lparr>tb_status := OK, tb_file := f1, tb_offset := word_of_nat (length (written f1))\<rparr>)"
      "sound f1" "written f1 = written (tb_file tb) @ framed (d, ty)"
  proof -
    have "sound (tb_file tb)" "tb_offset tb = word_of_nat (length (written (tb_file tb)))" using h by simp_all
    from write_raw_ok [OF this] that show ?thesis by blast
  qed
  obtain f2 where f2: "wf_flush ops f1 = (OK, f2)" "sound f2" "written f2 = written f1"
    using flush_law [OF f1(2)] by blast
  obtain raw b where fin: "builder_finish (tb_data_block tb) = (raw, b)" by fastforce
  have raw: "raw = built_block (opt_restart_interval opts) cur"
    using fin h by (simp add: built_block_def)
  have "stored_block sn (opt_compression opts) raw = (d, ty)" using st by (simp add: stored_def raw)
  then have wb: "write_block sn ops opts (tb_data_block tb) tb = (handle_for (written (tb_file tb)) d, new_block_builder,
      tb\<lparr>tb_status := OK, tb_file := f1, tb_offset := word_of_nat (length (written f1))\<rparr>)"
    by (simp add: write_block_def fin f1(1) builder_reset_new)
  have ne: "block_buffer (tb_data_block tb) \<noteq> []" using h cur builder_empty by simp
  have w: "written f1 = region sn opts (map snd B @ [cur])" using f1(3) h st by (simp add: region_snoc)
  have at: "handle_at sn opts (map snd B @ [cur]) (length B) = handle_for (written (tb_file tb)) d"
    using h st by (simp add: handle_at_def nth_append)
  have key: "tb_last_key tb = fst (last cur)" using h cur by simp
  show "tb_holds sn opts B (Some cur) [] (table_flush sn ops opts tb)"
    using h wb ne f2 w at key cur
    by (cases "opt_filter opts")
      (simp_all add: tb_holds_def Let_def table_flush_def filter_blocks_snoc [of _ _ _ "[]"]
        filter_add_blocks_snoc [of _ _ _ "[]"] flip: append_assoc)
qed

section \<open>Finishing\<close>

text \<open>\<open>tb_moved f tb\<close>: only the file has moved on.\<close>

definition tb_moved :: "'f \<Rightarrow> 'f table_builder \<Rightarrow> 'f table_builder" where
  "tb_moved f tb = tb\<lparr>tb_status := OK, tb_file := f, tb_offset := word_of_nat (length (written f))\<rparr>"

definition tb_at :: "slice \<Rightarrow> 'f table_builder \<Rightarrow> bool" where
  "tb_at pre tb \<longleftrightarrow> tb_status tb = OK \<and> sound (tb_file tb) \<and> written (tb_file tb) = pre \<and>
    tb_offset tb = word_of_nat (length pre)"

lemma tb_at_moved [simp]: "tb_at pre (tb_moved f tb) \<longleftrightarrow> sound f \<and> written f = pre"
  by (auto simp: tb_at_def tb_moved_def)

lemma moved_fields [simp]:
  "tb_index_block (tb_moved f tb) = tb_index_block tb" "tb_filter (tb_moved f tb) = tb_filter tb"
  "tb_pending_index_entry (tb_moved f tb) = tb_pending_index_entry tb" "tb_last_key (tb_moved f tb) = tb_last_key tb"
  "tb_pending_handle (tb_moved f tb) = tb_pending_handle tb" "tb_moved g (tb_moved f tb) = tb_moved g tb"
  by (simp_all add: tb_moved_def)

lemma write_raw_at:
  assumes "tb_at pre tb"
  obtains f where "write_raw_block ops d type tb = (handle_for pre d, tb_moved f tb)" "tb_at (pre @ framed (d, type)) (tb_moved f tb)"
proof -
  have "sound (tb_file tb)" "tb_offset tb = word_of_nat (length (written (tb_file tb)))" "written (tb_file tb) = pre"
    using assms by (simp_all add: tb_at_def)
  from write_raw_ok [OF this(1,2), of d type] obtain f where
    f: "write_raw_block ops d type tb = (handle_for pre d, tb_moved f tb)" "sound f" "written f = pre @ framed (d, type)"
    unfolding \<open>written (tb_file tb) = pre\<close> tb_moved_def by blast
  show ?thesis by (rule that [OF f(1)]) (simp only: tb_at_moved f(2,3) simp_thms)
qed

lemma write_block_at:
  fixes sn opts b
  assumes "tb_at pre tb"
  defines "st \<equiv> stored_block sn (opt_compression opts) (fst (builder_finish b))"
  obtains f where "write_block sn ops opts b tb = (handle_for pre (fst st), new_block_builder, tb_moved f tb)"
    "tb_at (pre @ framed st) (tb_moved f tb)"
proof -
  obtain f where "write_raw_block ops (fst st) (snd st) tb = (handle_for pre (fst st), tb_moved f tb)"
      "tb_at (pre @ framed (fst st, snd st)) (tb_moved f tb)"
    by (rule write_raw_at [OF assms(1)])
  with that show ?thesis by (simp add: write_block_def st_def split_beta builder_reset_new)
qed

lemma write_filter_at:
  assumes "tb_at pre tb"
    "tb_filter tb = map_option (\<lambda>pol. filter_add_blocks pol (filter_blocks sn opts bs) new_filter_builder) (opt_filter opts)"
  obtains h f where "write_filter_block ops opts tb = (h, tb_moved f tb)" "tb_at (pre @ filter_part sn opts bs) (tb_moved f tb)"
    "\<forall>pol. opt_filter opts = Some pol \<longrightarrow> h = handle_for pre (filter_contents sn opts pol bs)"
proof (cases "opt_filter opts")
  case None
  have "tb_moved (tb_file tb) tb = tb" using assms(1) by (simp add: tb_moved_def tb_at_def)
  then show ?thesis using None assms that [of new_block_handle "tb_file tb"]
    by (simp add: write_filter_block_def filter_part_def)
next
  case (Some pol)
  let ?c = "filter_contents sn opts pol bs"
  obtain f where "write_raw_block ops ?c kNoCompression tb = (handle_for pre ?c, tb_moved f tb)"
      "tb_at (pre @ framed (?c, kNoCompression)) (tb_moved f tb)"
    by (rule write_raw_at [OF assms(1)])
  moreover have "tb_status tb = OK" using assms(1) by (simp add: tb_at_def)
  ultimately show ?thesis using Some assms(2) that [of "handle_for pre ?c" f]
    by (simp add: write_filter_block_def filter_part_def filter_contents_def)
qed

lemma write_metaindex_at:
  assumes "tb_at pre tb" "\<forall>pol. opt_filter opts = Some pol \<longrightarrow> h = handle_for pre0 (filter_contents sn opts pol bs)"
  obtains f where "write_metaindex_block sn ops opts h tb =
      (handle_for pre (fst (stored sn opts (meta_entries sn opts pre0 bs))), tb_moved f tb)"
    "tb_at (pre @ framed (stored sn opts (meta_entries sn opts pre0 bs))) (tb_moved f tb)"
proof -
  let ?m = "meta_entries sn opts pre0 bs"
  define b where "b = builder_add_all (opt_restart_interval opts) ?m new_block_builder"
  have b: "(case opt_filter opts of None \<Rightarrow> new_block_builder
        | Some pol \<Rightarrow> builder_add (opt_restart_interval opts) (meta_key pol) (handle_encode_to h []) new_block_builder) = b"
    using assms(2) by (cases "opt_filter opts") (simp_all add: b_def meta_entries_def)
  obtain f where "write_block sn ops opts b tb =
        (handle_for pre (fst (stored_block sn (opt_compression opts) (fst (builder_finish b)))), new_block_builder, tb_moved f tb)"
      "tb_at (pre @ framed (stored_block sn (opt_compression opts) (fst (builder_finish b)))) (tb_moved f tb)"
    by (rule write_block_at [OF assms(1)])
  moreover have "stored_block sn (opt_compression opts) (fst (builder_finish b)) = stored sn opts ?m"
    by (simp add: stored_def built_block_def b_def)
  moreover have "tb_status tb = OK" using assms(1) by (simp add: tb_at_def)
  ultimately show ?thesis using that b by (simp add: write_metaindex_block_def)
qed

lemma write_footer_at:
  assumes "tb_at pre tb"
  shows "\<exists>tb'. write_footer ops mh ih tb = tb' \<and> tb_status tb' = OK \<and> sound (tb_file tb') \<and>
    written (tb_file tb') = pre @ footer_encode_to \<lparr>metaindex_handle = mh, index_handle = ih\<rparr> []"
proof -
  obtain f where "wf_append ops (tb_file tb) (footer_encode_to \<lparr>metaindex_handle = mh, index_handle = ih\<rparr> []) = (OK, f)"
      "sound f" "written f = pre @ footer_encode_to \<lparr>metaindex_handle = mh, index_handle = ih\<rparr> []"
    using append_law [of "tb_file tb" "footer_encode_to \<lparr>metaindex_handle = mh, index_handle = ih\<rparr> []"] assms
    by (auto simp: tb_at_def)
  then show ?thesis using assms by (simp add: write_footer_def tb_at_def)
qed

lemma write_index_at:
  assumes "tb_holds sn opts B pend [] tb" "tb_at pre (tb_moved f0 tb)"
  defines "A \<equiv> all_blocks opts B pend"
  obtains tb' where "write_index_block sn ops opts (tb_moved f0 tb) = (handle_for pre (fst (index_stored sn opts A)), tb')"
    "tb_at (pre @ framed (index_stored sn opts A)) tb'"
proof -
  define tb1 where "tb1 = (if tb_pending_index_entry tb
    then add_index_entry (find_short_successor (opt_comparator opts) (tb_last_key tb)) (tb_moved f0 tb) else tb_moved f0 tb)"
  have tb1_eq: "tb1 = (if tb_pending_index_entry (tb_moved f0 tb)
      then add_index_entry (find_short_successor (opt_comparator opts) (tb_last_key (tb_moved f0 tb))) (tb_moved f0 tb)
      else tb_moved f0 tb)" by (simp add: tb1_def)
  have at: "tb_at pre tb1" using assms(2) by (simp add: tb1_def tb_at_def add_index_entry_def)
  have idx: "tb_index_block tb1 = builder_add_all 1 (index_entries sn opts A) new_block_builder"
    using assms(1) by (cases pend)
      (simp_all add: tb1_def tb_holds_def Let_def add_index_entry_def A_def all_blocks_def index_entries_snoc builder_add_all_snoc)
  have st: "stored_block sn (opt_compression opts) (fst (builder_finish (tb_index_block tb1))) = index_stored sn opts A"
    by (simp add: index_stored_def built_block_def idx)
  obtain f where "write_block sn ops opts (tb_index_block tb1) tb1 =
        (handle_for pre (fst (index_stored sn opts A)), new_block_builder, tb_moved f tb1)"
      and f: "tb_at (pre @ framed (index_stored sn opts A)) (tb_moved f tb1)"
    by (rule write_block_at [OF at, of sn opts "tb_index_block tb1", unfolded st])
  moreover have "tb_status (tb_moved f0 tb) = OK" by (simp add: tb_moved_def)
  ultimately have wb: "write_index_block sn ops opts (tb_moved f0 tb) =
      (handle_for pre (fst (index_stored sn opts A)), (tb_moved f tb1)\<lparr>tb_index_block := new_block_builder\<rparr>)"
    unfolding write_index_block_def tb1_eq [symmetric] by simp
  show ?thesis
    by (rule that [OF wb]) (use f in \<open>simp add: tb_at_def\<close>)
qed

lemma finish_holds:
  assumes "tb_holds sn opts B pend [] (table_flush sn ops opts tb)"
  defines "A \<equiv> all_blocks opts B pend"
  shows "\<exists>tb'. table_finish sn ops opts tb = (OK, tb') \<and> sound (tb_file tb') \<and>
    written (tb_file tb') = table_bytes sn opts A (map snd A @ [[]])"
proof -
  define tb0 where "tb0 = (table_flush sn ops opts tb)\<lparr>tb_closed := True\<rparr>"
  have h0: "tb_holds sn opts B pend [] tb0" using assms(1) by (simp add: tb_holds_def tb0_def)
  have bs: "map snd A = map snd B @ opt_list pend" by (cases pend) (simp_all add: A_def all_blocks_def)
  define r0 where "r0 = region sn opts (map snd A)"
  have at0: "tb_at r0 tb0" using h0 by (simp add: tb_at_def tb_holds_def Let_def r0_def bs)
  have filt: "tb_filter tb0 = map_option (\<lambda>pol. filter_add_blocks pol (filter_blocks sn opts (map snd A @ [[]]))
      new_filter_builder) (opt_filter opts)"
    using h0 by (simp add: tb_holds_def Let_def bs)
  obtain h f1 where 1: "write_filter_block ops opts tb0 = (h, tb_moved f1 tb0)"
      "tb_at (r0 @ filter_part sn opts (map snd A @ [[]])) (tb_moved f1 tb0)"
      "\<forall>pol. opt_filter opts = Some pol \<longrightarrow> h = handle_for r0 (filter_contents sn opts pol (map snd A @ [[]]))"
    by (rule write_filter_at [OF at0 filt])
  define r1 where "r1 = r0 @ filter_part sn opts (map snd A @ [[]])"
  define meta where "meta = stored sn opts (meta_entries sn opts r0 (map snd A @ [[]]))"
  obtain f2 where 2: "write_metaindex_block sn ops opts h (tb_moved f1 tb0) = (handle_for r1 (fst meta), tb_moved f2 tb0)"
      "tb_at (r1 @ framed meta) (tb_moved f2 tb0)"
    by (rule write_metaindex_at [OF 1(2,3)]) (simp add: r1_def meta_def)
  obtain tb3 where 3: "write_index_block sn ops opts (tb_moved f2 tb0) =
        (handle_for (r1 @ framed meta) (fst (index_stored sn opts A)), tb3)"
      "tb_at ((r1 @ framed meta) @ framed (index_stored sn opts A)) tb3"
    by (rule write_index_at [OF h0 2(2)]) (simp add: A_def)
  obtain tb4 where 4: "write_footer ops (handle_for r1 (fst meta)) (handle_for (r1 @ framed meta) (fst (index_stored sn opts A))) tb3 = tb4"
      "tb_status tb4 = OK" "sound (tb_file tb4)"
      "written (tb_file tb4) = ((r1 @ framed meta) @ framed (index_stored sn opts A)) @ footer_encode_to
        \<lparr>metaindex_handle = handle_for r1 (fst meta), index_handle = handle_for (r1 @ framed meta) (fst (index_stored sn opts A))\<rparr> []"
    using write_footer_at [OF 3(2)] by blast
  have "table_finish sn ops opts tb = (OK, tb4)"
    unfolding table_finish_def tb0_def [symmetric] Let_def 1(1) 2(1) 3(1) 4(1) case_prod_conv
    by (simp add: 2(1) 3(1) 4(1,2))
  moreover have "written (tb_file tb4) = table_bytes sn opts A (map snd A @ [[]])"
    unfolding 4(4) table_bytes_def Let_def meta_def r1_def r0_def ..
  ultimately show ?thesis using 4(3) by blast
qed

end

section \<open>Keys of the index\<close>

text \<open>\<open>divided cmp valid B rest\<close>: the index keys of \<open>B\<close> lie between their block and all that follows.\<close>

primrec divided :: "comparator_ops \<Rightarrow> (slice \<Rightarrow> bool) \<Rightarrow> indexed list \<Rightarrow> (slice \<times> slice) list \<Rightarrow> bool" where
  "divided cmp valid [] rest = True"
| "divided cmp valid (b # B) rest \<longleftrightarrow> valid (fst b) \<and> snd b \<noteq> [] \<and>
     (\<forall>e \<in> set (snd b). compare cmp (fst e) (fst b) \<le> 0) \<and>
     (\<forall>e \<in> set (concat (map snd B) @ rest). compare cmp (fst b) (fst e) < 0) \<and> divided cmp valid B rest"

lemma divided_snoc:
  "divided cmp valid (B @ [(s, p)]) rest \<longleftrightarrow> divided cmp valid B (p @ rest) \<and> valid s \<and> p \<noteq> [] \<and>
    (\<forall>e \<in> set p. compare cmp (fst e) s \<le> 0) \<and> (\<forall>e \<in> set rest. compare cmp s (fst e) < 0)"
  by (induction B) auto

text \<open>The entries, in order and with valid keys.\<close>

definition sorted_by :: "comparator_ops \<Rightarrow> (slice \<Rightarrow> bool) \<Rightarrow> (slice \<times> slice) list \<Rightarrow> bool" where
  "sorted_by cmp valid es \<longleftrightarrow> (\<forall>e \<in> set es. valid (fst e)) \<and> sorted_wrt (\<lambda>a b. compare cmp (fst a) (fst b) < 0) es"

lemma sorted_by_append:
  "sorted_by cmp valid (xs @ ys) \<longleftrightarrow> sorted_by cmp valid xs \<and> sorted_by cmp valid ys \<and>
    (\<forall>x \<in> set xs. \<forall>y \<in> set ys. compare cmp (fst x) (fst y) < 0)"
  by (auto simp: sorted_by_def sorted_wrt_append)

context comparator
begin

lemma divided_extend:
  "divided ops valid B rest \<Longrightarrow> B = [] \<or> rest \<noteq> [] \<Longrightarrow> sorted_by ops valid (rest @ [e]) \<Longrightarrow> divided ops valid B (rest @ [e])"
proof (induction B)
  case (Cons b B)
  then have rest: "rest \<noteq> []" by simp
  have "compare ops (fst b) (fst (last rest)) < 0" "valid (fst b)" using Cons.prems(1) rest by simp_all
  moreover have "valid (fst (last rest))" "valid (fst e)" "compare ops (fst (last rest)) (fst e) < 0"
    using Cons.prems(3) rest by (auto simp: sorted_by_append) (auto simp: sorted_by_def)
  ultimately have "compare ops (fst b) (fst e) < 0"
    using compare_less_trans [of "fst b" "fst (last rest)" "fst e"] by simp
  with Cons rest show ?case by auto
qed simp

lemma last_greatest:
  "sorted_by ops valid p \<Longrightarrow> p \<noteq> [] \<Longrightarrow> e \<in> set p \<Longrightarrow> compare ops (fst e) (fst (last p)) \<le> 0"
proof (cases p rule: rev_cases)
  case (snoc q x)
  assume "sorted_by ops valid p" "e \<in> set p"
  with snoc show ?thesis using compare_refl [of "fst x"]
    by (auto simp: sorted_by_append) (auto simp: sorted_by_def intro: less_imp_le)
qed simp

text \<open>Both ways to find an index key for the block \<open>p\<close>.\<close>

lemma divided_separator:
  assumes "divided ops valid B p" "p \<noteq> []" "sorted_by ops valid (p @ [e])"
  shows "divided ops valid (B @ [(find_shortest_separator ops (fst (last p)) (fst e), p)]) [e]"
proof -
  have p: "sorted_by ops valid p" using assms(3) by (simp add: sorted_by_append)
  have keys: "valid (fst (last p))" "valid (fst e)" "compare ops (fst (last p)) (fst e) < 0"
    using assms(2,3) by (auto simp: sorted_by_append) (auto simp: sorted_by_def)
  note sep = separator_law [OF keys]
  have "compare ops (fst x) (find_shortest_separator ops (fst (last p)) (fst e)) \<le> 0" if "x \<in> set p" for x
    using compare_trans [of "fst x" "fst (last p)"] last_greatest [OF p assms(2) that] keys sep that p
    by (simp add: sorted_by_def)
  then show ?thesis using divided_extend [OF assms(1) _ assms(3)] assms(2) sep by (simp add: divided_snoc)
qed

lemma divided_successor:
  assumes "divided ops valid B p" "p \<noteq> []" "sorted_by ops valid p"
  shows "divided ops valid (B @ [(find_short_successor ops (fst (last p)), p)]) []"
proof -
  have key: "valid (fst (last p))" using assms(2,3) by (simp add: sorted_by_def)
  note succ = successor_law [OF key]
  have "compare ops (fst x) (find_short_successor ops (fst (last p))) \<le> 0" if "x \<in> set p" for x
    using compare_trans [of "fst x" "fst (last p)"] last_greatest [OF assms(3,2) that] key succ that assms(3)
    by (simp add: sorted_by_def)
  then show ?thesis using assms succ by (simp add: divided_snoc)
qed

end

section \<open>Building a table\<close>

fun table_add_all ::
    "snappy_ops \<Rightarrow> 'f writable_file \<Rightarrow> table_options \<Rightarrow> (slice \<times> slice) list \<Rightarrow> 'f table_builder \<Rightarrow> 'f table_builder" where
  "table_add_all sn W opts [] tb = tb"
| "table_add_all sn W opts ((key, val) # es) tb = table_add_all sn W opts es (table_add sn W opts key val tb)"

context writable
begin

definition tb_inv :: "snappy_ops \<Rightarrow> table_options \<Rightarrow> (slice \<Rightarrow> bool) \<Rightarrow> (slice \<times> slice) list \<Rightarrow> 'f table_builder \<Rightarrow> bool" where
  "tb_inv sn opts valid es tb \<longleftrightarrow> (\<exists>B pend cur. tb_holds sn opts B pend cur tb \<and>
     (let rest = concat (opt_list pend) @ cur in
      divided (opt_comparator opts) valid B rest \<and> es = concat (map snd B) @ rest \<and> (B = [] \<or> rest \<noteq> [])))"

lemma table_add_ok:
  assumes inv: "tb_inv sn opts valid es tb" and cmp: "comparator (opt_comparator opts) valid"
    and sorted: "sorted_by (opt_comparator opts) valid (es @ [(k, v)])"
  shows "tb_inv sn opts valid (es @ [(k, v)]) (table_add sn ops opts k v tb)"
proof -
  obtain B pend cur where h: "tb_holds sn opts B pend cur tb"
      and div: "divided (opt_comparator opts) valid B (concat (opt_list pend) @ cur)"
      and es: "es = concat (map snd B) @ concat (opt_list pend) @ cur"
      and some: "B = [] \<or> concat (opt_list pend) @ cur \<noteq> []"
    using inv unfolding tb_inv_def Let_def by blast
  define tb1 where "tb1 = (if tb_pending_index_entry tb
    then add_index_entry (find_shortest_separator (opt_comparator opts) (tb_last_key tb) k) tb else tb)"
  have st: "tb_status tb = OK" using h by (simp add: tb_holds_def Let_def)
  obtain B1 where B1: "tb_holds sn opts B1 None cur tb1" "divided (opt_comparator opts) valid B1 (cur @ [(k, v)])"
      "es = concat (map snd B1) @ cur"
  proof (cases pend)
    case None
    have "sorted_by (opt_comparator opts) valid (cur @ [(k, v)])"
      using sorted None unfolding es by (simp add: sorted_by_append)
    then have "divided (opt_comparator opts) valid B (cur @ [(k, v)])"
      using comparator.divided_extend [OF cmp, of B cur "(k, v)"] div some None by simp
    then show ?thesis using that [of B] h None es by (simp add: tb1_def tb_holds_def Let_def)
  next
    case (Some p)
    have p: "cur = []" "p \<noteq> []" "tb_last_key tb = fst (last p)" "tb_pending_index_entry tb"
      using h Some by (simp_all add: tb_holds_def Let_def)
    have "sorted_by (opt_comparator opts) valid (p @ [(k, v)])"
      using sorted Some unfolding es by (simp add: sorted_by_append)
    then have "divided (opt_comparator opts) valid
        (B @ [(find_shortest_separator (opt_comparator opts) (tb_last_key tb) k, p)]) (cur @ [(k, v)])"
      using comparator.divided_separator [OF cmp, of B p "(k, v)"] div Some p by simp
    moreover have "tb_holds sn opts (B @ [(find_shortest_separator (opt_comparator opts) (tb_last_key tb) k, p)]) None cur tb1"
      using add_index_holds [OF h [unfolded Some]] p by (simp add: tb1_def)
    ultimately show ?thesis using that es Some p(1) by simp
  qed
  define tb2 where "tb2 = tb1\<lparr>tb_filter := map_option (filter_add_key k) (tb_filter tb1), tb_last_key := k,
      tb_num_entries := tb_num_entries tb1 + 1, tb_data_block := builder_add (opt_restart_interval opts) k v (tb_data_block tb1)\<rparr>"
  have h2: "tb_holds sn opts B1 None (cur @ [(k, v)]) tb2"
    unfolding tb2_def by (rule add_entry_holds [OF B1(1)])
  have add: "table_add sn ops opts k v tb =
      (if opt_block_size opts \<le> current_size_estimate (tb_data_block tb2) then table_flush sn ops opts tb2 else tb2)"
    using st by (simp add: table_add_def Let_def tb2_def flip: tb1_def)
  show ?thesis
  proof (cases "opt_block_size opts \<le> current_size_estimate (tb_data_block tb2)")
    case True
    have "tb_holds sn opts B1 (Some (cur @ [(k, v)])) [] (table_flush sn ops opts tb2)"
      by (rule flush_holds(1) [OF h2]) simp
    then show ?thesis unfolding tb_inv_def add
      using True B1(2,3) by (intro exI [of _ B1] exI [of _ "Some (cur @ [(k, v)])"] exI [of _ "[]"]) simp
  next
    case False
    then show ?thesis unfolding tb_inv_def add
      using h2 B1(2,3) by (intro exI [of _ B1] exI [of _ None] exI [of _ "cur @ [(k, v)]"]) simp
  qed
qed

lemma table_add_all_ok:
  "tb_inv sn opts valid es tb \<Longrightarrow> comparator (opt_comparator opts) valid \<Longrightarrow>
   sorted_by (opt_comparator opts) valid (es @ new) \<Longrightarrow> tb_inv sn opts valid (es @ new) (table_add_all sn ops opts new tb)"
proof (induction new arbitrary: es tb)
  case (Cons e new)
  obtain k v where e: "e = (k, v)" by (cases e)
  have "sorted_by (opt_comparator opts) valid (es @ [(k, v)])"
    using Cons.prems(3) e by (auto simp: sorted_by_def sorted_wrt_append)
  from Cons.IH [OF table_add_ok [OF Cons.prems(1,2) this] Cons.prems(2)] Cons.prems(3) e show ?case by simp
qed simp

text \<open>A table built from sorted entries: its bytes and its blocks.\<close>

lemma built_table:
  assumes "comparator (opt_comparator opts) valid" "sorted_by (opt_comparator opts) valid es" "sound f" "written f = []"
  shows "\<exists>tb A. table_finish sn ops opts (table_add_all sn ops opts es (new_table_builder opts f)) = (OK, tb) \<and>
    sound (tb_file tb) \<and> written (tb_file tb) = table_bytes sn opts A (map snd A @ [[]]) \<and>
    divided (opt_comparator opts) valid A [] \<and> concat (map snd A) = es"
proof -
  have "tb_inv sn opts valid [] (new_table_builder opts f)"
    unfolding tb_inv_def using new_table_holds [OF assms(3,4)]
    by (intro exI [of _ "[]"] exI [of _ None]) simp
  from table_add_all_ok [OF this assms(1)] assms(2)
  have "tb_inv sn opts valid es (table_add_all sn ops opts es (new_table_builder opts f))" (is "tb_inv _ _ _ _ ?tb") by simp
  then obtain B pend cur where h: "tb_holds sn opts B pend cur ?tb"
      and div: "divided (opt_comparator opts) valid B (concat (opt_list pend) @ cur)"
      and es: "es = concat (map snd B) @ concat (opt_list pend) @ cur"
      and some: "B = [] \<or> concat (opt_list pend) @ cur \<noteq> []"
    unfolding tb_inv_def Let_def by blast
  obtain q where q: "tb_holds sn opts B q [] (table_flush sn ops opts ?tb)"
      "concat (opt_list q) = concat (opt_list pend) @ cur" "q \<noteq> Some []"
  proof (cases "cur = []")
    case True
    then show ?thesis using that [of pend] flush_holds(2) [of sn opts B "[]" ?tb] h
      by (cases pend) (auto simp: tb_holds_def Let_def table_flush_def new_block_builder_def)
  next
    case False
    then have "pend = None" using h by (cases pend) (simp_all add: tb_holds_def Let_def)
    with False show ?thesis using that [of "Some cur"] flush_holds(1) h by simp
  qed
  define A where "A = all_blocks opts B q"
  have "divided (opt_comparator opts) valid A []"
  proof (cases q)
    case None
    then show ?thesis using some q(2) by (cases B) (auto simp: A_def all_blocks_def)
  next
    case (Some p)
    then show ?thesis using comparator.divided_successor [OF assms(1), of B p] div q(2,3) assms(2) es
      by (simp add: A_def all_blocks_def sorted_by_append)
  qed
  moreover have "concat (map snd A) = es" using q(2) es by (cases q) (simp_all add: A_def all_blocks_def)
  ultimately show ?thesis using finish_holds [OF q(1)] by (auto simp: A_def)
qed

end

end
