(* ===== verification/LdbTableRead.thy ===== *)
theory LdbTableRead
  imports LdbTableSpec
begin

text \<open>
  What is read from the file of a finished table: it opens, its index leads to the block that may
  hold a key, and the lookup answers the first entry that is not before the key.
\<close>

section \<open>The parts of the file\<close>

lemma length_region_le: "length (region sn opts (take i bs)) \<le> length (region sn opts bs)"
proof -
  have "region sn opts bs = region sn opts (take i bs) @ region sn opts (drop i bs)"
    by (metis append_take_drop_id concat_append map_append region_def)
  then show ?thesis by simp
qed

lemma region_at:
  "i < length bs \<Longrightarrow> region sn opts bs = region sn opts (take i bs) @ framed (stored sn opts (bs ! i)) @ region sn opts (drop (Suc i) bs)"
  unfolding region_def by (subst id_take_nth_drop [of i bs]) simp_all

text \<open>How a block may be stored.\<close>

definition stores :: "snappy_ops \<Rightarrow> slice \<times> compression_type \<Rightarrow> slice \<Rightarrow> bool" where
  "stores sn p raw \<longleftrightarrow> fst p = raw \<and> snd p = kNoCompression \<or>
     snappy_compress sn raw = Some (fst p) \<and> snd p = kSnappyCompression"

lemma stored_block_stores: "stores sn (stored_block sn type raw) raw"
  by (auto simp: stores_def stored_block_def split: compression_type.split option.split)

lemma stores_small:
  "snappy_library sn \<Longrightarrow> stores sn p raw \<Longrightarrow> length (fst p) < 2 ^ 32 \<Longrightarrow> length raw < 2 ^ 32"
  using snappy_library.compress_small by (auto simp: stores_def)

text \<open>The table that opening gives.\<close>

definition opened_table :: "snappy_ops \<Rightarrow> table_options \<Rightarrow> indexed list \<Rightarrow> (slice \<times> slice) list list \<Rightarrow> 'f \<Rightarrow> 'f table \<Rightarrow> bool" where
  "opened_table sn opts A bs f t \<longleftrightarrow> t_file t = f \<and> t_options t = opts \<and>
     t_filter t = map_option (\<lambda>pol. new_filter_reader (filter_contents sn opts pol bs)) (opt_filter opts) \<and>
     t_index_block t = LdbBlock.new_block (built_block 1 (index_entries sn opts A))"

context random_access
begin

lemma read_framed:
  assumes "readable f" "contents f = pre @ framed p @ post" "length (contents f) < 2 ^ 32" "snappy_library sn" "stores sn p raw"
  shows "\<exists>c. read_block sn ops f verify (handle_for pre (fst p)) = (OK, c) \<and> bc_data c = raw"
    "length raw < 2 ^ 32"
proof -
  obtain d ty where p: "p = (d, ty)" by (cases p)
  have "contents f = pre @ d @ block_trailer d ty @ post" using assms(2) by (simp add: p framed_def)
  moreover from this have "length pre < 2 ^ 64" "length d + 5 < 2 ^ 64" "length d < 2 ^ 32" using assms(3) by simp_all
  ultimately show "\<exists>c. read_block sn ops f verify (handle_for pre (fst p)) = (OK, c) \<and> bc_data c = raw"
    using read_block_ok [OF assms(1), of pre d ty post sn raw verify] assms(4,5) by (auto simp: handle_for_def stores_def p)
  show "length raw < 2 ^ 32"
    using stores_small [OF assms(4,5)] \<open>length d < 2 ^ 32\<close> by (simp add: p)
qed

lemma open_built:
  assumes f: "readable f" "contents f = table_bytes sn opts A bs" "length (contents f) < 2 ^ 32"
    and sn: "snappy_library sn" and interval: "0 < opt_restart_interval opts"
  shows "\<exists>t. table_open sn ops opts f (length (contents f)) = Some (OK, Some t) \<and> opened_table sn opts A bs f t"
proof -
  define r0 where "r0 = region sn opts (map snd A)"
  define r1 where "r1 = r0 @ filter_part sn opts bs"
  define ms where "ms = meta_entries sn opts r0 bs"
  define meta where "meta = stored sn opts ms"
  define r2 where "r2 = r1 @ framed meta"
  define index where "index = index_stored sn opts A"
  define r3 where "r3 = r2 @ framed index"
  define foot where "foot = \<lparr>metaindex_handle = handle_for r1 (fst meta), index_handle = handle_for r2 (fst index)\<rparr>"
  have c: "contents f = r3 @ footer_encode_to foot []"
    by (simp add: f(2) table_bytes_def Let_def r0_def r1_def ms_def meta_def r2_def index_def r3_def foot_def)
  have len: "length (contents f) = length r3 + kEncodedLength" by (simp add: c)
  obtain own where foot_read: "rf_read ops f (length r3) kEncodedLength = (OK, footer_encode_to foot [], own)"
    using read_law [OF f(1), of "length r3" kEncodedLength] by (auto simp: c)
  have dec: "footer_decode_from new_footer (footer_encode_to foot []) = (OK, foot, [])"
    using footer_decode_encode [of new_footer foot "[]"] by simp
  have "contents f = r2 @ framed index @ footer_encode_to foot []" by (simp add: c r3_def)
  from read_framed [OF f(1) this f(3) sn] stored_block_stores
  obtain ic where ic: "read_block sn ops f (opt_paranoid opts) (handle_for r2 (fst index)) = (OK, ic)"
      "bc_data ic = built_block 1 (index_entries sn opts A)"
    unfolding index_def index_stored_def by blast
  let ?t = "\<lparr>t_file = f, t_options = opts, t_filter = None, t_metaindex_handle = metaindex_handle foot,
      t_index_block = LdbBlock.new_block (bc_data ic)\<rparr>"
  have "\<exists>t. read_meta sn ops foot ?t = Some t \<and> opened_table sn opts A bs f t"
  proof (cases "opt_filter opts")
    case None
    then show ?thesis using ic(2) by (simp add: read_meta_def opened_table_def)
  next
    case (Some pol)
    let ?fc = "filter_contents sn opts pol bs"
    have ms: "ms = [(meta_key pol, handle_encode_to (handle_for r0 ?fc) [])]" using Some by (simp add: ms_def meta_entries_def)
    have "contents f = r1 @ framed meta @ framed index @ footer_encode_to foot []" by (simp add: c r3_def r2_def)
    moreover have "stores sn meta (built_block (opt_restart_interval opts) ms)"
      unfolding meta_def stored_def by (rule stored_block_stores)
    ultimately obtain mc where mc: "read_block sn ops f (opt_paranoid opts) (handle_for r1 (fst meta)) = (OK, mc)"
        "bc_data mc = built_block (opt_restart_interval opts) ms" "length (built_block (opt_restart_interval opts) ms) < 2 ^ 32"
      using read_framed [OF f(1) _ f(3) sn] by blast
    obtain it E R where it: "new_iterator (LdbBlock.new_block (bc_data mc)) = Inr (Some it)" "iter_on E R it" "map snd E = ms"
      unfolding mc(2) by (rule built_block_iter [OF interval mc(3)])
    have "bytewise.keys_sorted E"
      by (rule bytewise.sorted_entries) (simp_all add: it(3) ms)
    from bytewise.seek_reads [OF it(2) this, of "meta_key pol"] obtain it' where
      "block_seek bytewise_comparator (meta_key pol) it = Some it'"
      "reads_from it' (dropWhile (\<lambda>e. compare bytewise_comparator (fst e) (meta_key pol) < 0) ms)" unfolding it(3) by auto
    then have it': "di_seek bytewise_comparator (meta_key pol) (new_iterator (LdbBlock.new_block (bc_data mc))) = Some (Inr (Some it'))"
        "block_valid it'" "iter_key it' = meta_key pol" "block_value it' = handle_encode_to (handle_for r0 ?fc) []"
      using bytewise.compare_refl [of "meta_key pol"] by (simp_all add: di_seek_def di_step_def it(1) ms)
    have "contents f = r0 @ framed (?fc, kNoCompression) @ framed meta @ framed index @ footer_encode_to foot []"
      using Some by (simp add: c r3_def r2_def r1_def filter_part_def)
    from read_framed(1) [OF f(1) this f(3) sn] obtain fc where
      "read_block sn ops f (opt_paranoid opts) (handle_for r0 ?fc) = (OK, fc)" "bc_data fc = ?fc"
      by (force simp: stores_def)
    then have "read_filter sn ops (handle_encode_to (handle_for r0 ?fc) []) ?t = ?t\<lparr>t_filter := Some (new_filter_reader ?fc)\<rparr>"
      using handle_decode_encode [of new_block_handle "handle_for r0 ?fc" "[]"] by (simp add: read_filter_def)
    then show ?thesis using Some mc(1) it' ic(2)
      by (simp add: read_meta_def opened_table_def foot_def di_valid_def di_key_def di_value_def)
  qed
  then obtain t where t: "read_meta sn ops foot ?t = Some t" "opened_table sn opts A bs f t" by blast
  have "table_open sn ops opts f (length (contents f)) = Some (OK, Some t)"
    using ic(1) t(1) foot_read dec by (simp add: table_open_def len foot_def)
  with t(2) show ?thesis by blast
qed

end

section \<open>Looking up a key\<close>

text \<open>
  What a lookup of \<open>k\<close> may answer: the first entry that is not before \<open>k\<close>, or nothing, and then
  no entry has this key. Without a filter no entry compares equal to it either.
\<close>

definition lookup_ok :: "table_options \<Rightarrow> (slice \<times> slice) list \<Rightarrow> slice \<Rightarrow> (slice \<times> slice) option \<Rightarrow> bool" where
  "lookup_ok opts es k r \<longleftrightarrow>
    (case r of
       Some e \<Rightarrow> \<exists>rest. dropWhile (\<lambda>e. compare (opt_comparator opts) (fst e) k < 0) es = e # rest
     | None \<Rightarrow> k \<notin> fst ` set es \<and>
         (opt_filter opts = None \<longrightarrow> (\<forall>e \<in> set es. compare (opt_comparator opts) (fst e) k \<noteq> 0)))"

lemma index_nth:
  "i < length A \<Longrightarrow> index_entries sn opts A ! i = (fst (A ! i), handle_encode_to (handle_at sn opts (map snd A) i) [])"
  "length (index_entries sn opts A) = length A"
  by (simp_all add: index_entries_def)

lemma first_not_before:
  obtains j where "j \<le> length xs" "\<forall>i < j. P (xs ! i)" "j < length xs \<longrightarrow> \<not> P (xs ! j)"
proof (rule that [of "length (takeWhile P xs)"])
  show "length (takeWhile P xs) \<le> length xs" by (rule length_takeWhile_le)
  show "\<forall>i < length (takeWhile P xs). P (xs ! i)"
    by (metis nth_mem set_takeWhileD takeWhile_nth)
  show "length (takeWhile P xs) < length xs \<longrightarrow> \<not> P (xs ! length (takeWhile P xs))"
    using nth_length_takeWhile by blast
qed

lemma divided_nth:
  "divided cmp valid A [] \<Longrightarrow> i < length A \<Longrightarrow>
   valid (fst (A ! i)) \<and> snd (A ! i) \<noteq> [] \<and> (\<forall>e \<in> set (snd (A ! i)). compare cmp (fst e) (fst (A ! i)) \<le> 0) \<and>
   (\<forall>e \<in> set (concat (map snd (drop (Suc i) A))). compare cmp (fst (A ! i)) (fst e) < 0)"
proof (induction A arbitrary: i)
  case (Cons a A)
  then show ?case by (cases i) auto
qed simp

text \<open>The index keys are in order, too.\<close>

context comparator
begin

lemma divided_sorted:
  assumes "divided ops valid A []" "\<forall>e \<in> set (concat (map snd A)). valid (fst e)"
  shows "sorted_wrt (\<lambda>a b. compare ops (fst a) (fst b) < 0) A"
  using assms
proof (induction A)
  case (Cons a A)
  have "compare ops (fst a) (fst b) < 0" if b: "b \<in> set A" for b
  proof -
    obtain i where i: "i < length A" "b = A ! i" using b by (auto simp: in_set_conv_nth)
    have d: "divided ops valid A []" using Cons.prems(1) by simp
    note nth = divided_nth [OF d i(1), folded i(2)]
    then have e: "hd (snd b) \<in> set (snd b)" by simp
    then have "compare ops (fst a) (fst (hd (snd b))) < 0" "valid (fst (hd (snd b)))" "valid (fst a)"
      using Cons.prems b by auto
    then show ?thesis using nth e compare_trans_less [of "fst a" "fst (hd (snd b))" "fst b"] by blast
  qed
  with Cons show ?case by simp
qed simp

lemma seek_status:
  "iter_on E R it \<Longrightarrow> keys_sorted E \<Longrightarrow> valid target \<Longrightarrow> block_seek ops target it = Some it' \<Longrightarrow> iter_status it' = OK"
  using block_seek_ok [of E R it target]
  by (auto simp: iter_reach_def iter_at_def iter_end_def iter_on_def split: if_splits)

text \<open>
  The block that the index leads to: before it all keys are before the target, behind it all are
  after its index key.
\<close>

lemma earlier_blocks:
  assumes "divided ops valid A []" "\<forall>e \<in> set (concat (map snd A)). valid (fst e)" "valid k"
    "j \<le> length A" "\<forall>i < j. compare ops (fst (A ! i)) k < 0" "e \<in> set (concat (map snd (take j A)))"
  shows "compare ops (fst e) k < 0"
proof -
  obtain b where b: "b \<in> set (take j A)" "e \<in> set (snd b)" using assms(6) by auto
  then obtain i where i: "i < j" "b = A ! i" using assms(4) by (auto simp: in_set_conv_nth)
  then have "compare ops (fst e) (fst b) \<le> 0" "valid (fst b)" "valid (fst e)"
    using divided_nth [OF assms(1), of i] assms(2,4) b in_set_takeD [OF b(1)] by auto
  then show ?thesis using compare_less_trans [of "fst e" "fst b" k] assms(3,5) i by blast
qed

lemma later_blocks:
  assumes "divided ops valid A []" "\<forall>e \<in> set (concat (map snd A)). valid (fst e)" "valid k"
    "j < length A" "\<not> compare ops (fst (A ! j)) k < 0" "e \<in> set (concat (map snd (drop (Suc j) A)))"
  shows "0 < compare ops (fst e) k"
proof -
  have "compare ops (fst (A ! j)) (fst e) < 0" "valid (fst (A ! j))"
    using divided_nth [OF assms(1,4)] assms(6) by auto
  moreover have "valid (fst e)" using assms(2,6) by (auto dest: in_set_dropD)
  moreover have "compare ops k (fst (A ! j)) \<le> 0"
    using compare_flip [of k "fst (A ! j)"] compare_flip [of "fst (A ! j)" k] assms(3,5) calculation(2) by linarith
  ultimately have "compare ops k (fst e) < 0"
    using compare_less_trans [of k "fst (A ! j)" "fst e"] assms(3) by blast
  then show ?thesis using compare_flip [of k "fst e"] assms(3) \<open>valid (fst e)\<close> by simp
qed

end

context random_access
begin

lemma block_reader_ok:
  assumes f: "readable f" "contents f = table_bytes sn opts A bs" "length (contents f) < 2 ^ 32"
    and sn: "snappy_library sn" and interval: "0 < opt_restart_interval opts"
    and t: "t_file t = f" and j: "j < length A"
  shows "\<exists>it E R. block_reader sn ops t verify (handle_encode_to (handle_at sn opts (map snd A) j) []) = Inr (Some it) \<and>
    iter_on E R it \<and> map snd E = snd (A ! j)"
proof -
  let ?pre = "region sn opts (take j (map snd A))" and ?p = "stored sn opts (snd (A ! j))"
  obtain post where "contents f = ?pre @ framed ?p @ post"
    using region_at [of j "map snd A" sn opts] j by (simp add: f(2) table_bytes_def Let_def)
  moreover have "stores sn ?p (built_block (opt_restart_interval opts) (snd (A ! j)))"
    unfolding stored_def by (rule stored_block_stores)
  ultimately obtain c where c: "read_block sn ops f verify (handle_for ?pre (fst ?p)) = (OK, c)"
      "bc_data c = built_block (opt_restart_interval opts) (snd (A ! j))"
      "length (built_block (opt_restart_interval opts) (snd (A ! j))) < 2 ^ 32"
    using read_framed [OF f(1) _ f(3) sn] by blast
  obtain it E R where "new_iterator (LdbBlock.new_block (bc_data c)) = Inr (Some it)" "iter_on E R it" "map snd E = snd (A ! j)"
    unfolding c(2) by (rule built_block_iter [OF interval c(3)])
  moreover have "handle_at sn opts (map snd A) j = handle_for ?pre (fst ?p)" using j by (simp add: handle_at_def)
  ultimately show ?thesis
    using c(1) t handle_decode_encode [of new_block_handle "handle_for ?pre (fst ?p)" "[]"]
    by (intro exI [of _ it] exI [of _ E] exI [of _ R]) (simp add: block_reader_def)
qed

end

text \<open>The filter never denies a key of the block.\<close>

lemma filter_blocks_sorted:
  assumes "\<forall>i < length bs. length (region sn opts (take i bs)) < 2 ^ 64"
  shows "sorted (map fst (filter_blocks sn opts bs))"
proof -
  have "word_of_nat (length (region sn opts (take i bs))) \<le> (word_of_nat (length (region sn opts (take j bs))) :: u64)"
    if "i \<le> j" "j < length bs" for i j
    using length_region_le [of sn opts i "take j bs"] assms that by (simp add: min_absorb1 word_le_nat_alt unat_of_nat)
  then show ?thesis by (simp add: filter_blocks_def sorted_iff_nth_mono)
qed

lemma filter_admits:
  assumes "filter_policy pol" "length (region sn opts (map snd A)) < 2 ^ 32"
    "length (filter_contents sn opts pol (map snd A @ [[]])) < 2 ^ 32"
    "j < length A" "k \<in> fst ` set (snd (A ! j))"
  shows "filter_key_may_match pol (new_filter_reader (filter_contents sn opts pol (map snd A @ [[]])))
    (bh_offset (handle_at sn opts (map snd A) j)) k"
proof -
  let ?bs = "map snd A @ [[]]"
  have "length (region sn opts (take i ?bs)) < 2 ^ 64" if "i < length ?bs" for i
    using length_region_le [of sn opts i "map snd A"] assms(2) that by simp
  then have "sorted (map fst (filter_blocks sn opts ?bs))" by (intro filter_blocks_sorted) blast
  moreover have "(bh_offset (handle_at sn opts (map snd A) j), map fst (snd (A ! j))) \<in> set (filter_blocks sn opts ?bs)"
    using assms(4) by (auto simp: filter_blocks_def handle_at_def handle_for_def nth_append intro!: image_eqI [of _ _ j])
  ultimately show ?thesis
    using filter_policy.no_false_negative [OF assms(1), of "filter_blocks sn opts ?bs"] assms(3,5)
    by (simp add: filter_contents_def)
qed

text \<open>The lookup.\<close>

context random_access
begin

lemma internal_get_ok:
  assumes f: "readable f" "contents f = table_bytes sn opts A (map snd A @ [[]])" "length (contents f) < 2 ^ 32"
    and sn: "snappy_library sn" and interval: "0 < opt_restart_interval opts"
    and cmp: "comparator (opt_comparator opts) valid"
    and pol: "\<forall>pol. opt_filter opts = Some pol \<longrightarrow> filter_policy pol"
    and A: "divided (opt_comparator opts) valid A []" "sorted_by (opt_comparator opts) valid es" "es = concat (map snd A)"
    and k: "valid k" and t: "opened_table sn opts A (map snd A @ [[]]) f t"
  shows "\<exists>r. internal_get sn ops t verify k = Some (OK, r) \<and> lookup_ok opts es k r"
proof -
  let ?cmp = "compare (opt_comparator opts)" and ?before = "\<lambda>e. compare (opt_comparator opts) (fst e) k < 0"
  have tf: "t_file t = f" "t_options t = opts" "t_index_block t = LdbBlock.new_block (built_block 1 (index_entries sn opts A))"
    "t_filter t = map_option (\<lambda>pol. new_filter_reader (filter_contents sn opts pol (map snd A @ [[]]))) (opt_filter opts)"
    using t by (simp_all add: opened_table_def)
  have valid: "\<forall>e \<in> set (concat (map snd A)). valid (fst e)" using A(2,3) by (simp add: sorted_by_def)
  have cs: "contents f = (region sn opts (map snd A) @ filter_part sn opts (map snd A @ [[]]) @
      framed (stored sn opts (meta_entries sn opts (region sn opts (map snd A)) (map snd A @ [[]])))) @
      framed (index_stored sn opts A) @ drop (length (contents f) - kEncodedLength) (contents f)"
    by (simp add: f(2) table_bytes_def Let_def)
  have small: "length (built_block 1 (index_entries sn opts A)) < 2 ^ 32"
    using read_framed(2) [OF f(1) cs f(3) sn] stored_block_stores unfolding index_stored_def by blast
  obtain it E R where it: "new_iterator (t_index_block t) = Inr (Some it)" "iter_on E R it" "map snd E = index_entries sn opts A"
    unfolding tf by (rule built_block_iter [OF _ small]) simp
  have sortedA: "sorted_wrt (\<lambda>a b. ?cmp (fst a) (fst b) < 0) (index_entries sn opts A)"
    using comparator.divided_sorted [OF cmp A(1) valid] by (simp add: sorted_wrt_iff_nth_less index_nth)
  have "\<forall>e \<in> set (index_entries sn opts A). valid (fst e)"
    using divided_nth [OF A(1)] by (auto simp: index_entries_def)
  then have "comparator.keys_sorted (opt_comparator opts) valid E"
    using comparator.sorted_entries [OF cmp] sortedA it(3) by metis
  note sortedE = this
  from comparator.seek_reads [OF cmp it(2) this k] obtain it1 where
    it1: "block_seek (opt_comparator opts) k it = Some it1" "reads_from it1 (dropWhile ?before (index_entries sn opts A))"
    unfolding it(3) by blast
  obtain j where j: "j \<le> length A" "\<forall>i < j. ?cmp (fst (A ! i)) k < 0" "j < length A \<longrightarrow> \<not> ?cmp (fst (A ! j)) k < 0"
    by (rule first_not_before [of A "\<lambda>a. ?cmp (fst a) k < 0"])
  have drop: "dropWhile ?before (index_entries sn opts A) = drop j (index_entries sn opts A)"
    using j by (intro dropWhile_drop) (simp_all add: index_nth)
  have first: "?before e" if "e \<in> set (concat (map snd (take j A)))" for e
    using comparator.earlier_blocks [OF cmp A(1) valid k j(1,2) that] .
  have self: "?cmp k k = 0" by (rule key_order.compare_refl [OF comparator.axioms(1) [OF cmp] k])
  show ?thesis
  proof (cases "j = length A")
    case True
    then have "\<not> block_valid it1" "iter_status it1 = OK" using it1(2) drop by (simp_all add: index_nth)
    moreover have "\<forall>e \<in> set es. ?before e" using first True by (auto simp: A(3))
    ultimately show ?thesis using it(1) it1(1) self tf
      by (intro exI [of _ None]) (auto simp: internal_get_def di_seek_def di_step_def di_valid_def di_status_def lookup_ok_def)
  next
    case False
    then have jA: "j < length A" using j(1) by simp
    have es: "es = concat (map snd (take j A)) @ snd (A ! j) @ concat (map snd (drop (Suc j) A))"
      unfolding A(3) by (subst id_take_nth_drop [OF jA]) simp
    have later: "0 < ?cmp (fst e) k" if "e \<in> set (concat (map snd (drop (Suc j) A)))" for e
      using comparator.later_blocks [OF cmp A(1) valid k jA _ that] j(3) jA by blast
    let ?v = "handle_encode_to (handle_at sn opts (map snd A) j) []"
    have at: "block_valid it1" "block_value it1 = ?v" "iter_status it1 = OK"
      using it1(2) comparator.seek_status [OF cmp it(2) sortedE k it1(1)] jA
      by (simp_all add: drop Cons_nth_drop_Suc [symmetric] index_nth)
    have handle: "handle_decode_from new_block_handle ?v = (OK, handle_at sn opts (map snd A) j, [])"
      using handle_decode_encode [of new_block_handle "handle_at sn opts (map snd A) j" "[]"] by simp
    obtain dit DE DR where dit: "block_reader sn ops t verify ?v = Inr (Some dit)" "iter_on DE DR dit" "map snd DE = snd (A ! j)"
      using block_reader_ok [OF f sn interval tf(1) jA] by blast
    have "sorted_by (opt_comparator opts) valid (snd (A ! j))" using A(2) unfolding es by (simp only: sorted_by_append)
    then have "comparator.keys_sorted (opt_comparator opts) valid DE"
      using comparator.sorted_entries [OF cmp, of DE] dit(3) by (simp add: sorted_by_def)
    note sortedDE = this
    from comparator.seek_reads [OF cmp dit(2) this k] obtain dit1 where
      dit1: "block_seek (opt_comparator opts) k dit = Some dit1" "reads_from dit1 (dropWhile ?before (snd (A ! j)))"
      unfolding dit(3) by blast
    have drop_es: "dropWhile ?before es = dropWhile ?before (snd (A ! j) @ concat (map snd (drop (Suc j) A)))"
      unfolding es using first by (intro dropWhile_append2)
    have dstatus: "iter_status dit1 = OK" by (rule comparator.seek_status [OF cmp dit(2) sortedDE k dit1(1)])
    define denied where "denied \<longleftrightarrow> (case opt_filter opts of None \<Rightarrow> False
      | Some pol \<Rightarrow> \<not> filter_key_may_match pol (new_filter_reader (filter_contents sn opts pol (map snd A @ [[]])))
          (bh_offset (handle_at sn opts (map snd A) j)) k)"
    have absent: "k \<notin> fst ` set (snd (A ! j))" if denied
    proof -
      obtain pol where p: "opt_filter opts = Some pol" using \<open>denied\<close> by (auto simp: denied_def split: option.splits)
      have "length (region sn opts (map snd A)) < 2 ^ 32" using f(2,3) by (simp add: table_bytes_def Let_def)
      moreover have "length (filter_contents sn opts pol (map snd A @ [[]])) < 2 ^ 32"
        using f(2,3) p by (simp add: table_bytes_def Let_def filter_part_def framed_def)
      ultimately show ?thesis using filter_admits [of pol sn opts A j k] pol p jA \<open>denied\<close> by (auto simp: denied_def)
    qed
    have elsewhere: "e \<in> set (snd (A ! j))" if "e \<in> set es" "?cmp (fst e) k = 0" for e
      using that first [of e] later [of e] unfolding es by auto
    define r where "r = (if denied then None else case dropWhile ?before (snd (A ! j)) of [] \<Rightarrow> None | e # _ \<Rightarrow> Some e)"
    have cond: "(case t_filter t of None \<Rightarrow> False | Some r \<Rightarrow>
        case opt_filter opts of None \<Rightarrow> False
        | Some pol \<Rightarrow> status_ok OK \<and> \<not> filter_key_may_match pol r (bh_offset (handle_at sn opts (map snd A) j)) k) = denied"
      by (cases "opt_filter opts") (simp_all add: tf denied_def)
    have "internal_get sn ops t verify k =
        Some (OK, if denied then None else if block_valid dit1 then Some (iter_key dit1, block_value dit1) else None)"
      by (simp add: internal_get_def Let_def it(1) di_seek_def di_step_def tf(2) it1(1) di_valid_def di_value_def di_key_def
          at handle cond dit(1) dit1(1) di_status_def dstatus)
    moreover have "(if block_valid dit1 then Some (iter_key dit1, block_value dit1) else None) =
        (case dropWhile ?before (snd (A ! j)) of [] \<Rightarrow> None | e # _ \<Rightarrow> Some e)"
      using dit1(2) by (cases "dropWhile ?before (snd (A ! j))") (simp_all del: dropWhile_eq_Nil_conv)
    ultimately have "internal_get sn ops t verify k = Some (OK, r)" by (simp add: r_def del: dropWhile_eq_Nil_conv)
    moreover have "lookup_ok opts es k r"
    proof (cases r)
      case None
      have "?cmp (fst e) k \<noteq> 0" if "\<not> denied" "e \<in> set es" for e
      proof
        assume "?cmp (fst e) k = 0"
        moreover have "dropWhile ?before (snd (A ! j)) = []"
          using None that(1) by (simp add: r_def split: list.splits)
        ultimately show False using elsewhere [OF that(2)] by fastforce
      qed
      moreover have "k \<notin> fst ` set es" if denied
        using absent [OF that] elsewhere self by fastforce
      moreover have "opt_filter opts \<noteq> None" if denied using that by (auto simp: denied_def split: option.splits)
      ultimately show ?thesis using None self by (force simp: lookup_ok_def)
    next
      case (Some e)
      then obtain rest where rest: "dropWhile ?before (snd (A ! j)) = e # rest" by (auto simp: r_def split: if_splits list.splits)
      then have "\<not> (\<forall>x \<in> set (snd (A ! j)). ?before x)" by (auto simp flip: dropWhile_eq_Nil_conv)
      then have "dropWhile ?before es = e # rest @ concat (map snd (drop (Suc j) A))"
        unfolding drop_es dropWhile_append rest by auto
      then show ?thesis using Some by (simp add: lookup_ok_def)
    qed
    ultimately show ?thesis by blast
  qed
qed

end

end
