(* ===== verification/LdbTwoLevel.thy ===== *)
theory LdbTwoLevel
  imports LdbTableRead
begin

text \<open>
  The iterator over a whole table (\<^verbatim>\<open>table/two_level_iterator.cc\<close>, \<^verbatim>\<open>Table::NewIterator\<close>): one
  iterator over the index and one over the data block it leads to. Each of its steps ends, and
  they walk over the concatenation of the blocks, in both directions.
\<close>

section \<open>The iterator\<close>

text \<open>\<open>read\<close> is the function that turns a value of the index into an iterator, \<^verbatim>\<open>block_function_\<close>.\<close>

record two_level =
  tl_index :: data_iter
  tl_data :: "data_iter option"
  tl_status :: status
  tl_handle :: slice

definition new_two_level :: "data_iter \<Rightarrow> two_level" where
  "new_two_level index_iter = \<lparr>tl_index = index_iter, tl_data = None, tl_status = OK, tl_handle = []\<rparr>"

definition tl_valid :: "two_level \<Rightarrow> bool" where
  "tl_valid w = (case tl_data w of None \<Rightarrow> False | Some d \<Rightarrow> di_valid d)"

definition tl_key :: "two_level \<Rightarrow> slice" where
  "tl_key w = (case tl_data w of None \<Rightarrow> [] | Some d \<Rightarrow> di_key d)"

definition tl_value :: "two_level \<Rightarrow> slice" where
  "tl_value w = (case tl_data w of None \<Rightarrow> [] | Some d \<Rightarrow> di_value d)"

definition tl_get_status :: "two_level \<Rightarrow> status" where
  "tl_get_status w =
    (if \<not> status_ok (di_status (tl_index w)) then di_status (tl_index w)
     else case tl_data w of
         Some d \<Rightarrow> if \<not> status_ok (di_status d) then di_status d else tl_status w
       | None \<Rightarrow> tl_status w)"

definition save_error :: "status \<Rightarrow> two_level \<Rightarrow> two_level" where
  "save_error s w = (if status_ok (tl_status w) \<and> \<not> status_ok s then w\<lparr>tl_status := s\<rparr> else w)"

definition set_data_iterator :: "data_iter option \<Rightarrow> two_level \<Rightarrow> two_level" where
  "set_data_iterator data_iter w =
    (let w = (case tl_data w of Some d \<Rightarrow> save_error (di_status d) w | None \<Rightarrow> w)
     in w\<lparr>tl_data := data_iter\<rparr>)"

definition init_data_block :: "(slice \<Rightarrow> data_iter) \<Rightarrow> two_level \<Rightarrow> two_level" where
  "init_data_block read w =
    (if \<not> di_valid (tl_index w) then set_data_iterator None w
     else let handle = di_value (tl_index w)
          in if tl_data w \<noteq> None \<and> slice_compare handle (tl_handle w) = 0 then w
             else set_data_iterator (Some (read handle)) (w\<lparr>tl_handle := handle\<rparr>))"

text \<open>A step of the data iterator, if there is one.\<close>

definition on_data :: "(data_iter \<Rightarrow> data_iter option) \<Rightarrow> two_level \<Rightarrow> two_level option" where
  "on_data f w = (case tl_data w of None \<Rightarrow> Some w
     | Some d \<Rightarrow> (case f d of None \<Rightarrow> None | Some d \<Rightarrow> Some (w\<lparr>tl_data := Some d\<rparr>)))"

definition on_index :: "(data_iter \<Rightarrow> data_iter option) \<Rightarrow> two_level \<Rightarrow> two_level option" where
  "on_index f w = (case f (tl_index w) of None \<Rightarrow> None | Some i \<Rightarrow> Some (w\<lparr>tl_index := i\<rparr>))"

partial_function (option) skip_forward :: "(slice \<Rightarrow> data_iter) \<Rightarrow> two_level \<Rightarrow> two_level option" where
  "skip_forward read w =
    (if tl_valid w then Some w
     else if \<not> di_valid (tl_index w) then Some (set_data_iterator None w)
     else case on_index di_next w of None \<Rightarrow> None
        | Some w \<Rightarrow> (case on_data di_seek_to_first (init_data_block read w) of None \<Rightarrow> None
            | Some w \<Rightarrow> skip_forward read w))"

partial_function (option) skip_backward :: "(slice \<Rightarrow> data_iter) \<Rightarrow> two_level \<Rightarrow> two_level option" where
  "skip_backward read w =
    (if tl_valid w then Some w
     else if \<not> di_valid (tl_index w) then Some (set_data_iterator None w)
     else case on_index di_prev w of None \<Rightarrow> None
        | Some w \<Rightarrow> (case on_data di_seek_to_last (init_data_block read w) of None \<Rightarrow> None
            | Some w \<Rightarrow> skip_backward read w))"

definition tl_seek :: "(slice \<Rightarrow> data_iter) \<Rightarrow> comparator_ops \<Rightarrow> slice \<Rightarrow> two_level \<Rightarrow> two_level option" where
  "tl_seek read cmp target w =
    (case on_index (di_seek cmp target) w of None \<Rightarrow> None
     | Some w \<Rightarrow> (case on_data (di_seek cmp target) (init_data_block read w) of None \<Rightarrow> None
         | Some w \<Rightarrow> skip_forward read w))"

definition tl_seek_to_first :: "(slice \<Rightarrow> data_iter) \<Rightarrow> two_level \<Rightarrow> two_level option" where
  "tl_seek_to_first read w =
    (case on_index di_seek_to_first w of None \<Rightarrow> None
     | Some w \<Rightarrow> (case on_data di_seek_to_first (init_data_block read w) of None \<Rightarrow> None
         | Some w \<Rightarrow> skip_forward read w))"

definition tl_seek_to_last :: "(slice \<Rightarrow> data_iter) \<Rightarrow> two_level \<Rightarrow> two_level option" where
  "tl_seek_to_last read w =
    (case on_index di_seek_to_last w of None \<Rightarrow> None
     | Some w \<Rightarrow> (case on_data di_seek_to_last (init_data_block read w) of None \<Rightarrow> None
         | Some w \<Rightarrow> skip_backward read w))"

definition tl_next :: "(slice \<Rightarrow> data_iter) \<Rightarrow> two_level \<Rightarrow> two_level option" where
  "tl_next read w = (case on_data di_next w of None \<Rightarrow> None | Some w \<Rightarrow> skip_forward read w)"

definition tl_prev :: "(slice \<Rightarrow> data_iter) \<Rightarrow> two_level \<Rightarrow> two_level option" where
  "tl_prev read w = (case on_data di_prev w of None \<Rightarrow> None | Some w \<Rightarrow> skip_backward read w)"

definition table_iterator :: "'f table \<Rightarrow> two_level" where
  "table_iterator t = new_two_level (new_iterator (t_index_block t))"

section \<open>Where the iterator stands\<close>

lemma dropWhile_none: "\<forall>x \<in> set xs. \<not> P x \<Longrightarrow> dropWhile P xs = xs"
  by (cases xs) simp_all

text \<open>
  \<open>serves\<close>: the values of the index entries \<open>IE\<close> are different, and each is read as an iterator
  over its block, which is not empty.
\<close>

definition over :: "(slice \<times> slice) list \<Rightarrow> data_iter \<Rightarrow> bool" where
  "over es d \<longleftrightarrow> (\<exists>b E R. d = Inr (Some b) \<and> iter_on E R b \<and> map snd E = es)"

definition over_at :: "(slice \<times> slice) list \<Rightarrow> nat \<Rightarrow> data_iter \<Rightarrow> bool" where
  "over_at es i d \<longleftrightarrow> (\<exists>b E R. d = Inr (Some b) \<and> map snd E = es \<and> iter_reach E R i b)"

definition serves :: "(slice \<Rightarrow> data_iter) \<Rightarrow> (slice \<times> slice) list \<Rightarrow> (slice \<times> slice) list list \<Rightarrow> bool" where
  "serves read I bs \<longleftrightarrow> length I = length bs \<and> distinct (map snd I) \<and>
     (\<forall>j < length bs. bs ! j \<noteq> [] \<and> over (bs ! j) (read (snd (I ! j))))"

lemma over_at_over: "over_at es i d \<Longrightarrow> over es d"
  by (auto simp: over_at_def over_def iter_reach_def iter_at_def iter_end_def split: if_splits)

lemma over_status: "over es d \<Longrightarrow> di_status d = OK"
  by (auto simp: over_def di_status_def iter_on_def)

lemma over_at_valid: "over_at es i d \<Longrightarrow> di_valid d \<longleftrightarrow> i < length es"
  using off_less by (fastforce simp: over_at_def di_valid_def iter_reach_def iter_end_def iter_at_def block_valid_def iter_on_def
      split: if_splits)

lemma over_at_entry: "over_at es i d \<Longrightarrow> i < length es \<Longrightarrow> di_key d = fst (es ! i) \<and> di_value d = snd (es ! i)"
  by (auto simp: over_at_def di_key_def di_value_def iter_reach_def iter_at_def key_at_def val_at_def)

lemma over_at_status: "over_at es i d \<Longrightarrow> di_status d = OK"
  by (rule over_status [OF over_at_over])

lemma over_atI: "iter_reach E R i b \<Longrightarrow> map snd E = es \<Longrightarrow> over_at es i (Inr (Some b))"
  by (auto simp: over_at_def)

text \<open>The steps of an iterator over a block.\<close>

lemma over_first: "over es d \<Longrightarrow> \<exists>d'. di_seek_to_first d = Some d' \<and> over_at es 0 d'"
  using seek_to_first_reach by (fastforce simp: over_def over_at_def di_seek_to_first_def di_step_def)

lemma over_last: "over es d \<Longrightarrow> \<exists>d'. di_seek_to_last d = Some d' \<and> over_at es (length es - 1) d'"
proof -
  assume "over es d"
  then obtain b E R where b: "d = Inr (Some b)" "iter_on E R b" "map snd E = es" by (auto simp: over_def)
  obtain it where "block_seek_to_last b = Some it" "if E = [] then iter_end E R it else iter_at E R (length E - 1) it"
    using seek_to_last_reach [OF b(2)] by blast
  moreover from this have "iter_reach E R (length E - 1) it" by (cases E) (simp_all add: iter_reach_def)
  moreover have "length es = length E" using b(3) by auto
  ultimately show ?thesis using b over_atI [of E R "length E - 1" it es] by (simp add: di_seek_to_last_def di_step_def)
qed

lemma over_next: "over_at es i d \<Longrightarrow> i < length es \<Longrightarrow> \<exists>d'. di_next d = Some d' \<and> over_at es (Suc i) d'"
  using next_reach by (fastforce simp: over_at_def di_next_def di_step_def iter_reach_def)

text \<open>Off the block at the front is the same as off its end.\<close>

lemma over_prev:
  "over_at es i d \<Longrightarrow> i < length es \<Longrightarrow> \<exists>d'. di_prev d = Some d' \<and> over_at es (if i = 0 then length es else i - 1) d'"
proof -
  assume "over_at es i d" "i < length es"
  then obtain b E R where b: "d = Inr (Some b)" "map snd E = es" "iter_at E R i b"
    by (auto simp: over_at_def iter_reach_def)
  obtain it where "block_prev b = Some it" "if i = 0 then iter_end E R it else iter_at E R (i - 1) it"
    using prev_reach [OF b(3)] by blast
  moreover have "length es = length E" using b(2) by auto
  moreover from calculation have "iter_reach E R (if i = 0 then length es else i - 1) it"
    using \<open>i < length es\<close> by (auto simp: iter_reach_def)
  ultimately show ?thesis using b over_atI [of E R "if i = 0 then length es else i - 1" it es]
    by (simp add: di_prev_def di_step_def)
qed

context comparator
begin

lemma over_seek:
  assumes "over es d" "sorted_by ops valid es" "valid k"
  shows "\<exists>d' i. di_seek ops k d = Some d' \<and> over_at es i d' \<and> i \<le> length es \<and> (\<forall>i' < i. compare ops (fst (es ! i')) k < 0) \<and>
    (i < length es \<longrightarrow> \<not> compare ops (fst (es ! i)) k < 0)"
proof -
  obtain b E R where b: "d = Inr (Some b)" "iter_on E R b" "map snd E = es" using assms(1) by (auto simp: over_def)
  have "keys_sorted E" using sorted_entries [of E] assms(2) b(3) by (simp add: sorted_by_def)
  from block_seek_ok [OF b(2) this assms(3)] obtain it j where
    "block_seek ops k b = Some it" "iter_reach E R j it" "j \<le> length E" "keys_before E k j"
    "j < length E \<longrightarrow> 0 \<le> compare ops (key_at E j) k" by blast
  then show ?thesis using b
    by (intro exI [of _ "Inr (Some it)"] exI [of _ j])
      (auto simp: di_seek_def di_step_def over_at_def keys_before_def key_at_def)
qed

end

text \<open>
  \<open>stands I bs j i w\<close>: the iterator is at entry \<open>i\<close> of block \<open>j\<close>, or at the end of this block;
  \<open>off_end\<close>: it is behind the last block; \<open>good\<close>: it has seen no error.
\<close>

definition stands :: "(slice \<times> slice) list \<Rightarrow> (slice \<times> slice) list list \<Rightarrow> nat \<Rightarrow> nat \<Rightarrow> two_level \<Rightarrow> bool" where
  "stands I bs j i w \<longleftrightarrow> tl_status w = OK \<and> j < length bs \<and> over_at I j (tl_index w) \<and> tl_handle w = snd (I ! j) \<and>
     (\<exists>d. tl_data w = Some d \<and> over_at (bs ! j) i d)"

definition off_end :: "(slice \<times> slice) list \<Rightarrow> two_level \<Rightarrow> bool" where
  "off_end I w \<longleftrightarrow> tl_status w = OK \<and> over_at I (length I) (tl_index w) \<and> tl_data w = None"

definition good :: "(slice \<times> slice) list \<Rightarrow> (slice \<times> slice) list list \<Rightarrow> two_level \<Rightarrow> bool" where
  "good I bs w \<longleftrightarrow> tl_status w = OK \<and> over I (tl_index w) \<and>
     (\<forall>d. tl_data w = Some d \<longrightarrow> (\<exists>j < length bs. tl_handle w = snd (I ! j) \<and> over (bs ! j) d))"

lemma stands_good: "stands I bs j i w \<Longrightarrow> good I bs w"
  unfolding stands_def good_def using over_at_over by fastforce

lemma off_end_good: "off_end I w \<Longrightarrow> good I bs w"
  by (auto simp: off_end_def good_def intro: over_at_over)

text \<open>With the index at block \<open>j\<close>, the data iterator is one over this block.\<close>

lemma init_data_ok:
  assumes "serves read I bs" "good I bs w" "over_at I j (tl_index w)" "j \<le> length I"
  defines "w' \<equiv> init_data_block read w"
  shows "tl_index w' = tl_index w" "tl_status w' = OK"
    "j < length I \<Longrightarrow> tl_handle w' = snd (I ! j) \<and> (\<exists>d. tl_data w' = Some d \<and> over (bs ! j) d)"
    "j = length I \<Longrightarrow> tl_data w' = None"
proof -
  have st: "tl_status w = OK" and data: "\<And>d. tl_data w = Some d \<Longrightarrow> di_status d = OK"
    using assms(2) over_status by (auto simp: good_def)
  have set: "set_data_iterator x v = v\<lparr>tl_data := x\<rparr>" if "tl_data v = tl_data w" for x v
    using data that by (cases "tl_data w") (simp_all add: set_data_iterator_def save_error_def)
  have valid: "di_valid (tl_index w) \<longleftrightarrow> j < length I" using over_at_valid [OF assms(3)] .
  have w': "w' = (if \<not> di_valid (tl_index w) then w\<lparr>tl_data := None\<rparr>
      else if tl_data w \<noteq> None \<and> slice_compare (di_value (tl_index w)) (tl_handle w) = 0 then w
      else w\<lparr>tl_handle := di_value (tl_index w), tl_data := Some (read (di_value (tl_index w)))\<rparr>)"
    by (simp add: w'_def init_data_block_def set Let_def)
  show "tl_index w' = tl_index w" "tl_status w' = OK" "j = length I \<Longrightarrow> tl_data w' = None"
    using st valid by (auto simp: w')
  assume j: "j < length I"
  have v: "di_value (tl_index w) = snd (I ! j)" using over_at_entry [OF assms(3) j] by simp
  have len: "length I = length bs" "distinct (map snd I)" using assms(1) by (simp_all add: serves_def)
  show "tl_handle w' = snd (I ! j) \<and> (\<exists>d. tl_data w' = Some d \<and> over (bs ! j) d)"
  proof (cases "tl_data w \<noteq> None \<and> slice_compare (snd (I ! j)) (tl_handle w) = 0")
    case True
    then obtain d where d: "tl_data w = Some d" by auto
    have h: "tl_handle w = snd (I ! j)" using True by (auto simp: slice_compare_less split: if_splits)
    obtain j' where j': "j' < length bs" "tl_handle w = snd (I ! j')" "over (bs ! j') d"
      using assms(2) d by (auto simp: good_def)
    then have "map snd I ! j = map snd I ! j'" using h j len(1) by simp
    then have "j = j'" using len j j'(1) nth_eq_iff_index_eq [OF len(2), of j j'] by simp
    then show ?thesis using True d h j' j valid v by (simp add: w')
  next
    case False
    then show ?thesis using j valid v assms(1) len(1) by (auto simp: w' serves_def)
  qed
qed

text \<open>From behind a block to the next one, and from before a block to the one before.\<close>

lemma skip_stays: "stands I bs j i w \<Longrightarrow> i < length (bs ! j) \<Longrightarrow> skip_forward read w = Some w \<and> skip_backward read w = Some w"
proof -
  assume "stands I bs j i w" "i < length (bs ! j)"
  then have "tl_valid w" using over_at_valid by (auto simp: stands_def tl_valid_def)
  then show ?thesis by (simp add: skip_forward.simps [of read w] skip_backward.simps [of read w])
qed

lemma skip_off:
  "tl_status w = OK \<Longrightarrow> tl_data w = None \<Longrightarrow> over_at I (length I) (tl_index w) \<Longrightarrow>
   \<exists>w'. skip_forward read w = Some w' \<and> skip_backward read w = Some w' \<and> off_end I w'"
  using over_at_valid [of I "length I" "tl_index w"]
  by (simp add: skip_forward.simps [of read w] skip_backward.simps [of read w] tl_valid_def set_data_iterator_def off_end_def)

text \<open>The index has moved to block \<open>j\<close>; \<open>enter_first\<close> goes to its first entry, \<open>enter_last\<close> to its last.\<close>

lemma enter_first:
  assumes "serves read I bs" "good I bs w" "over_at I j (tl_index w)" "j \<le> length I"
  shows "\<exists>w1 w'. on_data di_seek_to_first (init_data_block read w) = Some w1 \<and> skip_forward read w1 = Some w' \<and>
    (if j < length I then stands I bs j 0 w' else off_end I w')"
proof -
  note init = init_data_ok [OF assms]
  have len: "length I = length bs" using assms(1) by (simp add: serves_def)
  show ?thesis
  proof (cases "j < length I")
    case True
    then obtain d where d: "tl_handle (init_data_block read w) = snd (I ! j)" "tl_data (init_data_block read w) = Some d" "over (bs ! j) d"
      using init(3) by blast
    obtain d' where d': "di_seek_to_first d = Some d'" "over_at (bs ! j) 0 d'" using over_first [OF d(3)] by blast
    define w1 where "w1 = (init_data_block read w)\<lparr>tl_data := Some d'\<rparr>"
    have st: "stands I bs j 0 w1" using d d' init(1,2) assms(3) True len by (simp add: stands_def w1_def)
    have "0 < length (bs ! j)" using assms(1) True len by (auto simp: serves_def)
    from skip_stays [OF st this] have "skip_forward read w1 = Some w1" by simp
    then show ?thesis using st True d(2) d'(1) by (intro exI [of _ w1]) (simp add: on_data_def w1_def)
  next
    case False
    then have j: "j = length I" using assms(4) by simp
    have "tl_status (init_data_block read w) = OK" "tl_data (init_data_block read w) = None"
        "over_at I (length I) (tl_index (init_data_block read w))"
      using init(1,2) init(4) [OF j] assms(3) j by simp_all
    from skip_off [OF this, of read] False show ?thesis
      using init(4) [OF j] by (auto simp: on_data_def)
  qed
qed

lemma enter_last:
  assumes "serves read I bs" "good I bs w" "over_at I j (tl_index w)" "j \<le> length I"
  shows "\<exists>w1 w'. on_data di_seek_to_last (init_data_block read w) = Some w1 \<and> skip_backward read w1 = Some w' \<and>
    (if j < length I then stands I bs j (length (bs ! j) - 1) w' else off_end I w')"
proof -
  note init = init_data_ok [OF assms]
  have len: "length I = length bs" using assms(1) by (simp add: serves_def)
  show ?thesis
  proof (cases "j < length I")
    case True
    then obtain d where d: "tl_handle (init_data_block read w) = snd (I ! j)" "tl_data (init_data_block read w) = Some d" "over (bs ! j) d"
      using init(3) by blast
    obtain d' where d': "di_seek_to_last d = Some d'" "over_at (bs ! j) (length (bs ! j) - 1) d'" using over_last [OF d(3)] by blast
    define w1 where "w1 = (init_data_block read w)\<lparr>tl_data := Some d'\<rparr>"
    have st: "stands I bs j (length (bs ! j) - 1) w1" using d d' init(1,2) assms(3) True len by (simp add: stands_def w1_def)
    have "length (bs ! j) - 1 < length (bs ! j)" using assms(1) True len by (auto simp: serves_def)
    from skip_stays [OF st this] have "skip_backward read w1 = Some w1" by simp
    then show ?thesis using st True d(2) d'(1) by (intro exI [of _ w1]) (simp add: on_data_def w1_def)
  next
    case False
    then have j: "j = length I" using assms(4) by simp
    have "tl_status (init_data_block read w) = OK" "tl_data (init_data_block read w) = None"
        "over_at I (length I) (tl_index (init_data_block read w))"
      using init(1,2) init(4) [OF j] assms(3) j by simp_all
    from skip_off [OF this, of read] False show ?thesis
      using init(4) [OF j] by (auto simp: on_data_def)
  qed
qed

lemma good_index: "good I bs w \<Longrightarrow> over I i \<Longrightarrow> good I bs (w\<lparr>tl_index := i\<rparr>)"
  by (simp add: good_def)

text \<open>Behind the last entry of block \<open>j\<close> the iterator goes on to the next block.\<close>

lemma skip_forward_next:
  assumes "serves read I bs" "stands I bs j (length (bs ! j)) w"
  shows "\<exists>w'. skip_forward read w = Some w' \<and> (if Suc j < length I then stands I bs (Suc j) 0 w' else off_end I w')"
proof -
  have len: "length I = length bs" using assms(1) by (simp add: serves_def)
  have w: "\<not> tl_valid w" "di_valid (tl_index w)" "over_at I j (tl_index w)" "j < length I"
    using assms(2) over_at_valid len by (auto simp: stands_def tl_valid_def)
  obtain i where i: "di_next (tl_index w) = Some i" "over_at I (Suc j) i" using over_next [OF w(3,4)] by blast
  have good: "good I bs (w\<lparr>tl_index := i\<rparr>)"
    using good_index [OF stands_good [OF assms(2)]] over_at_over [OF i(2)] by blast
  obtain w1 w' where "on_data di_seek_to_first (init_data_block read (w\<lparr>tl_index := i\<rparr>)) = Some w1"
      "skip_forward read w1 = Some w'" "if Suc j < length I then stands I bs (Suc j) 0 w' else off_end I w'"
    using enter_first [OF assms(1) good, of "Suc j"] i(2) w(4) by auto
  then show ?thesis using w(1,2) i(1)
    by (intro exI [of _ w']) (simp add: skip_forward.simps [of read w] on_index_def)
qed

lemma skip_backward_prev:
  assumes "serves read I bs" "stands I bs j (length (bs ! j)) w"
  shows "\<exists>w'. skip_backward read w = Some w' \<and>
    (if j = 0 then off_end I w' else stands I bs (j - 1) (length (bs ! (j - 1)) - 1) w')"
proof -
  have len: "length I = length bs" using assms(1) by (simp add: serves_def)
  have w: "\<not> tl_valid w" "di_valid (tl_index w)" "over_at I j (tl_index w)" "j < length I"
    using assms(2) over_at_valid len by (auto simp: stands_def tl_valid_def)
  define j' where "j' = (if j = 0 then length I else j - 1)"
  obtain i where i: "di_prev (tl_index w) = Some i" "over_at I j' i"
    using over_prev [OF w(3,4)] by (auto simp: j'_def)
  have good: "good I bs (w\<lparr>tl_index := i\<rparr>)"
    using good_index [OF stands_good [OF assms(2)]] over_at_over [OF i(2)] by blast
  obtain w1 w' where "on_data di_seek_to_last (init_data_block read (w\<lparr>tl_index := i\<rparr>)) = Some w1"
      "skip_backward read w1 = Some w'" "if j' < length I then stands I bs j' (length (bs ! j') - 1) w' else off_end I w'"
  proof -
    have "over_at I j' (tl_index (w\<lparr>tl_index := i\<rparr>))" "j' \<le> length I" using i(2) w(4) by (auto simp: j'_def)
    from enter_last [OF assms(1) good this] that show ?thesis by blast
  qed
  then show ?thesis using w(1,2,4) i(1)
    by (intro exI [of _ w']) (auto simp: skip_backward.simps [of read w] on_index_def j'_def split: if_splits)
qed

section \<open>The walk over the table\<close>

lemma next_stands:
  assumes "serves read I bs" "stands I bs j i w" "i < length (bs ! j)"
  shows "\<exists>w'. tl_next read w = Some w' \<and>
    (if Suc i < length (bs ! j) then stands I bs j (Suc i) w'
     else if Suc j < length I then stands I bs (Suc j) 0 w' else off_end I w')"
proof -
  obtain d where d: "tl_data w = Some d" "over_at (bs ! j) i d" using assms(2) by (auto simp: stands_def)
  obtain d' where d': "di_next d = Some d'" "over_at (bs ! j) (Suc i) d'" using over_next [OF d(2) assms(3)] by blast
  have st: "stands I bs j (Suc i) (w\<lparr>tl_data := Some d'\<rparr>)" using assms(2) d' by (simp add: stands_def)
  have next_eq: "tl_next read w = skip_forward read (w\<lparr>tl_data := Some d'\<rparr>)" using d(1) d'(1) by (simp add: tl_next_def on_data_def)
  show ?thesis
  proof (cases "Suc i < length (bs ! j)")
    case True
    then show ?thesis using skip_stays [OF st True] st next_eq by simp
  next
    case False
    then have "Suc i = length (bs ! j)" using assms(3) by simp
    then show ?thesis using skip_forward_next [OF assms(1), of j "w\<lparr>tl_data := Some d'\<rparr>"] st next_eq False by simp
  qed
qed

lemma prev_stands:
  assumes "serves read I bs" "stands I bs j i w" "i < length (bs ! j)"
  shows "\<exists>w'. tl_prev read w = Some w' \<and>
    (if 0 < i then stands I bs j (i - 1) w'
     else if 0 < j then stands I bs (j - 1) (length (bs ! (j - 1)) - 1) w' else off_end I w')"
proof -
  obtain d where d: "tl_data w = Some d" "over_at (bs ! j) i d" using assms(2) by (auto simp: stands_def)
  obtain d' where d': "di_prev d = Some d'" "over_at (bs ! j) (if i = 0 then length (bs ! j) else i - 1) d'"
    using over_prev [OF d(2) assms(3)] by blast
  have st: "stands I bs j (if i = 0 then length (bs ! j) else i - 1) (w\<lparr>tl_data := Some d'\<rparr>)"
    using assms(2) d' by (simp add: stands_def)
  have prev_eq: "tl_prev read w = skip_backward read (w\<lparr>tl_data := Some d'\<rparr>)" using d(1) d'(1) by (simp add: tl_prev_def on_data_def)
  show ?thesis
  proof (cases "0 < i")
    case True
    then have "i - 1 < length (bs ! j)" using assms(3) by simp
    then show ?thesis using skip_stays [of I bs j "i - 1"] st True prev_eq by simp
  next
    case False
    then show ?thesis using skip_backward_prev [OF assms(1), of j "w\<lparr>tl_data := Some d'\<rparr>"] st prev_eq by auto
  qed
qed

text \<open>The entries from where the iterator stands, and what it yields going on.\<close>

definition remaining :: "(slice \<times> slice) list list \<Rightarrow> nat \<Rightarrow> nat \<Rightarrow> (slice \<times> slice) list" where
  "remaining bs j i = drop i (bs ! j) @ concat (drop (Suc j) bs)"

fun walks :: "(slice \<Rightarrow> data_iter) \<Rightarrow> two_level \<Rightarrow> (slice \<times> slice) list \<Rightarrow> bool" where
  "walks read w [] \<longleftrightarrow> \<not> tl_valid w \<and> tl_get_status w = OK"
| "walks read w (e # es) \<longleftrightarrow> tl_valid w \<and> tl_key w = fst e \<and> tl_value w = snd e \<and> tl_get_status w = OK \<and>
     (\<exists>w'. tl_next read w = Some w' \<and> walks read w' es)"

lemma stands_view:
  assumes "stands I bs j i w" "i < length (bs ! j)"
  shows "tl_valid w" "tl_key w = fst (bs ! j ! i)" "tl_value w = snd (bs ! j ! i)" "tl_get_status w = OK"
proof -
  obtain d where d: "tl_data w = Some d" "over_at (bs ! j) i d" using assms(1) by (auto simp: stands_def)
  have "di_status (tl_index w) = OK" "tl_status w = OK"
    using assms(1) over_at_status by (auto simp: stands_def)
  then show "tl_valid w" "tl_key w = fst (bs ! j ! i)" "tl_value w = snd (bs ! j ! i)" "tl_get_status w = OK"
    using d over_at_valid [OF d(2)] over_at_entry [OF d(2) assms(2)] over_status [OF over_at_over [OF d(2)]] assms(2)
    by (simp_all add: tl_valid_def tl_key_def tl_value_def tl_get_status_def)
qed

lemma off_end_walks: "off_end I w \<Longrightarrow> walks read w []"
  using over_at_status [of I "length I" "tl_index w"] by (auto simp: off_end_def tl_valid_def tl_get_status_def)

lemma stands_walks:
  "serves read I bs \<Longrightarrow> stands I bs j i w \<Longrightarrow> i < length (bs ! j) \<Longrightarrow> walks read w (remaining bs j i)"
proof (induction "length (remaining bs j i)" arbitrary: j i w rule: less_induct)
  case less
  note len = less.prems(1) [unfolded serves_def, THEN conjunct1]
  have j: "j < length bs" using less.prems(2) by (simp add: stands_def)
  have rem: "remaining bs j i = bs ! j ! i # (drop (Suc i) (bs ! j) @ concat (drop (Suc j) bs))"
    using less.prems(3) by (simp add: remaining_def Cons_nth_drop_Suc [symmetric])
  obtain w' where w': "tl_next read w = Some w'"
      "if Suc i < length (bs ! j) then stands I bs j (Suc i) w'
       else if Suc j < length I then stands I bs (Suc j) 0 w' else off_end I w'"
    using next_stands [OF less.prems] by blast
  have "walks read w' (drop (Suc i) (bs ! j) @ concat (drop (Suc j) bs))"
  proof (cases "Suc i < length (bs ! j)")
    case True
    then show ?thesis using less.hyps [of j "Suc i" w'] less.prems(1) w'(2) rem by (simp add: remaining_def)
  next
    case False
    then have none: "drop (Suc i) (bs ! j) = []" by simp
    show ?thesis
    proof (cases "Suc j < length I")
      case True
      then have "remaining bs (Suc j) 0 = concat (drop (Suc j) bs)"
        using len by (simp add: remaining_def Cons_nth_drop_Suc [symmetric])
      moreover have "0 < length (bs ! Suc j)" using less.prems(1) True len by (auto simp: serves_def)
      ultimately show ?thesis using less.hyps [of "Suc j" 0 w'] less.prems(1) w'(2) rem none False True by simp
    next
      case False
      then show ?thesis using w'(2) none len off_end_walks \<open>\<not> Suc i < length (bs ! j)\<close> by simp
    qed
  qed
  then show ?case using stands_view [OF less.prems(2,3)] w'(1) by (simp add: rem)
qed

text \<open>The three ways to position the iterator.\<close>

lemma first_walks:
  assumes "serves read I bs" "good I bs w"
  shows "\<exists>w'. tl_seek_to_first read w = Some w' \<and> walks read w' (concat bs)"
proof -
  have len: "length I = length bs" using assms(1) by (simp add: serves_def)
  have "over I (tl_index w)" using assms(2) by (simp add: good_def)
  then obtain i where i: "di_seek_to_first (tl_index w) = Some i" "over_at I 0 i" using over_first by blast
  have "good I bs (w\<lparr>tl_index := i\<rparr>)" using good_index [OF assms(2) over_at_over [OF i(2)]] .
  from enter_first [OF assms(1) this, of 0] i(2) obtain w1 w' where w':
      "on_data di_seek_to_first (init_data_block read (w\<lparr>tl_index := i\<rparr>)) = Some w1" "skip_forward read w1 = Some w'"
      "if 0 < length I then stands I bs 0 0 w' else off_end I w'" by auto
  have "walks read w' (concat bs)"
  proof (cases bs)
    case Nil
    then show ?thesis using w'(3) len off_end_walks by simp
  next
    case (Cons b bs')
    then have "stands I bs 0 0 w'" "0 < length (bs ! 0)" using w'(3) len assms(1) by (auto simp: serves_def)
    from stands_walks [OF assms(1) this] show ?thesis using Cons by (simp add: remaining_def)
  qed
  then show ?thesis using w'(1,2) i(1) by (intro exI [of _ w']) (simp add: tl_seek_to_first_def on_index_def)
qed

lemma last_walks:
  assumes "serves read I bs" "good I bs w"
  shows "\<exists>w'. tl_seek_to_last read w = Some w' \<and> walks read w' (if bs = [] then [] else [last (concat bs)])"
proof -
  have len: "length I = length bs" using assms(1) by (simp add: serves_def)
  have "over I (tl_index w)" using assms(2) by (simp add: good_def)
  then obtain i where i: "di_seek_to_last (tl_index w) = Some i" "over_at I (length I - 1) i" using over_last by blast
  have "good I bs (w\<lparr>tl_index := i\<rparr>)" using good_index [OF assms(2) over_at_over [OF i(2)]] .
  from enter_last [OF assms(1) this, of "length I - 1"] i(2) obtain w1 w' where w':
      "on_data di_seek_to_last (init_data_block read (w\<lparr>tl_index := i\<rparr>)) = Some w1" "skip_backward read w1 = Some w'"
      "if length I - 1 < length I then stands I bs (length I - 1) (length (bs ! (length I - 1)) - 1) w' else off_end I w'" by auto
  have "walks read w' (if bs = [] then [] else [last (concat bs)])"
  proof (cases bs rule: rev_cases)
    case Nil
    then show ?thesis using w'(3) len off_end_walks by simp
  next
    case (snoc bs' b)
    then have b: "b \<noteq> []" using assms(1) by (auto simp: serves_def dest!: spec [of _ "length bs'"])
    then have "stands I bs (length bs') (length b - 1) w'" "length b - 1 < length (bs ! length bs')"
      using w'(3) len snoc by simp_all
    note walk = stands_walks [OF assms(1) this]
    have "drop (length b - 1) b = [last b]" using b by (cases b rule: rev_cases) simp_all
    then have "remaining bs (length bs') (length b - 1) = [last (concat bs)]" using b by (simp add: snoc remaining_def)
    then show ?thesis using walk snoc by simp
  qed
  then show ?thesis using w'(1,2) i(1) by (intro exI [of _ w']) (simp add: tl_seek_to_last_def on_index_def)
qed

text \<open>Going back: the entry before is the last one that was passed.\<close>

definition passed :: "(slice \<times> slice) list list \<Rightarrow> nat \<Rightarrow> nat \<Rightarrow> (slice \<times> slice) list" where
  "passed bs j i = concat (take j bs) @ take i (bs ! j)"

lemma passed_remaining: "j < length bs \<Longrightarrow> passed bs j i @ remaining bs j i = concat bs"
  by (subst (3) id_take_nth_drop [of j bs]) (simp_all add: passed_def remaining_def)

lemma prev_walks:
  assumes "serves read I bs" "stands I bs j i w" "i < length (bs ! j)"
  shows "\<exists>w'. tl_prev read w = Some w' \<and>
    walks read w' (if passed bs j i = [] then [] else last (passed bs j i) # remaining bs j i)"
proof -
  have j: "j < length bs" using assms(2) by (simp add: stands_def)
  obtain w' where w': "tl_prev read w = Some w'" "if 0 < i then stands I bs j (i - 1) w'
      else if 0 < j then stands I bs (j - 1) (length (bs ! (j - 1)) - 1) w' else off_end I w'"
    using prev_stands [OF assms] by blast
  consider i' where "i = Suc i'" | j' where "i = 0" "j = Suc j'" | "i = 0" "j = 0" by (cases i; cases j) auto
  then have "walks read w' (if passed bs j i = [] then [] else last (passed bs j i) # remaining bs j i)"
  proof cases
    case 1
    then have i': "i' < length (bs ! j)" using assms(3) by simp
    have "remaining bs j i' = bs ! j ! i' # remaining bs j i"
      using i' by (simp add: 1 remaining_def Cons_nth_drop_Suc [symmetric])
    moreover have "passed bs j i = passed bs j i' @ [bs ! j ! i']"
      using i' by (simp add: 1 passed_def take_Suc_conv_app_nth)
    ultimately show ?thesis using stands_walks [OF assms(1) _ i'] w'(2) 1 by simp
  next
    case 2
    let ?b = "bs ! j'"
    have j': "j' < length bs" "drop j' bs = ?b # drop j bs" using 2 j by (simp_all add: Cons_nth_drop_Suc)
    then have b: "?b \<noteq> []" using assms(1) by (simp add: serves_def)
    have "remaining bs j' (length ?b - 1) = drop (length ?b - 1) ?b @ concat (drop j bs)" by (simp add: remaining_def 2)
    moreover have "drop (length ?b - 1) ?b = [last ?b]" using b by (cases ?b rule: rev_cases) simp_all
    moreover have "concat (drop j bs) = remaining bs j i"
      using j by (simp add: remaining_def 2(1) Cons_nth_drop_Suc [symmetric])
    moreover have "passed bs j i = concat (take j' bs) @ ?b" using j' by (simp add: passed_def 2 take_Suc_conv_app_nth)
    moreover have "walks read w' (remaining bs j' (length ?b - 1))"
      using stands_walks [OF assms(1), of j' "length ?b - 1" w'] w'(2) b 2 by simp
    ultimately show ?thesis using b by simp
  next
    case 3
    then show ?thesis using w'(2) off_end_walks by (simp add: passed_def)
  qed
  then show ?thesis using w'(1) by blast
qed

context comparator
begin

lemma seek_stands:
  assumes "serves read I (map snd A)" "good I (map snd A) w" "map fst I = map fst A"
    "divided ops valid A []" "sorted_by ops valid (concat (map snd A))" "valid k"
  shows "\<exists>w'. tl_seek read ops k w = Some w' \<and>
    (off_end I w' \<and> dropWhile (\<lambda>e. compare ops (fst e) k < 0) (concat (map snd A)) = [] \<or>
     (\<exists>j i. stands I (map snd A) j i w' \<and> i < length (map snd A ! j) \<and>
        remaining (map snd A) j i = dropWhile (\<lambda>e. compare ops (fst e) k < 0) (concat (map snd A))))"
proof -
  let ?before = "\<lambda>e. compare ops (fst e) k < 0" and ?bs = "map snd A"
  have len: "length I = length A" using assms(1) by (simp add: serves_def)
  have keys: "fst (I ! j) = fst (A ! j)" if "j < length A" for j
    using assms(3) that len by (metis nth_map)
  have valid: "\<forall>e \<in> set (concat ?bs). valid (fst e)" using assms(5) by (simp add: sorted_by_def)
  have "valid (fst e)" if e: "e \<in> set I" for e
  proof -
    obtain i where "i < length A" "e = I ! i" using e len by (auto simp: in_set_conv_nth)
    then show ?thesis using divided_nth [OF assms(4), of i] keys [of i] by simp
  qed
  then have "sorted_by ops valid I"
    using divided_sorted [OF assms(4) valid] keys len by (simp add: sorted_by_def sorted_wrt_iff_nth_less)
  moreover have "over I (tl_index w)" using assms(2) by (simp add: good_def)
  ultimately obtain ix j where ix: "di_seek ops k (tl_index w) = Some ix" "over_at I j ix" "j \<le> length I"
      "\<forall>i < j. compare ops (fst (I ! i)) k < 0" "j < length I \<longrightarrow> \<not> compare ops (fst (I ! j)) k < 0"
    using over_seek [of I "tl_index w" k] assms(6) by blast
  define w0 where "w0 = w\<lparr>tl_index := ix\<rparr>"
  have good: "good I ?bs w0" unfolding w0_def by (rule good_index [OF assms(2) over_at_over [OF ix(2)]])
  have at: "over_at I j (tl_index w0)" using ix(2) by (simp add: w0_def)
  note init = init_data_ok [OF assms(1) good at ix(3)]
  have seek: "tl_seek read ops k w = (case on_data (di_seek ops k) (init_data_block read w0) of None \<Rightarrow> None
      | Some w \<Rightarrow> skip_forward read w)"
    by (simp add: tl_seek_def on_index_def ix(1) w0_def)
  have first: "?before e" if "e \<in> set (concat (map snd (take j A)))" for e
    using earlier_blocks [OF assms(4) valid assms(6) _ _ that] ix(3,4) keys len by simp
  show ?thesis
  proof (cases "j < length A")
    case False
    then have j: "j = length I" using ix(3) len by simp
    have none: "tl_data (init_data_block read w0) = None" by (rule init(4) [OF j])
    obtain w' where w': "skip_forward read (init_data_block read w0) = Some w'" "off_end I w'"
      using skip_off [OF init(2) none, of I read] at init(1) j by auto
    have "dropWhile ?before (concat ?bs) = []" using first j len by simp
    then show ?thesis using w' none by (simp add: seek on_data_def del: dropWhile_eq_Nil_conv)
  next
    case True
    have es: "concat ?bs = concat (map snd (take j A)) @ snd (A ! j) @ concat (map snd (drop (Suc j) A))"
      by (subst id_take_nth_drop [OF True]) simp
    have drop_es: "dropWhile ?before (concat ?bs) = dropWhile ?before (snd (A ! j) @ concat (map snd (drop (Suc j) A)))"
      unfolding es using first by (intro dropWhile_append2)
    have later: "\<not> ?before e" if "e \<in> set (concat (map snd (drop (Suc j) A)))" for e
      using later_blocks [OF assms(4) valid assms(6) True _ that] ix(5) keys [OF True] len True by simp
    obtain d where d: "tl_handle (init_data_block read w0) = snd (I ! j)" "tl_data (init_data_block read w0) = Some d"
        "over (snd (A ! j)) d"
      using init(3) True len by auto
    have "sorted_by ops valid (snd (A ! j))" using assms(5) unfolding es by (simp only: sorted_by_append)
    from over_seek [OF d(3) this assms(6)] obtain d' i where d': "di_seek ops k d = Some d'" "over_at (snd (A ! j)) i d'"
        "i \<le> length (snd (A ! j))" "\<forall>i' < i. compare ops (fst (snd (A ! j) ! i')) k < 0"
        "i < length (snd (A ! j)) \<longrightarrow> \<not> compare ops (fst (snd (A ! j) ! i)) k < 0" by blast
    define w1 where "w1 = (init_data_block read w0)\<lparr>tl_data := Some d'\<rparr>"
    have st: "stands I ?bs j i w1" using init(1,2) at d(1) d'(2) True by (simp add: stands_def w1_def)
    have seek1: "tl_seek read ops k w = skip_forward read w1" using seek d(2) d'(1) by (simp add: on_data_def w1_def)
    have drop_j: "dropWhile ?before (snd (A ! j)) = drop i (snd (A ! j))"
      using d'(3-5) by (intro dropWhile_drop) auto
    show ?thesis
    proof (cases "i < length (snd (A ! j))")
      case i: True
      then have "dropWhile ?before (snd (A ! j)) \<noteq> []" using drop_j by simp
      then have "\<not> (\<forall>e \<in> set (snd (A ! j)). ?before e)" by (simp only: dropWhile_eq_Nil_conv) simp
      then have "dropWhile ?before (concat ?bs) = remaining ?bs j i"
        unfolding drop_es dropWhile_append drop_j using True by (auto simp: remaining_def drop_map)
      moreover have "i < length (?bs ! j)" using i True by simp
      ultimately show ?thesis using st skip_stays [OF st, of read] seek1 by metis
    next
      case False
      then have i: "i = length (?bs ! j)" using d'(3) True by simp
      have "\<forall>e \<in> set (snd (A ! j)). ?before e" using drop_j False by (simp flip: dropWhile_eq_Nil_conv)
      moreover have "dropWhile ?before (concat (map snd (drop (Suc j) A))) = concat (map snd (drop (Suc j) A))"
        using later by (intro dropWhile_none) blast
      ultimately have rest: "dropWhile ?before (concat ?bs) = concat (map snd (drop (Suc j) A))"
        unfolding drop_es by (simp add: dropWhile_append)
      obtain w' where w': "skip_forward read w1 = Some w'" "if Suc j < length I then stands I ?bs (Suc j) 0 w' else off_end I w'"
        using skip_forward_next [OF assms(1), of j w1] st i by blast
      show ?thesis
      proof (cases "Suc j < length A")
        case True
        then have "concat (map snd (drop (Suc j) A)) = remaining ?bs (Suc j) 0"
          by (simp add: remaining_def Cons_nth_drop_Suc [symmetric] drop_map)
        moreover have "0 < length (?bs ! Suc j)" using assms(1) True by (auto simp: serves_def)
        moreover have "stands I ?bs (Suc j) 0 w'" using w'(2) True len by simp
        ultimately show ?thesis using w'(1) seek1 rest by metis
      next
        case False
        then show ?thesis using w' rest seek1 len by (simp del: dropWhile_eq_Nil_conv)
      qed
    qed
  qed
qed

lemma seek_walks:
  assumes "serves read I (map snd A)" "good I (map snd A) w" "map fst I = map fst A"
    "divided ops valid A []" "sorted_by ops valid (concat (map snd A))" "valid k"
  defines "before \<equiv> \<lambda>e. compare ops (fst e) k < 0" and "es \<equiv> concat (map snd A)"
  shows "\<exists>w'. tl_seek read ops k w = Some w' \<and> walks read w' (dropWhile before es) \<and>
    (dropWhile before es \<noteq> [] \<longrightarrow> (\<exists>w''. tl_prev read w' = Some w'' \<and>
      walks read w'' (if takeWhile before es = [] then [] else last (takeWhile before es) # dropWhile before es)))"
proof -
  obtain w' where w': "tl_seek read ops k w = Some w'" "off_end I w' \<and> dropWhile before es = [] \<or>
     (\<exists>j i. stands I (map snd A) j i w' \<and> i < length (map snd A ! j) \<and> remaining (map snd A) j i = dropWhile before es)"
    using seek_stands [OF assms(1-6)] unfolding before_def es_def by blast
  from w'(2) show ?thesis
  proof (elim disjE conjE exE)
    assume "off_end I w'" "dropWhile before es = []"
    then show ?thesis using w'(1) off_end_walks by (simp del: dropWhile_eq_Nil_conv)
  next
    fix j i assume st: "stands I (map snd A) j i w'" "i < length (map snd A ! j)"
      and rem: "remaining (map snd A) j i = dropWhile before es"
    then have "passed (map snd A) j i @ dropWhile before es = es"
      using passed_remaining [of j "map snd A" i] by (simp add: stands_def es_def)
    then have passed: "passed (map snd A) j i = takeWhile before es"
      by (metis append_same_eq takeWhile_dropWhile_id)
    show ?thesis using w'(1) stands_walks [OF assms(1) st] prev_walks [OF assms(1) st]
      unfolding passed rem by blast
  qed
qed

end

section \<open>The iterator of a table\<close>

context random_access
begin

lemma table_serves:
  assumes f: "readable f" "contents f = table_bytes sn opts A bs" "length (contents f) < 2 ^ 32"
    and sn: "snappy_library sn" and interval: "0 < opt_restart_interval opts"
    and t: "opened_table sn opts A bs f t" and A: "divided cmp valid A []"
  shows "serves (block_reader sn ops t verify) (index_entries sn opts A) (map snd A)"
    "good (index_entries sn opts A) (map snd A) (table_iterator t)"
proof -
  have tf: "t_file t = f" "t_index_block t = LdbBlock.new_block (built_block 1 (index_entries sn opts A))"
    using t by (simp_all add: opened_table_def)
  let ?r = "\<lambda>i. region sn opts (take i (map snd A))"
  have small: "length (?r i) < 2 ^ 64" for i
    using length_region_le [of sn opts i "map snd A"] f(2,3) by (simp add: table_bytes_def Let_def)
  have grow: "length (?r i) < length (?r j)" if "i < j" "j \<le> length A" for i j
  proof -
    have "take (Suc i) (map snd A) = take (Suc i) (take j (map snd A))" using that by (simp add: min_def)
    then have "length (?r (Suc i)) \<le> length (?r j)" using length_region_le by metis
    moreover have "?r (Suc i) = ?r i @ framed (stored sn opts (snd (A ! i)))"
      using that by (simp add: take_Suc_conv_app_nth region_snoc)
    moreover have "0 < length (framed (stored sn opts (snd (A ! i))))" by (simp add: framed_def block_trailer_def Let_def)
    ultimately show ?thesis by (simp del: length_greater_0_conv)
  qed
  have "handle_encode_to (handle_at sn opts (map snd A) i) [] \<noteq> handle_encode_to (handle_at sn opts (map snd A) j) []"
    if "i < j" "j < length A" for i j
  proof
    assume "handle_encode_to (handle_at sn opts (map snd A) i) [] = handle_encode_to (handle_at sn opts (map snd A) j) []"
    then have "handle_at sn opts (map snd A) i = handle_at sn opts (map snd A) j"
      using handle_decode_encode [of new_block_handle _ "[]"] by (metis prod.inject)
    then have "unat (word_of_nat (length (?r i)) :: u64) = unat (word_of_nat (length (?r j)) :: u64)"
      by (simp add: handle_at_def handle_for_def)
    then show False using small [of i] small [of j] grow [of i j] that by (simp add: unat_of_nat)
  qed
  then have "distinct (map snd (index_entries sn opts A))"
    by (simp add: distinct_conv_nth index_nth) (metis nat_neq_iff)
  moreover have "over (snd (A ! j)) (block_reader sn ops t verify (snd (index_entries sn opts A ! j)))" if "j < length A" for j
    using block_reader_ok [OF f sn interval tf(1) that] that by (simp add: over_def index_nth)
  moreover have "snd (A ! j) \<noteq> []" if "j < length A" for j using divided_nth [OF A that] by simp
  ultimately show "serves (block_reader sn ops t verify) (index_entries sn opts A) (map snd A)"
    by (simp add: serves_def index_nth)
  have cs: "contents f = (region sn opts (map snd A) @ filter_part sn opts bs @
      framed (stored sn opts (meta_entries sn opts (region sn opts (map snd A)) bs))) @
      framed (index_stored sn opts A) @ drop (length (contents f) - kEncodedLength) (contents f)"
    by (simp add: f(2) table_bytes_def Let_def)
  have "length (built_block 1 (index_entries sn opts A)) < 2 ^ 32"
    using read_framed(2) [OF f(1) cs f(3) sn] stored_block_stores unfolding index_stored_def by blast
  then obtain it E R where "new_iterator (LdbBlock.new_block (built_block 1 (index_entries sn opts A))) = Inr (Some it)"
    "iter_on E R it" "map snd E = index_entries sn opts A" by (rule built_block_iter [OF zero_less_one])
  then show "good (index_entries sn opts A) (map snd A) (table_iterator t)"
    by (auto simp: good_def table_iterator_def new_two_level_def over_def tf)
qed

end

end
