(* ===== verification/LdbEdit.thy ===== *)
theory LdbEdit
  imports LdbKey LdbFile "HOL-Library.Product_Lexorder" "HOL-Library.Monad_Syntax"
begin

text \<open>
  The edits of the manifest (\<^verbatim>\<open>db/version_edit.h\<close>, \<^verbatim>\<open>db/version_edit.cc\<close>): what one change of the
  set of table files says, and its encoding as a record of the manifest log.

  A level is an \<^verbatim>\<open>int\<close>, here an integer that the writer cuts to 32 bits. \<^verbatim>\<open>DeletedFileSet\<close> is a
  \<^verbatim>\<open>std::set\<close> of pairs, visited in ascending order: the sorted list of its elements. An
  \<^verbatim>\<open>InternalKey\<close> is its string. \<^verbatim>\<open>DebugString\<close> is left out.
\<close>

section \<open>The edit\<close>

record file_meta =
  refs :: nat
  allowed_seeks :: int
  number :: u64
  fm_size :: u64
  smallest :: slice
  largest :: slice

definition new_file_meta :: file_meta where
  "new_file_meta = \<lparr>refs = 0, allowed_seeks = 2 ^ 30, number = 0, fm_size = 0, smallest = [], largest = []\<rparr>"

record version_edit =
  comparator_name :: slice
  log_number :: u64
  prev_log_number :: u64
  next_file_number :: u64
  last_sequence :: u64
  has_comparator :: bool
  has_log_number :: bool
  has_prev_log_number :: bool
  has_next_file_number :: bool
  has_last_sequence :: bool
  compact_pointers :: "(int \<times> slice) list"
  deleted_files :: "(int \<times> u64) list"
  new_files :: "(int \<times> file_meta) list"

definition edit_clear :: "version_edit \<Rightarrow> version_edit" where
  "edit_clear e = e\<lparr>comparator_name := [], log_number := 0, prev_log_number := 0, last_sequence := 0,
     next_file_number := 0, has_comparator := False, has_log_number := False,
     has_prev_log_number := False, has_next_file_number := False, has_last_sequence := False,
     deleted_files := [], new_files := []\<rparr>"

text \<open>The constructor: vectors and sets start empty, then \<^verbatim>\<open>Clear\<close> sets the numbers and flags.\<close>

definition new_edit :: version_edit where
  "new_edit = edit_clear \<lparr>comparator_name = [], log_number = 0, prev_log_number = 0,
     next_file_number = 0, last_sequence = 0, has_comparator = False, has_log_number = False,
     has_prev_log_number = False, has_next_file_number = False, has_last_sequence = False,
     compact_pointers = [], deleted_files = [], new_files = []\<rparr>"

definition set_comparator_name :: "slice \<Rightarrow> version_edit \<Rightarrow> version_edit" where
  "set_comparator_name name e = e\<lparr>has_comparator := True, comparator_name := name\<rparr>"

definition set_log_number :: "u64 \<Rightarrow> version_edit \<Rightarrow> version_edit" where
  "set_log_number num e = e\<lparr>has_log_number := True, log_number := num\<rparr>"

definition set_prev_log_number :: "u64 \<Rightarrow> version_edit \<Rightarrow> version_edit" where
  "set_prev_log_number num e = e\<lparr>has_prev_log_number := True, prev_log_number := num\<rparr>"

definition set_next_file :: "u64 \<Rightarrow> version_edit \<Rightarrow> version_edit" where
  "set_next_file num e = e\<lparr>has_next_file_number := True, next_file_number := num\<rparr>"

definition set_last_sequence :: "u64 \<Rightarrow> version_edit \<Rightarrow> version_edit" where
  "set_last_sequence s e = e\<lparr>has_last_sequence := True, last_sequence := s\<rparr>"

definition set_compact_pointer :: "int \<Rightarrow> slice \<Rightarrow> version_edit \<Rightarrow> version_edit" where
  "set_compact_pointer level key e = e\<lparr>compact_pointers := compact_pointers e @ [(level, key)]\<rparr>"

definition add_file :: "int \<Rightarrow> u64 \<Rightarrow> u64 \<Rightarrow> slice \<Rightarrow> slice \<Rightarrow> version_edit \<Rightarrow> version_edit" where
  "add_file level num bytes small large e =
    (let f = new_file_meta\<lparr>number := num, fm_size := bytes, smallest := small, largest := large\<rparr>
     in e\<lparr>new_files := new_files e @ [(level, f)]\<rparr>)"

definition delete_file :: "int \<Rightarrow> u64 \<Rightarrow> version_edit \<Rightarrow> version_edit" where
  "delete_file level num e = e\<lparr>deleted_files := insort_insert (level, num) (deleted_files e)\<rparr>"

section \<open>The writer\<close>

definition kComparator :: u32 where [layout]: "kComparator = 1"
definition kLogNumber :: u32 where [layout]: "kLogNumber = 2"
definition kNextFileNumber :: u32 where [layout]: "kNextFileNumber = 3"
definition kLastSequence :: u32 where [layout]: "kLastSequence = 4"
definition kCompactPointer :: u32 where [layout]: "kCompactPointer = 5"
definition kDeletedFile :: u32 where [layout]: "kDeletedFile = 6"
definition kNewFile :: u32 where [layout]: "kNewFile = 7"
definition kPrevLogNumber :: u32 where [layout]: "kPrevLogNumber = 9"

definition put_number :: "bool \<Rightarrow> u32 \<Rightarrow> u64 \<Rightarrow> slice \<Rightarrow> slice" where
  "put_number has tag num dst = (if has then put_varint64 (put_varint32 dst tag) num else dst)"

text \<open>\<^verbatim>\<open>InternalKey::Encode\<close>: \<^term>\<open>None\<close> when its assertion that the key is not empty fails.\<close>

definition internal_key_encode :: "slice \<Rightarrow> slice option" where
  "internal_key_encode rep = (if rep = [] then None else Some rep)"

definition put_pointer :: "int \<times> slice \<Rightarrow> slice \<Rightarrow> slice option" where
  "put_pointer p dst = do {
    let dst = put_varint32 dst kCompactPointer;
    let dst = put_varint32 dst (word_of_int (fst p));
    key \<leftarrow> internal_key_encode (snd p);
    Some (put_length_prefixed_slice dst key) }"

definition put_deleted :: "int \<times> u64 \<Rightarrow> slice \<Rightarrow> slice" where
  "put_deleted p dst = put_varint64 (put_varint32 (put_varint32 dst kDeletedFile) (word_of_int (fst p))) (snd p)"

definition put_new_file :: "int \<times> file_meta \<Rightarrow> slice \<Rightarrow> slice option" where
  "put_new_file p dst = do {
    let f = snd p;
    let dst = put_varint32 dst kNewFile;
    let dst = put_varint32 dst (word_of_int (fst p));
    let dst = put_varint64 dst (number f);
    let dst = put_varint64 dst (fm_size f);
    key \<leftarrow> internal_key_encode (smallest f);
    let dst = put_length_prefixed_slice dst key;
    key \<leftarrow> internal_key_encode (largest f);
    Some (put_length_prefixed_slice dst key) }"

text \<open>The loops over the pointers and the files.\<close>

fun put_each :: "('a \<Rightarrow> slice \<Rightarrow> slice option) \<Rightarrow> 'a list \<Rightarrow> slice \<Rightarrow> slice option" where
  "put_each put [] dst = Some dst"
| "put_each put (x # xs) dst = do {
    dst \<leftarrow> put x dst;
    put_each put xs dst }"

definition edit_encode_to :: "version_edit \<Rightarrow> slice \<Rightarrow> slice option" where
  "edit_encode_to e dst = do {
    let dst = (if has_comparator e
               then put_length_prefixed_slice (put_varint32 dst kComparator) (comparator_name e) else dst);
    let dst = put_number (has_log_number e) kLogNumber (log_number e) dst;
    let dst = put_number (has_prev_log_number e) kPrevLogNumber (prev_log_number e) dst;
    let dst = put_number (has_next_file_number e) kNextFileNumber (next_file_number e) dst;
    let dst = put_number (has_last_sequence e) kLastSequence (last_sequence e) dst;
    dst \<leftarrow> put_each put_pointer (compact_pointers e) dst;
    let dst = fold put_deleted (deleted_files e) dst;
    put_each put_new_file (new_files e) dst }"

section \<open>The reader\<close>

definition kNumLevels :: u32 where [layout]: "kNumLevels = 7"

definition get_internal_key :: "slice \<Rightarrow> slice option \<times> slice" where
  "get_internal_key input = get_length_prefixed_slice input"

definition get_level :: "slice \<Rightarrow> int option \<times> slice" where
  "get_level input =
    (case get_varint32 input of
       (Some v, input) \<Rightarrow> (if v < kNumLevels then Some (uint v) else None, input)
     | (None, input) \<Rightarrow> (None, input))"

text \<open>
  One field of the edit, after its tag: the message of the error, if any, the input that is left,
  and the edit. \<^verbatim>\<open>f\<close> is declared outside the loop; each field that is used of it is read anew.
\<close>

definition read_number :: "string \<Rightarrow> (u64 \<Rightarrow> version_edit) \<Rightarrow> version_edit \<Rightarrow> slice \<Rightarrow> string option \<times> slice \<times> version_edit" where
  "read_number what upd e input =
    (case get_varint64 input of
       (Some num, input) \<Rightarrow> (None, input, upd num)
     | (None, input) \<Rightarrow> (Some what, input, e))"

definition read_comparator :: "version_edit \<Rightarrow> slice \<Rightarrow> string option \<times> slice \<times> version_edit" where
  "read_comparator e input =
    (case get_length_prefixed_slice input of
       (Some str, input) \<Rightarrow> (None, input, e\<lparr>comparator_name := str, has_comparator := True\<rparr>)
     | (None, input) \<Rightarrow> (Some ''comparator name'', input, e))"

definition read_pointer :: "version_edit \<Rightarrow> slice \<Rightarrow> string option \<times> slice \<times> version_edit" where
  "read_pointer e input =
    (case get_level input of
       (None, input) \<Rightarrow> (Some ''compaction pointer'', input, e)
     | (Some level, input) \<Rightarrow>
        (case get_internal_key input of
           (None, input) \<Rightarrow> (Some ''compaction pointer'', input, e)
         | (Some key, input) \<Rightarrow> (None, input, e\<lparr>compact_pointers := compact_pointers e @ [(level, key)]\<rparr>)))"

definition read_deleted :: "version_edit \<Rightarrow> slice \<Rightarrow> string option \<times> slice \<times> version_edit" where
  "read_deleted e input =
    (case get_level input of
       (None, input) \<Rightarrow> (Some ''deleted file'', input, e)
     | (Some level, input) \<Rightarrow>
        (case get_varint64 input of
           (None, input) \<Rightarrow> (Some ''deleted file'', input, e)
         | (Some num, input) \<Rightarrow> (None, input, e\<lparr>deleted_files := insort_insert (level, num) (deleted_files e)\<rparr>)))"

definition read_new_file :: "version_edit \<Rightarrow> slice \<Rightarrow> string option \<times> slice \<times> version_edit" where
  "read_new_file e input =
    (case get_level input of (None, input) \<Rightarrow> (Some ''new-file entry'', input, e) | (Some level, input) \<Rightarrow>
     case get_varint64 input of (None, input) \<Rightarrow> (Some ''new-file entry'', input, e) | (Some num, input) \<Rightarrow>
     case get_varint64 input of (None, input) \<Rightarrow> (Some ''new-file entry'', input, e) | (Some bytes, input) \<Rightarrow>
     case get_internal_key input of (None, input) \<Rightarrow> (Some ''new-file entry'', input, e) | (Some small, input) \<Rightarrow>
     case get_internal_key input of (None, input) \<Rightarrow> (Some ''new-file entry'', input, e) | (Some large, input) \<Rightarrow>
       (None, input, e\<lparr>new_files := new_files e @ [(level, new_file_meta\<lparr>number := num, fm_size := bytes,
          smallest := small, largest := large\<rparr>)]\<rparr>))"

definition read_field :: "u32 \<Rightarrow> version_edit \<Rightarrow> slice \<Rightarrow> string option \<times> slice \<times> version_edit" where
  "read_field tag e input =
    (if tag = kComparator then read_comparator e input
     else if tag = kLogNumber then
       read_number ''log number'' (\<lambda>num. e\<lparr>log_number := num, has_log_number := True\<rparr>) e input
     else if tag = kPrevLogNumber then
       read_number ''previous log number'' (\<lambda>num. e\<lparr>prev_log_number := num, has_prev_log_number := True\<rparr>) e input
     else if tag = kNextFileNumber then
       read_number ''next file number'' (\<lambda>num. e\<lparr>next_file_number := num, has_next_file_number := True\<rparr>) e input
     else if tag = kLastSequence then
       read_number ''last sequence number'' (\<lambda>num. e\<lparr>last_sequence := num, has_last_sequence := True\<rparr>) e input
     else if tag = kCompactPointer then read_pointer e input
     else if tag = kDeletedFile then read_deleted e input
     else if tag = kNewFile then read_new_file e input
     else (Some ''unknown tag'', input, e))"

text \<open>Every reader leaves at most the input it was given, so the loop over the fields ends.\<close>

lemma get_varint_shorter:
  "get_varint32 input = (Some v, rest) \<Longrightarrow> length rest < length input"
  "get_varint64 input = (Some w, rest) \<Longrightarrow> length rest < length input"
  by (auto simp: get_varint32_def get_varint64_def get_varint32_ptr_fast get_varint32_ptr_fallback_def
      get_varint64_ptr_def dest: varint_loop_shorter split: option.splits)

lemma reader_leaves:
  "get_varint32 input = (r32, rest) \<Longrightarrow> length rest \<le> length input"
  "get_varint64 input = (r64, rest) \<Longrightarrow> length rest \<le> length input"
  "get_length_prefixed_slice input = (rs, rest) \<Longrightarrow> length rest \<le> length input"
  "get_level input = (rl, rest) \<Longrightarrow> length rest \<le> length input"
proof -
  show v: "length rest \<le> length input" if "get_varint32 input = (r32, rest)" for input rest r32
    using that get_varint_shorter(1) [of input] by (cases r32) (auto simp: get_varint32_def split: option.splits)
  show "get_varint64 input = (r64, rest) \<Longrightarrow> length rest \<le> length input"
    using get_varint_shorter(2) [of input] by (cases r64) (auto simp: get_varint64_def split: option.splits)
  show "get_length_prefixed_slice input = (rs, rest) \<Longrightarrow> length rest \<le> length input"
    by (auto simp: get_length_prefixed_slice_def split: option.splits prod.splits if_splits dest!: v)
  show "get_level input = (rl, rest) \<Longrightarrow> length rest \<le> length input"
    by (auto simp: get_level_def split: option.splits prod.splits if_splits dest!: v)
qed

lemma read_field_leaves: "read_field tag e input = (msg, rest, e') \<Longrightarrow> length rest \<le> length input"
  by (auto simp: read_field_def read_comparator_def read_number_def read_pointer_def read_deleted_def
      read_new_file_def get_internal_key_def split: if_splits prod.splits option.splits dest!: reader_leaves)

function edit_loop :: "version_edit \<Rightarrow> slice \<Rightarrow> string option \<times> slice \<times> version_edit" where
  "edit_loop e input =
    (case get_varint32 input of
       (None, input) \<Rightarrow> (None, input, e)
     | (Some tag, input) \<Rightarrow>
        (case read_field tag e input of
           (Some msg, input, e) \<Rightarrow> (Some msg, input, e)
         | (None, input, e) \<Rightarrow> edit_loop e input))"
  by auto
termination
  by (relation "measure (\<lambda>(e, input). length input)")
    (auto dest!: get_varint_shorter(1) [OF sym] read_field_leaves [OF sym])

declare edit_loop.simps [simp del]

definition edit_decode_from :: "version_edit \<Rightarrow> slice \<Rightarrow> status \<times> version_edit" where
  "edit_decode_from e src =
    (let (msg, input, e) = edit_loop (edit_clear e) src;
         msg = (if msg = None \<and> input \<noteq> [] then Some ''invalid tag'' else msg)
     in (case msg of None \<Rightarrow> OK | Some m \<Rightarrow> Corruption (''VersionEdit: '' @ m), e))"

section \<open>The edits of the program\<close>

text \<open>
  What the setters keep from \<open>new_edit\<close> on: a number without its flag is zero, the deleted files
  are in order. Levels and lengths that the format can hold are asked of the arguments.
\<close>

definition file_fits :: "file_meta \<Rightarrow> bool" where
  "file_fits f \<longleftrightarrow> refs f = 0 \<and> allowed_seeks f = 2 ^ 30 \<and> length (smallest f) < 2 ^ 32 \<and> length (largest f) < 2 ^ 32"

definition level_ok :: "int \<Rightarrow> bool" where "level_ok l \<longleftrightarrow> 0 \<le> l \<and> l < 7"

definition edit_ok :: "version_edit \<Rightarrow> bool" where
  "edit_ok e \<longleftrightarrow>
    (has_comparator e \<or> comparator_name e = []) \<and> length (comparator_name e) < 2 ^ 32 \<and>
    (has_log_number e \<or> log_number e = 0) \<and> (has_prev_log_number e \<or> prev_log_number e = 0) \<and>
    (has_next_file_number e \<or> next_file_number e = 0) \<and> (has_last_sequence e \<or> last_sequence e = 0) \<and>
    (\<forall>(l, k) \<in> set (compact_pointers e). level_ok l \<and> length k < 2 ^ 32) \<and>
    sorted (deleted_files e) \<and> distinct (deleted_files e) \<and> (\<forall>(l, n) \<in> set (deleted_files e). level_ok l) \<and>
    (\<forall>(l, f) \<in> set (new_files e). level_ok l \<and> file_fits f)"

lemma new_edit_ok: "edit_ok new_edit"
  by (simp add: edit_ok_def new_edit_def edit_clear_def)

lemma setters_ok:
  assumes "edit_ok e"
  shows "length name < 2 ^ 32 \<Longrightarrow> edit_ok (set_comparator_name name e)"
    "edit_ok (set_log_number n e)" "edit_ok (set_prev_log_number n e)" "edit_ok (set_next_file n e)"
    "edit_ok (set_last_sequence n e)"
    "level_ok l \<Longrightarrow> length name < 2 ^ 32 \<Longrightarrow> edit_ok (set_compact_pointer l name e)"
    "level_ok l \<Longrightarrow> edit_ok (delete_file l n e)"
    "level_ok l \<Longrightarrow> length small < 2 ^ 32 \<Longrightarrow> length large < 2 ^ 32 \<Longrightarrow> edit_ok (add_file l n bytes small large e)"
  using assms by (auto simp: edit_ok_def set_comparator_name_def set_log_number_def set_prev_log_number_def
      set_next_file_def set_last_sequence_def set_compact_pointer_def delete_file_def add_file_def
      file_fits_def new_file_meta_def Let_def sorted_insort_insert set_insort_insert distinct_insort_insert)

section \<open>What the writer writes\<close>

text \<open>The bytes of an edit, and the keys that the writer asks for.\<close>

definition pointer_bytes :: "int \<times> slice \<Rightarrow> slice \<Rightarrow> slice" where
  "pointer_bytes p dst =
    put_length_prefixed_slice (put_varint32 (put_varint32 dst kCompactPointer) (word_of_int (fst p))) (snd p)"

definition new_file_bytes :: "int \<times> file_meta \<Rightarrow> slice \<Rightarrow> slice" where
  "new_file_bytes p dst =
    (let f = snd p;
         dst = put_varint32 dst kNewFile;
         dst = put_varint32 dst (word_of_int (fst p));
         dst = put_varint64 dst (number f);
         dst = put_varint64 dst (fm_size f);
         dst = put_length_prefixed_slice dst (smallest f)
     in put_length_prefixed_slice dst (largest f))"

definition edit_bytes :: "version_edit \<Rightarrow> slice \<Rightarrow> slice" where
  "edit_bytes e dst =
    (let dst = (if has_comparator e
                then put_length_prefixed_slice (put_varint32 dst kComparator) (comparator_name e) else dst);
         dst = put_number (has_log_number e) kLogNumber (log_number e) dst;
         dst = put_number (has_prev_log_number e) kPrevLogNumber (prev_log_number e) dst;
         dst = put_number (has_next_file_number e) kNextFileNumber (next_file_number e) dst;
         dst = put_number (has_last_sequence e) kLastSequence (last_sequence e) dst;
         dst = fold pointer_bytes (compact_pointers e) dst;
         dst = fold put_deleted (deleted_files e) dst
     in fold new_file_bytes (new_files e) dst)"

definition keys_present :: "version_edit \<Rightarrow> bool" where
  "keys_present e \<longleftrightarrow> (\<forall>(l, k) \<in> set (compact_pointers e). k \<noteq> []) \<and>
    (\<forall>(l, f) \<in> set (new_files e). smallest f \<noteq> [] \<and> largest f \<noteq> [])"

lemma put_some:
  "put_pointer p dst = (if snd p = [] then None else Some (pointer_bytes p dst))"
  "put_new_file q dst = (if smallest (snd q) = [] \<or> largest (snd q) = [] then None else Some (new_file_bytes q dst))"
  by (simp_all add: put_pointer_def pointer_bytes_def put_new_file_def new_file_bytes_def internal_key_encode_def Let_def)

lemma put_each_fold:
  assumes "\<And>x dst. put x dst = (if P x then Some (f x dst) else None)"
  shows "put_each put xs dst = (if list_all P xs then Some (fold f xs dst) else None)"
  by (induction xs arbitrary: dst) (simp_all add: assms)

lemma edit_encode_eq:
  "edit_encode_to e dst = (if keys_present e then Some (edit_bytes e dst) else None)"
proof -
  have p: "put_each put_pointer ps dst = (if list_all (\<lambda>p. snd p \<noteq> []) ps then Some (fold pointer_bytes ps dst) else None)"
    for ps dst by (rule put_each_fold) (simp add: put_some)
  have f: "put_each put_new_file fs dst =
      (if list_all (\<lambda>q. smallest (snd q) \<noteq> [] \<and> largest (snd q) \<noteq> []) fs then Some (fold new_file_bytes fs dst) else None)"
    for fs dst by (rule put_each_fold) (auto simp: put_some)
  have "keys_present e \<longleftrightarrow> list_all (\<lambda>p. snd p \<noteq> []) (compact_pointers e) \<and>
      list_all (\<lambda>q. smallest (snd q) \<noteq> [] \<and> largest (snd q) \<noteq> []) (new_files e)"
    by (simp add: keys_present_def list_all_iff case_prod_unfold)
  then show ?thesis by (simp add: edit_encode_to_def edit_bytes_def p f Let_def)
qed

section \<open>The round trip\<close>

text \<open>Every part appends.\<close>

lemma put_append:
  "put_number has tag n dst = dst @ put_number has tag n []"
  "pointer_bytes p dst = dst @ pointer_bytes p []" "put_deleted d dst = dst @ put_deleted d []"
  "new_file_bytes f dst = dst @ new_file_bytes f []"
  by (simp_all add: put_number_def pointer_bytes_def put_deleted_def new_file_bytes_def put_varint32_def
      put_varint64_def put_length_prefixed_slice_def Let_def)

lemma fold_append:
  assumes "\<And>x dst. f x dst = dst @ f x []"
  shows "fold f xs dst = dst @ concat (map (\<lambda>x. f x []) xs)"
proof (induction xs arbitrary: dst)
  case (Cons x xs)
  show ?case unfolding fold_simps Cons.IH assms [of x dst] comp_apply by simp
qed simp

lemma edit_loop_field:
  "edit_loop e (encode_varint32 tag @ body) =
    (case read_field tag e body of (Some msg, input, e) \<Rightarrow> (Some msg, input, e)
     | (None, input, e) \<Rightarrow> edit_loop e input)"
  by (subst edit_loop.simps) (simp add: get_varint32_put)

lemma get_level_put: "level_ok l \<Longrightarrow> get_level (encode_varint32 (word_of_int l) @ rest) = (Some l, rest)"
proof -
  assume l: "level_ok l"
  then have "uint (word_of_int l :: u32) = l" by (simp add: level_ok_def uint_word_of_int_eq take_bit_int_eq_self)
  moreover from this l have "(word_of_int l :: u32) < 7" by (simp add: word_less_def level_ok_def)
  ultimately show ?thesis by (simp add: get_level_def get_varint32_put layout)
qed

lemmas put_bytes = put_varint32_def put_varint64_def put_number_def pointer_bytes_def put_deleted_def new_file_bytes_def Let_def

lemmas get_puts = get_varint64_put get_level_put get_length_prefixed_put [unfolded put_length_prefixed_slice_def put_varint32_def, simplified]

lemma edit_loop_number:
  "edit_loop e (put_number has kLogNumber n [] @ rest) =
    edit_loop (if has then e\<lparr>log_number := n, has_log_number := True\<rparr> else e) rest"
  "edit_loop e (put_number has kPrevLogNumber n [] @ rest) =
    edit_loop (if has then e\<lparr>prev_log_number := n, has_prev_log_number := True\<rparr> else e) rest"
  "edit_loop e (put_number has kNextFileNumber n [] @ rest) =
    edit_loop (if has then e\<lparr>next_file_number := n, has_next_file_number := True\<rparr> else e) rest"
  "edit_loop e (put_number has kLastSequence n [] @ rest) =
    edit_loop (if has then e\<lparr>last_sequence := n, has_last_sequence := True\<rparr> else e) rest"
  by (simp_all add: put_bytes edit_loop_field read_field_def layout read_number_def get_puts)

lemma edit_loop_comparator:
  "length name < 2 ^ 32 \<Longrightarrow> edit_loop e (put_length_prefixed_slice (put_varint32 [] kComparator) name @ rest) =
    edit_loop (e\<lparr>comparator_name := name, has_comparator := True\<rparr>) rest"
  by (simp add: put_bytes put_length_prefixed_slice_def edit_loop_field read_field_def layout read_comparator_def get_puts)

lemma edit_loop_pointers:
  "\<forall>(l, k) \<in> set ps. level_ok l \<and> length k < 2 ^ 32 \<Longrightarrow>
   edit_loop e (concat (map (\<lambda>p. pointer_bytes p []) ps) @ rest) =
     edit_loop (e\<lparr>compact_pointers := compact_pointers e @ ps\<rparr>) rest"
proof (induction ps arbitrary: e)
  case (Cons p ps)
  obtain l k where p: "p = (l, k)" by (cases p)
  with Cons show ?case
    by (simp add: put_bytes put_length_prefixed_slice_def edit_loop_field read_field_def layout read_pointer_def
        get_internal_key_def get_puts)
qed simp

lemma edit_loop_deleted:
  "\<forall>(l, n) \<in> set ds. level_ok l \<Longrightarrow>
   edit_loop e (concat (map (\<lambda>p. put_deleted p []) ds) @ rest) =
     edit_loop (e\<lparr>deleted_files := fold insort_insert ds (deleted_files e)\<rparr>) rest"
proof (induction ds arbitrary: e)
  case (Cons p ds)
  obtain l n where p: "p = (l, n)" by (cases p)
  with Cons show ?case
    by (simp add: put_bytes edit_loop_field read_field_def layout read_deleted_def get_puts)
qed simp

lemma edit_loop_new_files:
  "\<forall>(l, f) \<in> set fs. level_ok l \<and> file_fits f \<Longrightarrow>
   edit_loop e (concat (map (\<lambda>p. new_file_bytes p []) fs) @ rest) =
     edit_loop (e\<lparr>new_files := new_files e @ fs\<rparr>) rest"
proof (induction fs arbitrary: e)
  case (Cons p fs)
  obtain l f where p: "p = (l, f)" by (cases p)
  with Cons.prems have fit: "level_ok l" "length (smallest f) < 2 ^ 32" "length (largest f) < 2 ^ 32"
    and same: "new_file_meta\<lparr>number := number f, fm_size := fm_size f, smallest := smallest f, largest := largest f\<rparr> = f"
    by (auto simp: file_fits_def new_file_meta_def)
  have "read_field kNewFile e (drop (length (encode_varint32 kNewFile)) (new_file_bytes p []) @ xs) =
      (None, xs, e\<lparr>new_files := new_files e @ [p]\<rparr>)" for xs
    using fit same
    by (simp add: p put_bytes put_length_prefixed_slice_def read_field_def layout read_new_file_def
        get_internal_key_def get_puts)
  moreover have "new_file_bytes p [] = encode_varint32 kNewFile @ drop (length (encode_varint32 kNewFile)) (new_file_bytes p [])"
    by (simp add: put_bytes put_length_prefixed_slice_def)
  ultimately have "edit_loop e (new_file_bytes p [] @ xs) = edit_loop (e\<lparr>new_files := new_files e @ [p]\<rparr>) xs" for xs
    using edit_loop_field [of e kNewFile "drop (length (encode_varint32 kNewFile)) (new_file_bytes p []) @ xs"]
    by (metis (no_types, lifting) append_assoc case_prod_conv option.simps(4))
  with Cons show ?case by simp
qed simp

lemma fold_insort_sorted: "sorted (xs @ ds) \<Longrightarrow> distinct (xs @ ds) \<Longrightarrow> fold insort_insert ds xs = xs @ ds"
proof (induction ds arbitrary: xs)
  case (Cons d ds)
  then have "insort_insert d xs = xs @ [d]"
    by (simp add: insort_insert_key_def sorted_append sorted_insort_is_snoc)
  with Cons show ?case by simp
qed simp

lemma edit_encode_parts:
  "edit_bytes e dst = dst @
    (if has_comparator e then put_length_prefixed_slice (put_varint32 [] kComparator) (comparator_name e) else []) @
    put_number (has_log_number e) kLogNumber (log_number e) [] @
    put_number (has_prev_log_number e) kPrevLogNumber (prev_log_number e) [] @
    put_number (has_next_file_number e) kNextFileNumber (next_file_number e) [] @
    put_number (has_last_sequence e) kLastSequence (last_sequence e) [] @
    concat (map (\<lambda>p. pointer_bytes p []) (compact_pointers e)) @
    concat (map (\<lambda>p. put_deleted p []) (deleted_files e)) @
    concat (map (\<lambda>p. new_file_bytes p []) (new_files e))"
proof -
  note folds = fold_append [OF put_append(2)] fold_append [OF put_append(3)] fold_append [OF put_append(4)]
  show ?thesis unfolding edit_bytes_def Let_def folds
    by (simp add: put_append(1) [of _ _ _ "_ @ _"] put_append(1) [of _ _ _ dst] put_length_prefixed_slice_def put_varint32_def)
qed

lemma unset:
  "comparator_name x = [] \<Longrightarrow> \<not> has_comparator x \<Longrightarrow> x\<lparr>comparator_name := [], has_comparator := False\<rparr> = x"
  "log_number x = 0 \<Longrightarrow> \<not> has_log_number x \<Longrightarrow> x\<lparr>log_number := 0, has_log_number := False\<rparr> = x"
  "prev_log_number x = 0 \<Longrightarrow> \<not> has_prev_log_number x \<Longrightarrow> x\<lparr>prev_log_number := 0, has_prev_log_number := False\<rparr> = x"
  "next_file_number x = 0 \<Longrightarrow> \<not> has_next_file_number x \<Longrightarrow> x\<lparr>next_file_number := 0, has_next_file_number := False\<rparr> = x"
  "last_sequence x = 0 \<Longrightarrow> \<not> has_last_sequence x \<Longrightarrow> x\<lparr>last_sequence := 0, has_last_sequence := False\<rparr> = x"
  by (cases x; simp)+

lemma edit_loop_head:
  assumes "edit_ok e"
  shows "comparator_name x = [] \<Longrightarrow> \<not> has_comparator x \<Longrightarrow>
    edit_loop x ((if has_comparator e then put_length_prefixed_slice (put_varint32 [] kComparator) (comparator_name e) else []) @ rest) =
    edit_loop (x\<lparr>comparator_name := comparator_name e, has_comparator := has_comparator e\<rparr>) rest"
  "log_number x = 0 \<Longrightarrow> \<not> has_log_number x \<Longrightarrow>
    edit_loop x (put_number (has_log_number e) kLogNumber (log_number e) [] @ rest) =
    edit_loop (x\<lparr>log_number := log_number e, has_log_number := has_log_number e\<rparr>) rest"
  "prev_log_number x = 0 \<Longrightarrow> \<not> has_prev_log_number x \<Longrightarrow>
    edit_loop x (put_number (has_prev_log_number e) kPrevLogNumber (prev_log_number e) [] @ rest) =
    edit_loop (x\<lparr>prev_log_number := prev_log_number e, has_prev_log_number := has_prev_log_number e\<rparr>) rest"
  "next_file_number x = 0 \<Longrightarrow> \<not> has_next_file_number x \<Longrightarrow>
    edit_loop x (put_number (has_next_file_number e) kNextFileNumber (next_file_number e) [] @ rest) =
    edit_loop (x\<lparr>next_file_number := next_file_number e, has_next_file_number := has_next_file_number e\<rparr>) rest"
  "last_sequence x = 0 \<Longrightarrow> \<not> has_last_sequence x \<Longrightarrow>
    edit_loop x (put_number (has_last_sequence e) kLastSequence (last_sequence e) [] @ rest) =
    edit_loop (x\<lparr>last_sequence := last_sequence e, has_last_sequence := has_last_sequence e\<rparr>) rest"
proof -
  have flags: "has_comparator e \<or> comparator_name e = []" "length (comparator_name e) < 2 ^ 32"
    "has_log_number e \<or> log_number e = 0" "has_prev_log_number e \<or> prev_log_number e = 0"
    "has_next_file_number e \<or> next_file_number e = 0" "has_last_sequence e \<or> last_sequence e = 0"
    using assms unfolding edit_ok_def by blast+
  show "comparator_name x = [] \<Longrightarrow> \<not> has_comparator x \<Longrightarrow>
    edit_loop x ((if has_comparator e then put_length_prefixed_slice (put_varint32 [] kComparator) (comparator_name e) else []) @ rest) =
    edit_loop (x\<lparr>comparator_name := comparator_name e, has_comparator := has_comparator e\<rparr>) rest"
    by (cases "has_comparator e"; use flags in \<open>simp add: edit_loop_number edit_loop_comparator unset\<close>)
  show "log_number x = 0 \<Longrightarrow> \<not> has_log_number x \<Longrightarrow>
    edit_loop x (put_number (has_log_number e) kLogNumber (log_number e) [] @ rest) =
    edit_loop (x\<lparr>log_number := log_number e, has_log_number := has_log_number e\<rparr>) rest"
    by (cases "has_log_number e"; use flags in \<open>simp add: edit_loop_number edit_loop_comparator unset\<close>)
  show "prev_log_number x = 0 \<Longrightarrow> \<not> has_prev_log_number x \<Longrightarrow>
    edit_loop x (put_number (has_prev_log_number e) kPrevLogNumber (prev_log_number e) [] @ rest) =
    edit_loop (x\<lparr>prev_log_number := prev_log_number e, has_prev_log_number := has_prev_log_number e\<rparr>) rest"
    by (cases "has_prev_log_number e"; use flags in \<open>simp add: edit_loop_number edit_loop_comparator unset\<close>)
  show "next_file_number x = 0 \<Longrightarrow> \<not> has_next_file_number x \<Longrightarrow>
    edit_loop x (put_number (has_next_file_number e) kNextFileNumber (next_file_number e) [] @ rest) =
    edit_loop (x\<lparr>next_file_number := next_file_number e, has_next_file_number := has_next_file_number e\<rparr>) rest"
    by (cases "has_next_file_number e"; use flags in \<open>simp add: edit_loop_number edit_loop_comparator unset\<close>)
  show "last_sequence x = 0 \<Longrightarrow> \<not> has_last_sequence x \<Longrightarrow>
    edit_loop x (put_number (has_last_sequence e) kLastSequence (last_sequence e) [] @ rest) =
    edit_loop (x\<lparr>last_sequence := last_sequence e, has_last_sequence := has_last_sequence e\<rparr>) rest"
    by (cases "has_last_sequence e"; use flags in \<open>simp add: edit_loop_number edit_loop_comparator unset\<close>)
qed

lemma edit_decode_encode:
  assumes "edit_ok e"
  shows "edit_decode_from e0 (edit_bytes e []) = (OK, e\<lparr>compact_pointers := compact_pointers e0 @ compact_pointers e\<rparr>)"
proof -
  have finish: "edit_loop x [] = (None, [], x)" for x
    by (subst edit_loop.simps) (simp add: get_varint32_def get_varint32_ptr_def get_varint32_ptr_fallback_def)
  have lists: "\<forall>(l, k) \<in> set (compact_pointers e). level_ok l \<and> length k < 2 ^ 32"
      "\<forall>(l, n) \<in> set (deleted_files e). level_ok l" "\<forall>(l, f) \<in> set (new_files e). level_ok l \<and> file_fits f"
      "fold insort_insert (deleted_files e) [] = deleted_files e"
    using assms fold_insort_sorted [of "[]" "deleted_files e"] by (simp_all add: edit_ok_def)
  note steps = edit_loop_head [OF assms] edit_loop_pointers [OF lists(1)] edit_loop_deleted [OF lists(2)]
    edit_loop_new_files [OF lists(3), of _ "[]", simplified] finish
  have "edit_loop (edit_clear e0) (edit_bytes e []) =
      (None, [], e\<lparr>compact_pointers := compact_pointers e0 @ compact_pointers e\<rparr>)"
    unfolding edit_encode_parts append_Nil by (simp add: steps edit_clear_def lists(4))
  then show ?thesis by (simp add: edit_decode_from_def)
qed

section \<open>What the reader accepts\<close>

text \<open>Whatever the bytes, the edit that is read is one the setters could have made.\<close>

lemma prefixed_short: "get_length_prefixed_slice input = (Some d, rest) \<Longrightarrow> length d < 2 ^ 32"
proof -
  assume "get_length_prefixed_slice input = (Some d, rest)"
  then have "\<exists>len :: u32. length d \<le> unat len"
    by (auto simp: get_length_prefixed_slice_def split: prod.splits option.splits if_splits)
  then obtain len :: u32 where "length d \<le> unat len" by blast
  moreover have "unat len < 2 ^ LENGTH(32)" by (rule unsigned_less)
  ultimately show ?thesis by simp
qed

lemma get_level_ok: "get_level input = (Some l, rest) \<Longrightarrow> level_ok l"
  by (auto simp: get_level_def layout level_ok_def word_less_def split: prod.splits option.splits if_splits)

lemma edit_clear_ok: "edit_ok e \<Longrightarrow> edit_ok (edit_clear e)"
  by (simp add: edit_ok_def edit_clear_def)

lemma read_pointer_ok: "edit_ok e \<Longrightarrow> read_pointer e input = (msg, rest, e') \<Longrightarrow> edit_ok e'"
  using get_level_ok prefixed_short setters_ok(6) [of e]
  by (fastforce simp: read_pointer_def get_internal_key_def set_compact_pointer_def split: prod.splits option.splits)

lemma read_deleted_ok: "edit_ok e \<Longrightarrow> read_deleted e input = (msg, rest, e') \<Longrightarrow> edit_ok e'"
  using get_level_ok setters_ok(7) [of e]
  by (fastforce simp: read_deleted_def delete_file_def split: prod.splits option.splits)

lemma read_new_file_ok: "edit_ok e \<Longrightarrow> read_new_file e input = (msg, rest, e') \<Longrightarrow> edit_ok e'"
  using get_level_ok prefixed_short setters_ok(8) [of e]
  by (auto simp: read_new_file_def get_internal_key_def add_file_def Let_def split: prod.splits option.splits)

lemma read_number_ok:
  "edit_ok e \<Longrightarrow> (\<And>num. edit_ok (upd num)) \<Longrightarrow> read_number what upd e input = (msg, rest, e') \<Longrightarrow> edit_ok e'"
  by (auto simp: read_number_def split: prod.splits option.splits)

lemma fields_ok:
  assumes "edit_ok e"
  shows "length name < 2 ^ 32 \<Longrightarrow> edit_ok (e\<lparr>comparator_name := name, has_comparator := True\<rparr>)"
    "edit_ok (e\<lparr>log_number := n, has_log_number := True\<rparr>)"
    "edit_ok (e\<lparr>prev_log_number := n, has_prev_log_number := True\<rparr>)"
    "edit_ok (e\<lparr>next_file_number := n, has_next_file_number := True\<rparr>)"
    "edit_ok (e\<lparr>last_sequence := n, has_last_sequence := True\<rparr>)"
  using assms by (simp_all add: edit_ok_def)

lemma read_comparator_ok: "edit_ok e \<Longrightarrow> read_comparator e input = (msg, rest, e') \<Longrightarrow> edit_ok e'"
  by (auto simp: read_comparator_def split: prod.splits option.splits dest: prefixed_short intro: fields_ok(1))

lemma read_field_ok: "edit_ok e \<Longrightarrow> read_field tag e input = (msg, rest, e') \<Longrightarrow> edit_ok e'"
  unfolding read_field_def
  by (auto intro: read_comparator_ok read_pointer_ok read_deleted_ok read_new_file_ok
      read_number_ok [OF _ fields_ok(2)] read_number_ok [OF _ fields_ok(3)] read_number_ok [OF _ fields_ok(4)]
      read_number_ok [OF _ fields_ok(5)] split: if_splits)

lemma edit_loop_ok: "edit_ok e \<Longrightarrow> edit_loop e input = (msg, rest, e') \<Longrightarrow> edit_ok e'"
proof (induction e input rule: edit_loop.induct)
  case (1 e input)
  obtain r input1 where head: "get_varint32 input = (r, input1)" by fastforce
  show ?case
  proof (cases r)
    case None
    with 1 head show ?thesis by (simp add: edit_loop.simps [of e input])
  next
    case (Some tag)
    obtain m input2 e2 where field: "read_field tag e input1 = (m, input2, e2)" by (metis prod_cases3)
    with 1 head Some read_field_ok [OF 1(2) field] show ?thesis
      by (cases m) (auto simp: edit_loop.simps [of e input])
  qed
qed

lemma edit_decode_ok: "edit_ok e \<Longrightarrow> edit_decode_from e src = (st, e') \<Longrightarrow> edit_ok e'"
  by (auto simp: edit_decode_from_def Let_def split: prod.splits dest: edit_loop_ok [OF edit_clear_ok])

end
