(* ===== verification/LdbTableProperties.thy ===== *)
theory LdbTableProperties
  imports LdbTwoLevel LdbEdit
begin

text \<open>
  The properties of the files of the database: the edits of the manifest, the filter blocks and
  the tables, written to the in-memory file and read back from it.
\<close>

section \<open>Edits\<close>

lemma empty_key_accepted:
  "edit_decode_from new_edit [5, 0, 0] = (OK, set_compact_pointer 0 [] new_edit)"
proof -
  have "encode_varint32 kCompactPointer @ encode_varint32 (word_of_int 0) @ encode_varint32 0 = [5, 0, 0]"
    by (simp add: layout encode_varint32_def)
  then have "edit_bytes (set_compact_pointer 0 [] new_edit) [] = [5, 0, 0]"
    by (simp add: set_compact_pointer_def new_edit_def edit_clear_def put_bytes put_length_prefixed_slice_def edit_bytes_def)
  moreover have "edit_ok (set_compact_pointer 0 [] new_edit)"
    by (intro setters_ok new_edit_ok) (simp_all add: level_ok_def)
  ultimately show ?thesis
    using edit_decode_encode [of "set_compact_pointer 0 [] new_edit" new_edit]
    by (simp add: set_compact_pointer_def new_edit_def edit_clear_def)
qed

text \<open>
  Property C40. For every edit that the setters make with levels below 7 and strings below 4 GiB: when no key
  is empty, encoding succeeds and decoding reads the edit back, whatever edit it is decoded into; but
  since \<^verbatim>\<open>Clear\<close> forgets the compaction pointers, those of the old edit stay in front of the new ones. When a
  key is empty, encoding stops at the assertion of \<^verbatim>\<open>InternalKey::Encode\<close>. Whatever the bytes are, what decoding
  leaves is again such an edit (levels below 7, deleted files in order and without duplicates), but
  its keys may be empty: decoding accepts the bytes 5, 0, 0, whose edit cannot be encoded.
\<close>

theorem edit_roundtrip:
  assumes "edit_ok e"
  shows "(if keys_present e
      then \<exists>bytes. edit_encode_to e [] = Some bytes \<and>
        edit_decode_from e0 bytes = (OK, e\<lparr>compact_pointers := compact_pointers e0 @ compact_pointers e\<rparr>)
      else edit_encode_to e [] = None) \<and>
    edit_ok (snd (edit_decode_from e src)) \<and>
    (\<exists>e'. edit_decode_from new_edit [5, 0, 0] = (OK, e') \<and> edit_encode_to e' [] = None)"
proof -
  have "edit_ok (snd (edit_decode_from e src))" using edit_decode_ok [OF assms, of src] by (metis prod.collapse)
  moreover have "\<not> keys_present (set_compact_pointer 0 [] new_edit)" by (simp add: keys_present_def set_compact_pointer_def)
  ultimately show ?thesis
    using edit_decode_encode [OF assms, of e0] empty_key_accepted by (simp add: edit_encode_eq)
qed

theorem edit_roundtrip_witness:
  "let e = add_file 2 7 100 [1] [5] (delete_file 1 3 (set_compact_pointer 0 [9] (set_log_number 4 new_edit)))
   in \<exists>bytes. edit_encode_to e [] = Some bytes \<and>
     edit_decode_from e bytes = (OK, e\<lparr>compact_pointers := [(0, [9]), (0, [9])]\<rparr>)"
proof -
  define e where "e = add_file 2 7 100 [1] [5] (delete_file 1 3 (set_compact_pointer 0 [9] (set_log_number 4 new_edit)))"
  note e_parts = e_def add_file_def delete_file_def set_compact_pointer_def set_log_number_def new_edit_def edit_clear_def Let_def
  have "edit_ok e"
    unfolding e_def by (intro setters_ok new_edit_ok) (simp_all add: level_ok_def)
  moreover have "keys_present e" by (simp add: keys_present_def e_parts)
  ultimately have "\<exists>bytes. edit_encode_to e [] = Some bytes \<and>
      edit_decode_from e bytes = (OK, e\<lparr>compact_pointers := compact_pointers e @ compact_pointers e\<rparr>)"
    using edit_roundtrip [of e e] by simp
  moreover have "compact_pointers e = [(0, [9])]" by (simp add: e_parts)
  ultimately show ?thesis by (simp add: Let_def flip: e_def)
qed

section \<open>Filter blocks\<close>

text \<open>
  Property C39. A filter block never denies a key that is there. For the Bloom filter and for the
  policy of internal keys over it: after any sequence of blocks at ascending offsets, each with
  its keys, the reader of the finished filter block admits every key at the offset of its block.
\<close>

theorem filter_never_denies:
  assumes "pol = bloom_policy bits_per_key \<or> pol = internal_policy (bloom_policy bits_per_key)"
    "sorted (map fst blocks)" "(offset, keys) \<in> set blocks" "k \<in> set keys"
    "length (filter_finish pol (filter_add_blocks pol blocks new_filter_builder)) < 2 ^ 32"
  shows "filter_key_may_match pol
    (new_filter_reader (filter_finish pol (filter_add_blocks pol blocks new_filter_builder))) offset k"
proof -
  have "filter_policy pol" using assms(1) bloom.filter_policy_axioms internal_bloom.filter_policy_axioms by blast
  from filter_policy.no_false_negative [OF this assms(2-5)] show ?thesis .
qed

lemma length_create_filter:
  "length (create_filter b keys dst) = length dst + filter_bytes b (length keys) + 1"
  using covers_fold_keys [of "replicate (filter_bytes b (length keys)) 0" "probes b" "filter_bytes b (length keys) * 8" keys]
  by (simp add: create_filter_def Let_def covers_def)

theorem filter_never_denies_witness:
  "filter_key_may_match (bloom_policy 10) (new_filter_reader (filter_finish (bloom_policy 10)
     (filter_add_blocks (bloom_policy 10) [(0, [[1, 2], [3]]), (5000, [[7]])] new_filter_builder))) 5000 [7]"
proof (rule filter_never_denies [of _ 10 _ _ "[[7]]"])
  show "length (filter_finish (bloom_policy 10) (filter_add_blocks (bloom_policy 10) [(0, [[1, 2], [3]]), (5000, [[7]])] new_filter_builder)) < 2 ^ 32"
    by (simp add: filter_add_blocks_def filter_start_block_def new_filter_builder_def generate_until.simps layout
        generate_filter_def Let_def filter_add_key_def filter_finish_def bloom_policy_def length_create_filter filter_bytes_def put_fixed32_def)
qed simp_all

section \<open>Tables\<close>

definition table_of :: "snappy_ops \<Rightarrow> table_options \<Rightarrow> (slice \<times> slice) list \<Rightarrow> status \<times> file_state table_builder" where
  "table_of sn opts es =
    table_finish sn mem_writable opts (table_add_all sn mem_writable opts es (new_table_builder opts empty_file))"

text \<open>
  Property C37. What a table holds is found in it. A table built from sorted entries, with any
  comparator that keeps its promises, any block size, restart interval and compression, with or without a
  filter, opens; a lookup succeeds and answers the first entry that is not before the key or
  nothing, and then no entry has this key.
\<close>

theorem table_lookup:
  assumes "snappy_library sn" "comparator (opt_comparator opts) valid" "0 < opt_restart_interval opts"
    "\<forall>pol. opt_filter opts = Some pol \<longrightarrow> filter_policy pol"
    "\<forall>e \<in> set es. valid (fst e)" "sorted_wrt (\<lambda>a b. compare (opt_comparator opts) (fst a) (fst b) < 0) es" "valid k"
    "length (file_contents (tb_file (snd (table_of sn opts es)))) < 2 ^ 32"
  shows "\<exists>tb t r. table_of sn opts es = (OK, tb) \<and>
    table_open sn mem_random opts (tb_file tb) (file_size (tb_file tb)) = Some (OK, Some t) \<and>
    internal_get sn mem_random t verify k = Some (OK, r) \<and> lookup_ok opts es k r"
proof -
  have sorted: "sorted_by (opt_comparator opts) valid es" using assms(5,6) by (simp add: sorted_by_def)
  obtain tb A where tb: "table_of sn opts es = (OK, tb)" "file_ok (tb_file tb)"
      "file_contents (tb_file tb) = table_bytes sn opts A (map snd A @ [[]])"
      "divided (opt_comparator opts) valid A []" "concat (map snd A) = es"
    using mem_file.built_table [OF assms(2) sorted, of empty_file sn] unfolding table_of_def by auto
  have small: "length (file_contents (tb_file tb)) < 2 ^ 32" using assms(8) tb(1) by simp
  obtain t where t: "table_open sn mem_random opts (tb_file tb) (file_size (tb_file tb)) = Some (OK, Some t)"
      "opened_table sn opts A (map snd A @ [[]]) (tb_file tb) t"
    using mem_random.open_built [OF tb(2,3) small assms(1,3)] file_size_contents [OF tb(2)] by auto
  from mem_random.internal_get_ok [OF tb(2,3) small assms(1,3,2,4) tb(4) sorted tb(5) [symmetric] assms(7) t(2)]
  show ?thesis using tb(1) t(1) by blast
qed

text \<open>
  Property C38. The iterator of a table walks over its entries. From \<^verbatim>\<open>SeekToFirst\<close> on it yields all
  entries in order and then ends without an error; \<^verbatim>\<open>SeekToLast\<close> finds the last one; \<^verbatim>\<open>Seek\<close> goes to
  the first entry that is not before the target, across the borders of the blocks, and \<^verbatim>\<open>Prev\<close> from
  there to the entry before it.
\<close>

theorem table_iterates:
  assumes "snappy_library sn" "comparator (opt_comparator opts) valid" "0 < opt_restart_interval opts"
    "\<forall>e \<in> set es. valid (fst e)" "sorted_wrt (\<lambda>a b. compare (opt_comparator opts) (fst a) (fst b) < 0) es" "valid k"
    "length (file_contents (tb_file (snd (table_of sn opts es)))) < 2 ^ 32"
  defines "before \<equiv> \<lambda>e. compare (opt_comparator opts) (fst e) k < 0"
  shows "\<exists>tb t. table_of sn opts es = (OK, tb) \<and>
    table_open sn mem_random opts (tb_file tb) (file_size (tb_file tb)) = Some (OK, Some t) \<and>
    (let read = block_reader sn mem_random t verify; w = table_iterator t in
      (\<exists>w1. tl_seek_to_first read w = Some w1 \<and> walks read w1 es) \<and>
      (\<exists>w1. tl_seek_to_last read w = Some w1 \<and> walks read w1 (if es = [] then [] else [last es])) \<and>
      (\<exists>w1. tl_seek read (opt_comparator opts) k w = Some w1 \<and> walks read w1 (dropWhile before es) \<and>
        (dropWhile before es \<noteq> [] \<longrightarrow> (\<exists>w2. tl_prev read w1 = Some w2 \<and>
          walks read w2 (if takeWhile before es = [] then [] else last (takeWhile before es) # dropWhile before es)))))"
proof -
  have sorted: "sorted_by (opt_comparator opts) valid es" using assms(4,5) by (simp add: sorted_by_def)
  obtain tb A where tb: "table_of sn opts es = (OK, tb)" "file_ok (tb_file tb)"
      "file_contents (tb_file tb) = table_bytes sn opts A (map snd A @ [[]])"
      "divided (opt_comparator opts) valid A []" "concat (map snd A) = es"
    using mem_file.built_table [OF assms(2) sorted, of empty_file sn] unfolding table_of_def by auto
  have small: "length (file_contents (tb_file tb)) < 2 ^ 32" using assms(7) tb(1) by simp
  obtain t where t: "table_open sn mem_random opts (tb_file tb) (file_size (tb_file tb)) = Some (OK, Some t)"
      "opened_table sn opts A (map snd A @ [[]]) (tb_file tb) t"
    using mem_random.open_built [OF tb(2,3) small assms(1,3)] file_size_contents [OF tb(2)] by auto
  note serves = mem_random.table_serves(1) [OF tb(2,3) small assms(1,3) t(2) tb(4), of verify]
    mem_random.table_serves(2) [OF tb(2,3) small assms(1,3) t(2) tb(4)]
  have empty: "map snd A = [] \<longleftrightarrow> es = []" using tb(4,5) by (cases A) auto
  have keys: "map fst (index_entries sn opts A) = map fst A"
    by (rule nth_equalityI) (simp_all add: index_nth)
  show ?thesis
    using tb(1) t(1) first_walks [OF serves] last_walks [OF serves, unfolded empty tb(5)]
      comparator.seek_walks [OF assms(2) serves keys tb(4) sorted [folded tb(5)] assms(6)]
    unfolding tb(5) before_def Let_def by blast
qed

section \<open>A small table\<close>

text \<open>The size of a block is bounded by that of its entries.\<close>

lemma length_varint32: "length (encode_varint32 v) \<le> 5"
  by (simp add: encode_varint32_def Let_def)

lemma builder_add_size:
  "4 * length (restart_points (builder_add n k v b)) + length (block_buffer (builder_add n k v b)) \<le>
    4 * length (restart_points b) + length (block_buffer b) + 19 + length k + length v"
proof -
  have e: "length (encode_varint32 (word_of_nat i)) \<le> 5" for i by (rule length_varint32)
  have "length (take (length k - sh) (drop sh k)) \<le> length k" for sh by simp
  then show ?thesis
    using e [of "length v"] e [of "diff_loop (last_key b) k 0"] e [of "length k - diff_loop (last_key b) k 0"] e [of 0] e [of "length k"]
    by (auto simp: builder_add_def Let_def put_varint32_def)
qed

lemma builder_add_all_size:
  "current_size_estimate (builder_add_all n es new_block_builder) \<le>
    8 + sum_list (map (\<lambda>e. 19 + length (fst e) + length (snd e)) es)"
proof -
  have "4 * length (restart_points (builder_add_all n es b)) + length (block_buffer (builder_add_all n es b)) \<le>
      4 * length (restart_points b) + length (block_buffer b) + sum_list (map (\<lambda>e. 19 + length (fst e) + length (snd e)) es)" for b
  proof (induction n es b rule: builder_add_all.induct)
    case (2 n k v es b)
    then show ?case using builder_add_size [of n k v b] by simp
  qed simp
  from this [of new_block_builder] show ?thesis by (simp add: new_block_builder_def current_size_estimate_def)
qed

lemma built_block_size:
  "length (built_block n es) \<le> 8 + sum_list (map (\<lambda>e. 19 + length (fst e) + length (snd e)) es)"
proof -
  have "length (fold (\<lambda>r buf. put_fixed32 buf r) rs buf) = length buf + 4 * length rs" for rs buf
    by (induction rs arbitrary: buf) (simp_all add: put_fixed32_def)
  then show ?thesis using builder_add_all_size [of n es]
    by (simp add: built_block_def builder_finish_def Let_def put_fixed32_def current_size_estimate_def)
qed

lemma stored_size: "length (fst (stored_block no_snappy type raw)) = length raw"
  by (simp add: stored_block_def no_snappy_def split: compression_type.split)

lemma framed_size: "length (framed p) = length (fst p) + 5"
  by (simp add: framed_def block_trailer_def Let_def)

lemma add_to_block:
  assumes "mem_file.tb_holds sn opts B None cur tb"
    "current_size_estimate (builder_add_all (opt_restart_interval opts) (cur @ [(k, v)]) new_block_builder) < opt_block_size opts"
  shows "mem_file.tb_holds sn opts B None (cur @ [(k, v)]) (table_add sn mem_writable opts k v tb)"
proof -
  have tb: "tb_status tb = OK" "\<not> tb_pending_index_entry tb"
      "tb_data_block tb = builder_add_all (opt_restart_interval opts) cur new_block_builder"
    using assms(1) by (simp_all add: mem_file.tb_holds_def Let_def)
  then have "table_add sn mem_writable opts k v tb = tb\<lparr>tb_filter := map_option (filter_add_key k) (tb_filter tb),
      tb_last_key := k, tb_num_entries := tb_num_entries tb + 1,
      tb_data_block := builder_add (opt_restart_interval opts) k v (tb_data_block tb)\<rparr>"
    using assms(2) by (simp add: table_add_def Let_def builder_add_all_snoc)
  then show ?thesis using mem_file.add_entry_holds [OF assms(1)] by simp
qed

definition small_options :: table_options where
  "small_options = \<lparr>opt_comparator = bytewise_comparator, opt_block_size = 4096, opt_restart_interval = 16,
     opt_compression = kSnappyCompression, opt_filter = Some (bloom_policy 10), opt_paranoid = True\<rparr>"

definition small_entries :: "(slice \<times> slice) list" where
  "small_entries = [([1], [5]), ([2], [6])]"

lemma small_table_size: "length (file_contents (tb_file (snd (table_of no_snappy small_options small_entries)))) < 2 ^ 32"
proof -
  let ?o = small_options and ?e = small_entries
  define tb where "tb = table_add_all no_snappy mem_writable ?o ?e (new_table_builder ?o empty_file)"
  have o: "opt_block_size ?o = 4096" "opt_filter ?o = Some (bloom_policy 10)" "opt_comparator ?o = bytewise_comparator"
    by (simp_all add: small_options_def)
  have h0: "mem_file.tb_holds no_snappy ?o [] None [] (new_table_builder ?o empty_file)"
    by (rule mem_file.new_table_holds) simp_all
  have "mem_file.tb_holds no_snappy ?o [] None ([] @ [([1], [5])]) (table_add no_snappy mem_writable ?o [1] [5] (new_table_builder ?o empty_file))"
    by (rule add_to_block [OF h0]) (rule le_less_trans [OF builder_add_all_size], simp add: o)
  then have "mem_file.tb_holds no_snappy ?o [] None (([] @ [([1], [5])]) @ [([2], [6])]) tb"
    unfolding tb_def small_entries_def table_add_all.simps
    by (rule add_to_block) (rule le_less_trans [OF builder_add_all_size], simp add: o)
  then have h: "mem_file.tb_holds no_snappy ?o [] None ?e tb" by (simp add: small_entries_def)
  have "mem_file.tb_holds no_snappy ?o [] (Some ?e) [] (table_flush no_snappy mem_writable ?o tb)"
    by (rule mem_file.flush_holds(1) [OF h]) (simp add: small_entries_def)
  from mem_file.finish_holds [OF this] obtain tb' A where tb': "table_of no_snappy ?o ?e = (OK, tb')"
      "file_contents (tb_file tb') = table_bytes no_snappy ?o A (map snd A @ [[]])" "A = all_blocks ?o [] (Some ?e)"
    unfolding table_of_def tb_def by blast
  have A: "A = [([3], ?e)]"
    by (simp add: tb'(3) all_blocks_def o(3) small_entries_def bytewise_comparator_def bytewise_successor_def successor_loop.simps)
  let ?bs = "[?e, []]"
  have raw: "length (fst (stored no_snappy ?o es)) = length (built_block 16 es)" for es
    by (simp add: stored_def stored_size) (simp add: small_options_def)
  have region: "length (region no_snappy ?o [?e]) \<le> 55"
    using built_block_size [of 16 ?e] raw [of ?e] by (simp add: region_def framed_size) (simp add: small_entries_def)
  define n where "n = length (region no_snappy ?o [?e])"
  have "unat (word_of_nat n :: u64) = n" using region by (simp add: unat_of_nat flip: n_def)
  then have n: "unat (word_of_nat n :: u64) div 2048 = 0" using region by (simp add: n_def)
  have blocks: "filter_blocks no_snappy ?o ?bs = [(0, [[1], [2]]), (word_of_nat n, [])]"
    by (simp add: filter_blocks_def n_def region_def) (simp add: small_entries_def)
  have filter: "length (filter_contents no_snappy ?o (bloom_policy 10) ?bs) \<le> 100"
    unfolding filter_contents_def blocks
    by (simp add: filter_add_blocks_def filter_start_block_def new_filter_builder_def
        generate_until.simps layout generate_filter_def Let_def filter_add_key_def filter_finish_def bloom_policy_def
        length_create_filter filter_bytes_def put_fixed32_def n)
  have handle: "length (handle_encode_to h []) \<le> 20" for h using length_handle [of h] by (simp add: layout)
  have meta: "length (fst (stored no_snappy ?o (meta_entries no_snappy ?o pre ?bs))) \<le> 200" for pre
    using built_block_size [of 16 "meta_entries no_snappy ?o pre ?bs"]
      handle [of "handle_for pre (filter_contents no_snappy ?o (bloom_policy 10) ?bs)"]
    by (simp add: raw meta_entries_def o(2)) (simp add: meta_key_def bytes_of_def bloom_policy_def)
  have index: "length (fst (index_stored no_snappy ?o A)) \<le> 100"
    using built_block_size [of 1 "index_entries no_snappy ?o A"] handle [of "handle_at no_snappy ?o [?e] 0"]
    by (simp add: index_stored_def stored_size A index_entries_def)
  have "length (table_bytes no_snappy ?o A ?bs) < 2 ^ 32"
    using region filter meta [of "region no_snappy ?o [?e]"] index by (simp add: table_bytes_def Let_def A filter_part_def o(2) framed_size layout)
  then show ?thesis using tb'(1,2) A by simp
qed

theorem table_lookup_witness:
  "\<exists>tb t. table_of no_snappy small_options small_entries = (OK, tb) \<and>
    table_open no_snappy mem_random small_options (tb_file tb) (file_size (tb_file tb)) = Some (OK, Some t) \<and>
    internal_get no_snappy mem_random t True [2] = Some (OK, Some ([2], [6]))"
proof -
  have filter: "\<forall>pol. opt_filter small_options = Some pol \<longrightarrow> filter_policy pol"
    using bloom.filter_policy_axioms by (simp add: small_options_def)
  have opts: "opt_comparator small_options = bytewise_comparator" "0 < opt_restart_interval small_options"
    by (simp_all add: small_options_def)
  have sorted: "sorted_wrt (\<lambda>a b. compare (opt_comparator small_options) (fst a) (fst b) < 0) small_entries"
    by (simp add: opts small_entries_def bytewise_comparator_def)
  obtain tb t r where tb: "table_of no_snappy small_options small_entries = (OK, tb)"
      "table_open no_snappy mem_random small_options (tb_file tb) (file_size (tb_file tb)) = Some (OK, Some t)"
      "internal_get no_snappy mem_random t True [2] = Some (OK, r)" "lookup_ok small_options small_entries [2] r"
    using table_lookup [OF no_snappy.snappy_library_axioms, of small_options "\<lambda>_. True" small_entries "[2]" True]
      bytewise.comparator_axioms opts filter sorted small_table_size by auto
  have "r = Some ([2], [6])"
    using tb(4) by (cases r) (simp_all add: lookup_ok_def opts small_entries_def bytewise_comparator_def)
  then show ?thesis using tb by blast
qed

theorem table_iterates_witness:
  "\<exists>tb t w. table_of no_snappy small_options small_entries = (OK, tb) \<and>
    table_open no_snappy mem_random small_options (tb_file tb) (file_size (tb_file tb)) = Some (OK, Some t) \<and>
    tl_seek_to_first (block_reader no_snappy mem_random t True) (table_iterator t) = Some w \<and>
    walks (block_reader no_snappy mem_random t True) w small_entries"
proof -
  have opts: "opt_comparator small_options = bytewise_comparator" "0 < opt_restart_interval small_options"
    by (simp_all add: small_options_def)
  have sorted: "sorted_wrt (\<lambda>a b. compare (opt_comparator small_options) (fst a) (fst b) < 0) small_entries"
    by (simp add: opts small_entries_def bytewise_comparator_def)
  show ?thesis
    using table_iterates [OF no_snappy.snappy_library_axioms, of small_options "\<lambda>_. True" small_entries "[2]" True]
      bytewise.comparator_axioms opts sorted small_table_size unfolding Let_def by auto
qed

end
