(* ===== verification/Spec2Isabelle.thy ===== *)
theory Spec2Isabelle
  imports ErasureProperties Bytes Ripemd160 SecpProperties EvmProperties LdbProperties LdbStoreProperties LdbTableProperties
begin

text \<open>
  The native libraries of OCSystem, a public block chain. The node is a C# program
  (\<^verbatim>\<open>src/OnlyChain\<close>); for what must be fast or must be exact it calls C++ libraries through their C
  entry points, and those libraries are what this development models: the erasure codes that
  split a block among the producing nodes (\<^verbatim>\<open>src/erasure_coding\<close>), the hash of addresses
  (\<^verbatim>\<open>src/ripemd160\<close>), the arithmetic of signatures (\<^verbatim>\<open>src/secp256k1_math\<close>), the virtual machine of
  contracts (\<^verbatim>\<open>src/evmone\<close>) and the key-value store below the chain's state
  (\<^verbatim>\<open>src/leveldb-1.22\<close>). The libraries share no state; they meet in the C# program only.

  \<^bold>\<open>Conventions.\<close> Machine integers are words of their width, so \<open>+\<close> and \<open>*\<close> wrap as in C++; sizes and
  indices that the code bounds are natural numbers. Buffers are lists of bytes. An object that
  is changed through a pointer is passed in and returned. A loop over a range is \<open>for_up\<close> or
  \<open>for_down\<close> of \<^verbatim>\<open>Prelude\<close>, any other loop a recursion with a termination proof, fuel, or
  \<open>partial_function (option)\<close>. \<^verbatim>\<open>Prelude\<close> and \<^verbatim>\<open>Bytes\<close> hold these tools, the collection \<open>layout\<close> of
  format constants and the little-endian access to buffers.

  \<^bold>\<open>Erasure coding.\<close> \<^verbatim>\<open>GF256\<close> models the struct \<^verbatim>\<open>GF\<close> of \<^verbatim>\<open>GF.h\<close> with its literal tables and
  shows that the type is a field, an instance of the library's class. \<^verbatim>\<open>ErasureMatrix\<close> has
  \<^verbatim>\<open>check_indexes\<close> and \<^verbatim>\<open>mat_inverse\<close>, \<^verbatim>\<open>ErasureCode\<close> the scalar \<^verbatim>\<open>ec_encode\<close> and \<^verbatim>\<open>ec_decode\<close>,
  \<^verbatim>\<open>ErasureVector\<close> the vector instructions and \<^verbatim>\<open>ErasureSimd\<close> the SSSE3 and AVX2 loops, with the
  temporary lines that the loops do not initialise as parameters. \<^verbatim>\<open>ErasureProperties\<close> states
  the round trips, the values of the check symbols, the return codes, the agreement of the
  vector coders with the scalar ones, and a loss that the decoder accepts and answers wrongly.

  \<^bold>\<open>Hash.\<close> \<^verbatim>\<open>Ripemd160\<close> models \<^verbatim>\<open>compute_hash\<close> as the list of the 160 macro calls of the file and
  compares it with the definition of RIPEMD-160.

  \<^bold>\<open>Signatures.\<close> \<^verbatim>\<open>WideWord\<close> relates wide words to integers. \<^verbatim>\<open>SecpField\<close> and \<^verbatim>\<open>SecpScalar\<close> have the
  arithmetic modulo the field prime and the group order, \<^verbatim>\<open>SecpChain\<close> the addition chains of
  the inverses and the square root, \<^verbatim>\<open>SecpLimb\<close> the squaring on limbs with its carry chains,
  \<^verbatim>\<open>SecpPoint\<close> the point operations. \<^verbatim>\<open>SecpProperties\<close> states exactness of the exported functions,
  where the static ones lose a carry, and the group laws with the ranges they need.

  \<^bold>\<open>Virtual machine.\<close> \<^verbatim>\<open>EvmState\<close> holds the types of \<^verbatim>\<open>evmc.h\<close> and the execution state;
  \<^verbatim>\<open>EvmArith\<close>, \<^verbatim>\<open>EvmInstructions\<close> and \<^verbatim>\<open>EvmCalls\<close> one definition per instruction; \<^verbatim>\<open>EvmTable\<close> the
  operation tables of all revisions; \<^verbatim>\<open>EvmAnalysis\<close> the translation of the code into
  instructions and blocks; \<^verbatim>\<open>EvmExecution\<close> the instruction functions and the loop \<open>execute\<close>;
  \<^verbatim>\<open>EvmStack\<close> the array under the stack and the contract \<open>stack_contract\<close> it satisfies. An access
  past the stack, the memory or the instruction list is \<open>None\<close>. \<^verbatim>\<open>EvmArithSpec\<close> is the meaning of
  the stack instructions as integers; \<^verbatim>\<open>EvmEffects\<close> shows what an instruction may change;
  \<^verbatim>\<open>EvmBlocks\<close> and \<^verbatim>\<open>EvmAnalysisInv\<close> what the tables and the analysis guarantee; \<^verbatim>\<open>EvmTranslation\<close>
  states the translation from the code alone; \<^verbatim>\<open>EvmRun\<close> composes these into the invariant of a
  run; \<^verbatim>\<open>EvmExact\<close> shows that an instruction after which the run goes on respected its table entry,
  whatever the state and the host. \<^verbatim>\<open>EvmProperties\<close> states that every execution of every program finishes without a fault,
  what its result may be, that static calls keep the host, and the functional properties.

  The host is a parameter: a record of functions over a state of its own. Two documented rules
  of the interface are hypotheses where they are needed: \<open>fair_host\<close> (a call gives back between 0
  and the gas it was given, and copying code writes at most the size asked for) and
  \<open>static_host\<close> (a call flagged static leaves the host's state). \<open>silent_host\<close> satisfies both.

  The run has fuel. \<open>(gas + 2) * (2 * length code + 2)\<close> passes are enough: every instruction but
  the beginning of a block moves forward, a block costs gas unless it ends the run, and the
  analysis of a code makes at most \<open>2 * length code + 2\<close> instructions. Code is bounded by \<open>0x20000\<close>
  bytes, far above the \<open>0x6000\<close> of the protocol: below it no sum of a block reaches the limits
  at which \<open>block_close\<close> cuts it off.

  \<^bold>\<open>Key-value store.\<close> \<^verbatim>\<open>LdbCoding\<close> models \<^verbatim>\<open>util/coding.cc\<close>; \<^verbatim>\<open>LdbCrc\<close> the checksum with its five
  tables, and \<^verbatim>\<open>LdbCrcSpec\<close> shows that it is CRC-32C; \<^verbatim>\<open>LdbBloom\<close> the hash and the Bloom filter;
  \<^verbatim>\<open>LdbFile\<close> the contracts \<open>writable\<close> and \<open>sequential\<close> of files and the in-memory file that
  satisfies them; \<^verbatim>\<open>LdbLog\<close> the writer and the reader of logs over any file, and \<^verbatim>\<open>LdbLogSpec\<close>
  what they guarantee under the contracts. The loop of \<^verbatim>\<open>ReadRecord\<close> is a
  \<open>partial_function (option)\<close>, and \<open>log_reader_returns\<close> shows that it always returns.
  \<^verbatim>\<open>LdbKey\<close> has the contract \<open>comparator\<close>, the bytewise comparator and the comparator of internal
  keys, which both satisfy it, and the layout of internal keys; \<^verbatim>\<open>LdbBatch\<close> the write batches,
  which refine the lists of their updates. \<^verbatim>\<open>LdbProperties\<close> states their properties,
  over the in-memory file. \<^verbatim>\<open>LdbSkipList\<close> is the skip list as nodes and pointers; \<^verbatim>\<open>LdbSkipListSpec\<close>
  shows that it refines a sorted list, also between two of the pointers that an insertion sets,
  and that its searches, \<open>partial_function (option)\<close>s, return. \<^verbatim>\<open>LdbMemTable\<close> is the table in
  memory over it. \<^verbatim>\<open>LdbStoreProperties\<close> states the properties of these structures.

  \<^bold>\<open>Files of the store.\<close> \<^verbatim>\<open>LdbBlock\<close> has the builder and the iterator of blocks; \<^verbatim>\<open>LdbBlockSpec\<close> shows
  that the iterator walks along any block with the layout \<open>block_bytes\<close>, in both directions,
  and \<^verbatim>\<open>LdbBlockRound\<close> that the builder lays blocks out in this way. \<^verbatim>\<open>LdbFilterBlock\<close> has the
  contract \<open>filter_policy\<close>, which the Bloom filter and the policy of internal keys satisfy, and the
  filter block, which never denies a key that it was given. \<^verbatim>\<open>LdbFormat\<close> models handles, the
  footer and a block with its trailer in a file; the calls to the compression library Snappy are
  a parameter under the contract \<open>snappy_library\<close>, and a table file is anything under the contract
  \<open>random_access\<close>, which the in-memory file satisfies. \<^verbatim>\<open>LdbTable\<close> has the builder of tables,
  \<^verbatim>\<open>Open\<close> and \<^verbatim>\<open>InternalGet\<close>; \<^verbatim>\<open>LdbTableSpec\<close> shows that the builder writes the layout \<open>table_bytes\<close>
  and keeps the keys of its index between the blocks, \<^verbatim>\<open>LdbTableRead\<close> that such a file opens and
  that the lookup finds the first entry at or behind a key, \<^verbatim>\<open>LdbTwoLevel\<close> that the two-level
  iterator walks over all entries and always returns. \<^verbatim>\<open>LdbEdit\<close> has the edits of the manifest
  with their encoding; \<open>edit_ok\<close> holds of the edits that the setters can make.
  \<^verbatim>\<open>LdbTableProperties\<close> states the properties, over the in-memory file.

  \<^bold>\<open>Not modelled.\<close> The C# program. Of \<^verbatim>\<open>evmone\<close>: the C entry points, the mocked host, and the
  limbs of the wide integers, which are words of 256 bits here. Of \<^verbatim>\<open>leveldb\<close>: \<^verbatim>\<open>ChangeOptions\<close> of
  the table builder, which compares pointers; the cache of blocks, the arena and the reference
  counts, which own memory and do not change what is read; the set of versions, the choice of
  compactions and the merging iterators above the tables; the threads of the database, the
  environment of the operating system, the benchmarks and the C binding, whose behaviour is that
  of the system they call.
\<close>

end
